(* ===== verification/Prelude.thy ===== *)
theory Prelude
  imports Main "HOL-Library.Word" "HOL-Library.Code_Target_Numeral"
begin

text \<open>
  Shared vocabulary of the development: Go error values, the record of one finished
  command, machine-integer abbreviations, and the generic lemmas on lists and sums that
  several components use.
\<close>

named_theorems go_string "simplification rules for the string routines"
named_theorems sys_simps "rules for the primitive operations on a world"

section \<open>Machine integers\<close>

type_synonym u8 = "8 word"
type_synonym u16 = "16 word"
type_synonym u32 = "32 word"
type_synonym u64 = "64 word"

text \<open>Go's \<open>int\<close> has 64 bits on every supported target.\<close>

definition int64_range :: "int \<Rightarrow> bool" where
  "int64_range i \<longleftrightarrow> - (2 ^ 63) \<le> i \<and> i < 2 ^ 63"

section \<open>Command results and errors\<close>

type_synonym argv = "string list"

text \<open>One finished command: \<open>Result\<close> of \<open>internal/tproxy/report.go\<close>.\<close>

record cmd_result =
  res_command :: argv
  res_exit :: int
  res_output :: string
  res_error :: string
  res_sha256 :: string

text \<open>
  Go's \<open>error\<close> values. \<open>Err\<close> is an error built from a message, \<open>Wrap\<close> one that wraps a
  cause (\<open>%w\<close>), \<open>CmdErr\<close> the formatted failure of a command, \<open>Joined\<close> is
  \<open>errors.Join\<close> of two non-nil errors; the remaining constructors are the sentinel values the
  code compares against.
\<close>

datatype gerr =
    Err string
  | Wrap string gerr
  | CmdErr cmd_result
  | Joined gerr gerr
  | NotExist
  | AlreadyExist
  | Eof
  | Eintr
  | Eagain
  | KeyNotExist
  | Esrch
  | Canceled
  | DeadlineExceeded

text \<open>\<open>errors.Join\<close> on optional errors: nil operands are dropped.\<close>

fun join_errors :: "gerr option \<Rightarrow> gerr option \<Rightarrow> gerr option" where
  "join_errors None e = e"
| "join_errors e None = e"
| "join_errors (Some a) (Some b) = Some (Joined a b)"

lemma join_errors_None [simp]: "join_errors a b = None \<longleftrightarrow> a = None \<and> b = None"
  by (cases a; cases b) auto

lemma join_errors_right [simp]: "join_errors a None = a"
  by (cases a) auto

section \<open>Sums as results\<close>

definition is_ok :: "'e + 'a \<Rightarrow> bool" where
  "is_ok r = (case r of Inl _ \<Rightarrow> False | Inr _ \<Rightarrow> True)"

lemma is_ok_simps [simp]: "is_ok (Inl e) = False" "is_ok (Inr x) = True"
  by (simp_all add: is_ok_def)

lemma is_ok_iff: "is_ok r \<longleftrightarrow> (\<exists>x. r = Inr x)"
  by (cases r) auto

section \<open>Lists\<close>

text \<open>\<open>reflect.DeepEqual\<close> and \<open>appendOnce\<close>-style loops are plain list functions.\<close>

definition append_once :: "'a list \<Rightarrow> 'a \<Rightarrow> 'a list" where
  "append_once xs x = (if x \<in> set xs then xs else xs @ [x])"

lemma set_append_once [simp]: "set (append_once xs x) = insert x (set xs)"
  by (auto simp: append_once_def)

lemma distinct_append_once [simp]: "distinct (append_once xs x) = distinct xs"
  by (auto simp: append_once_def)

lemma append_once_prefix: "\<exists>ys. append_once xs x = xs @ ys"
  by (auto simp: append_once_def)

text \<open>The first occurrence of each element, in order: the \<open>seen\<close> maps of the Go loops.\<close>

fun dedup :: "'a set \<Rightarrow> 'a list \<Rightarrow> 'a list" where
  "dedup seen [] = []"
| "dedup seen (x # xs) =
     (if x \<in> seen then dedup seen xs else x # dedup (insert x seen) xs)"

lemma set_dedup: "set (dedup seen xs) = set xs - seen"
  by (induction xs arbitrary: seen) auto

lemma distinct_dedup: "distinct (dedup seen xs)"
  by (induction xs arbitrary: seen) (auto simp: set_dedup)

lemma list_update_append_mid: "(xs @ y # ys)[length xs := z] = xs @ z # ys"
  by (induction xs) auto

lemma Cons_eq_drop:
  assumes "x # xs = drop n ys"
  shows "n < length ys \<and> x = ys ! n \<and> xs = drop (Suc n) ys"
proof -
  have lt: "n < length ys" using assms by (metis drop_eq_Nil leI list.distinct(1))
  then have "drop n ys = ys ! n # drop (Suc n) ys" by (simp add: Cons_nth_drop_Suc)
  with assms lt show ?thesis by simp
qed

lemma foldl_keeps: "(\<And>acc a. P acc \<Longrightarrow> P (g acc a)) \<Longrightarrow> P acc \<Longrightarrow> P (foldl g acc xs)"
  by (induction xs arbitrary: acc) auto

lemma take_Suc_snoc: "i < length xs \<Longrightarrow> take (Suc i) xs = take i xs @ [xs ! i]"
  by (rule take_Suc_conv_app_nth)

end
