(* ===== verification/GoStrings.thy ===== *)
theory GoStrings
  imports Prelude
begin

text \<open>
  The routines of Go's \<open>strings\<close>, \<open>strconv\<close> and \<open>encoding/hex\<close> packages that the
  program uses, on byte strings. White space is the ASCII set, which is all that occurs in the
  command output, \<open>/proc\<close> files and identifiers the program parses.
\<close>

section \<open>Prefixes, substrings and cutting\<close>

definition has_prefix :: "string \<Rightarrow> string \<Rightarrow> bool" where
  "has_prefix s p \<longleftrightarrow> take (length p) s = p"

definition has_suffix :: "string \<Rightarrow> string \<Rightarrow> bool" where
  "has_suffix s p \<longleftrightarrow> has_prefix (rev s) (rev p)"

definition trim_prefix :: "string \<Rightarrow> string \<Rightarrow> string" where
  "trim_prefix s p = (if has_prefix s p then drop (length p) s else s)"

definition trim_suffix :: "string \<Rightarrow> string \<Rightarrow> string" where
  "trim_suffix s p = (if has_suffix s p then take (length s - length p) s else s)"

fun str_contains :: "string \<Rightarrow> string \<Rightarrow> bool" where
  "str_contains [] sub = (sub = [])"
| "str_contains (c # s) sub = (has_prefix (c # s) sub \<or> str_contains s sub)"

definition contains_any :: "string \<Rightarrow> string \<Rightarrow> bool" where
  "contains_any s cs = list_ex (\<lambda>c. c \<in> set cs) s"

fun split_on :: "char \<Rightarrow> string \<Rightarrow> string list" where
  "split_on sep [] = [[]]"
| "split_on sep (c # s) =
     (if c = sep then [] # split_on sep s
      else (case split_on sep s of [] \<Rightarrow> [[c]] | x # xs \<Rightarrow> (c # x) # xs))"

definition is_space :: "char \<Rightarrow> bool" where
  "is_space c \<longleftrightarrow> c \<in> {CHR '' '', CHR 0x09, CHR 0x0A, CHR 0x0B, CHR 0x0C, CHR 0x0D}"

fun fields_acc :: "string \<Rightarrow> string \<Rightarrow> string list" where
  "fields_acc cur [] = (if cur = [] then [] else [cur])"
| "fields_acc cur (c # s) =
     (if is_space c then (if cur = [] then fields_acc [] s else cur # fields_acc [] s)
      else fields_acc (cur @ [c]) s)"

definition str_fields :: "string \<Rightarrow> string list" where
  "str_fields s = fields_acc [] s"

definition trim_space :: "string \<Rightarrow> string" where
  "trim_space s = rev (dropWhile is_space (rev (dropWhile is_space s)))"

fun join :: "string \<Rightarrow> string list \<Rightarrow> string" where
  "join sep [] = []"
| "join sep [x] = x"
| "join sep (x # y # xs) = x @ sep @ join sep (y # xs)"

definition replace_char :: "char \<Rightarrow> string \<Rightarrow> string \<Rightarrow> string" where
  "replace_char c r s = concat (map (\<lambda>d. if d = c then r else [d]) s)"

definition lower_char :: "char \<Rightarrow> char" where
  "lower_char c =
     (let n = (of_char c :: nat) in if 65 \<le> n \<and> n \<le> 90 then char_of (n + 32) else c)"

definition upper_char :: "char \<Rightarrow> char" where
  "upper_char c =
     (let n = (of_char c :: nat) in if 97 \<le> n \<and> n \<le> 122 then char_of (n - 32) else c)"

definition to_lower :: "string \<Rightarrow> string" where
  "to_lower s = map lower_char s"

definition to_upper :: "string \<Rightarrow> string" where
  "to_upper s = map upper_char s"

text \<open>\<open>strings.LastIndex\<close> of one character, as the text before and after it.\<close>

definition last_index :: "char \<Rightarrow> string \<Rightarrow> nat option" where
  "last_index c s =
     (let r = dropWhile (\<lambda>d. d \<noteq> c) (rev s)
      in if r = [] then None else Some (length r - 1))"

section \<open>Numbers\<close>

definition digit_char :: "nat \<Rightarrow> char" where
  "digit_char n = (if n < 10 then char_of (48 + n) else char_of (87 + n))"

definition digit_value :: "char \<Rightarrow> nat option" where
  "digit_value c =
     (let n = (of_char c :: nat)
      in if 48 \<le> n \<and> n \<le> 57 then Some (n - 48)
         else if 97 \<le> n \<and> n \<le> 122 then Some (n - 87)
         else if 65 \<le> n \<and> n \<le> 90 then Some (n - 55)
         else None)"

fun utoa :: "nat \<Rightarrow> string" where
  "utoa n = (if n < 10 then [digit_char n] else utoa (n div 10) @ [digit_char (n mod 10)])"

declare utoa.simps [simp del]

definition itoa :: "int \<Rightarrow> string" where
  "itoa i = (if i < 0 then CHR ''-'' # utoa (nat (- i)) else utoa (nat i))"

text \<open>The low \<open>w\<close> hexadecimal digits of a number, most significant first: \<open>%0wx\<close>.\<close>

fun hex_digits :: "nat \<Rightarrow> nat \<Rightarrow> string" where
  "hex_digits 0 n = []"
| "hex_digits (Suc w) n = hex_digits w (n div 16) @ [digit_char (n mod 16)]"

text \<open>The digits of a number in a base; \<open>None\<close> is \<open>strconv\<close>'s syntax error.\<close>

fun digits_value :: "nat \<Rightarrow> nat \<Rightarrow> string \<Rightarrow> nat option" where
  "digits_value base acc [] = Some acc"
| "digits_value base acc (c # s) =
     (case digit_value c of
        None \<Rightarrow> None
      | Some d \<Rightarrow> if d < base then digits_value base (acc * base + d) s else None)"

definition parse_uint :: "nat \<Rightarrow> nat \<Rightarrow> string \<Rightarrow> nat option" where
  "parse_uint base bits s =
     (if s = [] then None
      else case digits_value base 0 s of
             None \<Rightarrow> None
           | Some n \<Rightarrow> if n < 2 ^ bits then Some n else None)"

text \<open>
  Base 0: the prefix selects the base, and \<open>_\<close> is allowed as a separator between digits
  (\<open>underscoreOK\<close>).
\<close>

datatype saw = SawStart | SawDigit | SawUnder | SawOther

fun underscore_ok :: "bool \<Rightarrow> saw \<Rightarrow> string \<Rightarrow> bool" where
  "underscore_ok hex saw [] = (saw \<noteq> SawUnder)"
| "underscore_ok hex saw (c # s) =
     (case digit_value c of
        Some d \<Rightarrow>
          if d < 10 \<or> hex \<and> d < 16 then underscore_ok hex SawDigit s
          else saw \<noteq> SawUnder \<and> underscore_ok hex SawOther s
      | None \<Rightarrow>
          if c = CHR ''_'' then saw = SawDigit \<and> underscore_ok hex SawUnder s
          else saw \<noteq> SawUnder \<and> underscore_ok hex SawOther s)"

definition digits_value0 :: "nat \<Rightarrow> nat \<Rightarrow> bool \<Rightarrow> saw \<Rightarrow> string \<Rightarrow> nat option" where
  "digits_value0 base bits hex saw s =
     (case digits_value base 0 (filter (\<lambda>c. c \<noteq> CHR ''_'') s) of
        None \<Rightarrow> None
      | Some n \<Rightarrow>
          if n < 2 ^ bits \<and> (CHR ''_'' \<in> set s \<longrightarrow> underscore_ok hex saw s) then Some n else None)"

definition parse_uint0 :: "nat \<Rightarrow> string \<Rightarrow> nat option" where
  "parse_uint0 bits s =
     (case s of
        [] \<Rightarrow> None
      | c # rest \<Rightarrow>
          if c \<noteq> CHR ''0'' then digits_value0 10 bits False SawStart s
          else (case rest of
                  [] \<Rightarrow> Some 0
                | p # ds \<Rightarrow>
                    if ds \<noteq> [] \<and> lower_char p = CHR ''b'' then digits_value0 2 bits False SawDigit ds
                    else if ds \<noteq> [] \<and> lower_char p = CHR ''o'' then digits_value0 8 bits False SawDigit ds
                    else if ds \<noteq> [] \<and> lower_char p = CHR ''x'' then digits_value0 16 bits True SawDigit ds
                    else digits_value0 8 bits False SawDigit rest))"

definition atoi :: "string \<Rightarrow> int option" where
  "atoi s =
     (case s of
        [] \<Rightarrow> None
      | c # rest \<Rightarrow>
          let neg = (c = CHR ''-''); ds = (if c = CHR ''-'' \<or> c = CHR ''+'' then rest else s)
          in if ds = [] then None
             else case digits_value 10 0 ds of
                    None \<Rightarrow> None
                  | Some n \<Rightarrow>
                      let v = (if neg then - int n else int n)
                      in if int64_range v then Some v else None)"

section \<open>Hexadecimal coding of byte strings\<close>

definition is_hex :: "char \<Rightarrow> bool" where
  "is_hex c \<longleftrightarrow> (case digit_value c of None \<Rightarrow> False | Some d \<Rightarrow> d < 16)"

fun hex_decode :: "string \<Rightarrow> u8 list option" where
  "hex_decode [] = Some []"
| "hex_decode [c] = None"
| "hex_decode (a # b # s) =
     (case (digit_value a, digit_value b) of
        (Some x, Some y) \<Rightarrow>
          if x < 16 \<and> y < 16
          then map_option (\<lambda>bs. word_of_nat (16 * x + y) # bs) (hex_decode s)
          else None
      | _ \<Rightarrow> None)"

definition hex_encode :: "u8 list \<Rightarrow> string" where
  "hex_encode bs = concat (map (\<lambda>b. hex_digits 2 (unat b)) bs)"

section \<open>Lemmas\<close>

lemma has_prefix_append [simp, go_string]: "has_prefix (p @ s) p"
  by (simp add: has_prefix_def)

lemma has_prefix_iff: "has_prefix s p \<longleftrightarrow> (\<exists>t. s = p @ t)"
proof
  assume "has_prefix s p"
  then have "s = p @ drop (length p) s"
    by (metis append_take_drop_id has_prefix_def)
  then show "\<exists>t. s = p @ t" ..
qed auto

lemma has_prefix_Nil [simp]: "has_prefix s []"
  by (simp add: has_prefix_def)

lemma has_prefix_Nil_left [simp]: "has_prefix [] p \<longleftrightarrow> p = []"
  by (auto simp: has_prefix_def)

lemma has_prefix_Cons [simp]: "has_prefix (c # s) (d # p) \<longleftrightarrow> c = d \<and> has_prefix s p"
  by (auto simp: has_prefix_def)

lemma trim_prefix_append [simp, go_string]: "trim_prefix (p @ s) p = s"
  by (simp add: trim_prefix_def)

lemma has_suffix_append [simp, go_string]: "has_suffix (s @ p) p"
  by (simp add: has_suffix_def)

lemma trim_suffix_append [simp, go_string]: "trim_suffix (s @ p) p = s"
  by (simp add: trim_suffix_def)

lemma str_contains_iff: "str_contains s sub \<longleftrightarrow> (\<exists>a b. s = a @ sub @ b)"
proof (induction s)
  case Nil
  then show ?case by simp
next
  case (Cons c s)
  show ?case
  proof
    assume "str_contains (c # s) sub"
    then consider "has_prefix (c # s) sub" | "str_contains s sub" by auto
    then show "\<exists>a b. c # s = a @ sub @ b"
    proof cases
      case 1
      then obtain t where "c # s = [] @ sub @ t" by (auto simp: has_prefix_iff)
      then show ?thesis by blast
    next
      case 2
      then obtain a b where "s = a @ sub @ b" using Cons.IH by blast
      then have "c # s = (c # a) @ sub @ b" by simp
      then show ?thesis by blast
    qed
  next
    assume "\<exists>a b. c # s = a @ sub @ b"
    then obtain a b where ab: "c # s = a @ sub @ b" by blast
    show "str_contains (c # s) sub"
    proof (cases a)
      case Nil
      with ab have "has_prefix (c # s) sub" by (auto simp: has_prefix_iff)
      then show ?thesis by simp
    next
      case (Cons d a')
      with ab have "s = a' @ sub @ b" by simp
      then show ?thesis using Cons.IH by auto
    qed
  qed
qed

lemma split_on_not_Nil [simp]: "split_on sep s \<noteq> []"
  by (induction s) (auto split: list.splits)

lemma split_on_no_sep: "sep \<notin> set s \<Longrightarrow> split_on sep s = [s]"
  by (induction s) auto

lemma split_on_append:
  "sep \<notin> set s \<Longrightarrow> split_on sep (s @ sep # t) = s # split_on sep t"
  by (induction s) (auto split: list.splits)

lemma split_on_join:
  assumes "xs \<noteq> []" and "\<forall>x \<in> set xs. sep \<notin> set x"
  shows "split_on sep (join [sep] xs) = xs"
  using assms
  by (induction "[sep]" xs rule: join.induct) (auto simp: split_on_no_sep split_on_append)

lemma join_split_on: "join [sep] (split_on sep s) = s"
proof (induction s)
  case Nil
  then show ?case by simp
next
  case (Cons c s)
  obtain x xs where sp: "split_on sep s = x # xs" by (cases "split_on sep s") auto
  then have j: "join [sep] (x # xs) = s" using Cons by simp
  show ?case
  proof (cases "c = sep")
    case True
    with sp j show ?thesis by simp
  next
    case False
    with sp j show ?thesis by (cases xs) auto
  qed
qed

lemma split_on_sep_free: "x \<in> set (split_on sep s) \<Longrightarrow> sep \<notin> set x"
  by (induction s arbitrary: x) (auto split: list.splits if_splits)

lemma fields_acc_word:
  "\<forall>c \<in> set w. \<not> is_space c \<Longrightarrow> fields_acc cur (w @ s) = fields_acc (cur @ w) s"
  by (induction w arbitrary: cur) auto

lemma fields_no_space: "f \<in> set (fields_acc cur s) \<Longrightarrow> \<forall>c \<in> set cur. \<not> is_space c \<Longrightarrow>
    f \<noteq> [] \<and> (\<forall>c \<in> set f. \<not> is_space c)"
proof (induction cur s rule: fields_acc.induct)
  case (1 cur)
  then show ?case by (cases "cur = []") auto
next
  case (2 cur c s)
  consider "is_space c" "cur = []" | "is_space c" "f = cur" "cur \<noteq> []"
    | "is_space c" "cur \<noteq> []" "f \<in> set (fields_acc [] s)" | "\<not> is_space c"
    using 2(4) by (cases "is_space c"; cases "cur = []") auto
  then show ?case
  proof cases
    case 1
    then show ?thesis using 2(1) 2(4) by simp
  next
    case 2
    then show ?thesis using \<open>\<forall>c \<in> set cur. \<not> is_space c\<close> by simp
  next
    case 3
    then show ?thesis using 2(2) by simp
  next
    case 4
    then show ?thesis using 2(3) 2(4) 2(5) by simp
  qed
qed

lemma fields_words: "f \<in> set (str_fields s) \<Longrightarrow> f \<noteq> [] \<and> (\<forall>c \<in> set f. \<not> is_space c)"
  unfolding str_fields_def by (rule fields_no_space) auto

text \<open>Joining non-empty words with single blanks and cutting at white space is the identity.\<close>

lemma fields_join:
  assumes "\<forall>w \<in> set ws. w \<noteq> [] \<and> (\<forall>c \<in> set w. \<not> is_space c)"
  shows "str_fields (join '' '' ws) = ws"
  unfolding str_fields_def using assms
proof (induction "'' ''" ws rule: join.induct)
  case 1
  then show ?case by simp
next
  case (2 x)
  then show ?case using fields_acc_word [of x "[]" "[]"] by simp
next
  case (3 x y xs)
  have sp: "is_space (CHR '' '')" by (simp add: is_space_def)
  from 3 have "fields_acc [] (join '' '' (y # xs)) = y # xs" by simp
  then show ?case
    using 3(2) fields_acc_word [of x "[]" "'' '' @ join '' '' (y # xs)"] sp by simp
qed

lemma digit_value_char [simp]: "n < 16 \<Longrightarrow> digit_value (digit_char n) = Some n"
  by (auto simp: digit_value_def digit_char_def Let_def)

lemma digits_value_append:
  "digits_value base acc (s @ t) =
     (case digits_value base acc s of None \<Rightarrow> None | Some n \<Rightarrow> digits_value base n t)"
  by (induction s arbitrary: acc) (auto split: option.splits)

lemma digits_value_utoa: "digits_value 10 0 (utoa n) = Some n"
proof (induction n rule: utoa.induct)
  case (1 n)
  show ?case
  proof (cases "n < 10")
    case True
    then show ?thesis by (simp add: utoa.simps [of n])
  next
    case False
    with 1 have "digits_value 10 0 (utoa (n div 10)) = Some (n div 10)" by simp
    with False show ?thesis
      by (simp add: utoa.simps [of n] digits_value_append)
  qed
qed

lemma utoa_not_Nil [simp]: "utoa n \<noteq> []"
  by (simp add: utoa.simps [of n])

lemma parse_uint_utoa: "n < 2 ^ bits \<Longrightarrow> parse_uint 10 bits (utoa n) = Some n"
  by (simp add: parse_uint_def digits_value_utoa)

lemma utoa_inject [simp]: "utoa m = utoa n \<longleftrightarrow> m = n"
  by (metis digits_value_utoa option.inject)

lemma utoa_digits: "c \<in> set (utoa n) \<Longrightarrow> \<exists>d<10. c = digit_char d"
proof (induction n rule: utoa.induct)
  case (1 n)
  have "\<exists>d<10. digit_char (n mod 10) = digit_char d" by (rule exI [of _ "n mod 10"]) simp
  with 1 show ?case
    by (cases "n < 10") (auto simp: utoa.simps [of n])
qed

lemma of_char_digit_char: "d < 16 \<Longrightarrow> (of_char (digit_char d) :: nat) = (if d < 10 then 48 + d else 87 + d)"
  by (simp add: digit_char_def)

lemma is_space_code: "is_space c \<longleftrightarrow> (of_char c :: nat) \<in> {32, 9, 10, 11, 12, 13}"
proof -
  have "is_space c \<longleftrightarrow> (of_char c :: nat) \<in> of_char ` {CHR '' '', CHR 0x09, CHR 0x0A, CHR 0x0B, CHR 0x0C, CHR 0x0D}"
    unfolding is_space_def by (rule inj_image_mem_iff [symmetric]) (simp add: inj_def)
  then show ?thesis by simp
qed

lemma digit_char_not_space [simp]: "d < 10 \<Longrightarrow> \<not> is_space (digit_char d)"
  by (auto simp: is_space_code of_char_digit_char)

lemma utoa_no_space: "c \<in> set (utoa n) \<Longrightarrow> \<not> is_space c"
  using utoa_digits by fastforce

lemma length_hex_digits [simp]: "length (hex_digits w n) = w"
  by (induction w arbitrary: n) auto

lemma digits_value_hex: "n < 16 ^ w \<Longrightarrow> digits_value 16 0 (hex_digits w n) = Some n"
proof (induction w arbitrary: n)
  case 0
  then show ?case by simp
next
  case (Suc w)
  then have "n div 16 < 16 ^ w" by (simp add: less_mult_imp_div_less)
  then have "digits_value 16 0 (hex_digits w (n div 16)) = Some (n div 16)" by (rule Suc.IH)
  then show ?case by (simp add: digits_value_append)
qed

lemma length_hex_encode [simp]: "length (hex_encode bs) = 2 * length bs"
  by (induction bs) (auto simp: hex_encode_def)

lemma hex_decode_encode: "hex_decode (hex_encode bs) = Some bs"
proof (induction bs)
  case Nil
  then show ?case by (simp add: hex_encode_def)
next
  case (Cons b bs)
  have "unat b < 2 ^ LENGTH(8)" by (rule unsigned_less)
  then have lt: "unat b < 256" by simp
  then have "unat b div 16 < 16" by (simp add: less_mult_imp_div_less)
  moreover have "16 * (unat b div 16) + unat b mod 16 = unat b" by simp
  ultimately show ?case using Cons
    by (simp add: hex_encode_def numeral_2_eq_2)
qed

lemma hex_decode_length: "hex_decode s = Some bs \<Longrightarrow> length s = 2 * length bs"
  by (induction s arbitrary: bs rule: hex_decode.induct)
     (auto split: option.splits if_splits)

end
