(* ===== verification/Plan.thy ===== *)
theory Plan
  imports GoStrings
begin

text \<open>
  The IPv4 destination planner, \<open>ebpf-proxy/internal/tproxy/plan.go\<close>: the plan record, its
  validation and the eight add/remove commands it generates.
\<close>

unbundle bit_operations_syntax

section \<open>Addresses\<close>

text \<open>\<open>netip.Addr\<close>: the zero value, an IPv4 address by octets, an IPv6 address with its zone.\<close>

datatype ip_addr = IpZero | Ip4 u8 u8 u8 u8 | Ip6 "u16 list" string

record addr_port =
  ap_addr :: ip_addr
  ap_port :: u16

fun is4 :: "ip_addr \<Rightarrow> bool" where
  "is4 (Ip4 a b c d) = True"
| "is4 _ = False"

fun is_loopback4 :: "ip_addr \<Rightarrow> bool" where
  "is_loopback4 (Ip4 a b c d) = (a = 127)"
| "is_loopback4 _ = False"

fun is_multicast4 :: "ip_addr \<Rightarrow> bool" where
  "is_multicast4 (Ip4 a b c d) = (a AND 0xF0 = 0xE0)"
| "is_multicast4 _ = False"

fun is_unspecified4 :: "ip_addr \<Rightarrow> bool" where
  "is_unspecified4 (Ip4 a b c d) = (a = 0 \<and> b = 0 \<and> c = 0 \<and> d = 0)"
| "is_unspecified4 _ = False"

fun is_link_local4 :: "ip_addr \<Rightarrow> bool" where
  "is_link_local4 (Ip4 a b c d) = (a = 169 \<and> b = 254)"
| "is_link_local4 _ = False"

text \<open>\<open>Addr.String\<close>; only IPv4 addresses are printed by the planner.\<close>

fun addr_string :: "ip_addr \<Rightarrow> string" where
  "addr_string (Ip4 a b c d) =
     join ''.'' [utoa (unat a), utoa (unat b), utoa (unat c), utoa (unat d)]"
| "addr_string _ = ''invalid IP''"

section \<open>The plan\<close>

record plan =
  pl_destination :: addr_port
  pl_listener_port :: u16
  pl_mark :: u32
  pl_mask :: u32
  pl_table :: u32
  pl_priority :: u32
  pl_prefix :: string

record step =
  step_add :: argv
  step_remove :: argv

definition upper_digit_underscore :: "char \<Rightarrow> bool" where
  "upper_digit_underscore c \<longleftrightarrow>
     (let n = (of_char c :: nat) in 65 \<le> n \<and> n \<le> 90 \<or> 48 \<le> n \<and> n \<le> 57 \<or> n = 95)"

text \<open>The regular expression \<open>^ATP_[A-Z0-9_]{1,16}$\<close>.\<close>

definition plan_prefix_ok :: "string \<Rightarrow> bool" where
  "plan_prefix_ok s \<longleftrightarrow>
     has_prefix s ''ATP_'' \<and>
     1 \<le> length (drop 4 s) \<and> length (drop 4 s) \<le> 16 \<and>
     list_all upper_digit_underscore (drop 4 s)"

definition hex32 :: "u32 \<Rightarrow> string" where
  "hex32 w = ''0x'' @ hex_digits 8 (unat w)"

definition mark_string :: "plan \<Rightarrow> string" where
  "mark_string c = hex32 (pl_mark c) @ ''/'' @ hex32 (pl_mask c)"

definition ipt :: "argv \<Rightarrow> argv" where
  "ipt args = [''iptables'', ''-w'', ''2'', ''-t'', ''mangle''] @ args"

definition chain_rule :: "string \<Rightarrow> argv \<Rightarrow> step" where
  "chain_rule chain args =
     \<lparr>step_add = ipt ([''-A'', chain] @ args), step_remove = ipt ([''-D'', chain] @ args)\<rparr>"

definition valid_destination :: "addr_port \<Rightarrow> bool" where
  "valid_destination d \<longleftrightarrow>
     \<not> (ap_addr d = IpZero \<or> \<not> is4 (ap_addr d) \<or> ap_port d = 0 \<or> is_loopback4 (ap_addr d) \<or>
        is_multicast4 (ap_addr d) \<or> is_unspecified4 (ap_addr d) \<or> is_link_local4 (ap_addr d) \<or>
        ap_addr d = Ip4 255 255 255 255)"

definition valid_parameters :: "plan \<Rightarrow> bool" where
  "valid_parameters c \<longleftrightarrow>
     \<not> (pl_listener_port c = 0 \<or> pl_mask c = 0 \<or> pl_mask c AND (pl_mask c - 1) \<noteq> 0 \<or>
        pl_mark c \<noteq> pl_mask c \<or> pl_table c < 256 \<or> pl_priority c = 0 \<or>
        pl_priority c \<ge> 32766 \<or> \<not> plan_prefix_ok (pl_prefix c))"

definition chain_pre :: "plan \<Rightarrow> string" where
  "chain_pre c = pl_prefix c @ ''_PRE''"

definition chain_out :: "plan \<Rightarrow> string" where
  "chain_out c = pl_prefix c @ ''_OUT''"

definition planned_steps :: "plan \<Rightarrow> step list" where
  "planned_steps c =
     (let ip = addr_string (ap_addr (pl_destination c));
          port = utoa (unat (ap_port (pl_destination c)));
          table = utoa (unat (pl_table c));
          priority = utoa (unat (pl_priority c));
          mark = mark_string c;
          pre = chain_pre c;
          out = chain_out c
      in [\<lparr>step_add = [''ip'', ''route'', ''add'', ''local'', ip @ ''/32'', ''dev'', ''lo'', ''table'', table],
           step_remove = [''ip'', ''route'', ''del'', ''local'', ip @ ''/32'', ''dev'', ''lo'', ''table'', table]\<rparr>,
          \<lparr>step_add = [''ip'', ''rule'', ''add'', ''priority'', priority, ''fwmark'', mark, ''lookup'', table],
           step_remove = [''ip'', ''rule'', ''del'', ''priority'', priority, ''fwmark'', mark, ''lookup'', table]\<rparr>,
          \<lparr>step_add = ipt [''-N'', pre], step_remove = ipt [''-X'', pre]\<rparr>,
          chain_rule pre [''-p'', ''tcp'', ''-d'', ip, ''--dport'', port, ''-m'', ''mark'', ''--mark'', mark,
            ''-j'', ''TPROXY'', ''--on-port'', utoa (unat (pl_listener_port c)), ''--tproxy-mark'', mark],
          \<lparr>step_add = ipt [''-I'', ''PREROUTING'', ''1'', ''-p'', ''tcp'', ''-j'', pre],
           step_remove = ipt [''-D'', ''PREROUTING'', ''-p'', ''tcp'', ''-j'', pre]\<rparr>,
          \<lparr>step_add = ipt [''-N'', out], step_remove = ipt [''-X'', out]\<rparr>,
          chain_rule out [''-p'', ''tcp'', ''-d'', ip, ''--dport'', port, ''-j'', ''MARK'', ''--set-xmark'', mark],
          \<lparr>step_add = ipt [''-I'', ''OUTPUT'', ''1'', ''-p'', ''tcp'', ''-j'', out],
           step_remove = ipt [''-D'', ''OUTPUT'', ''-p'', ''tcp'', ''-j'', out]\<rparr>])"

definition plan_steps :: "plan \<Rightarrow> gerr + step list" where
  "plan_steps c =
     (if \<not> valid_destination (pl_destination c) then Inl (Err ''invalid IPv4 TCP destination'')
      else if \<not> valid_parameters c then
        Inl (Err ''invalid listener, single-bit mark, dedicated table, priority or prefix'')
      else Inr (planned_steps c))"

section \<open>Lemmas\<close>

lemma plan_steps_Inr: "plan_steps c = Inr ss \<longleftrightarrow>
    valid_destination (pl_destination c) \<and> valid_parameters c \<and> ss = planned_steps c"
  by (auto simp: plan_steps_def)

lemma length_planned_steps [simp]: "length (planned_steps c) = 8"
  by (simp add: planned_steps_def Let_def)

lemma plan_steps_length: "plan_steps c = Inr ss \<Longrightarrow> length ss = 8"
  by (simp add: plan_steps_Inr)

text \<open>The command that undoes an addition, read off the argument vector.\<close>

fun undo_args :: "argv \<Rightarrow> argv" where
  "undo_args [] = []"
| "undo_args (a # args) =
     (if a = ''add'' then ''del'' # args
      else if a = ''-N'' then ''-X'' # args
      else if a = ''-A'' then ''-D'' # args
      else if a = ''-I'' then
        (case args of chain # pos # rest \<Rightarrow> ''-D'' # chain # rest | _ \<Rightarrow> a # args)
      else a # undo_args args)"

lemma planned_removals_undo:
  "s \<in> set (planned_steps c) \<Longrightarrow> step_remove s = undo_args (step_add s)"
  by (auto simp: planned_steps_def Let_def ipt_def chain_rule_def)

lemma bit_and_Suc: "bit ((a :: nat) AND b) (Suc j) \<longleftrightarrow> bit (a div 2) j \<and> bit (b div 2) j"
  unfolding bit_and_iff by (simp only: bit_Suc)

lemma and_pred_zero_power_of_two:
  fixes n :: nat
  assumes "0 < n" and "n AND (n - 1) = 0"
  shows "\<exists>k. n = 2 ^ k"
  using assms
proof (induction n rule: less_induct)
  case (less n)
  show ?case
  proof (cases "even n")
    case True
    then obtain m where m: "n = 2 * m" by blast
    with less.prems have "0 < m" by simp
    have "n AND (n - 1) = 2 * (m AND (m - 1))"
    proof (rule bit_eqI)
      fix i
      have halves: "(n - 1) div 2 = m - 1" "n div 2 = m" "odd (n - 1)" using m \<open>0 < m\<close> by auto
      show "bit (n AND (n - 1)) i = bit (2 * (m AND (m - 1))) i"
      proof (cases i)
        case 0
        then show ?thesis using True by (simp add: bit_0 even_and_iff)
      next
        case (Suc j)
        show ?thesis
          unfolding Suc bit_and_Suc halves by (simp add: bit_Suc bit_and_iff)
      qed
    qed
    with less.prems have "m AND (m - 1) = 0" by simp
    with less.IH [of m] \<open>0 < m\<close> m obtain k where "m = 2 ^ k" by auto
    with m have "n = 2 ^ Suc k" by simp
    then show ?thesis ..
  next
    case False
    then obtain m where m: "n = 2 * m + 1" using oddE by blast
    have "n AND (n - 1) = 2 * m"
    proof (rule bit_eqI)
      fix i
      have halves: "(n - 1) div 2 = m" "n div 2 = m" "even (n - 1)" using m by auto
      show "bit (n AND (n - 1)) i = bit (2 * m) i"
      proof (cases i)
        case 0
        then show ?thesis using halves by (simp add: bit_0 even_and_iff)
      next
        case (Suc j)
        show ?thesis unfolding Suc bit_and_Suc halves by (simp add: bit_Suc)
      qed
    qed
    with less.prems m have "n = 2 ^ 0" by simp
    then show ?thesis ..
  qed
qed

lemma unat_minus_one_pos: "(w :: u32) \<noteq> 0 \<Longrightarrow> unat (w - 1) = unat w - 1"
  by (rule unat_minus_one)

lemma unat_and: "unat ((a :: u32) AND b) = unat a AND unat b"
  by (rule unsigned_and_eq)

text \<open>The mask test of the planner accepts exactly the words with a single bit set.\<close>

lemma single_bit_mask:
  fixes w :: u32
  assumes "w \<noteq> 0" and "w AND (w - 1) = 0"
  shows "\<exists>k < 32. w = push_bit k 1"
proof -
  have "unat w AND (unat w - 1) = 0"
    using assms unat_and [of w "w - 1"] by (simp add: unat_minus_one_pos)
  moreover have "0 < unat w" using assms by (simp add: unat_gt_0)
  ultimately obtain k where k: "unat w = 2 ^ k" using and_pred_zero_power_of_two by blast
  have "unat w < 2 ^ LENGTH(32)" by (rule unsigned_less)
  with k have "(2::nat) ^ k < 2 ^ 32" by simp
  then have "k < 32" by (rule power_less_imp_less_exp [rotated]) simp
  moreover have "w = push_bit k 1"
  proof -
    have "w = of_nat (2 ^ k)" using k by (metis of_nat_unat ucast_id)
    then show ?thesis by (simp add: push_bit_eq_mult)
  qed
  ultimately show ?thesis by blast
qed

lemma valid_parameters_mask:
  "valid_parameters c \<Longrightarrow> \<exists>k < 32. pl_mask c = push_bit k 1 \<and> pl_mark c = push_bit k 1"
  using single_bit_mask [of "pl_mask c"] by (auto simp: valid_parameters_def)

lemma pre_out_distinct [simp]: "chain_pre c \<noteq> chain_out c" "chain_out c \<noteq> chain_pre c"
  by (simp_all add: chain_pre_def chain_out_def)

lemma planned_commands_distinct:
  "distinct (map step_add (planned_steps c) @ map step_remove (planned_steps c))"
  by (simp add: planned_steps_def Let_def ipt_def chain_rule_def)

end
