(* ===== verification/Report.thy ===== *)
theory Report
  imports Plan
begin

text \<open>
  Command results and fwmark references, \<open>ebpf-proxy/internal/tproxy/report.go\<close>, with
  \<open>commandError\<close> of \<open>transaction.go\<close>. The regular expression of \<open>MarkUses\<close> is written
  out as a leftmost, greedy scanner.
\<close>

section \<open>Command errors\<close>

definition command_error :: "cmd_result \<Rightarrow> gerr option" where
  "command_error r = (if res_exit r = 0 \<and> res_error r = [] then None else Some (CmdErr r))"

lemma command_error_None: "command_error r = None \<longleftrightarrow> res_exit r = 0 \<and> res_error r = []"
  by (simp add: command_error_def)

section \<open>References to packet marks\<close>

record mark_use =
  mu_source :: string
  mu_kind :: string
  mu_value :: u32
  mu_mask :: u32
  mu_rule :: string

definition mark_keywords :: "string list" where
  "mark_keywords =
     [''fwmark'', ''--set-xmark'', ''--set-mark'', ''--tproxy-mark'', ''--mark'', ''--nfmask'',
      ''--ctmask'', ''--and-mark'', ''--or-mark'', ''--xor-mark'']"

text \<open>The class \<open>\s\<close> of Go's regular expressions.\<close>

definition re_space :: "char \<Rightarrow> bool" where
  "re_space c \<longleftrightarrow> c \<in> {CHR 0x09, CHR 0x0A, CHR 0x0C, CHR 0x0D, CHR '' ''}"

definition is_digit :: "char \<Rightarrow> bool" where
  "is_digit c \<longleftrightarrow> (let n = (of_char c :: nat) in 48 \<le> n \<and> n \<le> 57)"

text \<open>\<open>0x[0-9a-fA-F]+|[0-9]+\<close>: the matched text and the rest.\<close>

definition match_number :: "string \<Rightarrow> (string \<times> string) option" where
  "match_number s =
     (let h = takeWhile is_hex (drop 2 s); d = takeWhile is_digit s
      in if has_prefix s ''0x'' \<and> h \<noteq> [] then Some (''0x'' @ h, drop (2 + length h) s)
         else if d \<noteq> [] then Some (d, drop (length d) s)
         else None)"

text \<open>One match at the start of the text: keyword, value, mask text (empty if absent), rest.\<close>

definition match_mark :: "string \<Rightarrow> ((string \<times> string \<times> string) \<times> string) option" where
  "match_mark s =
     (case find (\<lambda>k. has_prefix s k) mark_keywords of
        None \<Rightarrow> None
      | Some k \<Rightarrow>
          let after = drop (length k) s; ws = takeWhile re_space after
          in if ws = [] then None
             else case match_number (drop (length ws) after) of
                    None \<Rightarrow> None
                  | Some (v, rest) \<Rightarrow>
                      (case rest of
                         c # rest' \<Rightarrow>
                           if c = CHR ''/'' then
                             (case match_number rest' of
                                Some (m, rest'') \<Rightarrow> Some ((k, v, m), rest'')
                              | None \<Rightarrow> Some ((k, v, []), rest))
                           else Some ((k, v, []), rest)
                       | [] \<Rightarrow> Some ((k, v, []), rest)))"

lemma match_number_shorter: "match_number s = Some (v, r) \<Longrightarrow> length r < length s"
  by (auto simp: match_number_def Let_def has_prefix_iff split: if_splits)
     (metis length_greater_0_conv takeWhile.simps(1) diff_less)+

lemma match_mark_shorter: "match_mark s = Some (m, r) \<Longrightarrow> length r < length s"
  by (auto simp: match_mark_def Let_def split: option.splits list.splits if_splits
      dest!: match_number_shorter)

function find_marks :: "string \<Rightarrow> (string \<times> string \<times> string) list" where
  "find_marks s =
     (case s of
        [] \<Rightarrow> []
      | c # t \<Rightarrow>
          (case match_mark s of
             Some (m, rest) \<Rightarrow> m # find_marks rest
           | None \<Rightarrow> find_marks t))"
  by pat_completeness auto
termination
  by (relation "measure length") (auto dest: match_mark_shorter)

declare find_marks.simps [simp del]

definition mark_line_kind :: "string \<Rightarrow> string" where
  "mark_line_kind line =
     (if str_contains line ''CONNMARK'' \<or> str_contains line ''-m connmark''
      then ''connection'' else ''packet'')"

text \<open>The body of the inner loop; \<open>None\<close> is its \<open>continue\<close>.\<close>

definition mark_use_of :: "string \<Rightarrow> string \<Rightarrow> string \<times> string \<times> string \<Rightarrow> mark_use option" where
  "mark_use_of source line m =
     (case m of (key, value, masktext) \<Rightarrow>
        (case parse_uint0 32 value of
           None \<Rightarrow> None
         | Some v \<Rightarrow>
             (case (if masktext = [] then Some 0xFFFFFFFF else parse_uint0 32 masktext) of
                None \<Rightarrow> None
              | Some mval \<Rightarrow>
                  let w = (word_of_nat v :: u32);
                      kind = (if key = ''--nfmask'' then ''packet''
                              else if key = ''--ctmask'' then ''connection''
                              else mark_line_kind line);
                      mk = (if key \<in> {''--nfmask'', ''--ctmask'', ''--or-mark'', ''--xor-mark''} then w
                            else if key = ''--and-mark'' then NOT w
                            else word_of_nat mval)
                  in Some \<lparr>mu_source = source, mu_kind = kind, mu_value = w, mu_mask = mk,
                           mu_rule = line\<rparr>)))"

definition mark_uses :: "string \<Rightarrow> string \<Rightarrow> mark_use list" where
  "mark_uses source text =
     concat (map (\<lambda>line. List.map_filter (mark_use_of source line) (find_marks line))
       (split_on (CHR 0x0A) text))"

definition mark_risk :: "u32 \<Rightarrow> mark_use list \<Rightarrow> string list" where
  "mark_risk rbit uses =
     map (\<lambda>u. mu_source u @ '': '' @ mu_rule u)
       (filter (\<lambda>u. mu_kind u = ''packet'' \<and> mu_mask u AND rbit \<noteq> 0) uses)"

section \<open>Lemmas\<close>

lemma mark_risk_empty:
  "mark_risk rbit uses = [] \<longleftrightarrow>
     (\<forall>u \<in> set uses. mu_kind u = ''packet'' \<longrightarrow> mu_mask u AND rbit = 0)"
  by (auto simp: mark_risk_def filter_empty_conv)

lemma mark_use_of_rule:
  "mark_use_of source line m = Some u \<Longrightarrow> mu_source u = source \<and> mu_rule u = line"
  by (auto simp: mark_use_of_def Let_def split: option.splits prod.splits)

lemma mark_uses_rule:
  assumes "u \<in> set (mark_uses source text)"
  shows "mu_source u = source \<and> mu_rule u \<in> set (split_on (CHR 0x0A) text)"
proof -
  obtain line m where "line \<in> set (split_on (CHR 0x0A) text)" "mark_use_of source line m = Some u"
    using assms unfolding mark_uses_def List.map_filter_def by force
  then show ?thesis using mark_use_of_rule by blast
qed

text \<open>An \<open>--and-mark\<close> rule clears every bit outside its operand.\<close>

lemma and_mark_mask:
  assumes "mark_use_of source line (''--and-mark'', value, masktext) = Some u"
  shows "mu_mask u = NOT (mu_value u)"
  using assms by (auto simp: mark_use_of_def Let_def split: option.splits if_splits)

end
