(* ===== verification/Transaction.thy ===== *)
theory Transaction
  imports Report
begin

text \<open>
  The in-process setup/teardown transaction, \<open>ebpf-proxy/internal/tproxy/transaction.go\<close>. The
  command runner \<open>run\<close> is the field of the Go struct; it acts on a world of any type. The
  mutex serialises the operations, so each is one function on the transaction and the world.
\<close>

section \<open>State and operations\<close>

record transaction =
  tx_steps :: "step list"
  tx_done :: nat
  tx_stopping :: bool

type_synonym 'w runner = "argv \<Rightarrow> 'w \<Rightarrow> cmd_result \<times> 'w"

definition new_transaction :: "step list \<Rightarrow> transaction" where
  "new_transaction steps = \<lparr>tx_steps = steps, tx_done = 0, tx_stopping = False\<rparr>"

fun teardown_loop :: "'w runner \<Rightarrow> step list \<Rightarrow> nat \<Rightarrow> 'w \<Rightarrow> gerr option \<times> nat \<times> 'w" where
  "teardown_loop run steps 0 w = (None, 0, w)"
| "teardown_loop run steps (Suc d) w =
     (case run (step_remove (steps ! d)) w of (r, w') \<Rightarrow>
        (case command_error r of
           Some e \<Rightarrow> (Some e, Suc d, w')
         | None \<Rightarrow> teardown_loop run steps d w'))"

definition tx_teardown :: "'w runner \<Rightarrow> transaction \<Rightarrow> 'w \<Rightarrow> gerr option \<times> transaction \<times> 'w" where
  "tx_teardown run t w =
     (case teardown_loop run (tx_steps t) (tx_done t) w of (e, d, w') \<Rightarrow>
        (e, t\<lparr>tx_done := d, tx_stopping := (e \<noteq> None)\<rparr>, w'))"

text \<open>The setup loop from index \<open>i\<close>; \<open>fail_after\<close> is the fault-injection seam (0 in \<open>Setup\<close>).\<close>

fun setup_loop :: "'w runner \<Rightarrow> nat \<Rightarrow> transaction \<Rightarrow> nat \<Rightarrow> step list \<Rightarrow> 'w
    \<Rightarrow> gerr option \<times> transaction \<times> 'w" where
  "setup_loop run fail_after t i [] w = (None, t, w)"
| "setup_loop run fail_after t i (s # ss) w =
     (case run (step_add s) w of (r, w1) \<Rightarrow>
        (case command_error r of
           Some e \<Rightarrow>
             (case tx_teardown run t w1 of (e', t', w2) \<Rightarrow> (join_errors (Some e) e', t', w2))
         | None \<Rightarrow>
             let t1 = t\<lparr>tx_done := Suc (tx_done t)\<rparr>
             in if fail_after = Suc i then
                  (case tx_teardown run t1 w1 of (e', t', w2) \<Rightarrow>
                     (join_errors (Some (Err ''injected setup failure'')) e', t', w2))
                else setup_loop run fail_after t1 (Suc i) ss w1))"

definition tx_setup :: "'w runner \<Rightarrow> nat \<Rightarrow> transaction \<Rightarrow> 'w \<Rightarrow> gerr option \<times> transaction \<times> 'w" where
  "tx_setup run fail_after t w =
     (if tx_done t = length (tx_steps t) \<and> \<not> tx_stopping t then (None, t, w)
      else if tx_done t \<noteq> 0 then (Some (Err ''incomplete rollback''), t, w)
      else setup_loop run fail_after t 0 (tx_steps t) w)"

definition owned_steps :: "transaction \<Rightarrow> nat" where
  "owned_steps t = tx_done t"

section \<open>Ownership never exceeds the plan\<close>

definition tx_inv :: "transaction \<Rightarrow> bool" where
  "tx_inv t \<longleftrightarrow> tx_done t \<le> length (tx_steps t)"

lemma teardown_loop_le: "teardown_loop run steps d w = (e, d', w') \<Longrightarrow> d' \<le> d"
proof (induction d arbitrary: w)
  case 0
  then show ?case by simp
next
  case (Suc d)
  then show ?case by (auto split: prod.splits option.splits dest: le_SucI)
qed

lemma teardown_loop_done: "teardown_loop run steps d w = (None, d', w') \<Longrightarrow> d' = 0"
  by (induction d arbitrary: w) (auto split: prod.splits option.splits)

lemma teardown_loop_err: "teardown_loop run steps d w = (Some e, d', w') \<Longrightarrow> 0 < d'"
  by (induction d arbitrary: w) (auto split: prod.splits option.splits)

lemma tx_teardown_steps [simp]:
  "tx_teardown run t w = (e, t', w') \<Longrightarrow> tx_steps t' = tx_steps t"
  by (auto simp: tx_teardown_def split: prod.splits)

lemma tx_teardown_inv: "tx_inv t \<Longrightarrow> tx_teardown run t w = (e, t', w') \<Longrightarrow> tx_inv t'"
proof -
  assume inv: "tx_inv t" and td: "tx_teardown run t w = (e, t', w')"
  obtain e1 d w1 where l: "teardown_loop run (tx_steps t) (tx_done t) w = (e1, d, w1)"
    by (cases "teardown_loop run (tx_steps t) (tx_done t) w") auto
  show "tx_inv t'"
    using inv td teardown_loop_le [OF l] by (auto simp: tx_teardown_def l tx_inv_def)
qed

lemma setup_loop_inv:
  assumes "setup_loop run fa t i ss w = (e, t', w')"
    and "tx_done t + length ss \<le> length (tx_steps t)"
  shows "tx_inv t'"
  using assms
proof (induction ss arbitrary: t i w)
  case Nil
  then show ?case by (auto simp: tx_inv_def)
next
  case (Cons s ss)
  obtain r w1 where r: "run (step_add s) w = (r, w1)" by fastforce
  let ?t1 = "t\<lparr>tx_done := Suc (tx_done t)\<rparr>"
  have inv: "tx_inv t" "tx_inv ?t1" using Cons.prems(2) by (auto simp: tx_inv_def)
  show ?case
  proof (cases "command_error r")
    case (Some err)
    then show ?thesis
      using Cons.prems(1) r tx_teardown_inv [OF inv(1)] by (auto split: prod.splits)
  next
    case None
    show ?thesis
    proof (cases "fa = Suc i")
      case True
      then show ?thesis
        using Cons.prems(1) r None tx_teardown_inv [OF inv(2)] by (auto split: prod.splits)
    next
      case False
      then have "setup_loop run fa ?t1 (Suc i) ss w1 = (e, t', w')"
        using Cons.prems(1) r None by (simp add: Let_def)
      then show ?thesis using Cons.IH [of ?t1 "Suc i" w1] Cons.prems(2) by simp
    qed
  qed
qed

lemma tx_setup_inv: "tx_inv t \<Longrightarrow> tx_setup run fa t w = (e, t', w') \<Longrightarrow> tx_inv t'"
  by (auto simp: tx_setup_def split: if_splits dest: setup_loop_inv)

section \<open>Kernels whose removals undo their additions\<close>

text \<open>
  What the transaction relies on: a failed command changes nothing, and the planned removal
  undoes the planned addition it belongs to.
\<close>

locale undo_kernel =
  fixes run :: "'w runner" and steps :: "step list"
  assumes add_failed: "s \<in> set steps \<Longrightarrow> run (step_add s) w = (r, w') \<Longrightarrow>
      command_error r \<noteq> None \<Longrightarrow> w' = w"
    and remove_undoes: "s \<in> set steps \<Longrightarrow> run (step_add s) w = (r, w') \<Longrightarrow>
      command_error r = None \<Longrightarrow> \<exists>r'. run (step_remove s) w' = (r', w) \<and> command_error r' = None"
begin

text \<open>The worlds after the first \<open>n\<close> additions.\<close>

inductive installed :: "'w \<Rightarrow> nat \<Rightarrow> 'w \<Rightarrow> bool" where
  base: "installed w 0 w"
| more: "installed w n w1 \<Longrightarrow> n < length steps \<Longrightarrow> run (step_add (steps ! n)) w1 = (r, w2) \<Longrightarrow>
     command_error r = None \<Longrightarrow> installed w (Suc n) w2"

inductive_cases installed_SucE: "installed w (Suc n) w'"
inductive_cases installed_0E: "installed w 0 w'"

lemma teardown_loop_installed:
  "installed w n w' \<Longrightarrow> teardown_loop run steps n w' = (None, 0, w)"
proof (induction n arbitrary: w')
  case 0
  then show ?case by (auto elim: installed_0E)
next
  case (Suc n)
  from Suc.prems obtain w1 r where w1: "installed w n w1" "n < length steps"
      "run (step_add (steps ! n)) w1 = (r, w')" "command_error r = None"
    by (auto elim: installed_SucE)
  then obtain r' where "run (step_remove (steps ! n)) w' = (r', w1)" "command_error r' = None"
    using remove_undoes [of "steps ! n" w1 r w'] by auto
  then show ?case using Suc.IH [OF w1(1)] by simp
qed

lemma teardown_restores:
  "installed w (tx_done t) w' \<Longrightarrow> tx_steps t = steps \<Longrightarrow>
     tx_teardown run t w' = (None, t\<lparr>tx_done := 0, tx_stopping := False\<rparr>, w)"
  by (simp add: tx_teardown_def teardown_loop_installed)

lemma setup_loop_atomic:
  assumes "installed w (tx_done t) w1" and "tx_steps t = steps"
    and "ss = drop (tx_done t) steps" and "tx_done t \<le> length steps" and "\<not> tx_stopping t"
    and "setup_loop run fa t i ss w1 = (e, t', w')"
  shows "(e = None \<longrightarrow> tx_done t' = length steps \<and> \<not> tx_stopping t' \<and> installed w (length steps) w')
       \<and> (e \<noteq> None \<longrightarrow> tx_done t' = 0 \<and> \<not> tx_stopping t' \<and> w' = w)"
  using assms
proof (induction ss arbitrary: t i w1)
  case Nil
  then show ?case by auto
next
  case (Cons s ss)
  have lt: "tx_done t < length steps" and s: "s = steps ! tx_done t"
    and ss: "ss = drop (Suc (tx_done t)) steps"
    using Cons_eq_drop [OF Cons.prems(3)] by simp_all
  then have mem: "s \<in> set steps" by simp
  obtain r w2 where r: "run (step_add s) w1 = (r, w2)" by fastforce
  show ?case
  proof (cases "command_error r")
    case (Some err)
    then have "w2 = w1" using add_failed [OF mem r] by simp
    then have "tx_teardown run t w2 = (None, t\<lparr>tx_done := 0, tx_stopping := False\<rparr>, w)"
      using teardown_restores Cons.prems(1,2) by simp
    then show ?thesis using Cons.prems(6) r Some by auto
  next
    case None
    let ?t1 = "t\<lparr>tx_done := Suc (tx_done t)\<rparr>"
    have inst: "installed w (tx_done ?t1) w2"
      using installed.more [OF Cons.prems(1) lt] r None s by simp
    show ?thesis
    proof (cases "fa = Suc i")
      case True
      have "tx_teardown run ?t1 w2 = (None, ?t1\<lparr>tx_done := 0, tx_stopping := False\<rparr>, w)"
        using teardown_restores [OF inst] Cons.prems(2) by simp
      then show ?thesis using Cons.prems(6) r None True by auto
    next
      case False
      then have "setup_loop run fa ?t1 (Suc i) ss w2 = (e, t', w')"
        using Cons.prems(6) r None by (simp add: Let_def)
      then show ?thesis
        using Cons.IH [OF inst, of "Suc i"] Cons.prems(2,5) ss lt by simp
    qed
  qed
qed

lemma setup_atomic:
  assumes "tx_setup run fa (new_transaction steps) w = (e, t', w')"
  shows "(e = None \<longrightarrow> tx_done t' = length steps \<and> installed w (length steps) w')
       \<and> (e \<noteq> None \<longrightarrow> tx_done t' = 0 \<and> \<not> tx_stopping t' \<and> w' = w)"
proof (cases "steps = []")
  case True
  then show ?thesis
    using assms installed.base by (auto simp: tx_setup_def new_transaction_def)
next
  case False
  then have "setup_loop run fa (new_transaction steps) 0 steps w = (e, t', w')"
    using assms by (simp add: tx_setup_def new_transaction_def)
  then show ?thesis
    using setup_loop_atomic [of w "new_transaction steps" w steps fa 0 e t' w'] installed.base
    by (simp add: new_transaction_def)
qed

lemma setup_teardown_restores:
  assumes "tx_setup run fa (new_transaction steps) w = (None, t, w')"
  shows "\<exists>t'. tx_teardown run t w' = (None, t', w) \<and> tx_done t' = 0"
proof -
  have "tx_steps t = steps" if "tx_setup run fa (new_transaction steps) w = (None, t, w')"
    for t w'
  proof -
    have "setup_loop run fa u i ss v = (x, u', v') \<Longrightarrow> tx_steps u' = tx_steps u" for u i ss v x u' v'
      by (induction ss arbitrary: u i v)
         (auto simp: Let_def split: prod.splits option.splits if_splits)
    then show ?thesis using that
      by (auto simp: tx_setup_def new_transaction_def split: if_splits)
  qed
  then show ?thesis
    using assms setup_atomic [OF assms] teardown_restores [of w t w'] by simp
qed

end

section \<open>A kernel that installs the planned resources\<close>

text \<open>
  A concrete kernel: the stack of installed planned additions. An addition that is already
  installed fails, a removal of something not installed fails, and every other command reads.
\<close>

definition ok_result :: "argv \<Rightarrow> cmd_result" where
  "ok_result args = \<lparr>res_command = args, res_exit = 0, res_output = [], res_error = [], res_sha256 = []\<rparr>"

definition failed_result :: "argv \<Rightarrow> cmd_result" where
  "failed_result args =
     \<lparr>res_command = args, res_exit = 1, res_output = [], res_error = ''exists'', res_sha256 = []\<rparr>"

definition stack_run :: "step list \<Rightarrow> argv list runner" where
  "stack_run steps args w =
     (if args \<in> step_add ` set steps then
        (if args \<in> set w then (failed_result args, w) else (ok_result args, args # w))
      else case find (\<lambda>s. step_remove s = args) steps of
             Some s \<Rightarrow>
               if step_add s \<in> set w then (ok_result args, remove1 (step_add s) w)
               else (failed_result args, w)
           | None \<Rightarrow> (ok_result args, w))"

lemma command_error_results [simp]:
  "command_error (ok_result args) = None" "command_error (failed_result args) \<noteq> None"
  by (simp_all add: command_error_def ok_result_def failed_result_def)

lemma find_distinct_map:
  "distinct (map f xs) \<Longrightarrow> x \<in> set xs \<Longrightarrow> find (\<lambda>y. f y = f x) xs = Some x"
  by (induction xs) auto

lemma stack_undo_kernel:
  assumes "distinct (map step_add steps @ map step_remove steps)"
  shows "undo_kernel (stack_run steps) steps"
proof
  fix s w r w'
  assume s: "s \<in> set steps" and run: "stack_run steps (step_add s) w = (r, w')"
  then have added: "step_add s \<in> step_add ` set steps" by blast
  { assume "command_error r \<noteq> None"
    with run added show "w' = w" by (auto simp: stack_run_def split: if_splits) }
  assume "command_error r = None"
  with run added have w': "w' = step_add s # w" by (auto simp: stack_run_def split: if_splits)
  have "step_remove s \<notin> step_add ` set steps"
    using assms s by (auto simp: distinct_append)
  moreover have "find (\<lambda>t. step_remove t = step_remove s) steps = Some s"
    using assms s by (intro find_distinct_map) auto
  ultimately show "\<exists>r'. stack_run steps (step_remove s) w' = (r', w) \<and> command_error r' = None"
    using w' by (simp add: stack_run_def)
qed

interpretation plan_stack: undo_kernel "stack_run (planned_steps c)" "planned_steps c" for c
  by (rule stack_undo_kernel) (rule planned_commands_distinct)

end
