(* ===== verification/Digest.thy ===== *)
theory Digest
  imports Report
begin

text \<open>
  \<open>stateDigest\<close> of \<open>internal/tproxy/witness_linux.go\<close>: the hexadecimal SHA-256 of the JSON
  array of the observed texts. The JSON coding of ASCII strings is written out as
  \<open>encoding/json\<close> prints it; the compression function itself, \<open>sha256\<close>, is an argument of every
  definition, so each theorem holds for any hash and says where it needs collision freedom.
\<close>

section \<open>JSON strings\<close>

definition json_char :: "char \<Rightarrow> string" where
  "json_char c =
     (if c = CHR 0x22 then [CHR 0x5C, CHR 0x22]
      else if c = CHR 0x5C then [CHR 0x5C, CHR 0x5C]
      else if c = CHR 0x08 then [CHR 0x5C, CHR ''b'']
      else if c = CHR 0x0C then [CHR 0x5C, CHR ''f'']
      else if c = CHR 0x0A then [CHR 0x5C, CHR ''n'']
      else if c = CHR 0x0D then [CHR 0x5C, CHR ''r'']
      else if c = CHR 0x09 then [CHR 0x5C, CHR ''t'']
      else if (of_char c :: nat) < 32 \<or> c = CHR ''<'' \<or> c = CHR ''>'' \<or> c = CHR ''&''
      then [CHR 0x5C, CHR ''u''] @ hex_digits 4 (of_char c)
      else [c])"

definition json_string :: "string \<Rightarrow> string" where
  "json_string s = [CHR 0x22] @ concat (map json_char s) @ [CHR 0x22]"

definition json_array :: "string list \<Rightarrow> string" where
  "json_array items = [CHR 0x5B] @ join '','' items @ [CHR 0x5D]"

text \<open>A Go slice of strings; a nil slice is printed as \<open>null\<close>.\<close>

definition json_strings :: "string list \<Rightarrow> string" where
  "json_strings xs = json_array (map json_string xs)"

definition json_slice :: "string list \<Rightarrow> string" where
  "json_slice xs = (if xs = [] then ''null'' else json_strings xs)"

definition state_digest :: "(string \<Rightarrow> u8 list) \<Rightarrow> string list \<Rightarrow> string" where
  "state_digest sha256 outputs = hex_encode (sha256 (json_strings outputs))"

section \<open>The coding loses nothing\<close>

text \<open>Reading one coded character back.\<close>

fun json_unchar :: "string \<Rightarrow> (char \<times> string) option" where
  "json_unchar [] = None"
| "json_unchar (c # s) =
     (if c \<noteq> CHR 0x5C then Some (c, s)
      else (case s of
              [] \<Rightarrow> None
            | x # t \<Rightarrow>
                if x = CHR ''b'' then Some (CHR 0x08, t)
                else if x = CHR ''f'' then Some (CHR 0x0C, t)
                else if x = CHR ''n'' then Some (CHR 0x0A, t)
                else if x = CHR ''r'' then Some (CHR 0x0D, t)
                else if x = CHR ''t'' then Some (CHR 0x09, t)
                else if x = CHR ''u'' then
                  map_option (\<lambda>n. (char_of n, drop 4 t)) (digits_value 16 0 (take 4 t))
                else Some (x, t)))"

lemma json_unchar_char: "json_unchar (json_char c @ s) = Some (c, s)"
proof -
  have "(of_char c :: nat) < 256" by (rule nat_of_char_less_256)
  then have "(of_char c :: nat) < 16 ^ 4" by (rule order_less_trans) simp
  then have "digits_value 16 0 (hex_digits 4 (of_char c)) = Some (of_char c)"
    by (rule digits_value_hex)
  then show ?thesis by (simp add: json_char_def)
qed

lemma json_char_inject: "json_char c @ s = json_char d @ t \<Longrightarrow> c = d \<and> s = t"
  by (metis json_unchar_char option.inject prod.inject)

lemma json_char_quote: "json_char c @ s \<noteq> CHR 0x22 # t"
proof
  assume eq: "json_char c @ s = CHR 0x22 # t"
  then have "c = CHR 0x22" using json_unchar_char [of c s] by simp
  with eq show False by (simp add: json_char_def)
qed

lemma json_body_inject:
  "concat (map json_char xs) @ CHR 0x22 # s = concat (map json_char ys) @ CHR 0x22 # t \<Longrightarrow>
     xs = ys \<and> s = t"
proof (induction xs arbitrary: ys)
  case Nil
  then show ?case by (cases ys) (auto dest: json_char_quote [THEN notE, OF sym])
next
  case (Cons x xs)
  show ?case
  proof (cases ys)
    case Nil
    with Cons.prems show ?thesis using json_char_quote [of x] by auto
  next
    case ys: (Cons y ys')
    then have "json_char x @ concat (map json_char xs) @ CHR 0x22 # s
        = json_char y @ concat (map json_char ys') @ CHR 0x22 # t"
      using Cons.prems by simp
    then have "x = y" and "concat (map json_char xs) @ CHR 0x22 # s = concat (map json_char ys') @ CHR 0x22 # t"
      using json_char_inject by blast+
    then show ?thesis using Cons.IH ys by blast
  qed
qed

lemma json_string_inject: "json_string x @ s = json_string y @ t \<Longrightarrow> x = y \<and> s = t"
  using json_body_inject [of x s y t] by (simp add: json_string_def)

lemma json_string_Cons: "\<exists>s. json_string x = CHR 0x22 # s"
  by (simp add: json_string_def)

lemma join_strings_inject:
  "join '','' (map json_string xs) @ CHR 0x5D # s = join '','' (map json_string ys) @ CHR 0x5D # t \<Longrightarrow>
     xs = ys \<and> s = t"
proof (induction xs arbitrary: ys)
  case Nil
  then show ?case
  proof (cases ys)
    case (Cons y ys')
    then show ?thesis using Nil json_string_Cons [of y] by (cases ys') auto
  qed auto
next
  case (Cons x xs)
  show ?case
  proof (cases ys)
    case Nil
    then show ?thesis using Cons.prems json_string_Cons [of x] by (cases xs) auto
  next
    case ys: (Cons y ys')
    let ?tail = "\<lambda>zs u. (if zs = [] then CHR 0x5D # u else CHR '','' # join '','' (map json_string zs) @ CHR 0x5D # u)"
    have split: "join '','' (map json_string (z # zs)) @ CHR 0x5D # u = json_string z @ ?tail zs u" for z zs u
      by (cases zs) auto
    from Cons.prems have "json_string x @ ?tail xs s = json_string y @ ?tail ys' t"
      unfolding ys split .
    then have xy: "x = y" and tl: "?tail xs s = ?tail ys' t" using json_string_inject by blast+
    show ?thesis
    proof (cases "xs = [] \<or> ys' = []")
      case True
      then show ?thesis using tl xy ys by (auto split: if_splits)
    next
      case False
      then have "join '','' (map json_string xs) @ CHR 0x5D # s = join '','' (map json_string ys') @ CHR 0x5D # t"
        using tl by simp
      then show ?thesis using Cons.IH xy ys by blast
    qed
  qed
qed

lemma json_strings_inject: "json_strings xs = json_strings ys \<Longrightarrow> xs = ys"
  using join_strings_inject [of xs "[]" ys "[]"] by (simp add: json_strings_def json_array_def)

lemma state_digest_inject:
  assumes "state_digest sha256 xs = state_digest sha256 ys"
    and "sha256 (json_strings xs) = sha256 (json_strings ys) \<Longrightarrow> json_strings xs = json_strings ys"
  shows "xs = ys"
  using assms json_strings_inject hex_decode_encode unfolding state_digest_def
  by (metis option.inject)

lemma length_state_digest: "length (state_digest sha256 xs) = 2 * length (sha256 (json_strings xs))"
  by (simp add: state_digest_def)

end
