(* ===== verification/Witness.thy ===== *)
theory Witness
  imports Transaction Digest
begin

text \<open>
  Observation of the planned resources in a private namespace:
  \<open>ebpf-proxy/internal/tproxy/witness_linux.go\<close>. The command runner is an argument that acts on
  a world; the classifier reads the three listings line by line.
\<close>

section \<open>Listings\<close>

record resource_witness =
  rw_counts :: "int list"
  rw_residual :: string
  rw_whole :: string

definition zero_witness :: resource_witness where
  "zero_witness = \<lparr>rw_counts = replicate 8 0, rw_residual = [], rw_whole = []\<rparr>"

definition capture_queries :: "argv list" where
  "capture_queries =
     [[''iptables'', ''-w'', ''2'', ''-t'', ''mangle'', ''-S''],
      [''ip'', ''rule'', ''show''],
      [''ip'', ''route'', ''show'', ''table'', ''all'']]"

fun capture_with :: "'w runner \<Rightarrow> argv list \<Rightarrow> 'w \<Rightarrow> (gerr + string list) \<times> 'w" where
  "capture_with run [] w = (Inr [], w)"
| "capture_with run (q # qs) w =
     (case run q w of (r, w1) \<Rightarrow>
        (case command_error r of
           Some e \<Rightarrow> (Inl e, w1)
         | None \<Rightarrow>
             (case capture_with run qs w1 of
                (Inl e, w2) \<Rightarrow> (Inl e, w2)
              | (Inr outs, w2) \<Rightarrow> (Inr (res_output r # outs), w2))))"

definition capture_namespace :: "'w runner \<Rightarrow> 'w \<Rightarrow> (gerr + string list) \<times> 'w" where
  "capture_namespace run w = capture_with run capture_queries w"

text \<open>The \<open>-C\<close> form of a removal: the first \<open>-D\<close> is replaced.\<close>

fun check_args :: "argv \<Rightarrow> argv" where
  "check_args [] = []"
| "check_args (a # args) = (if a = ''-D'' then ''-C'' # args else a # check_args args)"

section \<open>The classifier\<close>

type_synonym 'w checker = "nat \<Rightarrow> 'w \<Rightarrow> gerr option \<times> 'w"

text \<open>The jump scan of one \<open>-A\<close> line: the last matching pair of words decides.\<close>

definition jump_index :: "plan \<Rightarrow> string list \<Rightarrow> nat option \<Rightarrow> nat option" where
  "jump_index p f start =
     foldl (\<lambda>idx i.
        let idx1 = (if f ! i = ''-j'' \<and> f ! (i + 1) = chain_pre p \<and> f ! 1 = ''PREROUTING'' then Some 4 else idx)
        in if f ! i = ''-j'' \<and> f ! (i + 1) = chain_out p \<and> f ! 1 = ''OUTPUT'' then Some 7 else idx1)
       start [2 ..< length f - 1]"

definition firewall_index :: "plan \<Rightarrow> 'w checker \<Rightarrow> string list \<Rightarrow> 'w \<Rightarrow> (gerr + nat option) \<times> 'w" where
  "firewall_index p check f w =
     (if length f < 2 then (Inr None, w)
      else
        let i0 = (if length f = 2 \<and> f ! 0 = ''-N'' \<and> f ! 1 = chain_pre p then Some 2 else None);
            i1 = (if length f = 2 \<and> f ! 0 = ''-N'' \<and> f ! 1 = chain_out p then Some 5 else i0)
        in if f ! 0 \<noteq> ''-A'' then (Inr i1, w)
           else
             let i2 = (if f ! 1 = chain_pre p then Some 3 else i1);
                 i3 = (if f ! 1 = chain_out p then Some 6 else i2);
                 i4 = jump_index p f i3
             in (case i4 of
                   None \<Rightarrow> (Inr None, w)
                 | Some i \<Rightarrow>
                     (case check i w of
                        (Some e, w1) \<Rightarrow> (Inl (Wrap ''planned rule mismatch'' e), w1)
                      | (None, w1) \<Rightarrow> (Inr (Some i), w1))))"

definition policy_index :: "plan \<Rightarrow> string \<Rightarrow> string list \<Rightarrow> gerr + nat option" where
  "policy_index p line f =
     (if f \<noteq> [] \<and> f ! 0 = utoa (unat (pl_priority p)) @ '':'' then
        if length f \<noteq> 7 \<or> f ! 1 \<noteq> ''from'' \<or> f ! 2 \<noteq> ''all'' \<or> f ! 3 \<noteq> ''fwmark'' \<or>
           f ! 5 \<noteq> ''lookup'' \<or> f ! 6 \<noteq> utoa (unat (pl_table p))
        then Inl (Err ''policy resource mismatch'')
        else (case mark_uses ''rule'' line of
                [u] \<Rightarrow> if mu_value u \<noteq> pl_mark p \<or> mu_mask u \<noteq> pl_mask p
                       then Inl (Err ''policy mark mismatch'') else Inr (Some 1)
              | _ \<Rightarrow> Inl (Err ''policy mark mismatch''))
      else Inr None)"

text \<open>The option words of a route line, two by two; the flags are \<open>found\<close> and \<open>valid\<close>.\<close>

fun route_options :: "plan \<Rightarrow> bool \<Rightarrow> bool \<Rightarrow> string list \<Rightarrow> bool \<times> bool" where
  "route_options p found valid [] = (found, valid)"
| "route_options p found valid [k] = (found, False)"
| "route_options p found valid (k # v # rest) =
     (if k = ''table'' then route_options p (v = utoa (unat (pl_table p))) valid rest
      else if k = ''scope'' then route_options p found (valid \<and> v = ''host'') rest
      else if k = ''proto'' then route_options p found (valid \<and> (v = ''boot'' \<or> v = ''static'')) rest
      else route_options p found False rest)"

definition is_planned_address :: "plan \<Rightarrow> string \<Rightarrow> bool" where
  "is_planned_address p s \<longleftrightarrow>
     s = addr_string (ap_addr (pl_destination p)) \<or>
     s = addr_string (ap_addr (pl_destination p)) @ ''/32''"

definition route_index :: "plan \<Rightarrow> string list \<Rightarrow> gerr + nat option" where
  "route_index p f =
     (if length f \<ge> 4 \<and> f ! 0 = ''local'' \<and> is_planned_address p (f ! 1) \<and> f ! 2 = ''dev'' \<and> f ! 3 = ''lo''
      then case route_options p False True (drop 4 f) of (found, valid) \<Rightarrow>
             if \<not> found then Inr None
             else if \<not> valid then Inl (Err ''route resource mismatch'')
             else Inr (Some 0)
      else Inr None)"

definition line_index :: "plan \<Rightarrow> 'w checker \<Rightarrow> nat \<Rightarrow> string \<Rightarrow> 'w \<Rightarrow> (gerr + nat option) \<times> 'w" where
  "line_index p check bucket line w =
     (let f = str_fields line
      in if bucket = 0 then firewall_index p check f w
         else if bucket = 1 then (policy_index p line f, w)
         else if bucket = 2 then (route_index p f, w)
         else (Inr None, w))"

fun classify_lines :: "plan \<Rightarrow> 'w checker \<Rightarrow> nat \<Rightarrow> int list \<Rightarrow> string list \<Rightarrow> string list \<Rightarrow> 'w
    \<Rightarrow> (gerr + int list \<times> string list) \<times> 'w" where
  "classify_lines p check bucket counts retained [] w = (Inr (counts, retained), w)"
| "classify_lines p check bucket counts retained (line # ls) w =
     (case line_index p check bucket line w of
        (Inl e, w1) \<Rightarrow> (Inl e, w1)
      | (Inr None, w1) \<Rightarrow> classify_lines p check bucket counts (retained @ [line]) ls w1
      | (Inr (Some i), w1) \<Rightarrow>
          let counts1 = counts[i := counts ! i + 1]
          in if counts1 ! i > 1 then (Inl (Err ''duplicate planned resource''), w1)
             else classify_lines p check bucket counts1 retained ls w1)"

fun classify_buckets :: "plan \<Rightarrow> 'w checker \<Rightarrow> nat \<Rightarrow> int list \<Rightarrow> string list \<Rightarrow> 'w
    \<Rightarrow> (gerr + int list \<times> string list) \<times> 'w" where
  "classify_buckets p check bucket counts [] w = (Inr (counts, []), w)"
| "classify_buckets p check bucket counts (text # texts) w =
     (case classify_lines p check bucket counts [] (split_on (CHR 0x0A) text) w of
        (Inl e, w1) \<Rightarrow> (Inl e, w1)
      | (Inr (counts1, retained), w1) \<Rightarrow>
          (case classify_buckets p check (Suc bucket) counts1 texts w1 of
             (Inl e, w2) \<Rightarrow> (Inl e, w2)
           | (Inr (counts2, residual), w2) \<Rightarrow> (Inr (counts2, join [CHR 0x0A] retained # residual), w2)))"

definition classify_resources :: "(string \<Rightarrow> u8 list) \<Rightarrow> plan \<Rightarrow> string list \<Rightarrow> 'w checker \<Rightarrow> 'w
    \<Rightarrow> (gerr + resource_witness) \<times> 'w" where
  "classify_resources sha p outputs check w =
     (case plan_steps p of
        Inl e \<Rightarrow> (Inl e, w)
      | Inr _ \<Rightarrow>
          if length outputs \<noteq> 3 then (Inl (Err ''invalid observation''), w)
          else (case classify_buckets p check 0 (replicate 8 0) outputs w of
                  (Inl e, w1) \<Rightarrow> (Inl e, w1)
                | (Inr (counts, residual), w1) \<Rightarrow>
                    (Inr \<lparr>rw_counts = counts, rw_residual = state_digest sha residual,
                          rw_whole = state_digest sha outputs\<rparr>, w1)))"

definition rule_check :: "'w runner \<Rightarrow> step list \<Rightarrow> 'w checker" where
  "rule_check run steps i w =
     (case run (check_args (step_remove (steps ! i))) w of (r, w1) \<Rightarrow> (command_error r, w1))"

definition observe_resources :: "(string \<Rightarrow> u8 list) \<Rightarrow> 'w runner \<Rightarrow> plan \<Rightarrow> 'w
    \<Rightarrow> (gerr + resource_witness) \<times> 'w" where
  "observe_resources sha run p w =
     (case capture_namespace run w of
        (Inl e, w1) \<Rightarrow> (Inl e, w1)
      | (Inr outputs, w1) \<Rightarrow>
          (case classify_resources sha p outputs (rule_check run (planned_steps p)) w1 of
             (Inl e, w2) \<Rightarrow> (Inl e, w2)
           | (Inr rw, w2) \<Rightarrow>
               (case capture_namespace run w2 of
                  (Inl e, w3) \<Rightarrow> (Inl e, w3)
                | (Inr after, w3) \<Rightarrow>
                    if state_digest sha after \<noteq> rw_whole rw
                    then (Inl (Err ''resource observation changed''), w3)
                    else (Inr rw, w3))))"

text \<open>\<open>countsMatch\<close>: exactly the first \<open>owned\<close> resources are present, once each.\<close>

definition expected_counts :: "int \<Rightarrow> int list" where
  "expected_counts owned = map (\<lambda>i. if int i < owned then 1 else 0) [0 ..< 8]"

definition counts_match :: "int list \<Rightarrow> int \<Rightarrow> bool" where
  "counts_match counts owned \<longleftrightarrow>
     list_all (\<lambda>i. counts ! i = (if int i < owned then 1 else 0)) [0 ..< length counts]"

section \<open>Lemmas\<close>

lemma length_expected_counts [simp]: "length (expected_counts n) = 8"
  by (simp add: expected_counts_def)

lemma expected_counts_nth [simp]: "i < 8 \<Longrightarrow> expected_counts n ! i = (if int i < n then 1 else 0)"
  by (simp add: expected_counts_def)

lemma counts_match_iff: "length counts = 8 \<Longrightarrow> counts_match counts n \<longleftrightarrow> counts = expected_counts n"
proof
  assume len: "length counts = 8" and m: "counts_match counts n"
  have "counts ! i = expected_counts n ! i" if "i < length counts" for i
    using m that len by (simp add: counts_match_def list_all_iff)
  then show "counts = expected_counts n" using len by (intro nth_equalityI) auto
qed (simp add: counts_match_def list_all_iff)

lemma expected_counts_inject:
  assumes "0 \<le> m" "m \<le> 8" "0 \<le> n" "n \<le> 8" "expected_counts m = expected_counts n"
  shows "m = n"
proof (rule ccontr)
  assume "m \<noteq> n"
  let ?k = "nat (min m n)"
  have k: "?k < 8" "int ?k = min m n" using assms \<open>m \<noteq> n\<close> by auto
  from assms(5) have "expected_counts m ! ?k = expected_counts n ! ?k" by simp
  with k \<open>m \<noteq> n\<close> show False by (auto split: if_splits)
qed

text \<open>At most one owned count matches an observation: the pending outcome is never ambiguous.\<close>

lemma counts_match_unique:
  assumes "length counts = 8" "0 \<le> m" "m \<le> 8" "0 \<le> n" "n \<le> 8"
    and "counts_match counts m" "counts_match counts n"
  shows "m = n"
  using assms expected_counts_inject by (simp add: counts_match_iff)

lemma line_index_bound:
  assumes "line_index p check bucket line w = (Inr (Some i), w')"
  shows "i < 8"
proof -
  have jump: "jump_index p f start = Some j \<Longrightarrow> start = Some j \<or> j = 4 \<or> j = 7" for f start j
  proof -
    have fold: "foldl (\<lambda>idx i.
        let idx1 = (if f ! i = ''-j'' \<and> f ! (i + 1) = chain_pre p \<and> f ! 1 = ''PREROUTING'' then Some 4 else idx)
        in if f ! i = ''-j'' \<and> f ! (i + 1) = chain_out p \<and> f ! 1 = ''OUTPUT'' then Some 7 else idx1) st is = Some j
       \<Longrightarrow> st = Some j \<or> j = 4 \<or> j = 7" for st "is"
    proof (induction "is" arbitrary: st)
      case (Cons a "is")
      from Cons.IH [OF Cons.prems [simplified foldl_Cons]] show ?case
        by (auto simp: Let_def split: if_splits)
    qed simp
    assume "jump_index p f start = Some j"
    then show ?thesis unfolding jump_index_def by (rule fold)
  qed
  consider "bucket = 0" | "bucket = 1" | "bucket = 2" | "bucket > 2" by linarith
  then show ?thesis
  proof cases
    case 1
    then have fw: "firewall_index p check (str_fields line) w = (Inr (Some i), w')"
      using assms by (simp add: line_index_def Let_def)
    show ?thesis
      using fw unfolding firewall_index_def Let_def
      by (auto split: if_splits option.splits prod.splits dest!: jump)
  next
    case 2
    then show ?thesis
      using assms by (auto simp: line_index_def policy_index_def Let_def split: if_splits list.splits)
  next
    case 3
    then show ?thesis
      using assms by (auto simp: line_index_def route_index_def Let_def split: if_splits prod.splits)
  next
    case 4
    then show ?thesis using assms by (simp add: line_index_def Let_def)
  qed
qed

text \<open>Every count a classification returns is 0 or 1: duplicates are refused.\<close>

lemma classify_lines_counts:
  assumes "classify_lines p check bucket counts retained ls w = (Inr (counts', retained'), w')"
    and "length counts = 8" and "set counts \<subseteq> {0, 1}"
  shows "length counts' = 8 \<and> set counts' \<subseteq> {0, 1}"
  using assms
proof (induction ls arbitrary: counts retained w)
  case Nil
  then show ?case by simp
next
  case (Cons line ls)
  obtain r w1 where li: "line_index p check bucket line w = (r, w1)" by fastforce
  consider e where "r = Inl e" | "r = Inr None" | i where "r = Inr (Some i)"
    by (cases r) auto
  then show ?case
  proof cases
    case 1
    then show ?thesis using Cons.prems(1) li by simp
  next
    case 2
    then show ?thesis using Cons.IH Cons.prems li by simp
  next
    case 3
    let ?c = "counts[i := counts ! i + 1]"
    have i: "i < 8" using line_index_bound [of p check bucket line w i w1] li 3 by simp
    have le: "\<not> ?c ! i > 1" and rest: "classify_lines p check bucket ?c retained ls w1 = (Inr (counts', retained'), w')"
      using Cons.prems(1) li 3 by (auto simp: Let_def split: if_splits)
    have "counts ! i \<in> {0, 1}" using Cons.prems(2,3) i by (auto simp: subset_iff)
    then have "counts ! i + 1 \<in> {0, 1}" using le i Cons.prems(2) by auto
    then have "set ?c \<subseteq> {0, 1}"
      using Cons.prems(3) set_update_subset_insert [of counts i "counts ! i + 1"] by blast
    then show ?thesis using Cons.IH [OF rest] Cons.prems(2) by simp
  qed
qed

lemma classify_buckets_counts:
  assumes "classify_buckets p check bucket counts texts w = (Inr (counts', residual), w')"
    and "length counts = 8" and "set counts \<subseteq> {0, 1}"
  shows "length counts' = 8 \<and> set counts' \<subseteq> {0, 1}"
  using assms
proof (induction texts arbitrary: bucket counts w residual w')
  case Nil
  then show ?case by simp
next
  case (Cons t ts)
  from Cons.prems(1) obtain c1 ret w1 res' where
    first: "classify_lines p check bucket counts [] (split_on (CHR 0x0A) t) w = (Inr (c1, ret), w1)"
    and rest: "classify_buckets p check (Suc bucket) c1 ts w1 = (Inr (counts', res'), w')"
    by (auto split: prod.splits sum.splits)
  show ?case
    using Cons.IH [OF rest] classify_lines_counts [OF first] Cons.prems(2,3) by simp
qed

lemma classify_resources_counts:
  assumes "classify_resources sha p outputs check w = (Inr rw, w')"
  shows "length (rw_counts rw) = 8 \<and> set (rw_counts rw) \<subseteq> {0, 1} \<and>
         rw_whole rw = state_digest sha outputs"
  using assms classify_buckets_counts [of p check 0 "replicate 8 0" outputs w]
  by (auto simp: classify_resources_def split: sum.splits if_splits prod.splits)

end
