(* ===== verification/Scoped.thy ===== *)
theory Scoped
  imports Witness
begin

text \<open>
  The scoped observation, \<open>ebpf-proxy/internal/tproxy/scoped_linux.go\<close>: it looks only at the
  reserved footprint (chains with the plan's prefix, the plan's table, priority and mark) and
  refuses any foreign use of it. \<open>routing_aliases\<close> is \<open>routingAliases\<close> of
  \<open>preflight_linux.go\<close> on the contents of the alias files.
\<close>

section \<open>Symbolic routing tables\<close>

type_synonym aliases = "string \<Rightarrow> u32 option"

definition alias_line :: "aliases \<Rightarrow> string \<Rightarrow> aliases" where
  "alias_line m line =
     (case str_fields (hd (split_on (CHR ''#'') line)) of
        [n, name] \<Rightarrow> (case parse_uint0 32 n of Some i \<Rightarrow> m(name \<mapsto> word_of_nat i) | None \<Rightarrow> m)
      | _ \<Rightarrow> m)"

text \<open>A file that cannot be read is skipped (\<open>None\<close>); later files override earlier ones.\<close>

definition routing_aliases :: "string option list \<Rightarrow> aliases" where
  "routing_aliases files =
     foldl (\<lambda>m file. case file of None \<Rightarrow> m | Some b \<Rightarrow> foldl alias_line m (split_on (CHR 0x0A) b))
       (\<lambda>_. None) files"

section \<open>The witness\<close>

record scoped_witness =
  sw_counts :: "int list"
  sw_resources :: "string list list"
  sw_digest :: string

definition zero_scoped :: scoped_witness where
  "zero_scoped = \<lparr>sw_counts = replicate 8 0, sw_resources = replicate 8 [], sw_digest = []\<rparr>"

text \<open>\<open>excluding\<close>: the digest of the resources with one of them dropped; \<open>None\<close> is index -1.\<close>

definition resources_digest :: "(string \<Rightarrow> u8 list) \<Rightarrow> string list list \<Rightarrow> string" where
  "resources_digest sha rs =
     state_digest sha [''scoped-witness-v3'', json_array (map json_slice rs)]"

definition sw_excluding :: "(string \<Rightarrow> u8 list) \<Rightarrow> string list list \<Rightarrow> int \<Rightarrow> string" where
  "sw_excluding sha rs index =
     resources_digest sha (if 0 \<le> index \<and> index < int (length rs) then rs[nat index := []] else rs)"

section \<open>The classifier\<close>

text \<open>One \<open>-j\<close>/\<open>-g\<close> word of a firewall line.\<close>

definition jump_target :: "plan \<Rightarrow> string list \<Rightarrow> gerr + nat option \<Rightarrow> nat \<Rightarrow> gerr + nat option" where
  "jump_target p f acc i =
     (case acc of
        Inl e \<Rightarrow> Inl e
      | Inr idx \<Rightarrow>
          if f ! i = ''-j'' \<or> f ! i = ''-g'' then
            let target = f ! (i + 1)
            in if target = chain_pre p \<or> target = chain_out p then
                 if f ! 0 \<noteq> ''-A'' \<or> f ! i \<noteq> ''-j'' \<or> (target = chain_pre p \<and> f ! 1 \<noteq> ''PREROUTING'') \<or>
                    (target = chain_out p \<and> f ! 1 \<noteq> ''OUTPUT'')
                 then Inl (Err ''foreign reference to reserved chain'')
                 else Inr (Some (if target = chain_pre p then 4 else 7))
               else if has_prefix target (pl_prefix p) then Inl (Err ''reserved chain prefix collision'')
               else Inr idx
          else Inr idx)"

definition packet_overlap :: "plan \<Rightarrow> mark_use \<Rightarrow> bool" where
  "packet_overlap p u \<longleftrightarrow> mu_kind u = ''packet'' \<and> mu_mask u AND pl_mask p \<noteq> 0"

definition scoped_firewall :: "plan \<Rightarrow> string \<Rightarrow> string list \<Rightarrow> gerr + nat option" where
  "scoped_firewall p line f =
     (if length f < 2 then Inl (Err ''unrecognized firewall observation'')
      else
        let i0 = (if f ! 0 = ''-N'' \<and> (f ! 1 = chain_pre p \<or> f ! 1 = chain_out p)
                  then Some (if f ! 1 = chain_pre p then 2 else 5) else None);
            i1 = (if f ! 0 = ''-A'' \<and> (f ! 1 = chain_pre p \<or> f ! 1 = chain_out p)
                  then Some (if f ! 1 = chain_pre p then 3 else 6) else i0)
        in (case foldl (jump_target p f) (Inr i1) [2 ..< length f - 1] of
              Inl e \<Rightarrow> Inl e
            | Inr idx \<Rightarrow>
                if has_prefix (f ! 1) (pl_prefix p) \<and> f ! 1 \<noteq> chain_pre p \<and> f ! 1 \<noteq> chain_out p
                then Inl (Err ''reserved chain prefix collision'')
                else if idx = None \<and> list_ex (packet_overlap p) (mark_uses ''firewall'' line)
                then Inl (Err ''foreign firewall overlaps reserved mark'')
                else Inr idx))"

definition table_id :: "aliases \<Rightarrow> string \<Rightarrow> u32 option" where
  "table_id aliases name =
     (case parse_uint 10 32 name of
        Some n \<Rightarrow> Some (word_of_nat n)
      | None \<Rightarrow>
          (case aliases name of
             Some v \<Rightarrow> Some v
           | None \<Rightarrow> if name = ''local'' then Some 255
                     else if name = ''main'' then Some 254
                     else if name = ''default'' then Some 253
                     else None))"

definition policy_target :: "plan \<Rightarrow> aliases \<Rightarrow> bool \<Rightarrow> string list \<Rightarrow> gerr option \<Rightarrow> nat \<Rightarrow> gerr option" where
  "policy_target p aliases ours f acc i =
     (case acc of
        Some e \<Rightarrow> Some e
      | None \<Rightarrow>
          if f ! i = ''lookup'' \<or> f ! i = ''table'' then
            (case table_id aliases (f ! (i + 1)) of
               None \<Rightarrow> Some (Err ''unresolved policy table alias'')
             | Some v \<Rightarrow> if v = pl_table p \<and> \<not> ours
                         then Some (Err ''foreign reference to reserved table'') else None)
          else None)"

definition scoped_policy :: "plan \<Rightarrow> aliases \<Rightarrow> string \<Rightarrow> string list \<Rightarrow> gerr + nat option" where
  "scoped_policy p aliases line f =
     (case parse_uint 10 32 (trim_suffix (f ! 0) '':'') of
        None \<Rightarrow> Inl (Err ''unrecognized policy priority'')
      | Some n \<Rightarrow>
          let ours = ((word_of_nat n :: u32) = pl_priority p)
          in (case foldl (policy_target p aliases ours f) None [1 ..< length f - 1] of
                Some e \<Rightarrow> Inl e
              | None \<Rightarrow>
                  if \<not> ours \<and> list_ex (\<lambda>u. mu_mask u AND pl_mask p \<noteq> 0) (mark_uses ''rule'' line)
                  then Inl (Err ''foreign policy overlaps reserved mark'')
                  else Inr (if ours then Some 1 else None)))"

definition route_reserved :: "plan \<Rightarrow> aliases \<Rightarrow> string list \<Rightarrow> bool" where
  "route_reserved p aliases f \<longleftrightarrow>
     list_ex (\<lambda>i. f ! i = ''table'' \<and>
        (f ! (i + 1) = utoa (unat (pl_table p)) \<or>
         (case aliases (f ! (i + 1)) of Some v \<Rightarrow> v | None \<Rightarrow> 0) = pl_table p)) [0 ..< length f - 1]"

definition scoped_route :: "plan \<Rightarrow> aliases \<Rightarrow> int list \<Rightarrow> string list \<Rightarrow> gerr + nat option" where
  "scoped_route p aliases counts f =
     (if route_reserved p aliases f then
        if length f < 4 \<or> f ! 0 \<noteq> ''local'' \<or> \<not> is_planned_address p (f ! 1) \<or> f ! 2 \<noteq> ''dev'' \<or> f ! 3 \<noteq> ''lo''
        then Inl (Err ''foreign route in reserved table'')
        else if counts ! 0 \<noteq> 1 then Inl (Err ''reserved route not exactly verified'')
        else Inr (Some 0)
      else Inr None)"

definition scoped_line :: "plan \<Rightarrow> aliases \<Rightarrow> int list \<Rightarrow> nat \<Rightarrow> string \<Rightarrow> gerr + nat option" where
  "scoped_line p aliases counts bucket line =
     (let f = str_fields line
      in if f = [] then Inr None
         else if bucket = 0 then scoped_firewall p line f
         else if bucket = 1 then scoped_policy p aliases line f
         else if bucket = 2 then scoped_route p aliases counts f
         else Inr None)"

fun scoped_lines :: "plan \<Rightarrow> aliases \<Rightarrow> int list \<Rightarrow> nat \<Rightarrow> string list list \<Rightarrow> string list
    \<Rightarrow> gerr + string list list" where
  "scoped_lines p aliases counts bucket rs [] = Inr rs"
| "scoped_lines p aliases counts bucket rs (line # ls) =
     (case scoped_line p aliases counts bucket line of
        Inl e \<Rightarrow> Inl e
      | Inr None \<Rightarrow> scoped_lines p aliases counts bucket rs ls
      | Inr (Some i) \<Rightarrow>
          scoped_lines p aliases counts bucket (rs[i := rs ! i @ [join '' '' (str_fields line)]]) ls)"

fun scoped_buckets :: "plan \<Rightarrow> aliases \<Rightarrow> int list \<Rightarrow> nat \<Rightarrow> string list list \<Rightarrow> string list
    \<Rightarrow> gerr + string list list" where
  "scoped_buckets p aliases counts bucket rs [] = Inr rs"
| "scoped_buckets p aliases counts bucket rs (text # texts) =
     (case scoped_lines p aliases counts bucket rs (split_on (CHR 0x0A) text) of
        Inl e \<Rightarrow> Inl e
      | Inr rs1 \<Rightarrow> scoped_buckets p aliases counts (Suc bucket) rs1 texts)"

definition classify_scoped :: "(string \<Rightarrow> u8 list) \<Rightarrow> plan \<Rightarrow> string list \<Rightarrow> aliases \<Rightarrow> 'w checker \<Rightarrow> 'w
    \<Rightarrow> (gerr + scoped_witness) \<times> 'w" where
  "classify_scoped sha p outputs aliases check w =
     (case classify_resources sha p outputs check w of
        (Inl e, w1) \<Rightarrow> (Inl e, w1)
      | (Inr rw, w1) \<Rightarrow>
          (case scoped_buckets p aliases (rw_counts rw) 0 (replicate 8 []) outputs of
             Inl e \<Rightarrow> (Inl e, w1)
           | Inr rs \<Rightarrow>
               if list_ex (\<lambda>i. int (length (rs ! i)) \<noteq> rw_counts rw ! i) [0 ..< 8]
               then (Inl (Err ''mixed scoped observation''), w1)
               else (Inr \<lparr>sw_counts = rw_counts rw, sw_resources = rs,
                          sw_digest = sw_excluding sha rs (-1)\<rparr>, w1)))"

definition observe_pass :: "(string \<Rightarrow> u8 list) \<Rightarrow> aliases \<Rightarrow> 'w runner \<Rightarrow> plan \<Rightarrow> 'w
    \<Rightarrow> (gerr + scoped_witness) \<times> 'w" where
  "observe_pass sha aliases run p w =
     (case capture_namespace run w of
        (Inl e, w1) \<Rightarrow> (Inl e, w1)
      | (Inr outputs, w1) \<Rightarrow>
          classify_scoped sha p outputs aliases (rule_check run (planned_steps p)) w1)"

definition observe_scoped_with :: "(string \<Rightarrow> u8 list) \<Rightarrow> aliases \<Rightarrow> 'w runner \<Rightarrow> plan \<Rightarrow> 'w
    \<Rightarrow> (gerr + scoped_witness) \<times> 'w" where
  "observe_scoped_with sha aliases run p w =
     (case plan_steps p of
        Inl e \<Rightarrow> (Inl e, w)
      | Inr _ \<Rightarrow>
          (case observe_pass sha aliases run p w of
             (Inl e, w1) \<Rightarrow> (Inl e, w1)
           | (Inr previous, w1) \<Rightarrow>
               (case observe_pass sha aliases run p w1 of
                  (Inl e, w2) \<Rightarrow> (Inl e, w2)
                | (Inr current, w2) \<Rightarrow>
                    if sw_digest previous \<noteq> sw_digest current
                    then (Inl (Err ''scoped resources changed during observation''), w2)
                    else (Inr current, w2))))"

section \<open>Lemmas\<close>

lemma scoped_lines_length: "scoped_lines p al c b rs ls = Inr rs' \<Longrightarrow> length rs' = length rs"
  by (induction ls arbitrary: rs) (auto split: sum.splits option.splits)

lemma scoped_buckets_length: "scoped_buckets p al c b rs ts = Inr rs' \<Longrightarrow> length rs' = length rs"
  by (induction ts arbitrary: rs b) (auto split: sum.splits dest: scoped_lines_length)

lemma classify_scoped_shape:
  assumes "classify_scoped sha p outputs al check w = (Inr sw, w')"
  shows "length (sw_counts sw) = 8 \<and> length (sw_resources sw) = 8 \<and>
         set (sw_counts sw) \<subseteq> {0, 1} \<and>
         (\<forall>i < 8. int (length (sw_resources sw ! i)) = sw_counts sw ! i) \<and>
         sw_digest sw = resources_digest sha (sw_resources sw)"
proof -
  obtain rw w1 where cr: "classify_resources sha p outputs check w = (Inr rw, w1)"
    using assms by (auto simp: classify_scoped_def split: prod.splits sum.splits)
  obtain rs where rs: "scoped_buckets p al (rw_counts rw) 0 (replicate 8 []) outputs = Inr rs"
    using assms by (auto simp: classify_scoped_def cr split: sum.splits)
  have sw: "sw = \<lparr>sw_counts = rw_counts rw, sw_resources = rs, sw_digest = sw_excluding sha rs (-1)\<rparr>"
    and ok: "\<not> list_ex (\<lambda>i. int (length (rs ! i)) \<noteq> rw_counts rw ! i) [0 ..< 8]"
    using assms by (auto simp: classify_scoped_def cr rs split: if_splits)
  have "\<forall>i < 8. int (length (rs ! i)) = rw_counts rw ! i"
    using ok by (auto simp: list_ex_iff)
  then show ?thesis
    using sw classify_resources_counts [OF cr] scoped_buckets_length [OF rs]
    by (simp add: sw_excluding_def)
qed

lemma observe_scoped_shape:
  assumes "observe_scoped_with sha al run p w = (Inr sw, w')"
  shows "length (sw_counts sw) = 8 \<and> length (sw_resources sw) = 8 \<and>
         set (sw_counts sw) \<subseteq> {0, 1} \<and>
         (\<forall>i < 8. int (length (sw_resources sw ! i)) = sw_counts sw ! i) \<and>
         sw_digest sw = resources_digest sha (sw_resources sw)"
  using assms
  by (auto simp: observe_scoped_with_def observe_pass_def split: sum.splits prod.splits if_splits
      dest!: classify_scoped_shape)

text \<open>Equal reserved resources have equal digests, and the dropped one does not count.\<close>

lemma sw_excluding_update [simp]: "sw_excluding sha (rs[i := x]) (int i) = sw_excluding sha rs (int i)"
  by (simp add: sw_excluding_def list_update_beyond)

lemma sw_excluding_minus [simp]: "sw_excluding sha rs (-1) = resources_digest sha rs"
  by (simp add: sw_excluding_def)

text \<open>A rule the firewall scan accepts as foreign never touches the reserved bit of the mark.\<close>

lemma scoped_firewall_foreign:
  assumes "scoped_firewall p line f = Inr None" and "u \<in> set (mark_uses ''firewall'' line)"
    and "mu_kind u = ''packet''"
  shows "mu_mask u AND pl_mask p = 0"
proof (rule ccontr)
  assume "mu_mask u AND pl_mask p \<noteq> 0"
  then have "list_ex (packet_overlap p) (mark_uses ''firewall'' line)"
    using assms by (auto simp: list_ex_iff packet_overlap_def)
  then show False
    using assms(1) by (auto simp: scoped_firewall_def Let_def split: if_splits sum.splits)
qed

end
