(* ===== verification/Json.thy ===== *)
theory Json
  imports GoStrings
begin

text \<open>
  JSON documents as values, with the struct decoding rules of \<open>encoding/json\<close> that the program
  relies on: object members are matched to fields without regard to case, \<open>null\<close> leaves a field
  alone, a member of the wrong type is an error, and \<open>DisallowUnknownFields\<close> refuses a member
  that matches no field. The text layer is in \<open>JsonText\<close>.
\<close>

datatype json =
    JNull
  | JBool bool
  | JInt int
  | JReal
  | JStr string
  | JArr "json list"
  | JObj "(string \<times> json) list"

text \<open>
  What a decoder finds next in its input: nothing but white space (\<open>io.EOF\<close>), no valid
  value, or a value and the input after it.
\<close>

datatype json_token = TokEof | TokBad | TokVal json string

type_synonym json_reader = "string \<Rightarrow> json_token"

definition fold_eq :: "string \<Rightarrow> string \<Rightarrow> bool" where
  "fold_eq a b \<longleftrightarrow> to_lower a = to_lower b"

text \<open>Decoding one value into a field of a Go type; \<open>old\<close> is the field before.\<close>

definition dec_string :: "json \<Rightarrow> string \<Rightarrow> string option" where
  "dec_string v old = (case v of JNull \<Rightarrow> Some old | JStr s \<Rightarrow> Some s | _ \<Rightarrow> None)"

definition dec_bool :: "json \<Rightarrow> bool \<Rightarrow> bool option" where
  "dec_bool v old = (case v of JNull \<Rightarrow> Some old | JBool b \<Rightarrow> Some b | _ \<Rightarrow> None)"

definition dec_int :: "json \<Rightarrow> int \<Rightarrow> int option" where
  "dec_int v old =
     (case v of JNull \<Rightarrow> Some old | JInt i \<Rightarrow> if int64_range i then Some i else None | _ \<Rightarrow> None)"

definition dec_uint :: "nat \<Rightarrow> json \<Rightarrow> nat \<Rightarrow> nat option" where
  "dec_uint bits v old =
     (case v of JNull \<Rightarrow> Some old
      | JInt i \<Rightarrow> if 0 \<le> i \<and> i < 2 ^ bits then Some (nat i) else None
      | _ \<Rightarrow> None)"

text \<open>A struct: the members in order, each handed to the field it matches.\<close>

fun dec_members :: "(string \<Rightarrow> json \<Rightarrow> 'a \<Rightarrow> 'a option) \<Rightarrow> (string \<times> json) list \<Rightarrow> 'a \<Rightarrow> 'a option" where
  "dec_members field [] r = Some r"
| "dec_members field ((k, v) # ms) r =
     (case field k v r of None \<Rightarrow> None | Some r' \<Rightarrow> dec_members field ms r')"

definition dec_struct :: "(string \<Rightarrow> json \<Rightarrow> 'a \<Rightarrow> 'a option) \<Rightarrow> json \<Rightarrow> 'a \<Rightarrow> 'a option" where
  "dec_struct field v r =
     (case v of JNull \<Rightarrow> Some r | JObj ms \<Rightarrow> dec_members field ms r | _ \<Rightarrow> None)"

lemma fold_eq_refl [simp]: "fold_eq a a"
  by (simp add: fold_eq_def)

lemma dec_string_JStr [simp]: "dec_string (JStr s) old = Some s"
  by (simp add: dec_string_def)

lemma dec_int_JInt [simp]: "int64_range i \<Longrightarrow> dec_int (JInt i) old = Some i"
  by (simp add: dec_int_def)

lemma dec_uint_JInt [simp]: "n < 2 ^ bits \<Longrightarrow> dec_uint bits (JInt (int n)) old = Some n"
  by (simp add: dec_uint_def)

end
