(* ===== verification/JsonText.thy ===== *)
theory JsonText
  imports Json Digest
begin

text \<open>
  The text layer of \<open>encoding/json\<close>: the compact printer, a reader of one value, and their round
  trip. Input bytes at or above 0x80 pass through unchanged (the reader does not replace
  ill-formed UTF-8), and printed strings are ASCII.
\<close>

section \<open>Printing\<close>

fun json_text :: "json \<Rightarrow> string" where
  "json_text JNull = ''null''"
| "json_text (JBool b) = (if b then ''true'' else ''false'')"
| "json_text (JInt i) = itoa i"
| "json_text JReal = ''0.5''"
| "json_text (JStr s) = json_string s"
| "json_text (JArr vs) = json_array (map json_text vs)"
| "json_text (JObj ms) =
     [CHR 0x7B] @ join '','' (map (\<lambda>m. json_string (fst m) @ '':'' @ json_text (snd m)) ms) @ [CHR 0x7D]"

section \<open>Reading\<close>

definition json_space :: "char \<Rightarrow> bool" where
  "json_space c \<longleftrightarrow> c = CHR '' '' \<or> c = CHR 0x09 \<or> c = CHR 0x0A \<or> c = CHR 0x0D"

definition skip_space :: "string \<Rightarrow> string" where
  "skip_space s = dropWhile json_space s"

definition expect :: "char \<Rightarrow> string \<Rightarrow> string option" where
  "expect c s = (case skip_space s of [] \<Rightarrow> None | d # t \<Rightarrow> if d = c then Some t else None)"

text \<open>The UTF-8 bytes of a code point below 0x10000.\<close>

definition utf8 :: "nat \<Rightarrow> string" where
  "utf8 n =
     (if n < 0x80 then [char_of n]
      else if n < 0x800 then [char_of (0xC0 + n div 64), char_of (0x80 + n mod 64)]
      else [char_of (0xE0 + n div 4096), char_of (0x80 + n div 64 mod 64), char_of (0x80 + n mod 64)])"

text \<open>One escape after its backslash; a surrogate becomes the replacement character.\<close>

definition json_escape :: "string \<Rightarrow> (string \<times> string) option" where
  "json_escape s =
     (case s of
        [] \<Rightarrow> None
      | x # t \<Rightarrow>
          if x = CHR 0x22 \<or> x = CHR 0x5C \<or> x = CHR ''/'' then Some ([x], t)
          else if x = CHR ''b'' then Some ([CHR 0x08], t)
          else if x = CHR ''f'' then Some ([CHR 0x0C], t)
          else if x = CHR ''n'' then Some ([CHR 0x0A], t)
          else if x = CHR ''r'' then Some ([CHR 0x0D], t)
          else if x = CHR ''t'' then Some ([CHR 0x09], t)
          else if x = CHR ''u'' \<and> length t \<ge> 4 then
            (case digits_value 16 0 (take 4 t) of
               None \<Rightarrow> None
             | Some n \<Rightarrow> Some (utf8 (if 0xD800 \<le> n \<and> n < 0xE000 then 0xFFFD else n), drop 4 t))
          else None)"

fun json_chars :: "nat \<Rightarrow> string \<Rightarrow> (string \<times> string) option" where
  "json_chars 0 s = None"
| "json_chars (Suc n) [] = None"
| "json_chars (Suc n) (c # s) =
     (if c = CHR 0x22 then Some ([], s)
      else if (of_char c :: nat) < 32 then None
      else if c = CHR 0x5C then
        (case json_escape s of
           None \<Rightarrow> None
         | Some (x, r) \<Rightarrow> map_option (\<lambda>(y, r'). (x @ y, r')) (json_chars n r))
      else map_option (\<lambda>(y, r'). (c # y, r')) (json_chars n s))"

lemma json_chars_code [code]:
  "json_chars n s =
     (if n = 0 \<or> s = [] then None
      else
        let c = hd s; t = tl s
        in if c = CHR 0x22 then Some ([], t)
           else if (of_char c :: nat) < 32 then None
           else if c = CHR 0x5C then
             (case json_escape t of
                None \<Rightarrow> None
              | Some (x, r) \<Rightarrow> map_option (\<lambda>(y, r'). (x @ y, r')) (json_chars (n - 1) r))
           else map_option (\<lambda>(y, r'). (c # y, r')) (json_chars (n - 1) t))"
  by (cases n; cases s) (auto simp: Let_def split: option.splits)

definition int_digits :: "string \<Rightarrow> string" where
  "int_digits s =
     (case takeWhile is_digit s of [] \<Rightarrow> [] | d # ds \<Rightarrow> if d = CHR ''0'' then [d] else d # ds)"

text \<open>What follows the integer part: nothing, or a fraction and an exponent.\<close>

definition number_tail :: "string \<Rightarrow> (bool \<times> string) option" where
  "number_tail s =
     (let frac = (case s of [] \<Rightarrow> Some (False, s)
                  | c # t \<Rightarrow> if c \<noteq> CHR ''.'' then Some (False, s)
                             else if takeWhile is_digit t = [] then None
                             else Some (True, dropWhile is_digit t))
      in case frac of
           None \<Rightarrow> None
         | Some (f, r) \<Rightarrow>
             (case r of [] \<Rightarrow> Some (f, r)
              | c # t \<Rightarrow>
                  if c \<noteq> CHR ''e'' \<and> c \<noteq> CHR ''E'' then Some (f, r)
                  else
                    let u = (if t \<noteq> [] \<and> (hd t = CHR ''+'' \<or> hd t = CHR ''-'') then tl t else t)
                    in if takeWhile is_digit u = [] then None else Some (True, dropWhile is_digit u)))"

definition json_number :: "string \<Rightarrow> (json \<times> string) option" where
  "json_number s =
     (let neg = (s \<noteq> [] \<and> hd s = CHR ''-'');
          body = (if neg then tl s else s);
          ds = int_digits body
      in case (digits_value 10 0 ds, number_tail (drop (length ds) body)) of
           (Some n, Some (real, rest)) \<Rightarrow>
             if ds = [] then None
             else Some (if real then JReal else JInt (if neg then - int n else int n), rest)
         | _ \<Rightarrow> None)"

fun json_value :: "nat \<Rightarrow> string \<Rightarrow> (json \<times> string) option"
  and json_members :: "nat \<Rightarrow> string \<Rightarrow> ((string \<times> json) list \<times> string) option"
  and json_elems :: "nat \<Rightarrow> string \<Rightarrow> (json list \<times> string) option" where
  "json_value 0 s = None"
| "json_value (Suc n) s =
     (let t = skip_space s
      in if t = [] then None
         else if hd t = CHR 0x22 then map_option (\<lambda>(x, r). (JStr x, r)) (json_chars n (tl t))
         else if hd t = CHR 0x7B then
           (case expect (CHR 0x7D) (tl t) of
              Some r \<Rightarrow> Some (JObj [], r)
            | None \<Rightarrow> map_option (\<lambda>(ms, r). (JObj ms, r)) (json_members n (tl t)))
         else if hd t = CHR 0x5B then
           (case expect (CHR 0x5D) (tl t) of
              Some r \<Rightarrow> Some (JArr [], r)
            | None \<Rightarrow> map_option (\<lambda>(vs, r). (JArr vs, r)) (json_elems n (tl t)))
         else if has_prefix t ''null'' then Some (JNull, drop 4 t)
         else if has_prefix t ''true'' then Some (JBool True, drop 4 t)
         else if has_prefix t ''false'' then Some (JBool False, drop 5 t)
         else json_number t)"
| "json_members 0 s = None"
| "json_members (Suc n) s =
     (case expect (CHR 0x22) s of
        None \<Rightarrow> None
      | Some t \<Rightarrow>
          (case json_chars n t of
             None \<Rightarrow> None
           | Some (k, r) \<Rightarrow>
               (case expect (CHR '':'') r of
                  None \<Rightarrow> None
                | Some r1 \<Rightarrow>
                    (case json_value n r1 of
                       None \<Rightarrow> None
                     | Some (v, r2) \<Rightarrow>
                         (case (expect (CHR 0x7D) r2, expect (CHR '','') r2) of
                            (Some r3, _) \<Rightarrow> Some ([(k, v)], r3)
                          | (None, Some r3) \<Rightarrow>
                              map_option (\<lambda>(ms, r4). ((k, v) # ms, r4)) (json_members n r3)
                          | (None, None) \<Rightarrow> None)))))"
| "json_elems 0 s = None"
| "json_elems (Suc n) s =
     (case json_value n s of
        None \<Rightarrow> None
      | Some (v, r) \<Rightarrow>
          (case (expect (CHR 0x5D) r, expect (CHR '','') r) of
             (Some r1, _) \<Rightarrow> Some ([v], r1)
           | (None, Some r1) \<Rightarrow> map_option (\<lambda>(vs, r2). (v # vs, r2)) (json_elems n r1)
           | (None, None) \<Rightarrow> None))"

text \<open>A decoder's next step. Every call consumes a byte, so the length is enough fuel.\<close>

definition json_read :: json_reader where
  "json_read s =
     (if skip_space s = [] then TokEof
      else case json_value (Suc (length s)) s of
             None \<Rightarrow> TokBad
           | Some (v, r) \<Rightarrow> TokVal v r)"

text \<open>\<open>d.Decode(&r)\<close> followed by the check that nothing but white space is left.\<close>

definition decode_single :: "(json \<Rightarrow> 'a option) \<Rightarrow> string \<Rightarrow> gerr \<Rightarrow> gerr \<Rightarrow> gerr + 'a" where
  "decode_single dec b bad trailing =
     (case json_read b of
        TokVal v rest \<Rightarrow>
          (case dec v of
             None \<Rightarrow> Inl bad
           | Some r \<Rightarrow> if json_read rest = TokEof then Inr r else Inl trailing)
      | _ \<Rightarrow> Inl bad)"

section \<open>The printer is read back\<close>

lemma json_read_Nil [simp]: "json_read [] = TokEof"
  by (simp add: json_read_def skip_space_def)

lemma json_chars_char:
  "json_chars (Suc n) (json_char c @ s) = map_option (\<lambda>(y, r). (c # y, r)) (json_chars n s)"
proof -
  have lt: "(of_char c :: nat) < 256" by (rule nat_of_char_less_256)
  then have "(of_char c :: nat) < 16 ^ 4" by (rule order_less_trans) simp
  then have hex: "digits_value 16 0 (hex_digits 4 (of_char c)) = Some (of_char c)"
    by (rule digits_value_hex)
  have esc: "json_chars (Suc n) (CHR 0x5C # x # t) =
      (case json_escape (x # t) of None \<Rightarrow> None
       | Some (z, r) \<Rightarrow> map_option (\<lambda>(y, r'). (z @ y, r')) (json_chars n r))" for x t
    by simp
  let ?special = "{CHR 0x22, CHR 0x5C, CHR 0x08, CHR 0x0C, CHR 0x0A, CHR 0x0D, CHR 0x09}"
  let ?coded = "(of_char c :: nat) < 32 \<or> c = CHR ''<'' \<or> c = CHR ''>'' \<or> c = CHR ''&''"
  consider (special) "c \<in> ?special" | (u) "c \<notin> ?special" ?coded | (plain) "c \<notin> ?special" "\<not> ?coded"
    by satx
  then show ?thesis
  proof cases
    case special
    then show ?thesis
      by (elim insertE emptyE) (simp_all add: json_char_def json_escape_def)
  next
    case u
    then have code: "(of_char c :: nat) < 0x80" by (elim disjE) simp_all
    have jc: "json_char c = CHR 0x5C # CHR ''u'' # hex_digits 4 (of_char c)"
      using u by (simp only: json_char_def insert_iff empty_iff de_Morgan_disj if_False if_True simp_thms append.simps)
    have "json_escape (CHR ''u'' # hex_digits 4 (of_char c) @ s) = Some ([c], s)"
      using code hex by (simp add: json_escape_def utf8_def)
    then show ?thesis unfolding jc append_Cons esc by simp
  next
    case plain
    then show ?thesis by (simp add: json_char_def)
  qed
qed

lemma json_chars_body:
  "length xs < n \<Longrightarrow> json_chars n (concat (map json_char xs) @ CHR 0x22 # r) = Some (xs, r)"
proof (induction xs arbitrary: n)
  case Nil
  then show ?case by (cases n) auto
next
  case (Cons x xs)
  then obtain m where "n = Suc m" "length xs < m" by (cases n) auto
  then show ?case using Cons.IH by (simp add: json_chars_char)
qed

lemma length_json_char: "1 \<le> length (json_char c)" "length (json_char c) \<le> 6"
  by (auto simp: json_char_def)

lemma length_json_string:
  "length s + 2 \<le> length (json_string s)" "length (json_string s) \<le> 6 * length s + 2"
proof -
  have "length s \<le> length (concat (map json_char s))"
    by (induction s) (use length_json_char in \<open>auto intro: le_trans add_mono\<close>)
  moreover have "length (concat (map json_char s)) \<le> 6 * length s"
    by (induction s) (use length_json_char in \<open>auto intro: add_mono\<close>)
  ultimately show "length s + 2 \<le> length (json_string s)" "length (json_string s) \<le> 6 * length s + 2"
    by (simp_all add: json_string_def)
qed

lemma takeWhile_digits_append:
  "list_all is_digit xs \<Longrightarrow> r = [] \<or> \<not> is_digit (hd r) \<Longrightarrow> takeWhile is_digit (xs @ r) = xs"
  by (induction xs) (cases r, auto)

lemma utoa_all_digits: "list_all is_digit (utoa n)"
proof -
  have "is_digit c" if "c \<in> set (utoa n)" for c
    using utoa_digits [OF that] by (auto simp: is_digit_def of_char_digit_char)
  then show ?thesis by (simp add: list_all_iff)
qed

lemma utoa_leading_zero: "n \<noteq> 0 \<Longrightarrow> hd (utoa n) \<noteq> CHR ''0''"
proof (induction n rule: utoa.induct)
  case (1 n)
  show ?case
  proof (cases "n < 10")
    case True
    have "digit_value (digit_char n) = Some n" using True by simp
    moreover have "digit_value (CHR ''0'') = Some 0" by (simp add: digit_value_def Let_def)
    ultimately have "digit_char n \<noteq> CHR ''0''" using 1(2) by (metis option.inject)
    then show ?thesis using True by (simp add: utoa.simps [of n])
  next
    case False
    then have "hd (utoa (n div 10)) \<noteq> CHR ''0''" using 1 by simp
    then show ?thesis using False by (simp add: utoa.simps [of n])
  qed
qed

lemma utoa_zero: "utoa 0 = ''0''"
  by code_simp

text \<open>The text after a number must not continue it.\<close>

definition ends_number :: "string \<Rightarrow> bool" where
  "ends_number r \<longleftrightarrow> r = [] \<or> \<not> is_digit (hd r) \<and> hd r \<notin> {CHR ''.'', CHR ''e'', CHR ''E''}"

lemma int_digits_utoa: "ends_number r \<Longrightarrow> int_digits (utoa n @ r) = utoa n"
proof -
  assume "ends_number r"
  then have tw: "takeWhile is_digit (utoa n @ r) = utoa n"
    by (intro takeWhile_digits_append utoa_all_digits) (auto simp: ends_number_def)
  show ?thesis
  proof (cases "n = 0")
    case True
    then show ?thesis using tw by (simp add: int_digits_def utoa_zero)
  next
    case False
    then show ?thesis using utoa_leading_zero [OF False] utoa_not_Nil [of n]
      unfolding int_digits_def tw by (cases "utoa n") auto
  qed
qed

lemma number_tail_end: "ends_number r \<Longrightarrow> number_tail r = Some (False, r)"
  by (cases r) (auto simp: number_tail_def ends_number_def)

lemma itoa_cases: "(0 \<le> i \<and> itoa i = utoa (nat i)) \<or> (i < 0 \<and> itoa i = CHR ''-'' # utoa (nat (- i)))"
  by (auto simp: itoa_def)

lemma hd_utoa_digit: "is_digit (hd (utoa n))"
  using utoa_all_digits [of n] utoa_not_Nil [of n] by (cases "utoa n") auto

lemma json_number_itoa: "ends_number r \<Longrightarrow> json_number (itoa i @ r) = Some (JInt i, r)"
proof -
  assume en: "ends_number r"
  have hd: "hd (utoa n @ r) \<noteq> CHR ''-''" for n
    using hd_utoa_digit [of n] utoa_not_Nil [of n] by (auto simp: is_digit_def)
  from itoa_cases [of i] show ?thesis
  proof (elim disjE conjE)
    assume "0 \<le> i" "itoa i = utoa (nat i)"
    then show ?thesis
      using en hd by (simp add: json_number_def Let_def int_digits_utoa digits_value_utoa number_tail_end)
  next
    assume "i < 0" "itoa i = CHR ''-'' # utoa (nat (- i))"
    then show ?thesis
      using en by (simp add: json_number_def Let_def int_digits_utoa digits_value_utoa number_tail_end)
  qed
qed

text \<open>Every document without a non-integer number is read back.\<close>

fun printable :: "json \<Rightarrow> bool" where
  "printable JReal = False"
| "printable (JArr vs) = list_all printable vs"
| "printable (JObj ms) = list_all (\<lambda>m. printable (snd m)) ms"
| "printable v = True"

definition reads_back :: "json \<Rightarrow> bool" where
  "reads_back v \<longleftrightarrow>
     (\<forall>n r. length (json_text v) \<le> n \<longrightarrow> ends_number r \<longrightarrow> json_value n (json_text v @ r) = Some (v, r))"

lemma skip_space_Cons [simp]: "\<not> json_space c \<Longrightarrow> skip_space (c # s) = c # s"
  by (simp add: skip_space_def)

lemma json_space_simps [simp]:
  "\<not> json_space (CHR 0x22)" "\<not> json_space (CHR 0x7B)" "\<not> json_space (CHR 0x7D)" "\<not> json_space (CHR 0x5B)"
  "\<not> json_space (CHR 0x5D)" "\<not> json_space (CHR '':'')" "\<not> json_space (CHR '','')"
  "\<not> json_space (CHR ''n'')" "\<not> json_space (CHR ''t'')" "\<not> json_space (CHR ''f'')" "\<not> json_space (CHR ''-'')"
  by (simp_all add: json_space_def)

lemma expect_Cons [simp]: "\<not> json_space d \<Longrightarrow> expect c (d # t) = (if d = c then Some t else None)"
  by (simp add: expect_def)

lemma ends_number_simps [simp]:
  "ends_number []" "ends_number (CHR '','' # r)" "ends_number (CHR 0x7D # r)" "ends_number (CHR 0x5D # r)"
  by (simp_all add: ends_number_def is_digit_def)

lemma join_Cons_if: "join sep (x # xs) = x @ (if xs = [] then [] else sep @ join sep xs)"
  by (cases xs) auto

definition member_text :: "string \<times> json \<Rightarrow> string" where
  "member_text m = json_string (fst m) @ '':'' @ json_text (snd m)"

lemma json_string_append: "json_string s @ r = CHR 0x22 # concat (map json_char s) @ CHR 0x22 # r"
  by (simp add: json_string_def)

lemma json_members_text:
  assumes "ms \<noteq> []" and "\<forall>m \<in> set ms. reads_back (snd m)"
    and "length (join '','' (map member_text ms)) < n"
  shows "json_members n (join '','' (map member_text ms) @ CHR 0x7D # r) = Some (ms, r)"
  using assms
proof (induction ms arbitrary: n)
  case (Cons m ms)
  obtain k v where m: "m = (k, v)" by (cases m)
  obtain n' where n: "n = Suc n'" using Cons.prems(3) by (cases n) auto
  let ?rest = "if ms = [] then [] else '','' @ join '','' (map member_text ms)"
  let ?tail = "?rest @ CHR 0x7D # r"
  have eqt: "join '','' (map member_text (m # ms)) @ CHR 0x7D # r =
      CHR 0x22 # concat (map json_char k) @ CHR 0x22 # CHR '':'' # json_text v @ ?tail"
    by (simp add: join_Cons_if member_text_def m json_string_def)
  have member: "length (member_text m) = length (json_string k) + 1 + length (json_text v)"
    by (simp add: member_text_def m)
  have len: "length (json_string k) + 1 + length (json_text v) + length ?rest \<le> n'"
    using Cons.prems(3) member by (simp add: join_Cons_if n)
  have "length k < n'" and lv: "length (json_text v) \<le> n'"
    using len length_json_string(1) [of k] by linarith+
  then have key: "json_chars n' (concat (map json_char k) @ CHR 0x22 # u) = Some (k, u)" for u
    by (simp add: json_chars_body)
  have "ends_number ?tail" by simp
  then have val: "json_value n' (json_text v @ ?tail) = Some (v, ?tail)"
    using Cons.prems(2) lv by (simp add: m reads_back_def)
  show ?case
  proof (cases "ms = []")
    case True
    then show ?thesis unfolding eqt n using key val by (simp add: m)
  next
    case False
    have "json_members n' (join '','' (map member_text ms) @ CHR 0x7D # r) = Some (ms, r)"
      using False Cons.prems(2) len by (intro Cons.IH) auto
    then show ?thesis unfolding eqt n using key val False by (simp add: m)
  qed
qed simp

lemma json_elems_text:
  assumes "vs \<noteq> []" and "\<forall>v \<in> set vs. reads_back v"
    and "length (join '','' (map json_text vs)) < n"
  shows "json_elems n (join '','' (map json_text vs) @ CHR 0x5D # r) = Some (vs, r)"
  using assms
proof (induction vs arbitrary: n)
  case (Cons v vs)
  obtain n' where n: "n = Suc n'" using Cons.prems(3) by (cases n) auto
  let ?rest = "if vs = [] then [] else '','' @ join '','' (map json_text vs)"
  let ?tail = "?rest @ CHR 0x5D # r"
  have eqt: "join '','' (map json_text (v # vs)) @ CHR 0x5D # r = json_text v @ ?tail"
    by (simp add: join_Cons_if)
  have len: "length (json_text v) + length ?rest \<le> n'"
    using Cons.prems(3) by (simp add: join_Cons_if n)
  then have val: "json_value n' (json_text v @ ?tail) = Some (v, ?tail)"
    using Cons.prems(2) by (simp add: reads_back_def)
  show ?case
  proof (cases "vs = []")
    case True
    then show ?thesis unfolding eqt n using val by simp
  next
    case False
    have "json_elems n' (join '','' (map json_text vs) @ CHR 0x5D # r) = Some (vs, r)"
      using False Cons.prems(2) len by (intro Cons.IH) auto
    then show ?thesis unfolding eqt n using val False by simp
  qed
qed simp

lemma hd_utoa: "\<exists>c s. utoa n = c # s \<and> is_digit c"
  using hd_utoa_digit [of n] utoa_not_Nil [of n] by (cases "utoa n") auto

lemma json_value_number:
  assumes "is_digit c \<or> c = CHR ''-''"
  shows "json_value (Suc n) (c # s) = json_number (c # s)"
proof -
  have "c \<notin> {CHR 0x22, CHR 0x7B, CHR 0x5B, CHR ''n'', CHR ''t'', CHR ''f''} \<and> \<not> json_space c"
    using assms by (auto simp: is_digit_def json_space_def)
  then show ?thesis by (simp add: Let_def)
qed

lemma reads_back_int: "reads_back (JInt i)"
proof -
  have "json_value n (itoa i @ r) = Some (JInt i, r)" if len: "length (itoa i) \<le> n" and en: "ends_number r" for n r
  proof -
    obtain c s where c: "itoa i = c # s" "is_digit c \<or> c = CHR ''-''"
      using itoa_cases [of i] hd_utoa [of "nat i"] by auto
    then obtain m where "n = Suc m" using len by (cases n) auto
    then show ?thesis
      using json_number_itoa [OF en, of i] json_value_number [OF c(2), of m] c(1) by simp
  qed
  then show ?thesis by (simp add: reads_back_def)
qed

lemma reads_back_str: "reads_back (JStr x)"
proof -
  have "json_value n (json_string x @ r) = Some (JStr x, r)" if len: "length (json_string x) \<le> n" for n r
  proof -
    obtain m where m: "n = Suc m" using len length_json_string(1) [of x] by (cases n) auto
    then have "length x < m" using len length_json_string(1) [of x] by linarith
    then show ?thesis by (simp add: m json_string_append json_chars_body)
  qed
  then show ?thesis by (simp add: reads_back_def)
qed

lemma expect_text_close:
  "ms \<noteq> [] \<Longrightarrow> expect (CHR 0x7D) (join '','' (map member_text ms) @ r) = None"
  by (cases ms) (auto simp: join_Cons_if member_text_def json_string_def)

lemma json_text_hd: "\<exists>c s. json_text v = c # s \<and> c \<noteq> CHR 0x5D \<and> \<not> json_space c"
proof (cases v)
  case (JInt i)
  show ?thesis
    using itoa_cases [of i] hd_utoa [of "nat i"] JInt
    by (fastforce simp: is_digit_def json_space_def)
next
  case (JArr vs)
  then show ?thesis by (simp add: json_array_def)
qed (auto simp: json_string_def json_space_def)

lemma expect_elems_close:
  "vs \<noteq> [] \<Longrightarrow> expect (CHR 0x5D) (join '','' (map json_text vs) @ r) = None"
  using json_text_hd [of "hd vs"] by (cases vs) (auto simp: join_Cons_if)

lemma reads_back_text: "printable v \<Longrightarrow> reads_back v"
proof (induction v)
  case JNull
  then show ?case by (auto simp: reads_back_def Let_def elim: Suc_le_D [THEN exE] dest!: Suc_le_D)
next
  case (JBool b)
  then show ?case by (auto simp: reads_back_def Let_def dest!: Suc_le_D)
next
  case (JArr vs)
  have "json_value n (json_text (JArr vs) @ r) = Some (JArr vs, r)"
    if len: "length (json_text (JArr vs)) \<le> n" for n r
  proof -
    obtain m where m: "n = Suc m" using len by (cases n) (auto simp: json_array_def)
    show ?thesis
    proof (cases "vs = []")
      case True
      then show ?thesis by (simp add: m json_array_def)
    next
      case False
      have "json_elems m (join '','' (map json_text vs) @ CHR 0x5D # r) = Some (vs, r)"
        using False JArr len by (intro json_elems_text) (auto simp: m json_array_def list_all_iff)
      then show ?thesis using False by (simp add: m json_array_def expect_elems_close)
    qed
  qed
  then show ?case by (simp add: reads_back_def)
next
  case (JObj ms)
  have mt: "(\<lambda>m. json_string (fst m) @ '':'' @ json_text (snd m)) = member_text"
    by (simp add: member_text_def fun_eq_iff)
  have eqt: "json_text (JObj ms) = CHR 0x7B # join '','' (map member_text ms) @ [CHR 0x7D]"
    using mt by simp
  have "json_value n (json_text (JObj ms) @ r) = Some (JObj ms, r)"
    if len: "length (json_text (JObj ms)) \<le> n" for n r
  proof -
    obtain m where m: "n = Suc m" using len by (cases n) auto
    show ?thesis
    proof (cases "ms = []")
      case True
      then show ?thesis by (simp add: m)
    next
      case False
      have "json_members m (join '','' (map member_text ms) @ CHR 0x7D # r) = Some (ms, r)"
      proof (rule json_members_text [OF False])
        show "\<forall>x \<in> set ms. reads_back (snd x)"
          using JObj by (force simp: list_all_iff)
        show "length (join '','' (map member_text ms)) < m"
          using len unfolding eqt by (simp add: m)
      qed
      then show ?thesis unfolding eqt using False by (simp add: m expect_text_close)
    qed
  qed
  then show ?case by (simp add: reads_back_def)
qed (simp_all add: reads_back_int reads_back_str)

lemma json_read_text:
  assumes "printable v" and "ends_number r"
  shows "json_read (json_text v @ r) = TokVal v r"
proof -
  obtain c s where "json_text v = c # s" "\<not> json_space c" using json_text_hd [of v] by auto
  then have "skip_space (json_text v @ r) \<noteq> []" by simp
  moreover have "json_value (Suc (length (json_text v @ r))) (json_text v @ r) = Some (v, r)"
    using reads_back_text [OF assms(1)] assms(2) unfolding reads_back_def by (metis le_SucI length_append le_add1)
  ultimately show ?thesis by (simp add: json_read_def)
qed

end
