(* ===== verification/Net.thy ===== *)
theory Net
  imports Plan Report
begin

text \<open>
  The parts of package \<open>net\<close> and \<open>strconv\<close> the program uses on addresses: \<open>ParseIP\<close>,
  \<open>ParseCIDR\<close>, \<open>SplitHostPort\<close> and \<open>JoinHostPort\<close>.
\<close>

section \<open>Addresses\<close>

definition octet_text :: "string \<Rightarrow> u8 option" where
  "octet_text s =
     (if length s > 1 \<and> hd s = CHR ''0'' then None
      else case parse_uint 10 8 s of None \<Rightarrow> None | Some n \<Rightarrow> Some (word_of_nat n))"

definition parse_ip4 :: "string \<Rightarrow> ip_addr option" where
  "parse_ip4 s =
     (case map octet_text (split_on (CHR ''.'') s) of
        [Some a, Some b, Some c, Some d] \<Rightarrow> Some (Ip4 a b c d)
      | _ \<Rightarrow> None)"

fun ip4_groups :: "ip_addr \<Rightarrow> u16 list" where
  "ip4_groups (Ip4 a b c d) =
     [word_of_nat (unat a * 256 + unat b), word_of_nat (unat c * 256 + unat d)]"
| "ip4_groups _ = []"

text \<open>
  One IPv6 group loop of \<open>netip.parseIPv6\<close>: the groups read so far, where \<open>::\<close> stood, and the
  text left. Eight groups end it; a dotted tail fills two.
\<close>

function ip6_groups :: "u16 list \<Rightarrow> nat option \<Rightarrow> string \<Rightarrow> (u16 list \<times> nat option \<times> string) option" where
  "ip6_groups gs ell s =
     (if length gs \<ge> 8 then Some (gs, ell, s)
      else
        let hex = takeWhile is_hex s; rest = drop (length hex) s
        in if length hex > 4 \<or> hex = [] then None
           else if rest \<noteq> [] \<and> hd rest = CHR ''.'' then
             (if (ell = None \<and> length gs \<noteq> 6) \<or> length gs + 2 > 8 then None
              else case parse_ip4 s of
                     None \<Rightarrow> None
                   | Some a \<Rightarrow> Some (gs @ ip4_groups a, ell, []))
           else
             (case digits_value 16 0 hex of
                None \<Rightarrow> None
              | Some n \<Rightarrow>
                  let gs' = gs @ [word_of_nat n]
                  in if rest = [] then Some (gs', ell, [])
                     else if hd rest \<noteq> CHR '':'' \<or> length rest = 1 then None
                     else if hd (tl rest) = CHR '':'' then
                       (if ell \<noteq> None then None
                        else if length rest = 2 then Some (gs', Some (length gs'), [])
                        else ip6_groups gs' (Some (length gs')) (drop 2 rest))
                     else ip6_groups gs' ell (tl rest)))"
  by pat_completeness auto

termination
  by (relation "measure (\<lambda>(gs, ell, s). 8 - length gs)") auto

definition parse_ip6 :: "string \<Rightarrow> ip_addr option" where
  "parse_ip6 s =
     (if s = ''::'' then Some (Ip6 (replicate 8 0) [])
      else
        let lead = has_prefix s ''::'';
            start = (if lead then Some 0 else None)
        in case ip6_groups [] start (if lead then drop 2 s else s) of
             None \<Rightarrow> None
           | Some (gs, ell, rest) \<Rightarrow>
               if rest \<noteq> [] then None
               else (case ell of
                       None \<Rightarrow> if length gs < 8 then None else Some (Ip6 gs [])
                     | Some k \<Rightarrow>
                         if length gs \<ge> 8 then None
                         else Some (Ip6 (take k gs @ replicate (8 - length gs) 0 @ drop k gs) [])))"

text \<open>\<open>net.ParseIP\<close>: the first of \<open>.\<close>, \<open>:\<close> and \<open>%\<close> decides; zones are refused.\<close>

definition parse_ip :: "string \<Rightarrow> ip_addr option" where
  "parse_ip s =
     (case find (\<lambda>c. c = CHR ''.'' \<or> c = CHR '':'' \<or> c = CHR 0x25) s of
        None \<Rightarrow> None
      | Some c \<Rightarrow>
          if c = CHR ''.'' then parse_ip4 s
          else if c = CHR '':'' \<and> CHR 0x25 \<notin> set s then parse_ip6 s
          else None)"

text \<open>\<open>IP.To4\<close>: also the IPv4-mapped form.\<close>

fun to4 :: "ip_addr \<Rightarrow> ip_addr option" where
  "to4 (Ip4 a b c d) = Some (Ip4 a b c d)"
| "to4 (Ip6 gs z) =
     (if length gs = 8 \<and> take 5 gs = replicate 5 0 \<and> gs ! 5 = 0xFFFF then
        Some (Ip4 (word_of_nat (unat (gs ! 6) div 256)) (word_of_nat (unat (gs ! 6) mod 256))
                  (word_of_nat (unat (gs ! 7) div 256)) (word_of_nat (unat (gs ! 7) mod 256)))
      else None)"
| "to4 IpZero = None"

definition is_loopback :: "ip_addr \<Rightarrow> bool" where
  "is_loopback a =
     (case to4 a of
        Some b \<Rightarrow> is_loopback4 b
      | None \<Rightarrow> (case a of Ip6 gs _ \<Rightarrow> gs = replicate 7 0 @ [1] | _ \<Rightarrow> False))"

text \<open>The bytes of an address, four or sixteen.\<close>

fun ip_bytes :: "ip_addr \<Rightarrow> u8 list" where
  "ip_bytes (Ip4 a b c d) = [a, b, c, d]"
| "ip_bytes (Ip6 gs z) = concat (map (\<lambda>g. [word_of_nat (unat g div 256), word_of_nat (unat g mod 256)]) gs)"
| "ip_bytes IpZero = []"

text \<open>\<open>net.ParseCIDR\<close> as a test.\<close>

definition valid_cidr :: "string \<Rightarrow> bool" where
  "valid_cidr s \<longleftrightarrow>
     (let addr = takeWhile (\<lambda>c. c \<noteq> CHR ''/'') s; bits = drop (Suc (length addr)) s
      in CHR ''/'' \<in> set s \<and>
         (case parse_ip addr of
            None \<Rightarrow> False
          | Some a \<Rightarrow>
              bits \<noteq> [] \<and> list_all is_digit bits \<and>
              (case digits_value 10 0 bits of None \<Rightarrow> False | Some n \<Rightarrow> n \<le> (if is4 a then 32 else 128))))"

section \<open>Host and port\<close>

definition join_host_port :: "string \<Rightarrow> string \<Rightarrow> string" where
  "join_host_port host port =
     (if CHR '':'' \<in> set host then [CHR 0x5B] @ host @ [CHR 0x5D] @ '':'' @ port
      else host @ '':'' @ port)"

definition split_host_port :: "string \<Rightarrow> (string \<times> string) option" where
  "split_host_port s =
     (case last_index (CHR '':'') s of
        None \<Rightarrow> None
      | Some i \<Rightarrow>
          let port = drop (Suc i) s
          in if s \<noteq> [] \<and> hd s = CHR 0x5B then
               (let host = takeWhile (\<lambda>c. c \<noteq> CHR 0x5D) (tl s); stop = Suc (length host)
                in if CHR 0x5D \<notin> set s \<or> Suc stop \<noteq> i then None
                   else if CHR 0x5B \<in> set (tl s) \<or> CHR 0x5D \<in> set (drop (Suc stop) s) then None
                   else Some (host, port))
             else
               (let host = take i s
                in if CHR '':'' \<in> set host \<or> CHR 0x5B \<in> set s \<or> CHR 0x5D \<in> set s then None
                   else Some (host, port)))"

section \<open>Lemmas\<close>

lemma last_index_append: "c \<notin> set t \<Longrightarrow> last_index c (s @ c # t) = Some (length s)"
proof -
  assume "c \<notin> set t"
  then have "dropWhile (\<lambda>d. d \<noteq> c) (rev t @ c # rev s) = c # rev s"
    by (subst dropWhile_append2) auto
  then show ?thesis by (simp add: last_index_def Let_def)
qed

lemma split_join_host_port:
  assumes "CHR '':'' \<notin> set port" "CHR 0x5B \<notin> set (host @ port)" "CHR 0x5D \<notin> set (host @ port)"
  shows "split_host_port (join_host_port host port) = Some (host, port)"
proof (cases "CHR '':'' \<in> set host")
  case False
  have "last_index (CHR '':'') (host @ '':'' @ port) = Some (length host)"
    using last_index_append [OF assms(1), of host] by simp
  then show ?thesis
    using False assms by (cases host) (auto simp: split_host_port_def join_host_port_def Let_def)
next
  case True
  have "last_index (CHR '':'') ((CHR 0x5B # host @ [CHR 0x5D]) @ CHR '':'' # port) = Some (length (CHR 0x5B # host @ [CHR 0x5D]))"
    by (rule last_index_append) (rule assms(1))
  moreover have "takeWhile (\<lambda>c. c \<noteq> CHR 0x5D) (host @ CHR 0x5D # t) = host" for t
    using assms by (subst takeWhile_append2) auto
  ultimately show ?thesis
    using True assms by (auto simp: split_host_port_def join_host_port_def Let_def)
qed

lemma length_ip_bytes: "parse_ip s = Some a \<Longrightarrow> is4 a \<longrightarrow> length (ip_bytes a) = 4"
  by (cases a) auto

end
