(* ===== verification/Journal.thy ===== *)
theory Journal
  imports JsonText Net
begin

text \<open>
  The ownership journal's record and its strict decoder:
  \<open>ebpf-proxy/internal/tproxy/journal.go\<close>. The plan is coded member by member; its destination
  is the text form of \<open>netip.AddrPort\<close>.
\<close>

section \<open>The record\<close>

record journal_record =
  jr_version :: int
  jr_namespace :: string
  jr_boot :: string
  jr_plan :: plan
  jr_owned :: int
  jr_pending :: string
  jr_snapshot :: string
  jr_proof :: string

definition zero_plan :: plan where
  "zero_plan =
     \<lparr>pl_destination = \<lparr>ap_addr = IpZero, ap_port = 0\<rparr>, pl_listener_port = 0, pl_mark = 0,
      pl_mask = 0, pl_table = 0, pl_priority = 0, pl_prefix = []\<rparr>"

definition zero_record :: journal_record where
  "zero_record =
     \<lparr>jr_version = 0, jr_namespace = [], jr_boot = [], jr_plan = zero_plan, jr_owned = 0,
      jr_pending = [], jr_snapshot = [], jr_proof = []\<rparr>"

section \<open>The text form of a destination\<close>

text \<open>
  \<open>netip.ParseAddrPort\<close> on IPv4 texts. A bracketed IPv6 text is not read: the decoder compares
  with a plan whose destination is IPv4, so such a record is refused in any case.
\<close>

definition parse_addr_port :: "string \<Rightarrow> addr_port option" where
  "parse_addr_port s =
     (case last_index (CHR '':'') s of
        None \<Rightarrow> None
      | Some i \<Rightarrow>
          (case (parse_ip4 (take i s), parse_uint 10 16 (drop (Suc i) s)) of
             (Some a, Some n) \<Rightarrow> Some \<lparr>ap_addr = a, ap_port = word_of_nat n\<rparr>
           | _ \<Rightarrow> None))"

definition addr_port_text :: "addr_port \<Rightarrow> string" where
  "addr_port_text d =
     (if ap_addr d = IpZero then [] else addr_string (ap_addr d) @ '':'' @ utoa (unat (ap_port d)))"

definition dec_addr_port :: "json \<Rightarrow> addr_port \<Rightarrow> addr_port option" where
  "dec_addr_port v old =
     (case v of
        JNull \<Rightarrow> Some old
      | JStr s \<Rightarrow> if s = [] then Some \<lparr>ap_addr = IpZero, ap_port = 0\<rparr> else parse_addr_port s
      | _ \<Rightarrow> None)"

section \<open>Coding\<close>

definition plan_json :: "plan \<Rightarrow> json" where
  "plan_json p = JObj
     [(''Destination'', JStr (addr_port_text (pl_destination p))),
      (''ListenerPort'', JInt (int (unat (pl_listener_port p)))),
      (''Mark'', JInt (int (unat (pl_mark p)))),
      (''Mask'', JInt (int (unat (pl_mask p)))),
      (''Table'', JInt (int (unat (pl_table p)))),
      (''Priority'', JInt (int (unat (pl_priority p)))),
      (''Prefix'', JStr (pl_prefix p))]"

definition omit_empty :: "string \<Rightarrow> string \<Rightarrow> (string \<times> json) list" where
  "omit_empty k s = (if s = [] then [] else [(k, JStr s)])"

definition journal_json :: "journal_record \<Rightarrow> json" where
  "journal_json r = JObj
     ([(''version'', JInt (jr_version r)), (''namespace'', JStr (jr_namespace r)),
       (''boot'', JStr (jr_boot r)), (''plan'', plan_json (jr_plan r)),
       (''owned'', JInt (jr_owned r))] @ omit_empty ''pending'' (jr_pending r) @
      [(''snapshot'', JStr (jr_snapshot r))] @ omit_empty ''pending_proof'' (jr_proof r))"

definition plan_field :: "string \<Rightarrow> json \<Rightarrow> plan \<Rightarrow> plan option" where
  "plan_field k v p =
     (if fold_eq k ''Destination'' then
        map_option (\<lambda>d. p\<lparr>pl_destination := d\<rparr>) (dec_addr_port v (pl_destination p))
      else if fold_eq k ''ListenerPort'' then
        map_option (\<lambda>n. p\<lparr>pl_listener_port := word_of_nat n\<rparr>) (dec_uint 16 v (unat (pl_listener_port p)))
      else if fold_eq k ''Mark'' then
        map_option (\<lambda>n. p\<lparr>pl_mark := word_of_nat n\<rparr>) (dec_uint 32 v (unat (pl_mark p)))
      else if fold_eq k ''Mask'' then
        map_option (\<lambda>n. p\<lparr>pl_mask := word_of_nat n\<rparr>) (dec_uint 32 v (unat (pl_mask p)))
      else if fold_eq k ''Table'' then
        map_option (\<lambda>n. p\<lparr>pl_table := word_of_nat n\<rparr>) (dec_uint 32 v (unat (pl_table p)))
      else if fold_eq k ''Priority'' then
        map_option (\<lambda>n. p\<lparr>pl_priority := word_of_nat n\<rparr>) (dec_uint 32 v (unat (pl_priority p)))
      else if fold_eq k ''Prefix'' then
        map_option (\<lambda>s. p\<lparr>pl_prefix := s\<rparr>) (dec_string v (pl_prefix p))
      else None)"

definition journal_field :: "string \<Rightarrow> json \<Rightarrow> journal_record \<Rightarrow> journal_record option" where
  "journal_field k v r =
     (if fold_eq k ''version'' then map_option (\<lambda>i. r\<lparr>jr_version := i\<rparr>) (dec_int v (jr_version r))
      else if fold_eq k ''namespace'' then map_option (\<lambda>s. r\<lparr>jr_namespace := s\<rparr>) (dec_string v (jr_namespace r))
      else if fold_eq k ''boot'' then map_option (\<lambda>s. r\<lparr>jr_boot := s\<rparr>) (dec_string v (jr_boot r))
      else if fold_eq k ''plan'' then map_option (\<lambda>p. r\<lparr>jr_plan := p\<rparr>) (dec_struct plan_field v (jr_plan r))
      else if fold_eq k ''owned'' then map_option (\<lambda>i. r\<lparr>jr_owned := i\<rparr>) (dec_int v (jr_owned r))
      else if fold_eq k ''pending'' then map_option (\<lambda>s. r\<lparr>jr_pending := s\<rparr>) (dec_string v (jr_pending r))
      else if fold_eq k ''snapshot'' then map_option (\<lambda>s. r\<lparr>jr_snapshot := s\<rparr>) (dec_string v (jr_snapshot r))
      else if fold_eq k ''pending_proof'' then map_option (\<lambda>s. r\<lparr>jr_proof := s\<rparr>) (dec_string v (jr_proof r))
      else None)"

definition dec_journal :: "json \<Rightarrow> journal_record option" where
  "dec_journal v = dec_struct journal_field v zero_record"

definition digest_text :: "string \<Rightarrow> bool" where
  "digest_text s \<longleftrightarrow> (case hex_decode s of None \<Rightarrow> False | Some bs \<Rightarrow> length bs = 32)"

text \<open>The checks after decoding, in the order of the code.\<close>

definition check_journal :: "journal_record \<Rightarrow> plan \<Rightarrow> string \<Rightarrow> string \<Rightarrow> bool \<Rightarrow> gerr + journal_record" where
  "check_journal r p ns boot scoped =
     (case plan_steps p of
        Inl e \<Rightarrow> Inl e
      | Inr steps \<Rightarrow>
          let n = int (length steps);
              valid_version = (if scoped then jr_version r = 3 else jr_version r = 1 \<or> jr_version r = 2)
          in if \<not> valid_version \<or> jr_namespace r \<noteq> ns \<or> jr_boot r \<noteq> boot \<or> jr_plan r \<noteq> p \<or>
                jr_owned r < 0 \<or> jr_owned r > n
             then Inl (Err ''journal identity/configuration mismatch'')
             else if jr_pending r \<noteq> [] \<and> jr_pending r \<noteq> ''add'' \<and> jr_pending r \<noteq> ''remove''
             then Inl (Err ''invalid journal intent'')
             else if jr_pending r = ''add'' \<and> jr_owned r = n \<or> jr_pending r = ''remove'' \<and> jr_owned r = 0
             then Inl (Err ''intent outside plan bounds'')
             else if \<not> digest_text (jr_snapshot r)
             then Inl (Err ''invalid snapshot digest'')
             else if jr_proof r \<noteq> [] \<and>
                (\<not> digest_text (jr_proof r) \<or> (jr_version r \<noteq> 2 \<and> jr_version r \<noteq> 3) \<or> jr_pending r = [])
             then Inl (Err ''invalid pending witness'')
             else Inr r)"

definition decode_journal_mode :: "string \<Rightarrow> plan \<Rightarrow> string \<Rightarrow> string \<Rightarrow> bool
    \<Rightarrow> gerr + journal_record" where
  "decode_journal_mode b p ns boot scoped =
     (if length b > 65536 then Inl (Err ''journal too large'')
      else case decode_single dec_journal b (Err ''json'') (Err ''trailing journal data'') of
             Inl e \<Rightarrow> Inl e
           | Inr r \<Rightarrow> check_journal r p ns boot scoped)"

definition decode_journal :: "string \<Rightarrow> plan \<Rightarrow> string \<Rightarrow> string \<Rightarrow> gerr + journal_record" where
  "decode_journal b p ns boot = decode_journal_mode b p ns boot False"

section \<open>What an accepted record satisfies\<close>

definition journal_ok :: "journal_record \<Rightarrow> plan \<Rightarrow> string \<Rightarrow> string \<Rightarrow> bool \<Rightarrow> bool" where
  "journal_ok r p ns boot scoped \<longleftrightarrow>
     jr_version r \<in> (if scoped then {3} else {1, 2}) \<and>
     jr_namespace r = ns \<and> jr_boot r = boot \<and> jr_plan r = p \<and>
     0 \<le> jr_owned r \<and> jr_owned r \<le> 8 \<and>
     jr_pending r \<in> {[], ''add'', ''remove''} \<and>
     (jr_pending r = ''add'' \<longrightarrow> jr_owned r < 8) \<and> (jr_pending r = ''remove'' \<longrightarrow> 0 < jr_owned r) \<and>
     digest_text (jr_snapshot r) \<and>
     (jr_proof r \<noteq> [] \<longrightarrow> digest_text (jr_proof r) \<and> jr_version r \<noteq> 1 \<and> jr_pending r \<noteq> [])"

lemma check_journal_iff:
  assumes "plan_steps p = Inr ss"
  shows "check_journal r p ns boot scoped = Inr r' \<longleftrightarrow> r' = r \<and> journal_ok r p ns boot scoped"
proof -
  have n: "length ss = 8" using assms by (rule plan_steps_length)
  have version: "(if scoped then jr_version r = 3 else jr_version r = 1 \<or> jr_version r = 2) \<longleftrightarrow>
      jr_version r \<in> (if scoped then {3} else {1, 2})" by simp
  have proof_ok: "(jr_proof r \<noteq> [] \<and>
        (\<not> digest_text (jr_proof r) \<or> (jr_version r \<noteq> 2 \<and> jr_version r \<noteq> 3) \<or> jr_pending r = [])) \<longleftrightarrow>
      \<not> (jr_proof r \<noteq> [] \<longrightarrow> digest_text (jr_proof r) \<and> jr_version r \<noteq> 1 \<and> jr_pending r \<noteq> [])"
    if "jr_version r \<in> (if scoped then {3} else {1, 2})" using that by (auto split: if_splits)
  show ?thesis
  proof (cases "jr_version r \<in> (if scoped then {3} else {1, 2}) \<and> jr_namespace r = ns \<and> jr_boot r = boot \<and>
      jr_plan r = p \<and> 0 \<le> jr_owned r \<and> jr_owned r \<le> 8")
    case True
    note v = True [THEN conjunct1]
    consider "jr_pending r = []" | "jr_pending r = ''add''" | "jr_pending r = ''remove''"
      | "jr_pending r \<notin> {[], ''add'', ''remove''}" by blast
    moreover have "(jr_version r \<notin> (if scoped then {3} else {1, 2}) \<or> jr_namespace r \<noteq> ns \<or> jr_boot r \<noteq> boot \<or>
        jr_plan r \<noteq> p \<or> jr_owned r < 0 \<or> int 8 < jr_owned r) = False" using True by auto
    ultimately show ?thesis
      unfolding check_journal_def journal_ok_def assms sum.case Let_def n version proof_ok [OF v]
      by cases (use True in \<open>simp_all only: if_False simp_thms, auto\<close>)
  next
    case False
    then show ?thesis
      unfolding check_journal_def journal_ok_def assms sum.case Let_def n version by auto
  qed
qed

lemma check_journal_plan: "check_journal r p ns boot scoped = Inr r' \<Longrightarrow> \<exists>ss. plan_steps p = Inr ss"
  by (auto simp: check_journal_def split: sum.splits)

section \<open>Round trip\<close>

lemma utoa_not_dot: "CHR ''.'' \<notin> set (utoa n)" "CHR '':'' \<notin> set (utoa n)"
proof -
  have "(of_char c :: nat) \<noteq> 46 \<and> (of_char c :: nat) \<noteq> 58" if "c \<in> set (utoa n)" for c
    using utoa_digits [OF that] by (auto simp: of_char_digit_char)
  then show "CHR ''.'' \<notin> set (utoa n)" "CHR '':'' \<notin> set (utoa n)" by force+
qed

lemma utoa_single: "length (utoa 0) = 1"
  by (simp add: utoa.simps [of 0])

lemma octet_text_utoa: "octet_text (utoa (unat a)) = Some a"
proof -
  have "unat a < 2 ^ LENGTH(8)" by (rule unsigned_less)
  then have "parse_uint 10 8 (utoa (unat a)) = Some (unat a)" by (intro parse_uint_utoa) simp
  moreover have "\<not> (length (utoa (unat a)) > 1 \<and> hd (utoa (unat a)) = CHR ''0'')"
    using utoa_leading_zero [of "unat a"] utoa_single by (cases "unat a = 0") auto
  ultimately show ?thesis by (simp add: octet_text_def)
qed

lemma parse_ip4_string: "parse_ip4 (addr_string (Ip4 a b c d)) = Some (Ip4 a b c d)"
proof -
  have "split_on (CHR ''.'') (addr_string (Ip4 a b c d)) =
      [utoa (unat a), utoa (unat b), utoa (unat c), utoa (unat d)]"
    unfolding addr_string.simps by (rule split_on_join) (auto simp: utoa_not_dot)
  then show ?thesis by (simp add: parse_ip4_def octet_text_utoa)
qed

lemma parse_addr_port_text:
  assumes "is4 (ap_addr d)"
  shows "parse_addr_port (addr_port_text d) = Some d"
proof -
  obtain a b c e where ad: "ap_addr d = Ip4 a b c e" using assms by (cases "ap_addr d") auto
  let ?s = "addr_string (Ip4 a b c e)" and ?n = "unat (ap_port d)"
  have "?n < 2 ^ LENGTH(16)" by (rule unsigned_less)
  then have port: "parse_uint 10 16 (utoa ?n) = Some ?n" by (intro parse_uint_utoa) simp
  have "last_index (CHR '':'') (?s @ CHR '':'' # utoa ?n) = Some (length ?s)"
    by (rule last_index_append) (rule utoa_not_dot)
  then have "parse_addr_port (?s @ CHR '':'' # utoa ?n) = Some \<lparr>ap_addr = Ip4 a b c e, ap_port = ap_port d\<rparr>"
    by (simp add: parse_addr_port_def parse_ip4_string port del: addr_string.simps)
  then show ?thesis using ad by (simp add: addr_port_text_def del: addr_string.simps)
qed

lemma addr_port_text_not_Nil: "is4 (ap_addr d) \<Longrightarrow> addr_port_text d \<noteq> []"
  by (cases "ap_addr d") (auto simp: addr_port_text_def)

lemma dec_addr_port_text: "is4 (ap_addr d) \<Longrightarrow> dec_addr_port (JStr (addr_port_text d)) old = Some d"
  by (simp add: dec_addr_port_def parse_addr_port_text addr_port_text_not_Nil)

lemma unat_bound16: "unat (w :: u16) < 2 ^ 16"
proof -
  have "unat w < 2 ^ LENGTH(16)" by (rule unsigned_less)
  then show ?thesis by simp
qed

lemma unat_bound32: "unat (w :: u32) < 2 ^ 32"
proof -
  have "unat w < 2 ^ LENGTH(32)" by (rule unsigned_less)
  then show ?thesis by simp
qed

lemma dec_uint_word:
  "dec_uint 16 (JInt (int (unat (w :: u16)))) old = Some (unat w)"
  "dec_uint 32 (JInt (int (unat (v :: u32)))) old = Some (unat v)"
  using unat_bound16 [of w] unat_bound32 [of v] by (intro dec_uint_JInt; simp)+

lemmas dec_uint_uint = dec_uint_word [unfolded uint_nat [symmetric]]

lemma dec_struct_JObj: "dec_struct fld (JObj ms) z = dec_members fld ms z"
  by (simp add: dec_struct_def)

lemma fold_eq_plan_names:
  "\<not> fold_eq ''ListenerPort'' ''Destination''"
  "\<not> fold_eq ''Mark'' ''Destination''" "\<not> fold_eq ''Mark'' ''ListenerPort''"
  "\<not> fold_eq ''Mask'' ''Destination''" "\<not> fold_eq ''Mask'' ''ListenerPort''" "\<not> fold_eq ''Mask'' ''Mark''"
  "\<not> fold_eq ''Table'' ''Destination''" "\<not> fold_eq ''Table'' ''ListenerPort''" "\<not> fold_eq ''Table'' ''Mark''"
  "\<not> fold_eq ''Table'' ''Mask''"
  "\<not> fold_eq ''Priority'' ''Destination''" "\<not> fold_eq ''Priority'' ''ListenerPort''" "\<not> fold_eq ''Priority'' ''Mark''"
  "\<not> fold_eq ''Priority'' ''Mask''" "\<not> fold_eq ''Priority'' ''Table''"
  "\<not> fold_eq ''Prefix'' ''Destination''" "\<not> fold_eq ''Prefix'' ''ListenerPort''" "\<not> fold_eq ''Prefix'' ''Mark''"
  "\<not> fold_eq ''Prefix'' ''Mask''" "\<not> fold_eq ''Prefix'' ''Table''" "\<not> fold_eq ''Prefix'' ''Priority''"
  by (simp_all add: fold_eq_def to_lower_def lower_char_def Let_def)

lemma dec_plan_json:
  assumes "is4 (ap_addr (pl_destination p))"
  shows "dec_struct plan_field (plan_json p) old = Some p"
  using assms
  by (simp add: dec_struct_JObj plan_json_def plan_field_def fold_eq_plan_names dec_addr_port_text
      dec_uint_uint)

lemma fold_eq_journal_names:
  "\<not> fold_eq ''namespace'' ''version''"
  "\<not> fold_eq ''boot'' ''version''" "\<not> fold_eq ''boot'' ''namespace''"
  "\<not> fold_eq ''plan'' ''version''" "\<not> fold_eq ''plan'' ''namespace''" "\<not> fold_eq ''plan'' ''boot''"
  "\<not> fold_eq ''owned'' ''version''" "\<not> fold_eq ''owned'' ''namespace''" "\<not> fold_eq ''owned'' ''boot''"
  "\<not> fold_eq ''owned'' ''plan''"
  "\<not> fold_eq ''pending'' ''version''" "\<not> fold_eq ''pending'' ''namespace''" "\<not> fold_eq ''pending'' ''boot''"
  "\<not> fold_eq ''pending'' ''plan''" "\<not> fold_eq ''pending'' ''owned''"
  "\<not> fold_eq ''snapshot'' ''version''" "\<not> fold_eq ''snapshot'' ''namespace''" "\<not> fold_eq ''snapshot'' ''boot''"
  "\<not> fold_eq ''snapshot'' ''plan''" "\<not> fold_eq ''snapshot'' ''owned''" "\<not> fold_eq ''snapshot'' ''pending''"
  "\<not> fold_eq ''pending_proof'' ''version''" "\<not> fold_eq ''pending_proof'' ''namespace''"
  "\<not> fold_eq ''pending_proof'' ''boot''" "\<not> fold_eq ''pending_proof'' ''plan''"
  "\<not> fold_eq ''pending_proof'' ''owned''" "\<not> fold_eq ''pending_proof'' ''pending''"
  "\<not> fold_eq ''pending_proof'' ''snapshot''"
  by (simp_all add: fold_eq_def to_lower_def lower_char_def Let_def)

lemma dec_journal_json:
  assumes "is4 (ap_addr (pl_destination (jr_plan r)))" and "int64_range (jr_version r)"
    and "int64_range (jr_owned r)"
  shows "dec_journal (journal_json r) = Some r"
  using assms
  by (simp add: dec_journal_def dec_struct_JObj journal_json_def omit_empty_def journal_field_def
      fold_eq_journal_names dec_plan_json zero_record_def)

lemma journal_ok_ranges:
  "journal_ok r p ns boot scoped \<Longrightarrow> int64_range (jr_version r) \<and> int64_range (jr_owned r)"
  by (auto simp: journal_ok_def int64_range_def split: if_splits)

text \<open>The bytes \<open>save\<close> writes, and what the decoder makes of them.\<close>

definition journal_text :: "journal_record \<Rightarrow> string" where
  "journal_text r = json_text (journal_json r)"

lemma printable_journal: "printable (journal_json r)"
  by (simp add: journal_json_def omit_empty_def plan_json_def)

lemma journal_ok_plan: "journal_ok r p ns boot scoped \<Longrightarrow> jr_plan r = p"
  by (simp add: journal_ok_def)

lemma decode_journal_text:
  assumes ok: "journal_ok r p ns boot scoped" and p: "plan_steps p = Inr steps"
    and len: "length (journal_text r) \<le> 65536"
  shows "decode_journal_mode (journal_text r) p ns boot scoped = Inr r"
proof -
  have is4: "is4 (ap_addr (pl_destination (jr_plan r)))"
    using p journal_ok_plan [OF ok] by (simp add: plan_steps_Inr valid_destination_def)
  have rd: "json_read (journal_text r) = TokVal (journal_json r) []"
    using json_read_text [OF printable_journal, of "[]"] by (simp add: journal_text_def)
  have "dec_journal (journal_json r) = Some r"
    using dec_journal_json [OF is4] journal_ok_ranges [OF ok] by simp
  then show ?thesis
    using len rd check_journal_iff [OF p] ok by (simp add: decode_journal_mode_def decode_single_def)
qed

lemma decode_journal_sound:
  assumes "decode_journal_mode b p ns boot scoped = Inr r"
  shows "journal_ok r p ns boot scoped \<and> length b \<le> 65536"
proof -
  obtain r0 where "check_journal r0 p ns boot scoped = Inr r" and len: "length b \<le> 65536"
    using assms by (auto simp: decode_journal_mode_def split: if_splits sum.splits)
  then show ?thesis using check_journal_iff check_journal_plan by (metis len)
qed

section \<open>Size\<close>

lemma length_utoa: "n < 10 ^ k \<Longrightarrow> 0 < k \<Longrightarrow> length (utoa n) \<le> k"
proof (induction k arbitrary: n)
  case (Suc k)
  show ?case
  proof (cases "n < 10")
    case True
    then show ?thesis by (simp add: utoa.simps [of n])
  next
    case False
    then have k: "0 < k" using Suc.prems(1) by (cases k) auto
    have "n div 10 < 10 ^ k" using Suc.prems(1) by (simp add: less_mult_imp_div_less mult.commute)
    then have "length (utoa (n div 10)) \<le> k" using Suc.IH k by simp
    then show ?thesis using False by (simp add: utoa.simps [of n])
  qed
qed simp

lemma length_utoa32: "length (utoa (unat (w :: u32))) \<le> 10" "length (utoa (unat (v :: u16))) \<le> 5"
  "length (utoa (unat (b :: u8))) \<le> 3"
proof -
  have "unat b < 2 ^ LENGTH(8)" by (rule unsigned_less)
  then show "length (utoa (unat b)) \<le> 3" by (intro length_utoa) simp_all
qed (use unat_bound32 [of w] unat_bound16 [of v] in \<open>intro length_utoa; simp\<close>)+

lemma length_addr_port_text: "is4 (ap_addr d) \<Longrightarrow> length (addr_port_text d) \<le> 21"
proof -
  assume "is4 (ap_addr d)"
  then obtain a b c e where "ap_addr d = Ip4 a b c e" by (cases "ap_addr d") auto
  then show ?thesis
    using length_utoa32(3) [of a] length_utoa32(3) [of b] length_utoa32(3) [of c] length_utoa32(3) [of e]
      length_utoa32(2) [of "ap_port d"]
    by (simp add: addr_port_text_def)
qed

lemma digest_text_length: "digest_text s \<Longrightarrow> length s = 64"
  by (auto simp: digest_text_def split: option.splits dest: hex_decode_length)

lemma length_member: "length (json_string k @ '':'' @ t) \<le> 6 * length k + 3 + length t"
  using length_json_string(2) [of k] by simp

lemma length_plan_text:
  assumes "plan_steps p = Inr steps"
  shows "length (json_text (plan_json p)) \<le> 800"
proof -
  let ?P = "\<lambda>k t. json_string k @ '':'' @ t"
  have pf: "length (pl_prefix p) \<le> 20" and is4: "is4 (ap_addr (pl_destination p))"
    using assms by (auto simp: plan_steps_Inr valid_parameters_def plan_prefix_ok_def valid_destination_def)
  have d: "length (json_string (addr_port_text (pl_destination p))) \<le> 128"
    using length_json_string(2) [of "addr_port_text (pl_destination p)"] length_addr_port_text [OF is4] by linarith
  have x: "length (json_string (pl_prefix p)) \<le> 122"
    using length_json_string(2) [of "pl_prefix p"] pf by linarith
  show ?thesis
    using d x length_utoa32(2) [of "pl_listener_port p"] length_utoa32(1) [of "pl_mark p"]
      length_utoa32(1) [of "pl_mask p"] length_utoa32(1) [of "pl_table p"] length_utoa32(1) [of "pl_priority p"]
      length_json_string(2) [of "''Destination''"] length_json_string(2) [of "''ListenerPort''"]
      length_json_string(2) [of "''Mark''"] length_json_string(2) [of "''Mask''"]
      length_json_string(2) [of "''Table''"] length_json_string(2) [of "''Priority''"]
      length_json_string(2) [of "''Prefix''"]
    by (simp add: plan_json_def itoa_def)
qed

text \<open>An accepted record is far below the decoder's limit unless its identity strings are huge.\<close>

lemma length_journal_text:
  assumes ok: "journal_ok r p ns boot scoped" and p: "plan_steps p = Inr steps"
  shows "length (journal_text r) \<le> 6 * (length ns + length boot) + 3000"
proof -
  have r: "jr_namespace r = ns" "jr_boot r = boot" "jr_plan r = p" "0 \<le> jr_owned r" "jr_owned r \<le> 8"
    "length (jr_pending r) \<le> 6" "length (jr_snapshot r) = 64" "length (jr_proof r) \<le> 64"
    using ok by (auto simp: journal_ok_def digest_text_length split: if_splits)
  have "jr_version r \<in> {1, 2, 3}" using ok by (auto simp: journal_ok_def split: if_splits)
  then have v: "0 \<le> jr_version r \<and> nat (jr_version r) < 10 ^ 1" by auto
  then have v1: "length (itoa (jr_version r)) \<le> 1" using length_utoa [of _ 1] by (simp add: itoa_def)
  have o1: "length (itoa (jr_owned r)) \<le> 1" using r length_utoa [of "nat (jr_owned r)" 1] by (simp add: itoa_def)
  note bounds = v1 o1 r(6-8) length_plan_text [OF p]
    length_json_string(2) [of ns] length_json_string(2) [of boot] length_json_string(2) [of "jr_pending r"]
    length_json_string(2) [of "jr_snapshot r"] length_json_string(2) [of "jr_proof r"]
    length_json_string(2) [of "''version''"] length_json_string(2) [of "''namespace''"]
    length_json_string(2) [of "''boot''"] length_json_string(2) [of "''plan''"]
    length_json_string(2) [of "''owned''"] length_json_string(2) [of "''pending''"]
    length_json_string(2) [of "''snapshot''"] length_json_string(2) [of "''pending_proof''"]
  show ?thesis
    using bounds
    by (simp add: journal_text_def journal_json_def omit_empty_def r(1-3))
qed

end
