(* ===== verification/Durable.thy ===== *)
theory Durable
  imports Scoped Journal
begin

text \<open>
  The durable controller, \<open>ebpf-proxy/internal/tproxy/journal_linux.go\<close>: the ownership journal is
  written before and after every kernel change. The world holds the kernel, the journal file, its
  staging file and the outcomes of the coming system calls, so every error path can be taken. A
  process killed at a system call leaves the same files and kernel as that call failing, since the
  code returns at once; crashes are therefore part of the fault schedules.
\<close>

section \<open>The world\<close>

record 'k world =
  w_kernel :: 'k
  w_journal :: "string option"
  w_staging :: "string option"
  w_faults :: "gerr option list"

text \<open>What the controller is given: hash, table aliases and command runner.\<close>

record 'k dur_env =
  de_sha :: "string \<Rightarrow> u8 list"
  de_aliases :: aliases
  de_run :: "'k runner"

record durable =
  du_rec :: journal_record
  du_steps :: "step list"
  du_closed :: bool
  du_scoped :: bool

text \<open>The outcome of the next system call; an exhausted schedule succeeds.\<close>

definition syscall :: "'k world \<Rightarrow> gerr option \<times> 'k world" where
  "syscall w =
     (case w_faults w of [] \<Rightarrow> (None, w) | f # fs \<Rightarrow> (f, w\<lparr>w_faults := fs\<rparr>))"

definition on_kernel :: "('k \<Rightarrow> 'a \<times> 'k) \<Rightarrow> 'k world \<Rightarrow> 'a \<times> 'k world" where
  "on_kernel f w = (case f (w_kernel w) of (x, k) \<Rightarrow> (x, w\<lparr>w_kernel := k\<rparr>))"

section \<open>Opening\<close>

record file_stat =
  fs_regular :: bool
  fs_dir :: bool
  fs_perm :: nat
  fs_uid :: u32
  fs_nlink :: nat

definition private_file :: "u32 \<Rightarrow> gerr + file_stat \<Rightarrow> gerr option" where
  "private_file euid st =
     (case st of
        Inl e \<Rightarrow> Some e
      | Inr s \<Rightarrow>
          if \<not> fs_regular s \<or> fs_perm s \<noteq> 6 * 8 * 8 \<or> fs_uid s \<noteq> euid \<or> fs_nlink s \<noteq> 1
          then Some (Err ''unsafe journal/lock file'') else None)"

text \<open>The outcomes of the calls of \<open>openDurableIsolated\<close>, in the order the code makes them.\<close>

record open_env =
  oe_euid :: u32
  oe_ns :: "gerr + string"
  oe_host :: "gerr + string"
  oe_boot :: "gerr + string"
  oe_lstat :: "gerr + file_stat"
  oe_root :: "gerr option"
  oe_dot :: "gerr option"
  oe_same :: bool
  oe_lock :: "gerr option"
  oe_lock_stat :: "gerr + file_stat"
  oe_flock :: "gerr option"
  oe_journal :: "gerr option"
  oe_journal_stat :: "gerr + file_stat"
  oe_read :: "gerr option"

definition fresh_durable :: "string \<Rightarrow> string \<Rightarrow> plan \<Rightarrow> step list \<Rightarrow> bool \<Rightarrow> durable" where
  "fresh_durable ns boot p steps scoped =
     \<lparr>du_rec = zero_record\<lparr>jr_version := (if scoped then 3 else 2), jr_namespace := ns,
        jr_boot := trim_space boot, jr_plan := p\<rparr>,
      du_steps = steps, du_closed = False, du_scoped = scoped\<rparr>"

definition read_journal :: "open_env \<Rightarrow> durable \<Rightarrow> 'k world \<Rightarrow> gerr + durable" where
  "read_journal V d w =
     (case (oe_journal V, w_journal w) of
        (Some NotExist, _) \<Rightarrow> Inr d
      | (Some e, _) \<Rightarrow> Inl e
      | (None, None) \<Rightarrow> Inr d
      | (None, Some b) \<Rightarrow>
          (case private_file (oe_euid V) (oe_journal_stat V) of
             Some e \<Rightarrow> Inl e
           | None \<Rightarrow>
               (case oe_read V of
                  Some e \<Rightarrow> Inl e
                | None \<Rightarrow>
                    (case decode_journal_mode (take 65537 b) (jr_plan (du_rec d))
                            (jr_namespace (du_rec d)) (jr_boot (du_rec d)) (du_scoped d) of
                       Inl e \<Rightarrow> Inl e
                     | Inr r \<Rightarrow> Inr (d\<lparr>du_rec := r\<rparr>)))))"

definition private_state_dir :: "u32 \<Rightarrow> file_stat \<Rightarrow> bool" where
  "private_state_dir euid s \<longleftrightarrow> fs_dir s \<and> fs_perm s = 7 * 8 * 8 \<and> fs_uid s = euid"

definition open_durable :: "open_env \<Rightarrow> plan \<Rightarrow> bool \<Rightarrow> 'k world \<Rightarrow> gerr + durable" where
  "open_durable V p scoped w =
     (case oe_ns V of
        Inl e \<Rightarrow> Inl e
      | Inr ns \<Rightarrow>
      if \<not> is_ok (oe_host V) \<or> oe_host V = Inr ns
      then Inl (Err ''durable controller requires private network namespace'')
      else case plan_steps p of
        Inl e \<Rightarrow> Inl e
      | Inr steps \<Rightarrow>
      (case oe_boot V of
        Inl e \<Rightarrow> Inl e
      | Inr boot \<Rightarrow>
      (case oe_lstat V of
        Inl e \<Rightarrow> Inl e
      | Inr s \<Rightarrow>
      if \<not> private_state_dir (oe_euid V) s
      then Inl (Err ''state directory must be private, owned, non-symlink 0700'')
      else (case oe_root V of
        Some e \<Rightarrow> Inl e
      | None \<Rightarrow>
      (case oe_dot V of
        Some e \<Rightarrow> Inl e
      | None \<Rightarrow>
      if \<not> oe_same V then Inl (Err ''state directory changed while opening'')
      else (case oe_lock V of
        Some e \<Rightarrow> Inl e
      | None \<Rightarrow>
      (case private_file (oe_euid V) (oe_lock_stat V) of
        Some e \<Rightarrow> Inl e
      | None \<Rightarrow>
      (case oe_flock V of
        Some e \<Rightarrow> Inl (Wrap ''state locked'' e)
      | None \<Rightarrow> read_journal V (fresh_durable ns boot p steps scoped) w))))))))"

definition durable_close :: "gerr option \<Rightarrow> gerr option \<Rightarrow> durable \<Rightarrow> gerr option \<times> durable" where
  "durable_close lock_err root_err d =
     (if du_closed d then (None, d)
      else (case lock_err of Some e \<Rightarrow> Some e | None \<Rightarrow> root_err, d\<lparr>du_closed := True\<rparr>))"

section \<open>Saving\<close>

text \<open>
  Eight calls: remove the stale staging file, create it, write, sync and close it, rename it over
  the journal, open the directory and sync it. The written bytes count only after a successful
  write; the staging file is never read.
\<close>

definition write_staging :: "string \<Rightarrow> 'k world \<Rightarrow> gerr option \<times> 'k world" where
  "write_staging b w =
     (case syscall w of
        (Some e, w1) \<Rightarrow> (case syscall w1 of (_, w2) \<Rightarrow> (Some e, w2))
      | (None, w1) \<Rightarrow>
          (case syscall (w1\<lparr>w_staging := Some b\<rparr>) of (se, w2) \<Rightarrow>
             (case syscall w2 of (ce, w3) \<Rightarrow>
                (case se of Some e \<Rightarrow> (Some e, w3) | None \<Rightarrow> (ce, w3)))))"

definition commit_staging :: "'k world \<Rightarrow> gerr option \<times> 'k world" where
  "commit_staging w =
     (case syscall w of
        (Some e, w1) \<Rightarrow> (Some e, w1)
      | (None, w1) \<Rightarrow>
          (case syscall (w1\<lparr>w_journal := w_staging w1, w_staging := None\<rparr>) of
             (Some e, w2) \<Rightarrow> (Some e, w2)
           | (None, w2) \<Rightarrow> syscall w2))"

definition durable_save :: "durable \<Rightarrow> 'k world \<Rightarrow> gerr option \<times> 'k world" where
  "durable_save d w =
     (case syscall w of (e, w1) \<Rightarrow>
        if e \<noteq> None \<and> e \<noteq> Some NotExist then (e, w1)
        else
          (case syscall (w1\<lparr>w_staging := None\<rparr>) of
             (Some e, w2) \<Rightarrow> (Some e, w2)
           | (None, w2) \<Rightarrow>
               (case write_staging (journal_text (du_rec d)) (w2\<lparr>w_staging := Some []\<rparr>) of
                  (Some e, w3) \<Rightarrow> (Some e, w3)
                | (None, w3) \<Rightarrow> commit_staging w3)))"

section \<open>Observation\<close>

definition observe_scoped_at :: "'k dur_env \<Rightarrow> durable \<Rightarrow> 'k world \<Rightarrow> (gerr + scoped_witness) \<times> 'k world" where
  "observe_scoped_at E d =
     on_kernel (observe_scoped_with (de_sha E) (de_aliases E) (de_run E) (jr_plan (du_rec d)))"

definition isolated_snapshot :: "'k dur_env \<Rightarrow> 'k world \<Rightarrow> (gerr + string) \<times> 'k world" where
  "isolated_snapshot E w =
     (case on_kernel (capture_namespace (de_run E)) w of
        (Inl e, w1) \<Rightarrow> (Inl e, w1)
      | (Inr outs, w1) \<Rightarrow> (Inr (state_digest (de_sha E) outs), w1))"

definition durable_snapshot :: "'k dur_env \<Rightarrow> durable \<Rightarrow> 'k world \<Rightarrow> (gerr + string) \<times> 'k world" where
  "durable_snapshot E d w =
     (if \<not> du_scoped d then isolated_snapshot E w
      else (case observe_scoped_at E d w of
              (Inl e, w1) \<Rightarrow> (Inl e, w1)
            | (Inr sw, w1) \<Rightarrow>
                if \<not> counts_match (sw_counts sw) (jr_owned (du_rec d))
                then (Inl (Err ''scoped owned-resource profile differs''), w1)
                else (Inr (sw_digest sw), w1)))"

definition durable_witness :: "'k dur_env \<Rightarrow> durable \<Rightarrow> int \<Rightarrow> 'k world
    \<Rightarrow> (gerr + resource_witness) \<times> 'k world" where
  "durable_witness E d index w =
     (if \<not> du_scoped d then on_kernel (observe_resources (de_sha E) (de_run E) (jr_plan (du_rec d))) w
      else (case observe_scoped_at E d w of
              (Inl e, w1) \<Rightarrow> (Inl e, w1)
            | (Inr sw, w1) \<Rightarrow>
                (Inr \<lparr>rw_counts = sw_counts sw,
                      rw_residual = sw_excluding (de_sha E) (sw_resources sw) index,
                      rw_whole = sw_digest sw\<rparr>, w1)))"

definition durable_check :: "'k dur_env \<Rightarrow> durable \<Rightarrow> 'k world \<Rightarrow> gerr option \<times> 'k world" where
  "durable_check E d w =
     (if du_closed d then (Some (Err ''controller closed''), w)
      else if jr_pending (du_rec d) \<noteq> [] then (Some (Err ''uncertain intent: refusing automatic recovery''), w)
      else (case durable_snapshot E d w of
              (Inl e, w1) \<Rightarrow> (Some e, w1)
            | (Inr s, w1) \<Rightarrow>
                if jr_snapshot (du_rec d) \<noteq> [] \<and> s \<noteq> jr_snapshot (du_rec d)
                then (Some (Err ''external resource change: refusing recovery''), w1)
                else (None, w1)))"

section \<open>One change\<close>

datatype intent = AddIntent | RemoveIntent

definition intent_text :: "intent \<Rightarrow> string" where
  "intent_text i = (case i of AddIntent \<Rightarrow> ''add'' | RemoveIntent \<Rightarrow> ''remove'')"

definition intent_index :: "intent \<Rightarrow> int \<Rightarrow> int" where
  "intent_index i owned = (case i of AddIntent \<Rightarrow> owned | RemoveIntent \<Rightarrow> owned - 1)"

definition intent_after :: "intent \<Rightarrow> int \<Rightarrow> int" where
  "intent_after i owned = (case i of AddIntent \<Rightarrow> owned + 1 | RemoveIntent \<Rightarrow> owned - 1)"

definition intent_args :: "intent \<Rightarrow> step \<Rightarrow> argv" where
  "intent_args i s = (case i of AddIntent \<Rightarrow> step_add s | RemoveIntent \<Rightarrow> step_remove s)"

text \<open>The part after the intent is on disk: run the command, observe, commit.\<close>

definition apply_change :: "'k dur_env \<Rightarrow> intent \<Rightarrow> nat \<Rightarrow> journal_record \<Rightarrow> durable \<Rightarrow> 'k world
    \<Rightarrow> gerr option \<times> durable \<times> 'k world" where
  "apply_change E i index before d w =
     (case on_kernel (de_run E (intent_args i (du_steps d ! index))) w of (r, w1) \<Rightarrow>
        (case command_error r of
           Some e \<Rightarrow> (Some e, d, w1)
         | None \<Rightarrow>
             let d1 = d\<lparr>du_rec := (du_rec d)\<lparr>jr_owned := intent_after i (jr_owned (du_rec d))\<rparr>\<rparr>
             in (case durable_snapshot E d1 w1 of
                   (Inl e, w2) \<Rightarrow> (Some e, d, w2)
                 | (Inr s, w2) \<Rightarrow>
                     let d2 = d1\<lparr>du_rec := (du_rec d1)\<lparr>jr_snapshot := s, jr_pending := [], jr_proof := []\<rparr>\<rparr>
                     in (case durable_save d2 w2 of
                           (Some e, w3) \<Rightarrow>
                             (Some e,
                              d2\<lparr>du_rec := (du_rec d2)\<lparr>jr_owned := jr_owned before,
                                   jr_snapshot := jr_snapshot before, jr_pending := intent_text i,
                                   jr_proof := jr_proof (du_rec d)\<rparr>\<rparr>, w3)
                         | (None, w3) \<Rightarrow> (None, d2, w3)))))"

definition durable_change :: "'k dur_env \<Rightarrow> intent \<Rightarrow> durable \<Rightarrow> 'k world
    \<Rightarrow> gerr option \<times> durable \<times> 'k world" where
  "durable_change E i d w =
     (case durable_check E d w of
        (Some e, w1) \<Rightarrow> (Some e, d, w1)
      | (None, w1) \<Rightarrow>
          let index = intent_index i (jr_owned (du_rec d))
          in (case durable_witness E d index w1 of
                (Inl e, w2) \<Rightarrow> (Some e, d, w2)
              | (Inr rw, w2) \<Rightarrow>
                  if rw_whole rw \<noteq> jr_snapshot (du_rec d) \<or>
                     \<not> counts_match (rw_counts rw) (jr_owned (du_rec d))
                  then (Some (Err ''owned resources differ before intent''), d, w2)
                  else
                    let d1 = d\<lparr>du_rec := (du_rec d)\<lparr>jr_version := (if du_scoped d then 3 else 2),
                                 jr_pending := intent_text i, jr_proof := rw_residual rw\<rparr>\<rparr>
                    in (case durable_save d1 w2 of
                          (Some e, w3) \<Rightarrow> (Some e, d1, w3)
                        | (None, w3) \<Rightarrow> apply_change E i (nat index) (du_rec d) d1 w3)))"

text \<open>
  The loops of \<open>Setup\<close> and \<open>Recover\<close>: changes while the guard holds. Every successful change
  moves \<open>owned\<close> by one, so the distance to the end is enough fuel (\<open>change_loop_done\<close>).
\<close>

definition loop_more :: "intent \<Rightarrow> durable \<Rightarrow> bool" where
  "loop_more i d =
     (case i of AddIntent \<Rightarrow> jr_owned (du_rec d) < int (length (du_steps d))
      | RemoveIntent \<Rightarrow> 0 < jr_owned (du_rec d))"

definition loop_distance :: "intent \<Rightarrow> durable \<Rightarrow> nat" where
  "loop_distance i d =
     (case i of AddIntent \<Rightarrow> nat (int (length (du_steps d)) - jr_owned (du_rec d))
      | RemoveIntent \<Rightarrow> nat (jr_owned (du_rec d)))"

fun change_loop :: "'k dur_env \<Rightarrow> intent \<Rightarrow> nat \<Rightarrow> durable \<Rightarrow> 'k world
    \<Rightarrow> gerr option \<times> durable \<times> 'k world" where
  "change_loop E i 0 d w = (None, d, w)"
| "change_loop E i (Suc n) d w =
     (if \<not> loop_more i d then (None, d, w)
      else (case durable_change E i d w of
              (Some e, d1, w1) \<Rightarrow> (Some e, d1, w1)
            | (None, d1, w1) \<Rightarrow> change_loop E i n d1 w1))"

definition change_all :: "'k dur_env \<Rightarrow> intent \<Rightarrow> durable \<Rightarrow> 'k world
    \<Rightarrow> gerr option \<times> durable \<times> 'k world" where
  "change_all E i d w = change_loop E i (loop_distance i d) d w"

section \<open>Setup\<close>

definition strict_policy_ok :: "string \<Rightarrow> bool" where
  "strict_policy_ok line \<longleftrightarrow>
     (let f = str_fields line
      in f = [] \<or> hd f = ''0:'' \<or> hd f = ''32766:'' \<or> hd f = ''32767:'')"

definition strict_route_ok :: "string \<Rightarrow> bool" where
  "strict_route_ok line \<longleftrightarrow>
     line = [] \<or>
     str_contains line ''dev lo'' \<and>
       (str_contains line ''127.'' \<or> has_prefix line ''local ::1 dev lo '')"

text \<open>The strict mode's admission of a fresh private namespace.\<close>

definition strict_admission :: "'k runner \<Rightarrow> 'k \<Rightarrow> gerr option \<times> 'k" where
  "strict_admission run k =
     (case run (capture_queries ! 0) k of (fw, k1) \<Rightarrow>
        (case command_error fw of
           Some e \<Rightarrow> (Some e, k1)
         | None \<Rightarrow>
             if str_contains (res_output fw) ''-A '' \<or> str_contains (res_output fw) ''-N ''
             then (Some (Err ''nonempty private firewall''), k1)
             else (case run (capture_queries ! 1) k1 of (rules, k2) \<Rightarrow>
               (case command_error rules of
                  Some e \<Rightarrow> (Some e, k2)
                | None \<Rightarrow>
                    if \<not> list_all strict_policy_ok (split_on (CHR 0x0A) (res_output rules))
                    then (Some (Err ''nondefault private policy''), k2)
                    else (case run (capture_queries ! 2) k2 of (routes, k3) \<Rightarrow>
                      (case command_error routes of
                         Some e \<Rightarrow> (Some e, k3)
                       | None \<Rightarrow>
                           if \<not> list_all strict_route_ok (split_on (CHR 0x0A) (res_output routes))
                           then (Some (Err ''nondefault private route''), k3)
                           else (None, k3)))))))"

text \<open>Record the snapshot, save, then add until everything is owned.\<close>

definition setup_from :: "'k dur_env \<Rightarrow> string \<Rightarrow> durable \<Rightarrow> 'k world \<Rightarrow> gerr option \<times> durable \<times> 'k world" where
  "setup_from E snap d w =
     (let d1 = d\<lparr>du_rec := (du_rec d)\<lparr>jr_snapshot := snap\<rparr>\<rparr>
      in (case durable_save d1 w of
            (Some e, w1) \<Rightarrow> (Some e, d1, w1)
          | (None, w1) \<Rightarrow> change_all E AddIntent d1 w1))"

definition setup_strict :: "'k dur_env \<Rightarrow> durable \<Rightarrow> 'k world \<Rightarrow> gerr option \<times> durable \<times> 'k world" where
  "setup_strict E d w =
     (case on_kernel (strict_admission (de_run E)) w of
        (Some e, w1) \<Rightarrow> (Some e, d, w1)
      | (None, w1) \<Rightarrow>
          (case isolated_snapshot E w1 of
             (Inl e, w2) \<Rightarrow> (Some e, d\<lparr>du_rec := (du_rec d)\<lparr>jr_snapshot := []\<rparr>\<rparr>, w2)
           | (Inr s, w2) \<Rightarrow> setup_from E s d w2))"

definition setup_scoped :: "'k dur_env \<Rightarrow> durable \<Rightarrow> 'k world \<Rightarrow> gerr option \<times> durable \<times> 'k world" where
  "setup_scoped E d w =
     (case observe_scoped_at E d w of
        (Inl e, w1) \<Rightarrow> (Some e, d, w1)
      | (Inr sw, w1) \<Rightarrow>
          if \<not> counts_match (sw_counts sw) 0
          then (Some (Err ''pre-existing reserved resources cannot be adopted''), d, w1)
          else setup_from E (sw_digest sw) d w1)"

definition durable_setup :: "'k dur_env \<Rightarrow> durable \<Rightarrow> 'k world \<Rightarrow> gerr option \<times> durable \<times> 'k world" where
  "durable_setup E d w =
     (case durable_check E d w of
        (Some e, w1) \<Rightarrow> (Some e, d, w1)
      | (None, w1) \<Rightarrow>
          if jr_owned (du_rec d) = int (length (du_steps d)) then (None, d, w1)
          else if jr_owned (du_rec d) \<noteq> 0
          then (Some (Err ''recover partial setup before starting''), d, w1)
          else if du_scoped d then setup_scoped E d w1
          else setup_strict E d w1)"

section \<open>Recovery\<close>

definition pending_after :: "journal_record \<Rightarrow> int" where
  "pending_after r = (if jr_pending r = ''remove'' then jr_owned r - 1 else jr_owned r + 1)"

definition pending_index :: "journal_record \<Rightarrow> int" where
  "pending_index r = (if jr_pending r = ''remove'' then jr_owned r - 1 else jr_owned r)"

text \<open>The owned count an observation settles a pending intent to.\<close>

definition pending_outcome :: "journal_record \<Rightarrow> int list \<Rightarrow> int option" where
  "pending_outcome r counts =
     (if counts_match counts (pending_after r) then Some (pending_after r)
      else if counts_match counts (jr_owned r) then Some (jr_owned r)
      else None)"

definition durable_reconcile :: "'k dur_env \<Rightarrow> durable \<Rightarrow> 'k world \<Rightarrow> gerr option \<times> durable \<times> 'k world" where
  "durable_reconcile E d w =
     (let r = du_rec d
      in if (jr_version r \<noteq> 2 \<and> jr_version r \<noteq> 3) \<or> jr_proof r = []
         then (Some (Err ''unwitnessed legacy intent: refusing recovery''), d, w)
         else (case durable_witness E d (pending_index r) w of
                 (Inl e, w1) \<Rightarrow> (Some e, d, w1)
               | (Inr rw, w1) \<Rightarrow>
                   if rw_residual rw \<noteq> jr_proof r
                   then (Some (Err ''foreign change during pending intent''), d, w1)
                   else (case pending_outcome r (rw_counts rw) of
                           None \<Rightarrow> (Some (Err ''pending outcome not a single planned operation''), d, w1)
                         | Some owned \<Rightarrow>
                             let d1 = d\<lparr>du_rec := r\<lparr>jr_owned := owned, jr_snapshot := rw_whole rw,
                                          jr_pending := [], jr_proof := []\<rparr>\<rparr>
                             in (case durable_save d1 w1 of
                                   (Some e, w2) \<Rightarrow> (Some e, d, w2)
                                 | (None, w2) \<Rightarrow> (None, d1, w2)))))"

definition recover_settled :: "'k dur_env \<Rightarrow> durable \<Rightarrow> 'k world \<Rightarrow> gerr option \<times> durable \<times> 'k world" where
  "recover_settled E d w =
     (case durable_check E d w of
        (Some e, w1) \<Rightarrow> (Some e, d, w1)
      | (None, w1) \<Rightarrow> change_all E RemoveIntent d w1)"

definition durable_recover :: "'k dur_env \<Rightarrow> durable \<Rightarrow> 'k world \<Rightarrow> gerr option \<times> durable \<times> 'k world" where
  "durable_recover E d w =
     (if du_closed d then (Some (Err ''controller closed''), d, w)
      else if jr_pending (du_rec d) \<noteq> [] then
        (case durable_reconcile E d w of
           (Some e, d1, w1) \<Rightarrow> (Some e, d1, w1)
         | (None, d1, w1) \<Rightarrow> recover_settled E d1 w1)
      else recover_settled E d w)"

definition resolve_pending :: "'k dur_env \<Rightarrow> durable \<Rightarrow> 'k world \<Rightarrow> gerr option \<times> durable \<times> 'k world" where
  "resolve_pending E d w =
     (if du_closed d then (Some (Err ''controller closed''), d, w)
      else if jr_pending (du_rec d) \<noteq> [] then durable_reconcile E d w
      else (case durable_check E d w of (e, w1) \<Rightarrow> (e, d, w1)))"

end
