(* ===== verification/Crash.thy ===== *)
theory Crash
  imports Durable
begin

text \<open>
  Crash safety of the durable controller in scoped mode. \<open>scoped_kernel\<close> states what the commands
  do to the reserved footprint; from it every schedule of system-call failures and reopenings keeps
  the journal a description of the kernel, and a later recovery removes exactly what is owned.
\<close>

section \<open>System calls\<close>

lemma syscall_frame:
  "syscall w = (e, w') \<Longrightarrow> w_kernel w' = w_kernel w \<and> w_journal w' = w_journal w \<and> w_staging w' = w_staging w"
  by (auto simp: syscall_def split: list.splits)

lemma syscall_quiet [sys_simps]: "w_faults w = [] \<Longrightarrow> syscall w = (None, w)"
  by (simp add: syscall_def)

lemma write_staging_frame:
  assumes "write_staging b w = (e, w')"
  shows "w_kernel w' = w_kernel w \<and> w_journal w' = w_journal w \<and>
         (e = None \<longrightarrow> w_staging w' = Some b)"
  using assms unfolding write_staging_def
  by (auto split: prod.splits option.splits dest!: syscall_frame)

lemma commit_staging_frame:
  assumes "commit_staging w = (e, w')"
  shows "w_kernel w' = w_kernel w \<and> (w_journal w' = w_journal w \<or> w_journal w' = w_staging w) \<and>
         (e = None \<longrightarrow> w_journal w' = w_staging w)"
  using assms unfolding commit_staging_def
  by (auto split: prod.splits option.splits dest!: syscall_frame)

text \<open>A save leaves the old journal or the whole new one, whatever fails.\<close>

lemma durable_save_frame:
  assumes "durable_save d w = (e, w')"
  shows "w_kernel w' = w_kernel w \<and>
         (w_journal w' = w_journal w \<or> w_journal w' = Some (journal_text (du_rec d))) \<and>
         (e = None \<longrightarrow> w_journal w' = Some (journal_text (du_rec d)))"
proof -
  obtain e1 w1 where s1: "syscall w = (e1, w1)" by fastforce
  show ?thesis
  proof (cases "e1 \<noteq> None \<and> e1 \<noteq> Some NotExist")
    case True
    then show ?thesis using assms s1 syscall_frame [OF s1] by (auto simp: durable_save_def)
  next
    case ok1: False
    obtain e2 w2 where s2: "syscall (w1\<lparr>w_staging := None\<rparr>) = (e2, w2)" by fastforce
    obtain e3 w3 where s3: "write_staging (journal_text (du_rec d)) (w2\<lparr>w_staging := Some []\<rparr>) = (e3, w3)"
      by fastforce
    obtain e4 w4 where s4: "commit_staging w3 = (e4, w4)" by fastforce
    show ?thesis
      using assms ok1 s1 s2 s3 s4 syscall_frame [OF s1] syscall_frame [OF s2]
        write_staging_frame [OF s3] commit_staging_frame [OF s4]
      by (cases e2; cases e3) (auto simp: durable_save_def)
  qed
qed

lemma durable_save_quiet [sys_simps]:
  "w_faults w = [] \<Longrightarrow>
     durable_save d w = (None, w\<lparr>w_journal := Some (journal_text (du_rec d)), w_staging := None\<rparr>)"
  by (simp add: durable_save_def write_staging_def commit_staging_def sys_simps)

section \<open>The loops end at their guard\<close>

lemma durable_change_owned:
  assumes "durable_change E i d w = (None, d', w')"
  shows "jr_owned (du_rec d') = intent_after i (jr_owned (du_rec d)) \<and> du_steps d' = du_steps d"
  using assms
  by (auto simp: durable_change_def apply_change_def Let_def
      split: prod.splits option.splits sum.splits if_splits)

lemma loop_distance_change:
  assumes "durable_change E i d w = (None, d', w')" and "loop_more i d"
  shows "Suc (loop_distance i d') = loop_distance i d"
  using assms(2) durable_change_owned [OF assms(1)]
  by (cases i) (auto simp: loop_more_def loop_distance_def intent_after_def)

lemma change_loop_done:
  assumes "change_loop E i n d w = (None, d', w')" and "loop_distance i d \<le> n"
  shows "\<not> loop_more i d'"
  using assms
proof (induction n arbitrary: d w)
  case 0
  then show ?case by (cases i) (auto simp: loop_more_def loop_distance_def)
next
  case (Suc n)
  show ?case
  proof (cases "loop_more i d")
    case False
    then show ?thesis using Suc.prems(1) by auto
  next
    case True
    then obtain d1 w1 where ch: "durable_change E i d w = (None, d1, w1)"
      and rest: "change_loop E i n d1 w1 = (None, d', w')"
      using Suc.prems(1) by (auto split: prod.splits option.splits)
    then show ?thesis
      using Suc.IH [OF rest] Suc.prems(2) loop_distance_change [OF ch True] by simp
  qed
qed

section \<open>What the commands promise\<close>

text \<open>
  \<open>level k\<close> is \<open>Some n\<close> when exactly the first \<open>n\<close> planned resources are installed and nothing
  foreign touches the footprint; \<open>lines\<close> are the eight lines the listings show for them. A command
  that reports failure may still have been applied.
\<close>

locale scoped_kernel =
  fixes E :: "'k dur_env" and p :: plan and level :: "'k \<Rightarrow> nat option" and lines :: "string list"
  assumes plan_ok: "plan_steps p = Inr (planned_steps p)"
    and lines8: "length lines = 8"
    and hash32: "length (de_sha E s) = 32"
    and level8: "level k = Some n \<Longrightarrow> n \<le> 8"
    and observed: "level k = Some n \<Longrightarrow>
        observe_scoped_with (de_sha E) (de_aliases E) (de_run E) p k = (ob, k') \<Longrightarrow>
        level k' = Some n \<and>
        (\<forall>sw. ob = Inr sw \<longrightarrow>
           sw_resources sw = map (\<lambda>i. if i < n then [lines ! i] else []) [0 ..< 8])"
    and added: "level k = Some n \<Longrightarrow> n < 8 \<Longrightarrow>
        de_run E (step_add (planned_steps p ! n)) k = (r, k') \<Longrightarrow>
        level k' = Some (Suc n) \<or> level k' = Some n \<and> command_error r \<noteq> None"
    and removed: "level k = Some (Suc n) \<Longrightarrow>
        de_run E (step_remove (planned_steps p ! n)) k = (r, k') \<Longrightarrow>
        level k' = Some n \<or> level k' = Some (Suc n) \<and> command_error r \<noteq> None"
begin

definition resources_at :: "nat \<Rightarrow> string list list" where
  "resources_at n = map (\<lambda>i. if i < n then [lines ! i] else []) [0 ..< 8]"

definition digest_at :: "nat \<Rightarrow> string" where
  "digest_at n = resources_digest (de_sha E) (resources_at n)"

lemma resources_at_drop: "n < 8 \<Longrightarrow> (resources_at (Suc n))[n := []] = resources_at n"
  unfolding resources_at_def by (rule nth_equalityI) (auto simp: nth_list_update)

lemma resources_at_same: "n < 8 \<Longrightarrow> (resources_at n)[n := []] = resources_at n"
  unfolding resources_at_def by (rule nth_equalityI) (auto simp: nth_list_update)

lemma length_resources_at [simp]: "length (resources_at n) = 8"
  by (simp add: resources_at_def)

lemma excluding_at:
  assumes "n < 8"
  shows "sw_excluding (de_sha E) (resources_at n) (int n) = digest_at n"
    and "sw_excluding (de_sha E) (resources_at (Suc n)) (int n) = digest_at n"
  using assms by (simp_all add: sw_excluding_def digest_at_def resources_at_drop resources_at_same)

lemma digest_at_text: "digest_text (digest_at n)" "digest_at n \<noteq> []"
proof -
  have "length (digest_at n) = 64"
    by (simp add: digest_at_def resources_digest_def length_state_digest hash32)
  then show "digest_at n \<noteq> []" by auto
  show "digest_text (digest_at n)"
    by (simp add: digest_text_def digest_at_def resources_digest_def state_digest_def
        hex_decode_encode hash32)
qed

lemma observation:
  assumes "level k = Some n" and "observe_scoped_with (de_sha E) (de_aliases E) (de_run E) p k = (Inr sw, k')"
  shows "sw_resources sw = resources_at n" "sw_digest sw = digest_at n"
    "sw_counts sw = expected_counts (int n)" "length (sw_counts sw) = 8"
proof -
  show rs: "sw_resources sw = resources_at n"
    using observed [OF assms] by (simp add: resources_at_def)
  note shape = observe_scoped_shape [OF assms(2)]
  show "sw_digest sw = digest_at n" using shape rs by (simp add: digest_at_def)
  show "length (sw_counts sw) = 8" using shape by simp
  have "sw_counts sw ! i = expected_counts (int n) ! i" if "i < 8" for i
    using shape rs that by (auto simp: resources_at_def split: if_splits)
  then show "sw_counts sw = expected_counts (int n)"
    using shape by (intro nth_equalityI) auto
qed

lemma counts_at:
  assumes "n \<le> 8" "0 \<le> m" "m \<le> 8"
  shows "counts_match (expected_counts (int n)) m \<longleftrightarrow> m = int n"
proof
  assume "counts_match (expected_counts (int n)) m"
  then have "expected_counts (int n) = expected_counts m" by (simp add: counts_match_iff)
  then show "m = int n" using expected_counts_inject [of "int n" m] assms by simp
qed (simp add: counts_match_iff)

section \<open>Records that describe the kernel\<close>

definition owner :: "string \<Rightarrow> string \<Rightarrow> journal_record \<Rightarrow> bool" where
  "owner ns boot r \<longleftrightarrow> jr_version r = 3 \<and> jr_namespace r = ns \<and> jr_boot r = boot \<and> jr_plan r = p"

definition settled :: "nat \<Rightarrow> journal_record \<Rightarrow> bool" where
  "settled n r \<longleftrightarrow> jr_pending r = [] \<and> jr_proof r = [] \<and> jr_owned r = int n \<and> jr_snapshot r = digest_at n"

text \<open>An intent at \<open>m\<close>: the kernel may stand before or after the one planned operation.\<close>

definition adding :: "nat \<Rightarrow> nat \<Rightarrow> journal_record \<Rightarrow> bool" where
  "adding m n r \<longleftrightarrow> m < 8 \<and> n \<in> {m, Suc m} \<and> jr_pending r = ''add'' \<and> jr_proof r = digest_at m \<and>
     jr_owned r = int m \<and> jr_snapshot r = digest_at m"

definition removing :: "nat \<Rightarrow> nat \<Rightarrow> journal_record \<Rightarrow> bool" where
  "removing m n r \<longleftrightarrow> m < 8 \<and> n \<in> {m, Suc m} \<and> jr_pending r = ''remove'' \<and> jr_proof r = digest_at m \<and>
     jr_owned r = int (Suc m) \<and> jr_snapshot r = digest_at (Suc m)"

definition describes :: "string \<Rightarrow> string \<Rightarrow> nat \<Rightarrow> journal_record \<Rightarrow> bool" where
  "describes ns boot n r \<longleftrightarrow> owner ns boot r \<and> n \<le> 8 \<and>
     (settled n r \<or> (\<exists>m. adding m n r) \<or> (\<exists>m. removing m n r))"

definition fresh :: "string \<Rightarrow> string \<Rightarrow> nat \<Rightarrow> journal_record \<Rightarrow> bool" where
  "fresh ns boot n r \<longleftrightarrow> owner ns boot r \<and> n = 0 \<and> jr_pending r = [] \<and> jr_proof r = [] \<and>
     jr_owned r = 0 \<and> jr_snapshot r = []"

definition on_disk :: "string \<Rightarrow> string \<Rightarrow> nat \<Rightarrow> string option \<Rightarrow> bool" where
  "on_disk ns boot n j =
     (case j of None \<Rightarrow> n = 0 | Some b \<Rightarrow> \<exists>r. b = journal_text r \<and> describes ns boot n r)"

definition sound :: "string \<Rightarrow> string \<Rightarrow> nat \<Rightarrow> durable \<Rightarrow> 'k world \<Rightarrow> bool" where
  "sound ns boot n d w \<longleftrightarrow>
     level (w_kernel w) = Some n \<and> du_scoped d \<and> du_steps d = planned_steps p \<and>
     (describes ns boot n (du_rec d) \<or> fresh ns boot n (du_rec d)) \<and>
     on_disk ns boot n (w_journal w)"

lemma describes_plan: "sound ns boot n d w \<Longrightarrow> jr_plan (du_rec d) = p"
  by (auto simp: sound_def describes_def fresh_def owner_def)

lemma describes_ok: "describes ns boot n r \<Longrightarrow> journal_ok r p ns boot True"
  using digest_at_text
  by (auto simp: describes_def journal_ok_def owner_def settled_def adding_def removing_def)

section \<open>Every operation keeps the journal sound\<close>

lemma observe_at_sound:
  assumes "sound ns boot n d w" and "observe_scoped_at E d w = (r, w')"
  shows "sound ns boot n d w' \<and> w_faults w' = w_faults w \<and> w_journal w' = w_journal w \<and>
    (\<forall>sw. r = Inr sw \<longrightarrow> sw_resources sw = resources_at n \<and> sw_digest sw = digest_at n \<and>
       sw_counts sw = expected_counts (int n))"
proof -
  obtain r1 k where ob: "observe_scoped_with (de_sha E) (de_aliases E) (de_run E) p (w_kernel w) = (r1, k)"
    by fastforce
  have lv: "level (w_kernel w) = Some n" using assms(1) by (simp add: sound_def)
  have eq: "r1 = r \<and> w' = w\<lparr>w_kernel := k\<rparr>"
    using assms(2) ob describes_plan [OF assms(1)] by (auto simp: observe_scoped_at_def on_kernel_def)
  show ?thesis
    using assms(1) eq observed [OF lv ob] observation [OF lv, of _ k] ob by (auto simp: sound_def)
qed

lemma check_sound:
  assumes "sound ns boot n d w" and "durable_check E d w = (e, w')"
  shows "sound ns boot n d w' \<and> w_faults w' = w_faults w \<and>
    (e = None \<longrightarrow> \<not> du_closed d \<and> jr_pending (du_rec d) = [] \<and> jr_owned (du_rec d) = int n)"
proof -
  obtain r w1 where ob: "observe_scoped_at E d w = (r, w1)" by fastforce
  note o = observe_at_sound [OF assms(1) ob]
  have own: "jr_pending (du_rec d) = [] \<Longrightarrow> jr_owned (du_rec d) = int n"
    using assms(1) by (auto simp: sound_def describes_def fresh_def settled_def adding_def removing_def)
  have sc: "du_scoped d" using assms(1) by (simp add: sound_def)
  show ?thesis
    using assms(2) o own sc ob assms(1)
    by (cases r) (auto simp: durable_check_def durable_snapshot_def split: if_splits)
qed

lemma save_sound:
  assumes "sound ns boot n d w" and "durable_save d w = (e, w')" and "describes ns boot n (du_rec d)"
  shows "sound ns boot n d w' \<and> (e = None \<longrightarrow> w_journal w' = Some (journal_text (du_rec d)))"
  using assms durable_save_frame [OF assms(2)] by (auto simp: sound_def on_disk_def)

lemma sound_update:
  "sound ns boot n d w \<Longrightarrow> describes ns boot n r \<Longrightarrow> sound ns boot n (d\<lparr>du_rec := r\<rparr>) w"
  by (auto simp: sound_def)

text \<open>The record of an intent at level \<open>m\<close> (added next, or removed down to).\<close>

definition intended :: "intent \<Rightarrow> nat \<Rightarrow> nat \<Rightarrow> journal_record \<Rightarrow> bool" where
  "intended i m n r \<longleftrightarrow> (case i of AddIntent \<Rightarrow> adding m n r | RemoveIntent \<Rightarrow> removing m n r)"

definition level_before :: "intent \<Rightarrow> nat \<Rightarrow> nat" where
  "level_before i m = (case i of AddIntent \<Rightarrow> m | RemoveIntent \<Rightarrow> Suc m)"

definition level_after :: "intent \<Rightarrow> nat \<Rightarrow> nat" where
  "level_after i m = (case i of AddIntent \<Rightarrow> Suc m | RemoveIntent \<Rightarrow> m)"

lemma intended_describes: "owner ns boot r \<Longrightarrow> intended i m n r \<Longrightarrow> describes ns boot n r"
  by (cases i) (auto simp: intended_def describes_def adding_def removing_def)

lemma intended_moves:
  "intended i m n r \<Longrightarrow> n' \<in> {level_before i m, level_after i m} \<Longrightarrow> intended i m n' r"
  by (cases i) (auto simp: intended_def level_before_def level_after_def adding_def removing_def)

lemma intended_owned:
  "intended i m n r \<Longrightarrow> intent_after i (jr_owned r) = int (level_after i m) \<and>
     jr_owned r = int (level_before i m) \<and> level_after i m \<le> 8 \<and> m < 8"
  by (cases i) (auto simp: intended_def level_before_def level_after_def adding_def removing_def
      intent_after_def)

lemma command_moves:
  assumes "level k = Some (level_before i m)" and "m < 8"
    and "de_run E (intent_args i (planned_steps p ! m)) k = (r, k')"
  shows "level k' = Some (level_after i m) \<or>
         level k' = Some (level_before i m) \<and> command_error r \<noteq> None"
  using assms added [of k m r k'] removed [of k m r k']
  by (cases i) (auto simp: level_before_def level_after_def intent_args_def)

lemma apply_change_sound:
  assumes snd: "sound ns boot (level_before i m) d w"
    and int: "owner ns boot (du_rec d)" "intended i m (level_before i m) (du_rec d)"
    and disk: "w_journal w = Some (journal_text (du_rec d))"
    and before: "jr_owned before = jr_owned (du_rec d)" "jr_snapshot before = jr_snapshot (du_rec d)"
    and pend: "jr_pending (du_rec d) = intent_text i"
    and run: "apply_change E i m before d w = (e, d', w')"
  shows "\<exists>n. sound ns boot n d' w' \<and> (e = None \<longrightarrow> n = level_after i m \<and> settled n (du_rec d'))"
proof -
  have st: "du_steps d = planned_steps p" "du_scoped d" "level (w_kernel w) = Some (level_before i m)"
    using snd by (simp_all add: sound_def)
  note io = intended_owned [OF int(2)]
  obtain r k where rk: "de_run E (intent_args i (planned_steps p ! m)) (w_kernel w) = (r, k)" by fastforce
  let ?w1 = "w\<lparr>w_kernel := k\<rparr>"
  have desc: "describes ns boot n (du_rec d)" if "n \<in> {level_before i m, level_after i m}" for n
    using intended_describes [OF int(1) intended_moves [OF int(2) that]] .
  have snd1: "sound ns boot n d ?w1" if "level k = Some n" "n \<in> {level_before i m, level_after i m}" for n
    using snd that desc disk by (auto simp: sound_def on_disk_def)
  note mv = command_moves [OF st(3) conjunct2 [OF conjunct2 [OF conjunct2 [OF io]]] rk]
  have ok: "on_kernel (de_run E (intent_args i (du_steps d ! m))) w = (r, ?w1)"
    by (simp add: on_kernel_def st rk)
  show ?thesis
  proof (cases "command_error r")
    case (Some err)
    then have "d' = d \<and> w' = ?w1 \<and> e = Some err" using run ok by (simp add: apply_change_def)
    then show ?thesis using mv snd1 by auto
  next
    case None
    let ?n = "level_after i m"
    have lv: "level k = Some ?n" using mv None by simp
    let ?r1 = "(du_rec d)\<lparr>jr_owned := intent_after i (jr_owned (du_rec d))\<rparr>"
    let ?d1 = "d\<lparr>du_rec := ?r1\<rparr>"
    obtain s w2 where sn: "durable_snapshot E ?d1 ?w1 = (s, w2)" by fastforce
    obtain ob w3 where ob: "observe_scoped_at E ?d1 ?w1 = (ob, w3)" by fastforce
    have "observe_scoped_at E ?d1 = observe_scoped_at E d" by (simp add: observe_scoped_at_def)
    then have ob': "observe_scoped_at E d ?w1 = (ob, w3)" using ob by simp
    note o = observe_at_sound [OF snd1 [OF lv insertI2 [OF singletonI]] ob']
    have w2: "w2 = w3" using sn ob st(2)
      by (cases ob) (auto simp: durable_snapshot_def split: if_splits)
    show ?thesis
    proof (cases s)
      case (Inl err)
      then have "d' = d \<and> w' = w3 \<and> e \<noteq> None"
        using run ok None sn w2 by (auto simp: apply_change_def Let_def)
      then show ?thesis using o by auto
    next
      case (Inr sv)
      have sv: "sv = digest_at ?n"
        using sn ob st(2) Inr o by (cases ob) (auto simp: durable_snapshot_def split: if_splits)
      let ?r2 = "?r1\<lparr>jr_snapshot := sv, jr_pending := [], jr_proof := []\<rparr>"
      let ?d2 = "?d1\<lparr>du_rec := ?r2\<rparr>"
      have set2: "settled ?n ?r2" using sv conjunct1 [OF io] by (simp add: settled_def)
      have desc2: "describes ns boot ?n ?r2"
        using set2 int(1) io by (simp add: describes_def owner_def)
      have snd2: "sound ns boot ?n ?d2 w3" using sound_update [OF conjunct1 [OF o] desc2] by simp
      obtain e4 w4 where sv4: "durable_save ?d2 w3 = (e4, w4)" by fastforce
      have snd4: "sound ns boot ?n ?d2 w4" using save_sound [OF snd2 sv4] desc2 by simp
      show ?thesis
      proof (cases e4)
        case (Some err)
        have "d' = ?d2\<lparr>du_rec := du_rec d\<rparr> \<and> w' = w4 \<and> e \<noteq> None"
          using run ok None sn w2 Inr sv4 Some before pend
          by (auto simp: apply_change_def Let_def)
        then show ?thesis using sound_update [OF snd4 desc] by auto
      next
        case none4: None
        have "d' = ?d2 \<and> w' = w4" using run ok None sn w2 Inr sv4 none4
          by (auto simp: apply_change_def Let_def)
        then show ?thesis using snd4 set2 by auto
      qed
    qed
  qed
qed

lemma change_sound:
  assumes snd: "sound ns boot n d w" and more: "loop_more i d"
    and run: "durable_change E i d w = (e, d', w')"
  shows "\<exists>n'. sound ns boot n' d' w' \<and> (e = None \<longrightarrow> settled n' (du_rec d'))"
proof -
  have st: "du_steps d = planned_steps p" "du_scoped d" using snd by (simp_all add: sound_def)
  obtain c w1 where ck: "durable_check E d w = (c, w1)" by fastforce
  note k = check_sound [OF snd ck]
  show ?thesis
  proof (cases c)
    case (Some err)
    then have "d' = d \<and> w' = w1 \<and> e = Some err" using run ck by (simp add: durable_change_def)
    then show ?thesis using k by auto
  next
    case c: None
    then have pend: "jr_pending (du_rec d) = []" and own: "jr_owned (du_rec d) = int n" using k by auto
    have n8: "n \<le> 8" using snd level8 by (auto simp: sound_def)
    obtain m where m: "level_before i m = n" "m < 8" "intent_index i (int n) = int m"
      using more own n8 st
      by (cases i; cases n) (auto simp: loop_more_def level_before_def intent_index_def)
    obtain ob w2 where ob: "observe_scoped_at E d w1 = (ob, w2)" by fastforce
    note o = observe_at_sound [OF conjunct1 [OF k] ob]
    show ?thesis
    proof (cases ob)
      case (Inl err)
      then have "d' = d \<and> w' = w2 \<and> e = Some err"
        using run ck c ob st by (simp add: durable_change_def durable_witness_def Let_def)
      then show ?thesis using o by auto
    next
      case (Inr sw)
      then have sw: "sw_resources sw = resources_at n" "sw_digest sw = digest_at n"
        "sw_counts sw = expected_counts (int n)" using o by auto
      have ex: "sw_excluding (de_sha E) (resources_at n) (int m) = digest_at m"
        using m excluding_at [OF m(2)] by (cases i) (auto simp: level_before_def)
      show ?thesis
      proof (cases "digest_at n = jr_snapshot (du_rec d)")
        case False
        then have "d' = d \<and> w' = w2 \<and> e \<noteq> None"
          using run ck c ob st Inr sw by (auto simp: durable_change_def durable_witness_def Let_def)
        then show ?thesis using o by auto
      next
        case True
        then have "settled n (du_rec d)" and ow: "owner ns boot (du_rec d)"
          using snd pend digest_at_text(2) [of n]
          by (auto simp: sound_def describes_def fresh_def adding_def removing_def)
        let ?r1 = "(du_rec d)\<lparr>jr_version := 3, jr_pending := intent_text i, jr_proof := digest_at m\<rparr>"
        let ?d1 = "d\<lparr>du_rec := ?r1\<rparr>"
        have ow1: "owner ns boot ?r1" using ow by (simp add: owner_def)
        have int1: "intended i m n ?r1"
          using m True own
          by (cases i) (auto simp: intended_def adding_def removing_def level_before_def intent_text_def)
        have d1: "describes ns boot n ?r1" by (rule intended_describes [OF ow1 int1])
        have snd1: "sound ns boot n ?d1 w2" using sound_update [OF _ d1] o by auto
        obtain e3 w3 where sv: "durable_save ?d1 w2 = (e3, w3)" by fastforce
        have snd3: "sound ns boot n ?d1 w3" and dk: "e3 = None \<Longrightarrow> w_journal w3 = Some (journal_text ?r1)"
          using save_sound [OF snd1 sv] d1 by auto
        have eq: "durable_change E i d w =
            (case e3 of Some e \<Rightarrow> (Some e, ?d1, w3) | None \<Rightarrow> apply_change E i m (du_rec d) ?d1 w3)"
          using ck c ob st Inr sw ex sv True own m counts_match_iff [of "expected_counts (int n)" "int n"]
          by (cases e3) (simp_all add: durable_change_def durable_witness_def Let_def)
        show ?thesis
        proof (cases e3)
          case (Some err)
          then show ?thesis using run eq snd3 by auto
        next
          case e3: None
          have "apply_change E i m (du_rec d) ?d1 w3 = (e, d', w')" using run eq e3 by simp
          then show ?thesis
            using apply_change_sound [of ns boot i m ?d1 w3 "du_rec d" e d' w'] snd3 ow1 int1 dk e3 m
            by auto
        qed
      qed
    qed
  qed
qed

lemma change_loop_sound:
  assumes "sound ns boot n d w" and "change_loop E i f d w = (e, d', w')"
  shows "\<exists>n'. sound ns boot n' d' w'"
  using assms
proof (induction f arbitrary: n d w)
  case 0
  then show ?case by auto
next
  case (Suc f)
  show ?case
  proof (cases "loop_more i d")
    case False
    then show ?thesis using Suc.prems by auto
  next
    case True
    obtain e1 d1 w1 where ch: "durable_change E i d w = (e1, d1, w1)" by (metis prod_cases3)
    obtain n1 where "sound ns boot n1 d1 w1" using change_sound [OF Suc.prems(1) True ch] by blast
    then show ?thesis using Suc.IH [of n1 d1 w1] Suc.prems(2) True ch by (auto split: option.splits)
  qed
qed

lemma change_all_sound:
  "sound ns boot n d w \<Longrightarrow> change_all E i d w = (e, d', w') \<Longrightarrow> \<exists>n'. sound ns boot n' d' w'"
  unfolding change_all_def by (rule change_loop_sound)

lemma setup_sound:
  assumes snd: "sound ns boot n d w" and run: "durable_setup E d w = (e, d', w')"
  shows "\<exists>n'. sound ns boot n' d' w'"
proof -
  have st: "du_steps d = planned_steps p" "du_scoped d" using snd by (simp_all add: sound_def)
  obtain c w1 where ck: "durable_check E d w = (c, w1)" by fastforce
  note k = check_sound [OF snd ck]
  consider "c \<noteq> None \<or> jr_owned (du_rec d) \<noteq> 0" | "c = None" "jr_owned (du_rec d) = 0" by blast
  then show ?thesis
  proof cases
    case 1
    then have "d' = d \<and> w' = w1" using run ck st
      by (auto simp: durable_setup_def split: option.splits if_splits)
    then show ?thesis using k by auto
  next
    case 2
    then have n0: "n = 0" and pend: "jr_pending (du_rec d) = []" using k by auto
    obtain ob w2 where ob: "observe_scoped_at E d w1 = (ob, w2)" by fastforce
    note o = observe_at_sound [OF conjunct1 [OF k] ob]
    show ?thesis
    proof (cases ob)
      case (Inl err)
      then have "d' = d \<and> w' = w2" using run ck 2 ob st
        by (simp add: durable_setup_def setup_scoped_def)
      then show ?thesis using o by auto
    next
      case (Inr sw)
      let ?r = "(du_rec d)\<lparr>jr_snapshot := digest_at 0\<rparr>"
      let ?d = "d\<lparr>du_rec := ?r\<rparr>"
      have "settled 0 ?r \<and> owner ns boot ?r"
        using snd n0 pend 2
        by (auto simp: sound_def describes_def fresh_def settled_def adding_def removing_def owner_def)
      then have desc: "describes ns boot 0 ?r" by (simp add: describes_def)
      have snd2: "sound ns boot 0 ?d w2" using sound_update [OF _ desc] o n0 by auto
      have eq: "durable_setup E d w = setup_from E (digest_at 0) d w2"
        using ck 2 ob st Inr o n0 by (auto simp: durable_setup_def setup_scoped_def counts_match_iff)
      obtain e3 w3 where sv: "durable_save ?d w2 = (e3, w3)" by fastforce
      have "sound ns boot 0 ?d w3" using save_sound [OF snd2 sv] desc by simp
      then show ?thesis
        using run eq sv change_all_sound [of ns boot 0 ?d w3 AddIntent e d' w']
        by (cases e3) (auto simp: setup_from_def Let_def)
    qed
  qed
qed

lemma pending_at:
  assumes "describes ns boot n r" and "jr_pending r \<noteq> []"
  obtains i m where "intended i m n r" "m < 8" "n \<in> {m, Suc m}" "jr_proof r = digest_at m"
    "pending_index r = int m" "pending_outcome r (expected_counts (int n)) = Some (int n)"
proof -
  have n8: "n \<le> 8" using assms by (simp add: describes_def)
  consider m where "adding m n r" | m where "removing m n r"
    using assms by (auto simp: describes_def settled_def)
  then show thesis
  proof cases
    case (1 m)
    then have "pending_outcome r (expected_counts (int n)) = Some (int n)"
      using counts_at [OF n8, of "int m"] counts_at [OF n8, of "int m + 1"]
      by (auto simp: adding_def pending_outcome_def pending_after_def)
    then show thesis using 1 that [of AddIntent m]
      by (auto simp: adding_def intended_def pending_index_def)
  next
    case (2 m)
    then have "pending_outcome r (expected_counts (int n)) = Some (int n)"
      using counts_at [OF n8, of "int m"] counts_at [OF n8, of "int m + 1"]
      by (auto simp: removing_def pending_outcome_def pending_after_def add.commute)
    then show thesis using 2 that [of RemoveIntent m]
      by (auto simp: removing_def intended_def pending_index_def)
  qed
qed

lemma reconcile_sound:
  assumes snd: "sound ns boot n d w" and pend: "jr_pending (du_rec d) \<noteq> []"
    and run: "durable_reconcile E d w = (e, d', w')"
  shows "sound ns boot n d' w' \<and> (e = None \<longrightarrow> jr_pending (du_rec d') = []) \<and>
    (\<forall>sw k. observe_scoped_with (de_sha E) (de_aliases E) (de_run E) p (w_kernel w) = (Inr sw, k) \<longrightarrow>
       w_faults w = [] \<longrightarrow> e = None \<and> w_faults w' = [] \<and> w_kernel w' = k \<and> du_closed d' = du_closed d)"
proof -
  have st: "du_steps d = planned_steps p" "du_scoped d" using snd by (simp_all add: sound_def)
  have desc: "describes ns boot n (du_rec d)" using snd pend by (auto simp: sound_def fresh_def)
  from pending_at [OF desc pend] obtain m where m: "m < 8" "n \<in> {m, Suc m}"
    "jr_proof (du_rec d) = digest_at m" "pending_index (du_rec d) = int m"
    "pending_outcome (du_rec d) (expected_counts (int n)) = Some (int n)" by metis
  have ver: "jr_version (du_rec d) = 3" using desc by (simp add: describes_def owner_def)
  have nonil: "digest_at m \<noteq> []" by (rule digest_at_text)
  obtain ob w1 where ob: "observe_scoped_at E d w = (ob, w1)" by fastforce
  note o = observe_at_sound [OF snd ob]
  have obk: "\<And>sw k. observe_scoped_with (de_sha E) (de_aliases E) (de_run E) p (w_kernel w) = (Inr sw, k) \<Longrightarrow>
      ob = Inr sw \<and> w_kernel w1 = k"
    using ob describes_plan [OF snd] by (auto simp: observe_scoped_at_def on_kernel_def)
  show ?thesis
  proof (cases ob)
    case (Inl err)
    then have "e = Some err \<and> d' = d \<and> w' = w1"
      using run ob st ver m nonil by (simp add: durable_reconcile_def durable_witness_def Let_def)
    then show ?thesis using o obk Inl by auto
  next
    case (Inr sw)
    then have sw: "sw_resources sw = resources_at n" "sw_digest sw = digest_at n"
      "sw_counts sw = expected_counts (int n)" using o by auto
    have ex: "sw_excluding (de_sha E) (resources_at n) (int m) = digest_at m"
      using m excluding_at [OF m(1)] by auto
    let ?r = "(du_rec d)\<lparr>jr_owned := int n, jr_snapshot := digest_at n, jr_pending := [], jr_proof := []\<rparr>"
    let ?d = "d\<lparr>du_rec := ?r\<rparr>"
    have desc1: "describes ns boot n ?r"
      using desc by (simp add: describes_def owner_def settled_def)
    have snd1: "sound ns boot n ?d w1" using sound_update [OF _ desc1] o by auto
    obtain e2 w2 where sv: "durable_save ?d w1 = (e2, w2)" by fastforce
    have snd2: "sound ns boot n ?d w2" using save_sound [OF snd1 sv] desc1 by simp
    have eq: "durable_reconcile E d w = (case e2 of Some e \<Rightarrow> (Some e, d, w2) | None \<Rightarrow> (None, ?d, w2))"
      using ob st ver m nonil Inr sw ex sv
      by (simp add: durable_reconcile_def durable_witness_def Let_def)
    show ?thesis
    proof (cases e2)
      case (Some err)
      then have "sound ns boot n d w2" using sound_update [OF snd2 desc] by simp
      then show ?thesis using run eq Some sv o durable_save_quiet [of w1 ?d] by auto
    next
      case None
      then show ?thesis
        using run eq snd2 sv o obk Inr durable_save_quiet [of w1 ?d] by auto
    qed
  qed
qed

lemma recover_settled_sound:
  assumes "sound ns boot n d w" and "recover_settled E d w = (e, d', w')"
  shows "\<exists>n'. sound ns boot n' d' w'"
proof -
  obtain c w1 where ck: "durable_check E d w = (c, w1)" by fastforce
  have "sound ns boot n d w1" using check_sound [OF assms(1) ck] by simp
  then show ?thesis using assms(2) ck change_all_sound [of ns boot n d w1 RemoveIntent e d' w']
    by (cases c) (auto simp: recover_settled_def)
qed

lemma recover_sound:
  assumes "sound ns boot n d w" and "durable_recover E d w = (e, d', w')"
  shows "\<exists>n'. sound ns boot n' d' w'"
proof (cases "du_closed d \<or> jr_pending (du_rec d) = []")
  case True
  then show ?thesis using assms recover_settled_sound
    by (auto simp: durable_recover_def split: if_splits)
next
  case False
  obtain e1 d1 w1 where rc: "durable_reconcile E d w = (e1, d1, w1)" by (metis prod_cases3)
  have "sound ns boot n d1 w1" using reconcile_sound [OF assms(1) _ rc] False by simp
  then show ?thesis using assms(2) False rc recover_settled_sound [of ns boot n d1 w1 e d' w']
    by (cases e1) (auto simp: durable_recover_def)
qed

lemma resolve_sound:
  assumes "sound ns boot n d w" and "resolve_pending E d w = (e, d', w')"
  shows "sound ns boot n d' w'"
  using assms reconcile_sound [OF assms(1), of e d' w'] check_sound [OF assms(1)]
  by (auto simp: resolve_pending_def split: if_splits prod.splits)

text \<open>What a controller does over its life; \<open>Reopen\<close> is a new process on the same directory.\<close>

lemma read_journal_sound:
  assumes lv: "level (w_kernel w) = Some n" and disk: "on_disk ns boot n (w_journal w)"
    and ready: "oe_journal V = None" "oe_read V = None" "private_file (oe_euid V) (oe_journal_stat V) = None"
    and size: "\<And>r. journal_ok r p ns boot True \<Longrightarrow> length (journal_text r) \<le> 65536"
    and d: "d = fresh_durable ns bt p (planned_steps p) True" "trim_space bt = boot"
  shows "\<exists>d'. read_journal V d w = Inr d' \<and> sound ns boot n d' w \<and> \<not> du_closed d'"
proof (cases "w_journal w")
  case None
  then have "read_journal V d w = Inr d" using ready by (simp add: read_journal_def)
  moreover have "sound ns boot n d w"
    using None disk lv d
    by (auto simp: sound_def on_disk_def fresh_def owner_def fresh_durable_def zero_record_def)
  ultimately show ?thesis using d by (simp add: fresh_durable_def)
next
  case (Some b)
  then obtain r where b: "b = journal_text r" and desc: "describes ns boot n r"
    using disk by (auto simp: on_disk_def)
  note ok = describes_ok [OF desc]
  have "length b \<le> 65536" using size [OF ok] b by simp
  then have "decode_journal_mode (take 65537 b) p ns boot True = Inr r"
    using decode_journal_text [OF ok plan_ok] b by simp
  then have "read_journal V d w = Inr (d\<lparr>du_rec := r\<rparr>)"
    using ready Some d by (simp add: read_journal_def fresh_durable_def)
  moreover have "sound ns boot n (d\<lparr>du_rec := r\<rparr>) w"
    using Some disk lv d desc by (auto simp: sound_def fresh_durable_def)
  ultimately show ?thesis using d by (simp add: fresh_durable_def)
qed

end

section \<open>Schedules\<close>

datatype life_step = Setup | Recover | Resolve | Reopen | Fault "gerr option list"

text \<open>
  \<open>Fault fs\<close> sets the outcomes of the coming system calls. A controller whose reopening fails
  keeps its last state and is not used again by the code; here the old one stays in place.
\<close>

definition life_step :: "'k dur_env \<Rightarrow> open_env \<Rightarrow> plan \<Rightarrow> life_step \<Rightarrow> durable \<times> 'k world \<Rightarrow> durable \<times> 'k world" where
  "life_step E V p s c =
     (case s of
        Setup \<Rightarrow> snd (durable_setup E (fst c) (snd c))
      | Recover \<Rightarrow> snd (durable_recover E (fst c) (snd c))
      | Resolve \<Rightarrow> snd (resolve_pending E (fst c) (snd c))
      | Reopen \<Rightarrow> (case open_durable V p True (snd c) of Inl e \<Rightarrow> c | Inr d \<Rightarrow> (d, snd c))
      | Fault fs \<Rightarrow> (fst c, (snd c)\<lparr>w_faults := fs\<rparr>))"

definition life :: "'k dur_env \<Rightarrow> open_env \<Rightarrow> plan \<Rightarrow> life_step list \<Rightarrow> durable \<times> 'k world \<Rightarrow> durable \<times> 'k world" where
  "life E V p ss c = foldl (\<lambda>c s. life_step E V p s c) c ss"

text \<open>An environment in which opening succeeds.\<close>

definition openable :: "open_env \<Rightarrow> string \<Rightarrow> string \<Rightarrow> bool" where
  "openable V ns boot \<longleftrightarrow>
     oe_ns V = Inr ns \<and> is_ok (oe_host V) \<and> oe_host V \<noteq> Inr ns \<and>
     (case oe_boot V of Inl e \<Rightarrow> False | Inr b \<Rightarrow> trim_space b = boot) \<and>
     (case oe_lstat V of Inl e \<Rightarrow> False | Inr s \<Rightarrow> private_state_dir (oe_euid V) s) \<and>
     oe_root V = None \<and> oe_dot V = None \<and> oe_same V \<and> oe_lock V = None \<and>
     private_file (oe_euid V) (oe_lock_stat V) = None \<and> oe_flock V = None \<and>
     oe_journal V = None \<and> private_file (oe_euid V) (oe_journal_stat V) = None \<and> oe_read V = None"

lemma open_durable_openable:
  assumes "openable V ns boot" and "plan_steps p = Inr steps"
  obtains bt where "oe_boot V = Inr bt" "trim_space bt = boot"
    "open_durable V p scoped w = read_journal V (fresh_durable ns bt p steps scoped) w"
proof -
  obtain bt where "oe_boot V = Inr bt" "trim_space bt = boot"
    using assms(1) by (auto simp: openable_def split: sum.splits)
  moreover obtain s where "oe_lstat V = Inr s" "private_state_dir (oe_euid V) s"
    using assms(1) by (auto simp: openable_def split: sum.splits)
  ultimately show thesis using assms that by (simp add: openable_def open_durable_def)
qed

section \<open>Kernels that answer\<close>

text \<open>While \<open>healthy\<close>, observations succeed and removals do what they report.\<close>

locale healthy_kernel = scoped_kernel E p level lines
  for E :: "'k dur_env" and p :: plan and level :: "'k \<Rightarrow> nat option" and lines :: "string list" +
  fixes healthy :: "'k \<Rightarrow> bool"
  assumes observes: "healthy k \<Longrightarrow> level k = Some n \<Longrightarrow>
        \<exists>sw k'. observe_scoped_with (de_sha E) (de_aliases E) (de_run E) p k = (Inr sw, k') \<and> healthy k'"
    and removes: "healthy k \<Longrightarrow> level k = Some (Suc n) \<Longrightarrow>
        de_run E (step_remove (planned_steps p ! n)) k = (r, k') \<Longrightarrow>
        command_error r = None \<and> healthy k'"
begin

definition calm :: "'k world \<Rightarrow> bool" where
  "calm w \<longleftrightarrow> w_faults w = [] \<and> healthy (w_kernel w)"

lemma observe_at_calm:
  assumes "sound ns boot n d w" and "calm w"
  obtains sw k where "observe_scoped_at E d w = (Inr sw, w\<lparr>w_kernel := k\<rparr>)" "healthy k"
    "observe_scoped_with (de_sha E) (de_aliases E) (de_run E) p (w_kernel w) = (Inr sw, k)"
proof -
  have "level (w_kernel w) = Some n" "healthy (w_kernel w)"
    using assms by (simp_all add: sound_def calm_def)
  from observes [OF this(2,1)] obtain sw k where
    "observe_scoped_with (de_sha E) (de_aliases E) (de_run E) p (w_kernel w) = (Inr sw, k)" "healthy k" by auto
  then show thesis
    using that describes_plan [OF assms(1)] by (simp add: observe_scoped_at_def on_kernel_def)
qed

lemma check_calm:
  assumes snd: "sound ns boot n d w" and calm: "calm w" and opn: "\<not> du_closed d"
    and pend: "jr_pending (du_rec d) = []"
  shows "\<exists>w'. durable_check E d w = (None, w') \<and> calm w' \<and> sound ns boot n d w'"
proof -
  obtain sw k where ob: "observe_scoped_at E d w = (Inr sw, w\<lparr>w_kernel := k\<rparr>)" "healthy k"
    using observe_at_calm [OF snd calm] by metis
  note o = observe_at_sound [OF snd ob(1)]
  have own: "jr_owned (du_rec d) = int n" "jr_snapshot (du_rec d) \<in> {[], digest_at n}"
    using snd pend by (auto simp: sound_def describes_def fresh_def settled_def adding_def removing_def)
  have "durable_check E d w = (None, w\<lparr>w_kernel := k\<rparr>)"
    using snd pend opn ob o own
    by (auto simp: durable_check_def durable_snapshot_def sound_def counts_match_iff)
  then show ?thesis using o ob calm by (auto simp: calm_def)
qed

lemma remove_calm:
  assumes snd: "sound ns boot (Suc m) d w" and calm: "calm w" and opn: "\<not> du_closed d"
    and set: "settled (Suc m) (du_rec d)"
  shows "\<exists>d' w'. durable_change E RemoveIntent d w = (None, d', w') \<and> calm w' \<and>
     sound ns boot m d' w' \<and> settled m (du_rec d') \<and> \<not> du_closed d'"
proof -
  have st: "du_steps d = planned_steps p" "du_scoped d" using snd by (simp_all add: sound_def)
  have own: "jr_owned (du_rec d) = int (Suc m)" "jr_pending (du_rec d) = []"
    "jr_snapshot (du_rec d) = digest_at (Suc m)" using set by (simp_all add: settled_def)
  obtain w1 where ck: "durable_check E d w = (None, w1)" "calm w1" "sound ns boot (Suc m) d w1"
    using check_calm [OF snd calm opn own(2)] by metis
  obtain sw k where ob: "observe_scoped_at E d w1 = (Inr sw, w1\<lparr>w_kernel := k\<rparr>)" "healthy k"
    using observe_at_calm [OF ck(3,2)] by metis
  note o = observe_at_sound [OF ck(3) ob(1)]
  have m8: "m < 8" using snd level8 by (fastforce simp: sound_def)
  have lvk: "level k = Some (Suc m)" using o by (simp add: sound_def)
  let ?r1 = "(du_rec d)\<lparr>jr_version := 3, jr_pending := intent_text RemoveIntent, jr_proof := digest_at m\<rparr>"
  let ?d1 = "d\<lparr>du_rec := ?r1\<rparr>"
  let ?w2 = "w1\<lparr>w_kernel := k, w_journal := Some (journal_text ?r1), w_staging := None\<rparr>"
  obtain r k2 where rk: "de_run E (step_remove (planned_steps p ! m)) k = (r, k2)" by fastforce
  note rm = removes [OF ob(2) lvk rk] removed [OF lvk rk]
  let ?d2 = "?d1\<lparr>du_rec := ?r1\<lparr>jr_owned := int m\<rparr>\<rparr>"
  let ?w3 = "?w2\<lparr>w_kernel := k2\<rparr>"
  have lv2: "level k2 = Some m" using rm by auto
  obtain sw2 k3 where ob2: "observe_scoped_with (de_sha E) (de_aliases E) (de_run E) p k2 = (Inr sw2, k3)" "healthy k3"
    using observes [OF _ lv2] rm by auto
  have pl: "jr_plan (du_rec d) = p" using describes_plan [OF snd] .
  note ob3 = observation [OF lv2 ob2(1)] observed [OF lv2 ob2(1)]
  have ch: "durable_change E RemoveIntent d w = apply_change E RemoveIntent m (du_rec d) ?d1 ?w2"
    using ck ob o own st excluding_at(2) [OF m8] calm_def [of w1]
    by (simp add: durable_change_def durable_witness_def Let_def intent_index_def counts_match_iff
        durable_save_quiet)
  have run: "on_kernel (de_run E (intent_args RemoveIntent (du_steps ?d1 ! m))) ?w2 = (r, ?w3)"
    by (simp add: on_kernel_def intent_args_def st rk)
  have obs3: "observe_scoped_at E ?d2 ?w3 = (Inr sw2, ?w3\<lparr>w_kernel := k3\<rparr>)"
    by (simp add: observe_scoped_at_def on_kernel_def pl ob2(1))
  have "\<exists>d' w'. apply_change E RemoveIntent m (du_rec d) ?d1 ?w2 = (None, d', w') \<and> w_faults w' = [] \<and>
      healthy (w_kernel w') \<and> \<not> du_closed d' \<and> level (w_kernel w') = Some m"
    using run obs3 rm ob3 ob2(2) ck(2) st own opn
    by (simp add: apply_change_def Let_def intent_after_def durable_snapshot_def calm_def
        counts_match_iff durable_save_quiet)
  then obtain d' w' where fin: "durable_change E RemoveIntent d w = (None, d', w')" "calm w'"
    "\<not> du_closed d'" "level (w_kernel w') = Some m"
    unfolding ch by (auto simp: calm_def)
  have "loop_more RemoveIntent d" by (simp add: loop_more_def own)
  from change_sound [OF snd this fin(1)] obtain n' where "sound ns boot n' d' w'" "settled n' (du_rec d')"
    by auto
  moreover have "n' = m" using calculation(1) fin(4) by (simp add: sound_def)
  ultimately show ?thesis using fin by auto
qed

lemma remove_all_calm:
  assumes "sound ns boot n d w" and "calm w" and "\<not> du_closed d" and "n = 0 \<or> settled n (du_rec d)"
    and "jr_owned (du_rec d) = int n" and "n \<le> f"
  shows "\<exists>d' w'. change_loop E RemoveIntent f d w = (None, d', w') \<and> calm w' \<and>
     sound ns boot 0 d' w' \<and> jr_owned (du_rec d') = 0"
  using assms
proof (induction f arbitrary: n d w)
  case 0
  then show ?case by auto
next
  case (Suc f)
  show ?case
  proof (cases n)
    case 0
    then show ?thesis using Suc.prems by (simp add: loop_more_def)
  next
    case (Suc m)
    obtain d1 w1 where ch: "durable_change E RemoveIntent d w = (None, d1, w1)" and ok: "calm w1"
      "sound ns boot m d1 w1" "settled m (du_rec d1)" "\<not> du_closed d1"
      using remove_calm [of ns boot m d w] Suc Suc.prems by auto
    have "loop_more RemoveIntent d" using Suc Suc.prems by (simp add: loop_more_def)
    then show ?thesis using Suc.IH [of m d1 w1] Suc Suc.prems(6) ok ch by (simp add: settled_def)
  qed
qed

lemma recover_settled_calm:
  assumes snd: "sound ns boot n d w" and calm: "calm w" and opn: "\<not> du_closed d"
    and pend: "jr_pending (du_rec d) = []"
  shows "\<exists>d' w'. recover_settled E d w = (None, d', w') \<and> calm w' \<and> sound ns boot 0 d' w' \<and>
     jr_owned (du_rec d') = 0"
proof -
  obtain w1 where ck: "durable_check E d w = (None, w1)" "calm w1" "sound ns boot n d w1"
    using check_calm [OF assms] by metis
  have "jr_owned (du_rec d) = int n" "n = 0 \<or> settled n (du_rec d)"
    using snd pend by (auto simp: sound_def describes_def fresh_def settled_def adding_def removing_def)
  then show ?thesis
    using remove_all_calm [OF ck(3,2) opn] ck(1)
    by (simp add: recover_settled_def change_all_def loop_distance_def)
qed

lemma recover_calm:
  assumes snd: "sound ns boot n d w" and calm: "calm w" and opn: "\<not> du_closed d"
  shows "\<exists>d' w'. durable_recover E d w = (None, d', w') \<and> calm w' \<and> sound ns boot 0 d' w' \<and>
     jr_owned (du_rec d') = 0"
proof (cases "jr_pending (du_rec d) = []")
  case True
  then show ?thesis using recover_settled_calm [OF assms True] opn by (simp add: durable_recover_def)
next
  case False
  obtain e1 d1 w1 where rc: "durable_reconcile E d w = (e1, d1, w1)" by (metis prod_cases3)
  obtain sw k where ob: "observe_scoped_with (de_sha E) (de_aliases E) (de_run E) p (w_kernel w) = (Inr sw, k)"
    "healthy k" using observe_at_calm [OF snd calm] by metis
  note r = reconcile_sound [OF snd False rc]
  have "e1 = None" "calm w1" "\<not> du_closed d1" "jr_pending (du_rec d1) = []" "sound ns boot n d1 w1"
    using r ob calm opn by (auto simp: calm_def)
  then show ?thesis
    using recover_settled_calm [of ns boot n d1 w1] rc False opn by (simp add: durable_recover_def)
qed

end

section \<open>Whole lives\<close>

context scoped_kernel
begin

lemma small_journal:
  "length ns + length boot \<le> 10000 \<Longrightarrow> journal_ok r p ns boot True \<Longrightarrow> length (journal_text r) \<le> 65536"
  using length_journal_text [OF _ plan_ok, of r ns boot True] by simp

lemma reopen_sound:
  assumes opn: "openable V ns boot" and small: "length ns + length boot \<le> 10000"
    and lv: "level (w_kernel w) = Some n" and disk: "on_disk ns boot n (w_journal w)"
  shows "\<exists>d. open_durable V p True w = Inr d \<and> sound ns boot n d w \<and> \<not> du_closed d"
proof -
  from open_durable_openable [OF opn plan_ok, of True w] obtain bt where bt: "trim_space bt = boot"
    and eq: "open_durable V p True w = read_journal V (fresh_durable ns bt p (planned_steps p) True) w"
    by metis
  have ready: "oe_journal V = None" "oe_read V = None" "private_file (oe_euid V) (oe_journal_stat V) = None"
    using opn by (simp_all add: openable_def)
  show ?thesis
    unfolding eq using read_journal_sound [OF lv disk ready small_journal [OF small] refl bt] .
qed

lemma life_step_sound:
  assumes "openable V ns boot" "length ns + length boot \<le> 10000" and "sound ns boot n (fst c) (snd c)"
  shows "\<exists>n'. sound ns boot n' (fst (life_step E V p s c)) (snd (life_step E V p s c))"
proof (cases s)
  case Setup
  obtain e d w where "durable_setup E (fst c) (snd c) = (e, d, w)" by (metis prod_cases3)
  then show ?thesis using setup_sound [OF assms(3)] Setup by (simp add: life_step_def)
next
  case Recover
  obtain e d w where "durable_recover E (fst c) (snd c) = (e, d, w)" by (metis prod_cases3)
  then show ?thesis using recover_sound [OF assms(3)] Recover by (simp add: life_step_def)
next
  case Resolve
  obtain e d w where "resolve_pending E (fst c) (snd c) = (e, d, w)" by (metis prod_cases3)
  then show ?thesis using resolve_sound [OF assms(3)] Resolve by (auto simp: life_step_def)
next
  case Reopen
  obtain d where "open_durable V p True (snd c) = Inr d" "sound ns boot n d (snd c)"
    using reopen_sound [OF assms(1,2), of "snd c" n] assms(3) by (auto simp: sound_def)
  then show ?thesis using Reopen by (auto simp: life_step_def)
next
  case (Fault fs)
  then show ?thesis using assms(3) by (auto simp: life_step_def sound_def)
qed

lemma life_sound:
  assumes "openable V ns boot" "length ns + length boot \<le> 10000" and "sound ns boot n (fst c) (snd c)"
  shows "\<exists>n'. sound ns boot n' (fst (life E V p ss c)) (snd (life E V p ss c))"
  using assms(3)
proof (induction ss arbitrary: c n)
  case Nil
  then show ?case by (auto simp: life_def)
next
  case (Cons s ss)
  obtain n1 where "sound ns boot n1 (fst (life_step E V p s c)) (snd (life_step E V p s c))"
    using life_step_sound [OF assms(1,2) Cons.prems] by blast
  then show ?case using Cons.IH by (simp add: life_def)
qed

lemma on_disk_decodes:
  assumes "on_disk ns boot n (Some b)" and small: "length ns + length boot \<le> 10000"
  shows "\<exists>r. decode_journal_mode b p ns boot True = Inr r \<and>
    (jr_pending r = [] \<longrightarrow> jr_owned r = int n) \<and> (jr_pending r \<noteq> [] \<longrightarrow> \<bar>jr_owned r - int n\<bar> \<le> 1)"
proof -
  obtain r where b: "b = journal_text r" and desc: "describes ns boot n r"
    using assms(1) by (auto simp: on_disk_def)
  note ok = describes_ok [OF desc]
  have "decode_journal_mode b p ns boot True = Inr r"
    using decode_journal_text [OF ok plan_ok small_journal [OF small ok]] b by simp
  then show ?thesis
    using desc by (auto simp: describes_def settled_def adding_def removing_def)
qed

end

text \<open>A directory without a journal on a kernel without owned resources, all calls succeeding.\<close>

definition fresh_world :: "'k \<Rightarrow> 'k world" where
  "fresh_world k = \<lparr>w_kernel = k, w_journal = None, w_staging = None, w_faults = []\<rparr>"

context scoped_kernel
begin

lemma life_on_disk:
  assumes opn: "openable V ns boot" and small: "length ns + length boot \<le> 10000"
    and start: "level k = Some 0" "open_durable V p True (fresh_world k) = Inr d"
    and after: "life E V p ss (d, fresh_world k) = (d1, w1)"
  shows "\<exists>n. level (w_kernel w1) = Some n \<and> on_disk ns boot n (w_journal w1)"
proof -
  have "on_disk ns boot 0 (w_journal (fresh_world k))" "level (w_kernel (fresh_world k)) = Some 0"
    using start(1) by (simp_all add: on_disk_def fresh_world_def)
  then have "sound ns boot 0 d (fresh_world k)"
    using reopen_sound [OF opn small, of "fresh_world k" 0] start(2) by auto
  then show ?thesis
    using life_sound [OF opn small, of 0 "(d, fresh_world k)" ss] after by (auto simp: sound_def)
qed

end

context healthy_kernel
begin

lemma life_recovers:
  assumes opn: "openable V ns boot" and small: "length ns + length boot \<le> 10000"
    and start: "level k = Some 0" "open_durable V p True (fresh_world k) = Inr d"
    and after: "life E V p ss (d, fresh_world k) = (d1, w1)" "healthy (w_kernel w1)"
  shows "\<exists>d2 d3 w3. open_durable V p True (w1\<lparr>w_faults := []\<rparr>) = Inr d2 \<and>
    durable_recover E d2 (w1\<lparr>w_faults := []\<rparr>) = (None, d3, w3) \<and>
    level (w_kernel w3) = Some 0 \<and> jr_owned (du_rec d3) = 0"
proof -
  have "on_disk ns boot 0 (w_journal (fresh_world k))" "level (w_kernel (fresh_world k)) = Some 0"
    using start(1) by (simp_all add: on_disk_def fresh_world_def)
  then have "sound ns boot 0 d (fresh_world k)"
    using reopen_sound [OF opn small, of "fresh_world k" 0] start(2) by auto
  then obtain n where "sound ns boot n d1 w1"
    using life_sound [OF opn small, of 0 "(d, fresh_world k)" ss] after(1) by auto
  then have lv: "level (w_kernel (w1\<lparr>w_faults := []\<rparr>)) = Some n"
    and disk: "on_disk ns boot n (w_journal (w1\<lparr>w_faults := []\<rparr>))" by (simp_all add: sound_def)
  obtain d2 where d2: "open_durable V p True (w1\<lparr>w_faults := []\<rparr>) = Inr d2"
    "sound ns boot n d2 (w1\<lparr>w_faults := []\<rparr>)" "\<not> du_closed d2"
    using reopen_sound [OF opn small lv disk] by auto
  have "calm (w1\<lparr>w_faults := []\<rparr>)" using after(2) by (simp add: calm_def)
  from recover_calm [OF d2(2) this d2(3)] d2(1) show ?thesis by (auto simp: sound_def)
qed

end

end
