(* ===== verification/Netns.thy ===== *)
theory Netns
  imports Crash
begin

text \<open>
  A network namespace that answers the program's commands: a concrete kernel for the laws of
  \<open>Crash\<close>. Its listings have the form \<open>iptables -S\<close>, \<open>ip rule show\<close> and \<open>ip route show\<close> print,
  and a script decides how the coming additions and removals end.
\<close>

section \<open>The namespace\<close>

datatype outcome = Works | Refused | TimedOut

type_synonym netns = "nat \<times> outcome list"

definition demo_plan :: plan where
  "demo_plan =
     \<lparr>pl_destination = \<lparr>ap_addr = Ip4 198 51 100 7, ap_port = 443\<rparr>, pl_listener_port = 12345,
      pl_mark = 0x1000000, pl_mask = 0x1000000, pl_table = 20480, pl_priority = 12000,
      pl_prefix = ''ATP_X''\<rparr>"

text \<open>The lines of its listings: the eight of the plan and the ones always there.\<close>

definition ln_accept_pre :: string where
  "ln_accept_pre = ''-P PREROUTING ACCEPT''"

definition ln_accept_out :: string where
  "ln_accept_out = ''-P OUTPUT ACCEPT''"

definition ln_chain_pre :: string where
  "ln_chain_pre = ''-N ATP_X_PRE''"

definition ln_chain_out :: string where
  "ln_chain_out = ''-N ATP_X_OUT''"

definition ln_oem :: string where
  "ln_oem = ''-A OUTPUT -j oem_out''"

definition ln_jump_pre :: string where
  "ln_jump_pre = ''-A PREROUTING -p tcp -j ATP_X_PRE''"

definition ln_jump_out :: string where
  "ln_jump_out = ''-A OUTPUT -p tcp -j ATP_X_OUT''"

definition ln_rule_pre :: string where
  "ln_rule_pre = ''-A ATP_X_PRE -d 198.51.100.7/32 -p tcp --dport 443 -m mark --mark 0x1000000/0x1000000 -j TPROXY --on-port 12345 --tproxy-mark 0x1000000/0x1000000''"

definition ln_rule_out :: string where
  "ln_rule_out = ''-A ATP_X_OUT -d 198.51.100.7/32 -p tcp --dport 443 -j MARK --set-xmark 0x1000000/0x1000000''"

definition ln_local :: string where
  "ln_local = ''0: from all lookup local''"

definition ln_policy :: string where
  "ln_policy = ''12000: from all fwmark 0x1000000/0x1000000 lookup 20480''"

definition ln_wlan :: string where
  "ln_wlan = ''13000: from all fwmark 0x10063/0x1ffff lookup 97''"

definition ln_main :: string where
  "ln_main = ''32766: from all lookup main''"

definition ln_default :: string where
  "ln_default = ''32767: from all lookup default''"

definition ln_route :: string where
  "ln_route = ''local 198.51.100.7 dev lo table 20480 scope host''"

definition ln_gateway :: string where
  "ln_gateway = ''default via 192.0.2.1 dev wlan0''"

definition ln_loopback :: string where
  "ln_loopback = ''local 127.0.0.0/8 dev lo table local proto kernel scope host''"

lemmas ln_defs = ln_accept_pre_def ln_accept_out_def ln_chain_pre_def ln_chain_out_def ln_oem_def ln_jump_pre_def ln_jump_out_def ln_rule_pre_def ln_rule_out_def ln_local_def ln_policy_def ln_wlan_def ln_main_def ln_default_def ln_route_def ln_gateway_def ln_loopback_def

definition firewall_rows :: "nat \<Rightarrow> string list" where
  "firewall_rows n =
     [ln_accept_pre, ln_accept_out] @ (if n > 2 then [ln_chain_pre] else []) @
     (if n > 5 then [ln_chain_out] else []) @ [ln_oem] @ (if n > 4 then [ln_jump_pre] else []) @
     (if n > 7 then [ln_jump_out] else []) @ (if n > 3 then [ln_rule_pre] else []) @
     (if n > 6 then [ln_rule_out] else [])"

definition policy_rows :: "nat \<Rightarrow> string list" where
  "policy_rows n = [ln_local] @ (if n > 1 then [ln_policy] else []) @ [ln_wlan, ln_main, ln_default]"

definition route_rows :: "nat \<Rightarrow> string list" where
  "route_rows n = (if n > 0 then [ln_route] else []) @ [ln_gateway, ln_loopback]"

text \<open>A listing ends in a newline.\<close>

definition listing :: "string list \<Rightarrow> string" where
  "listing rows = join [CHR 0x0A] (rows @ [[]])"

definition listed :: "argv \<Rightarrow> string \<Rightarrow> cmd_result" where
  "listed args out = \<lparr>res_command = args, res_exit = 0, res_output = out, res_error = [], res_sha256 = []\<rparr>"

definition mutate :: "argv \<Rightarrow> nat \<Rightarrow> netns \<Rightarrow> cmd_result \<times> netns" where
  "mutate args n' k =
     (case snd k of
        [] \<Rightarrow> (ok_result args, (n', []))
      | Works # os \<Rightarrow> (ok_result args, (n', os))
      | Refused # os \<Rightarrow> (failed_result args, (fst k, os))
      | TimedOut # os \<Rightarrow> (failed_result args, (n', os)))"

definition netns_run :: "netns runner" where
  "netns_run args k =
     (let n = fst k; steps = planned_steps demo_plan
      in if args = capture_queries ! 0 then (listed args (listing (firewall_rows n)), k)
         else if args = capture_queries ! 1 then (listed args (listing (policy_rows n)), k)
         else if args = capture_queries ! 2 then (listed args (listing (route_rows n)), k)
         else if n < 8 \<and> args = step_add (steps ! n) then mutate args (Suc n) k
         else if 0 < n \<and> args = step_remove (steps ! (n - 1)) then mutate args (n - 1) k
         else if list_ex (\<lambda>i. args = check_args (step_remove (steps ! i))) [0 ..< n]
         then (ok_result args, k)
         else (failed_result args, k))"

definition netns_level :: "netns \<Rightarrow> nat option" where
  "netns_level k = (if fst k \<le> 8 then Some (fst k) else None)"

definition netns_healthy :: "netns \<Rightarrow> bool" where
  "netns_healthy k \<longleftrightarrow> snd k = []"

text \<open>Any hash, cut or padded to 32 bytes.\<close>

definition bytes32 :: "(string \<Rightarrow> u8 list) \<Rightarrow> string \<Rightarrow> u8 list" where
  "bytes32 sha s = take 32 (sha s @ replicate 32 0)"

definition netns_env :: "(string \<Rightarrow> u8 list) \<Rightarrow> netns dur_env" where
  "netns_env sha = \<lparr>de_sha = bytes32 sha, de_aliases = (\<lambda>_. None), de_run = netns_run\<rparr>"

definition netns_lines :: "string list" where
  "netns_lines =
     [ln_route, ln_policy, ln_chain_pre, ln_rule_pre, ln_jump_pre, ln_chain_out, ln_rule_out, ln_jump_out]"

definition netns_resources :: "nat \<Rightarrow> string list list" where
  "netns_resources n = map (\<lambda>i. if i < n then [netns_lines ! i] else []) [0 ..< 8]"

section \<open>What the observation makes of it\<close>

definition netns_outputs :: "nat \<Rightarrow> string list" where
  "netns_outputs n = [listing (firewall_rows n), listing (policy_rows n), listing (route_rows n)]"

text \<open>The part of an observation that does not involve the hash, evaluated at every level.\<close>

definition netns_seen :: "nat \<Rightarrow> outcome list \<Rightarrow> (int list \<times> string list list) option \<times> netns" where
  "netns_seen n os =
     (case classify_buckets demo_plan (rule_check netns_run (planned_steps demo_plan)) 0 (replicate 8 0)
             (netns_outputs n) (n, os) of
        (Inr (counts, residual), k) \<Rightarrow>
          (case scoped_buckets demo_plan (\<lambda>_. None) counts 0 (replicate 8 []) (netns_outputs n) of
             Inr rs \<Rightarrow> (Some (counts, rs), k)
           | _ \<Rightarrow> (None, k))
      | (_, k) \<Rightarrow> (None, k))"

text \<open>What each line is to the two classifiers, evaluated line by line.\<close>

definition checked :: "nat \<Rightarrow> gerr option \<times> 'w \<Rightarrow> (gerr + nat option) \<times> 'w" where
  "checked i r =
     (case r of (Some e, w) \<Rightarrow> (Inl (Wrap ''planned rule mismatch'' e), w) | (None, w) \<Rightarrow> (Inr (Some i), w))"

lemma ln_accept_pre_row:
  "line_index demo_plan chk 0 ln_accept_pre (w :: netns) = (Inr None, w)"
  "scoped_line demo_plan (\<lambda>_. None) counts 0 ln_accept_pre = Inr None"
  by code_simp+

lemma ln_accept_out_row:
  "line_index demo_plan chk 0 ln_accept_out (w :: netns) = (Inr None, w)"
  "scoped_line demo_plan (\<lambda>_. None) counts 0 ln_accept_out = Inr None"
  by code_simp+

lemma ln_chain_pre_row:
  "line_index demo_plan chk 0 ln_chain_pre (w :: netns) = (Inr (Some 2), w)"
  "scoped_line demo_plan (\<lambda>_. None) counts 0 ln_chain_pre = Inr (Some 2)"
  "join '' '' (str_fields ln_chain_pre) = ln_chain_pre"
  by code_simp+

lemma ln_chain_out_row:
  "line_index demo_plan chk 0 ln_chain_out (w :: netns) = (Inr (Some 5), w)"
  "scoped_line demo_plan (\<lambda>_. None) counts 0 ln_chain_out = Inr (Some 5)"
  "join '' '' (str_fields ln_chain_out) = ln_chain_out"
  by code_simp+

lemma ln_oem_row:
  "line_index demo_plan chk 0 ln_oem (w :: netns) = (Inr None, w)"
  "scoped_line demo_plan (\<lambda>_. None) counts 0 ln_oem = Inr None"
  by code_simp+

lemma ln_jump_pre_row:
  "line_index demo_plan chk 0 ln_jump_pre w = checked 4 (chk 4 (w :: netns))"
  "scoped_line demo_plan (\<lambda>_. None) counts 0 ln_jump_pre = Inr (Some 4)"
  "join '' '' (str_fields ln_jump_pre) = ln_jump_pre"
  by code_simp+

lemma ln_jump_out_row:
  "line_index demo_plan chk 0 ln_jump_out w = checked 7 (chk 7 (w :: netns))"
  "scoped_line demo_plan (\<lambda>_. None) counts 0 ln_jump_out = Inr (Some 7)"
  "join '' '' (str_fields ln_jump_out) = ln_jump_out"
  by code_simp+

lemma ln_rule_pre_row:
  "line_index demo_plan chk 0 ln_rule_pre w = checked 3 (chk 3 (w :: netns))"
  "scoped_line demo_plan (\<lambda>_. None) counts 0 ln_rule_pre = Inr (Some 3)"
  "join '' '' (str_fields ln_rule_pre) = ln_rule_pre"
  by code_simp+

lemma ln_rule_out_row:
  "line_index demo_plan chk 0 ln_rule_out w = checked 6 (chk 6 (w :: netns))"
  "scoped_line demo_plan (\<lambda>_. None) counts 0 ln_rule_out = Inr (Some 6)"
  "join '' '' (str_fields ln_rule_out) = ln_rule_out"
  by code_simp+

lemma ln_local_row:
  "line_index demo_plan chk 1 ln_local (w :: netns) = (Inr None, w)"
  "scoped_line demo_plan (\<lambda>_. None) counts 1 ln_local = Inr None"
  by code_simp+

lemma ln_policy_row:
  "line_index demo_plan chk 1 ln_policy (w :: netns) = (Inr (Some 1), w)"
  "scoped_line demo_plan (\<lambda>_. None) counts 1 ln_policy = Inr (Some 1)"
  "join '' '' (str_fields ln_policy) = ln_policy"
  by code_simp+

lemma ln_wlan_row:
  "line_index demo_plan chk 1 ln_wlan (w :: netns) = (Inr None, w)"
  "scoped_line demo_plan (\<lambda>_. None) counts 1 ln_wlan = Inr None"
  by code_simp+

lemma ln_main_row:
  "line_index demo_plan chk 1 ln_main (w :: netns) = (Inr None, w)"
  "scoped_line demo_plan (\<lambda>_. None) counts 1 ln_main = Inr None"
  by code_simp+

lemma ln_default_row:
  "line_index demo_plan chk 1 ln_default (w :: netns) = (Inr None, w)"
  "scoped_line demo_plan (\<lambda>_. None) counts 1 ln_default = Inr None"
  by code_simp+

lemma ln_route_row:
  "line_index demo_plan chk 2 ln_route (w :: netns) = (Inr (Some 0), w)"
  "scoped_line demo_plan (\<lambda>_. None) (1 # cs) 2 ln_route = Inr (Some 0)"
  "join '' '' (str_fields ln_route) = ln_route"
  by code_simp+

lemma ln_gateway_row:
  "line_index demo_plan chk 2 ln_gateway (w :: netns) = (Inr None, w)"
  "scoped_line demo_plan (\<lambda>_. None) counts 2 ln_gateway = Inr None"
  by code_simp+

lemma ln_loopback_row:
  "line_index demo_plan chk 2 ln_loopback (w :: netns) = (Inr None, w)"
  "scoped_line demo_plan (\<lambda>_. None) counts 2 ln_loopback = Inr None"
  by code_simp+

lemma empty_row:
  "line_index demo_plan chk 0 [] (w :: netns) = (Inr None, w)" "line_index demo_plan chk 1 [] (w :: netns) = (Inr None, w)"
  "line_index demo_plan chk 2 [] (w :: netns) = (Inr None, w)" "scoped_line demo_plan al counts b [] = Inr None"
  by code_simp+

lemmas row_facts =
  ln_accept_pre_row
  ln_accept_out_row
  ln_chain_pre_row
  ln_chain_out_row
  ln_oem_row
  ln_jump_pre_row
  ln_jump_out_row
  ln_rule_pre_row
  ln_rule_out_row
  ln_local_row
  ln_policy_row
  ln_wlan_row
  ln_main_row
  ln_default_row
  ln_route_row
  ln_gateway_row
  ln_loopback_row
  empty_row

lemma row_free:
  "CHR 0x0A \<notin> set ln_accept_pre"
  "CHR 0x0A \<notin> set ln_accept_out"
  "CHR 0x0A \<notin> set ln_chain_pre"
  "CHR 0x0A \<notin> set ln_chain_out"
  "CHR 0x0A \<notin> set ln_oem"
  "CHR 0x0A \<notin> set ln_jump_pre"
  "CHR 0x0A \<notin> set ln_jump_out"
  "CHR 0x0A \<notin> set ln_rule_pre"
  "CHR 0x0A \<notin> set ln_rule_out"
  "CHR 0x0A \<notin> set ln_local"
  "CHR 0x0A \<notin> set ln_policy"
  "CHR 0x0A \<notin> set ln_wlan"
  "CHR 0x0A \<notin> set ln_main"
  "CHR 0x0A \<notin> set ln_default"
  "CHR 0x0A \<notin> set ln_route"
  "CHR 0x0A \<notin> set ln_gateway"
  "CHR 0x0A \<notin> set ln_loopback"
  by code_simp+

lemma split_listing: "\<forall>s \<in> set rows. CHR 0x0A \<notin> set s \<Longrightarrow> split_on (CHR 0x0A) (listing rows) = rows @ [[]]"
  unfolding listing_def by (rule split_on_join) auto

lemma eight: "replicate 8 x = [x, x, x, x, x, x, x, x]" "[0 ..< 8] = [0, 1, 2, 3, 4, 5, 6, 7 :: nat]"
  by (simp_all add: eval_nat_numeral upt_rec)

lemma check_commands:
  "list_all (\<lambda>i. list_all (\<lambda>q. check_args (step_remove (planned_steps demo_plan ! i)) \<noteq> q)
     (capture_queries @ map step_add (planned_steps demo_plan) @ map step_remove (planned_steps demo_plan))) [3, 4, 6, 7]"
  by code_simp

lemma rows_checked:
  assumes "i < n" "n \<le> 8" "i \<in> {3, 4, 6, 7}"
  shows "rule_check netns_run (planned_steps demo_plan) i (n, os) = (None, (n, os))"
proof -
  let ?c = "check_args (step_remove (planned_steps demo_plan ! i))"
  have "list_all (\<lambda>q. ?c \<noteq> q)
     (capture_queries @ map step_add (planned_steps demo_plan) @ map step_remove (planned_steps demo_plan))"
    using check_commands assms by (simp only: list_all_iff) auto
  then have no: "?c \<noteq> q" if "q \<in> set capture_queries \<union> step_add ` set (planned_steps demo_plan) \<union>
      step_remove ` set (planned_steps demo_plan)" for q
    using that by (auto simp: list_all_iff)
  have q: "capture_queries ! 0 \<in> set capture_queries" "capture_queries ! 1 \<in> set capture_queries"
    "capture_queries ! 2 \<in> set capture_queries" by (simp_all add: capture_queries_def)
  have "list_ex (\<lambda>j. ?c = check_args (step_remove (planned_steps demo_plan ! j))) [0 ..< n]"
    using assms by (auto simp: list_ex_iff)
  moreover have "n < 8 \<and> ?c = step_add (planned_steps demo_plan ! n) \<longleftrightarrow> False" using no [of "step_add (planned_steps demo_plan ! n)"] by auto
  moreover have "(?c = step_remove (planned_steps demo_plan ! (n - 1))) = False"
    using assms no [of "step_remove (planned_steps demo_plan ! (n - 1))"] by auto
  moreover have "(?c = capture_queries ! 0) = False" "(?c = capture_queries ! 1) = False"
    "(?c = capture_queries ! 2) = False" using q no by auto
  ultimately have "netns_run ?c (n, os) = (ok_result ?c, (n, os))"
    unfolding netns_run_def Let_def fst_conv by (simp only: if_False if_True simp_thms)
  then show ?thesis by (simp add: rule_check_def ok_result_def command_error_def)
qed

lemma netns_seen:
  assumes "n \<le> 8"
  shows "netns_seen n os = (Some (expected_counts (int n), netns_resources n), (n, os))"
proof -
  have ok: "checked i (rule_check netns_run (planned_steps demo_plan) i (n, os)) = (Inr (Some i), (n, os))" if "i < n" "i \<in> {3, 4, 6, 7}" for i
    using rows_checked [OF that(1) assms that(2)] by (simp add: checked_def)
  consider "n = 0" | "n = 1" | "n = 2" | "n = 3" | "n = 4" | "n = 5" | "n = 6" | "n = 7" | "n = 8"
    using assms by linarith
  then show ?thesis
    by cases (use ok in \<open>simp_all add: netns_seen_def netns_outputs_def split_listing row_free firewall_rows_def policy_rows_def
      route_rows_def row_facts row_facts [unfolded One_nat_def] row_facts [unfolded numeral_2_eq_2] expected_counts_def netns_resources_def netns_lines_def eight Let_def\<close>)
qed

lemma netns_capture: "capture_namespace netns_run (n, os) = (Inr (netns_outputs n), (n, os))"
proof -
  have run: "netns_run (capture_queries ! 0) (n, os) = (listed (capture_queries ! 0) (listing (firewall_rows n)), (n, os))"
    "netns_run (capture_queries ! 1) (n, os) = (listed (capture_queries ! 1) (listing (policy_rows n)), (n, os))"
    "netns_run (capture_queries ! 2) (n, os) = (listed (capture_queries ! 2) (listing (route_rows n)), (n, os))"
    by (simp_all add: netns_run_def Let_def capture_queries_def)
  have ok: "command_error (listed a t) = None" for a t by (simp add: listed_def command_error_def)
  have q: "capture_queries = [capture_queries ! 0, capture_queries ! 1, capture_queries ! 2]"
    by (simp add: capture_queries_def)
  show ?thesis
    unfolding capture_namespace_def
    by (subst q) (simp add: run [unfolded One_nat_def] ok [unfolded listed_def] netns_outputs_def listed_def)
qed

lemma demo_plan_ok: "plan_steps demo_plan = Inr (planned_steps demo_plan)"
proof -
  have "valid_destination (pl_destination demo_plan)" by code_simp
  moreover have "valid_parameters demo_plan" by code_simp
  ultimately show ?thesis by (simp add: plan_steps_Inr)
qed

lemma netns_pass:
  assumes "n \<le> 8"
  shows "\<exists>sw. observe_pass sha (\<lambda>_. None) netns_run demo_plan (n, os) = (Inr sw, (n, os)) \<and>
    sw_resources sw = netns_resources n \<and> sw_digest sw = sw_excluding sha (netns_resources n) (-1)"
proof -
  let ?check = "rule_check netns_run (planned_steps demo_plan)"
  obtain residual where cb: "classify_buckets demo_plan ?check 0 (replicate 8 0) (netns_outputs n) (n, os) =
      (Inr (expected_counts (int n), residual), (n, os))"
    and sb: "scoped_buckets demo_plan (\<lambda>_. None) (expected_counts (int n)) 0 (replicate 8 []) (netns_outputs n) =
      Inr (netns_resources n)"
    using netns_seen [OF assms, of os]
    by (auto simp: netns_seen_def split: prod.splits sum.splits)
  have len: "\<not> list_ex (\<lambda>i. int (length (netns_resources n ! i)) \<noteq> expected_counts (int n) ! i) [0 ..< 8]"
    by (auto simp: list_ex_iff netns_resources_def)
  show ?thesis
    using cb sb len
    by (simp add: observe_pass_def netns_capture classify_scoped_def classify_resources_def demo_plan_ok
        netns_outputs_def)
qed

lemma netns_observe:
  assumes "n \<le> 8"
  shows "\<exists>sw. observe_scoped_with sha (\<lambda>_. None) netns_run demo_plan (n, os) = (Inr sw, (n, os)) \<and>
    sw_resources sw = netns_resources n"
  using netns_pass [OF assms, of sha os] by (auto simp: observe_scoped_with_def demo_plan_ok)

section \<open>The laws hold\<close>

lemma planned_not_query:
  assumes "s \<in> set (planned_steps p)"
  shows "step_add s \<noteq> capture_queries ! i \<or> 3 \<le> i" "step_remove s \<noteq> capture_queries ! i \<or> 3 \<le> i"
proof -
  have "\<forall>s \<in> set (planned_steps p). \<forall>q \<in> set capture_queries. step_add s \<noteq> q \<and> step_remove s \<noteq> q"
    by (simp add: planned_steps_def Let_def ipt_def chain_rule_def capture_queries_def)
  moreover have "capture_queries ! i \<in> set capture_queries" if "i < 3"
    using that by (intro nth_mem) (simp add: capture_queries_def)
  ultimately show "step_add s \<noteq> capture_queries ! i \<or> 3 \<le> i" "step_remove s \<noteq> capture_queries ! i \<or> 3 \<le> i"
    using assms by (meson not_le)+
qed

lemma planned_add_not_remove:
  assumes "i < 8" "j < 8"
  shows "step_remove (planned_steps p ! i) \<noteq> step_add (planned_steps p ! j)"
proof -
  have "step_remove (planned_steps p ! i) \<in> set (map step_remove (planned_steps p))"
    "step_add (planned_steps p ! j) \<in> set (map step_add (planned_steps p))"
    using assms by auto
  then show ?thesis using planned_commands_distinct [of p] by fastforce
qed

lemma netns_add: "n < 8 \<Longrightarrow>
    netns_run (step_add (planned_steps demo_plan ! n)) (n, os) =
      mutate (step_add (planned_steps demo_plan ! n)) (Suc n) (n, os)"
  using planned_not_query(1) [of "planned_steps demo_plan ! n" demo_plan 0]
    planned_not_query(1) [of "planned_steps demo_plan ! n" demo_plan 1]
    planned_not_query(1) [of "planned_steps demo_plan ! n" demo_plan 2]
  by (simp add: netns_run_def Let_def)

lemma netns_remove: "n < 8 \<Longrightarrow>
    netns_run (step_remove (planned_steps demo_plan ! n)) (Suc n, os) =
      mutate (step_remove (planned_steps demo_plan ! n)) n (Suc n, os)"
  using planned_not_query(2) [of "planned_steps demo_plan ! n" demo_plan 0]
    planned_not_query(2) [of "planned_steps demo_plan ! n" demo_plan 1]
    planned_not_query(2) [of "planned_steps demo_plan ! n" demo_plan 2]
    planned_add_not_remove [of n "Suc n" demo_plan]
  by (cases "n < 7") (simp_all add: netns_run_def Let_def)

lemma failed_some: "\<exists>e. command_error (failed_result args) = Some e"
  by (simp add: command_error_def failed_result_def)

lemma mutate_cases:
  "mutate args n' (n, os) = (r, k) \<Longrightarrow>
     fst k = n' \<or> fst k = n \<and> command_error r \<noteq> None"
  "mutate args n' (n, []) = (r, k) \<Longrightarrow> command_error r = None \<and> snd k = []"
  using failed_some [of args] by (auto simp: mutate_def split: list.splits outcome.splits)

lemma netns_kernel: "healthy_kernel (netns_env sha) demo_plan netns_level netns_lines netns_healthy"
proof
  show "plan_steps demo_plan = Inr (planned_steps demo_plan)" by (rule demo_plan_ok)
  show "length netns_lines = 8" by (simp add: netns_lines_def)
  show "length (de_sha (netns_env sha) s) = 32" for s by (simp add: netns_env_def bytes32_def)
  show "n \<le> 8" if "netns_level k = Some n" for k n
    using that by (auto simp: netns_level_def split: if_splits)
next
  fix k n r k'
  assume lv: "netns_level k = Some n"
    and ob: "observe_scoped_with (de_sha (netns_env sha)) (de_aliases (netns_env sha))
               (de_run (netns_env sha)) demo_plan k = (r, k')"
  then have "fst k = n" "n \<le> 8" by (auto simp: netns_level_def split: if_splits)
  then obtain sw where "r = Inr sw" "k' = k" "sw_resources sw = netns_resources n"
    using ob netns_observe [of n "bytes32 sha" "snd k"] by (cases k) (auto simp: netns_env_def)
  then show "netns_level k' = Some n \<and> (\<forall>sw. r = Inr sw \<longrightarrow>
      sw_resources sw = map (\<lambda>i. if i < n then [netns_lines ! i] else []) [0 ..< 8])"
    using lv by (simp add: netns_resources_def)
next
  fix k n r k'
  assume "netns_level k = Some n" "n < 8"
    "de_run (netns_env sha) (step_add (planned_steps demo_plan ! n)) k = (r, k')"
  then show "netns_level k' = Some (Suc n) \<or> netns_level k' = Some n \<and> command_error r \<noteq> None"
    using netns_add [of n "snd k"]
    by (cases k) (auto dest!: mutate_cases(1) simp: netns_level_def netns_env_def split: if_splits)
next
  fix k n r k'
  assume "netns_level k = Some (Suc n)"
    "de_run (netns_env sha) (step_remove (planned_steps demo_plan ! n)) k = (r, k')"
  then show "netns_level k' = Some n \<or> netns_level k' = Some (Suc n) \<and> command_error r \<noteq> None"
    using netns_remove [of n "snd k"]
    by (cases k) (auto dest!: mutate_cases(1) simp: netns_level_def netns_env_def split: if_splits)
next
  fix k n
  assume "netns_healthy k" "netns_level k = Some n"
  then show "\<exists>sw k'. observe_scoped_with (de_sha (netns_env sha)) (de_aliases (netns_env sha))
      (de_run (netns_env sha)) demo_plan k = (Inr sw, k') \<and> netns_healthy k'"
    using netns_observe [of n "bytes32 sha" "snd k"]
    by (cases k) (auto simp: netns_level_def netns_env_def netns_healthy_def split: if_splits)
next
  fix k n r k'
  assume "netns_healthy k" "netns_level k = Some (Suc n)"
    "de_run (netns_env sha) (step_remove (planned_steps demo_plan ! n)) k = (r, k')"
  then show "command_error r = None \<and> netns_healthy k'"
    using netns_remove [of n "[]"]
    by (cases k) (auto dest!: mutate_cases(2) simp: netns_level_def netns_env_def netns_healthy_def split: if_splits)
qed

interpretation netns: healthy_kernel "netns_env sha" demo_plan netns_level netns_lines netns_healthy for sha
  by (rule netns_kernel)

section \<open>A namespace in which nothing fails\<close>

text \<open>The namespace with an empty script: nothing fails any more.\<close>

definition steady_level :: "netns \<Rightarrow> nat option" where
  "steady_level k = (if snd k = [] then netns_level k else None)"

lemma mutate_steady: "mutate args n' (n, []) = (ok_result args, (n', []))"
  by (simp add: mutate_def)

lemma steady_kernel:
  "healthy_kernel (netns_env sha) demo_plan steady_level netns_lines (\<lambda>_. True)"
proof -
  have lv: "steady_level k = Some n \<longleftrightarrow> k = (n, []) \<and> n \<le> 8" for k n
    by (cases k) (auto simp: steady_level_def netns_level_def)
  have ob: "\<exists>sw. observe_scoped_with (bytes32 sha) (\<lambda>_. None) netns_run demo_plan (n, []) = (Inr sw, (n, [])) \<and>
      sw_resources sw = netns_resources n" if "n \<le> 8" for n
    using netns_observe [OF that] .
  show ?thesis
  proof
    show "plan_steps demo_plan = Inr (planned_steps demo_plan)" by (rule demo_plan_ok)
    show "length netns_lines = 8" by (simp add: netns_lines_def)
    show "length (de_sha (netns_env sha) s) = 32" for s by (simp add: netns_env_def bytes32_def)
    show "n \<le> 8" if "steady_level k = Some n" for k n using that by (simp add: lv)
  qed (use ob in \<open>fastforce simp: lv netns_env_def netns_resources_def netns_add netns_remove mutate_steady\<close>)+
qed

interpretation steady: healthy_kernel "netns_env sha" demo_plan steady_level netns_lines "\<lambda>_. True" for sha
  by (rule steady_kernel)

definition demo_open :: open_env where
  "demo_open =
     \<lparr>oe_euid = 0, oe_ns = Inr ''net:[4026532008]'', oe_host = Inr ''net:[4026531840]'', oe_boot = Inr ''b00t'',
      oe_lstat = Inr \<lparr>fs_regular = False, fs_dir = True, fs_perm = 448, fs_uid = 0, fs_nlink = 2\<rparr>,
      oe_root = None, oe_dot = None, oe_same = True, oe_lock = None,
      oe_lock_stat = Inr \<lparr>fs_regular = True, fs_dir = False, fs_perm = 384, fs_uid = 0, fs_nlink = 1\<rparr>,
      oe_flock = None, oe_journal = None,
      oe_journal_stat = Inr \<lparr>fs_regular = True, fs_dir = False, fs_perm = 384, fs_uid = 0, fs_nlink = 1\<rparr>,
      oe_read = None\<rparr>"

lemma demo_openable: "openable demo_open ''net:[4026532008]'' ''b00t''"
  by code_simp

lemma steady_start: "steady_level (0, []) = Some 0"
  by (simp add: steady_level_def netns_level_def)

lemma demo_opens: "\<exists>d. open_durable demo_open demo_plan True (fresh_world (0 :: nat, [] :: outcome list)) = Inr d"
  using steady.reopen_sound [OF demo_openable, of "fresh_world (0, [])" 0] steady_start
  by (auto simp: fresh_world_def steady.on_disk_def)
end
