(* ===== verification/Config.thy ===== *)
theory Config
  imports JsonText Net
begin

text \<open>
  The daemon's configuration, \<open>ebpf-proxy/internal/config/config.go\<close>: the strict decoder and
  \<open>Validate\<close>, which also fills in the defaults.
\<close>

section \<open>The configuration\<close>

record endpoint =
  ep_address :: string
  ep_port :: int

record upstream_cfg =
  up_type :: string
  up_host :: string
  up_port :: int
  up_username :: string
  up_password :: string

record policy_cfg =
  po_mode :: string
  po_uids :: "u32 list"
  po_bypass_uids :: "u32 list"
  po_bypass_cidrs :: "string list"

record config =
  cf_version :: int
  cf_listener :: endpoint
  cf_ipv6 :: bool
  cf_upstream :: upstream_cfg
  cf_policy :: policy_cfg
  cf_udp_mode :: string
  cf_bpf_object :: string
  cf_bpf_cgroup :: string
  cf_runtime_dir :: string
  cf_log_level :: string
  cf_connect_timeout :: int
  cf_idle_timeout :: int
  cf_max_connections :: int

definition endpoint_string :: "endpoint \<Rightarrow> string" where
  "endpoint_string e = join_host_port (ep_address e) (itoa (ep_port e))"

definition zero_config :: config where
  "zero_config =
     \<lparr>cf_version = 0, cf_listener = \<lparr>ep_address = [], ep_port = 0\<rparr>, cf_ipv6 = False,
      cf_upstream = \<lparr>up_type = [], up_host = [], up_port = 0, up_username = [], up_password = []\<rparr>,
      cf_policy = \<lparr>po_mode = [], po_uids = [], po_bypass_uids = [], po_bypass_cidrs = []\<rparr>,
      cf_udp_mode = [], cf_bpf_object = [], cf_bpf_cgroup = [], cf_runtime_dir = [],
      cf_log_level = [], cf_connect_timeout = 0, cf_idle_timeout = 0, cf_max_connections = 0\<rparr>"

section \<open>Decoding\<close>

definition endpoint_field :: "string \<Rightarrow> json \<Rightarrow> endpoint \<Rightarrow> endpoint option" where
  "endpoint_field k v e =
     (if fold_eq k ''address'' then map_option (\<lambda>s. e\<lparr>ep_address := s\<rparr>) (dec_string v (ep_address e))
      else if fold_eq k ''port'' then map_option (\<lambda>i. e\<lparr>ep_port := i\<rparr>) (dec_int v (ep_port e))
      else None)"

definition upstream_field :: "string \<Rightarrow> json \<Rightarrow> upstream_cfg \<Rightarrow> upstream_cfg option" where
  "upstream_field k v u =
     (if fold_eq k ''type'' then map_option (\<lambda>s. u\<lparr>up_type := s\<rparr>) (dec_string v (up_type u))
      else if fold_eq k ''host'' then map_option (\<lambda>s. u\<lparr>up_host := s\<rparr>) (dec_string v (up_host u))
      else if fold_eq k ''port'' then map_option (\<lambda>i. u\<lparr>up_port := i\<rparr>) (dec_int v (up_port u))
      else if fold_eq k ''username'' then map_option (\<lambda>s. u\<lparr>up_username := s\<rparr>) (dec_string v (up_username u))
      else if fold_eq k ''password'' then map_option (\<lambda>s. u\<lparr>up_password := s\<rparr>) (dec_string v (up_password u))
      else None)"

definition dec_slice :: "(json \<Rightarrow> 'a option) \<Rightarrow> json \<Rightarrow> 'a list \<Rightarrow> 'a list option" where
  "dec_slice dec v old =
     (case v of
        JNull \<Rightarrow> Some []
      | JArr vs \<Rightarrow>
          if list_all (\<lambda>x. dec x \<noteq> None) vs then Some (map (the \<circ> dec) vs) else None
      | _ \<Rightarrow> None)"

definition dec_u32 :: "json \<Rightarrow> u32 option" where
  "dec_u32 v = map_option word_of_nat (dec_uint 32 v 0)"

definition policy_field :: "string \<Rightarrow> json \<Rightarrow> policy_cfg \<Rightarrow> policy_cfg option" where
  "policy_field k v p =
     (if fold_eq k ''mode'' then map_option (\<lambda>s. p\<lparr>po_mode := s\<rparr>) (dec_string v (po_mode p))
      else if fold_eq k ''uids'' then map_option (\<lambda>us. p\<lparr>po_uids := us\<rparr>) (dec_slice dec_u32 v (po_uids p))
      else if fold_eq k ''bypass_uids'' then
        map_option (\<lambda>us. p\<lparr>po_bypass_uids := us\<rparr>) (dec_slice dec_u32 v (po_bypass_uids p))
      else if fold_eq k ''bypass_cidrs'' then
        map_option (\<lambda>cs. p\<lparr>po_bypass_cidrs := cs\<rparr>) (dec_slice (\<lambda>x. dec_string x []) v (po_bypass_cidrs p))
      else None)"

text \<open>A struct with string members only, read into the listed setters.\<close>

definition string_field :: "string \<Rightarrow> string \<Rightarrow> json \<Rightarrow> string \<Rightarrow> string option" where
  "string_field name k v s = (if fold_eq k name then dec_string v s else None)"

definition bpf_field :: "string \<Rightarrow> json \<Rightarrow> string \<times> string \<Rightarrow> (string \<times> string) option" where
  "bpf_field k v b =
     (if fold_eq k ''object'' then map_option (\<lambda>s. (s, snd b)) (dec_string v (fst b))
      else if fold_eq k ''cgroup'' then map_option (\<lambda>s. (fst b, s)) (dec_string v (snd b))
      else None)"

definition config_field :: "string \<Rightarrow> json \<Rightarrow> config \<Rightarrow> config option" where
  "config_field k v c =
     (if fold_eq k ''version'' then map_option (\<lambda>i. c\<lparr>cf_version := i\<rparr>) (dec_int v (cf_version c))
      else if fold_eq k ''listener'' then
        map_option (\<lambda>e. c\<lparr>cf_listener := e\<rparr>) (dec_struct endpoint_field v (cf_listener c))
      else if fold_eq k ''ipv6'' then map_option (\<lambda>b. c\<lparr>cf_ipv6 := b\<rparr>) (dec_bool v (cf_ipv6 c))
      else if fold_eq k ''upstream'' then
        map_option (\<lambda>u. c\<lparr>cf_upstream := u\<rparr>) (dec_struct upstream_field v (cf_upstream c))
      else if fold_eq k ''policy'' then
        map_option (\<lambda>p. c\<lparr>cf_policy := p\<rparr>) (dec_struct policy_field v (cf_policy c))
      else if fold_eq k ''udp'' then
        map_option (\<lambda>s. c\<lparr>cf_udp_mode := s\<rparr>) (dec_struct (string_field ''mode'') v (cf_udp_mode c))
      else if fold_eq k ''bpf'' then
        map_option (\<lambda>b. c\<lparr>cf_bpf_object := fst b, cf_bpf_cgroup := snd b\<rparr>)
          (dec_struct bpf_field v (cf_bpf_object c, cf_bpf_cgroup c))
      else if fold_eq k ''runtime_dir'' then
        map_option (\<lambda>s. c\<lparr>cf_runtime_dir := s\<rparr>) (dec_string v (cf_runtime_dir c))
      else if fold_eq k ''logging'' then
        map_option (\<lambda>s. c\<lparr>cf_log_level := s\<rparr>) (dec_struct (string_field ''level'') v (cf_log_level c))
      else if fold_eq k ''connect_timeout_seconds'' then
        map_option (\<lambda>i. c\<lparr>cf_connect_timeout := i\<rparr>) (dec_int v (cf_connect_timeout c))
      else if fold_eq k ''idle_timeout_seconds'' then
        map_option (\<lambda>i. c\<lparr>cf_idle_timeout := i\<rparr>) (dec_int v (cf_idle_timeout c))
      else if fold_eq k ''max_connections'' then
        map_option (\<lambda>i. c\<lparr>cf_max_connections := i\<rparr>) (dec_int v (cf_max_connections c))
      else None)"

section \<open>Validation\<close>

definition forbidden_host_chars :: string where
  "forbidden_host_chars = '' /'' @ [CHR 0x5C] @ '';'' @ [CHR 0x0D, CHR 0x0A, CHR 0x09] @ ''@?#''"

definition listener_ok :: "string \<Rightarrow> bool" where
  "listener_ok s \<longleftrightarrow>
     (case parse_ip s of None \<Rightarrow> False | Some a \<Rightarrow> to4 a \<noteq> None \<and> is_loopback a)"

definition with_defaults :: "config \<Rightarrow> config" where
  "with_defaults c =
     c\<lparr>cf_connect_timeout := (if cf_connect_timeout c = 0 then 10 else cf_connect_timeout c),
       cf_idle_timeout := (if cf_idle_timeout c = 0 then 300 else cf_idle_timeout c),
       cf_max_connections := (if cf_max_connections c = 0 then 4096 else cf_max_connections c)\<rparr>"

definition check_limits :: "config \<Rightarrow> gerr + config" where
  "check_limits c =
     (if cf_connect_timeout c < 1 \<or> cf_idle_timeout c < 1 \<or> cf_max_connections c < 1 \<or>
         cf_max_connections c > 16384
      then Inl (Err ''invalid connection limits'')
      else if cf_log_level c \<in> {[], ''info''} then Inr (c\<lparr>cf_log_level := ''info''\<rparr>)
      else if cf_log_level c \<in> {''error'', ''warn'', ''debug'', ''trace''} then Inr c
      else Inl (Err ''invalid log level''))"

definition validate_config :: "config \<Rightarrow> gerr + config" where
  "validate_config c =
     (let u = cf_upstream c; p = cf_policy c
      in if cf_version c \<noteq> 1 then Inl (Err ''configuration version must be 1'')
         else if \<not> listener_ok (ep_address (cf_listener c))
         then Inl (Err ''listener must be IPv4 loopback; IPv6 uses ::1'')
         else if ep_port (cf_listener c) < 1 \<or> ep_port (cf_listener c) > 65535
         then Inl (Err ''invalid listener port'')
         else if up_type u \<noteq> ''socks5'' then Inl (Err ''only socks5 upstream is supported'')
         else if up_host u = [] \<or> up_port u < 1 \<or> up_port u > 65535
         then Inl (Err ''invalid upstream endpoint'')
         else if contains_any (up_host u) forbidden_host_chars then Inl (Err ''invalid upstream host'')
         else if length (up_username u) > 255 \<or> length (up_password u) > 255 \<or>
                 (up_password u \<noteq> [] \<and> up_username u = [])
         then Inl (Err ''invalid upstream authentication'')
         else if po_mode p \<noteq> ''uid_allowlist'' \<and> po_mode p \<noteq> ''all_non_bypass''
         then Inl (Err ''invalid UID policy mode'')
         else if cf_udp_mode c \<noteq> ''pass'' then Inl (Err ''only UDP pass is supported'')
         else if \<not> list_all valid_cidr (po_bypass_cidrs p) then Inl (Err ''invalid bypass CIDR'')
         else check_limits (with_defaults c))"

definition dec_config :: "json \<Rightarrow> config option" where
  "dec_config v = dec_struct config_field v zero_config"

text \<open>\<open>Decode\<close> on the bytes its reader delivers; the limit reader stops one byte past 1 MiB.\<close>

definition decode_config :: "gerr + string \<Rightarrow> gerr + config" where
  "decode_config input =
     (case input of
        Inl e \<Rightarrow> Inl e
      | Inr all \<Rightarrow>
          let b = take (2 ^ 20 + 1) all
          in if length b > 2 ^ 20 then Inl (Err ''configuration exceeds 1 MiB'')
             else (case decode_single dec_config b (Err ''json'') (Err ''extra configuration data'') of
                     Inl e \<Rightarrow> Inl e
                   | Inr c \<Rightarrow> validate_config c))"

text \<open>\<open>Load\<close>: the file is opened first.\<close>

definition load_config :: "gerr option \<Rightarrow> gerr + string \<Rightarrow> gerr + config" where
  "load_config open_error content =
     (case open_error of Some e \<Rightarrow> Inl e | None \<Rightarrow> decode_config content)"

section \<open>What validation guarantees\<close>

definition config_ok :: "config \<Rightarrow> bool" where
  "config_ok c \<longleftrightarrow>
     cf_version c = 1 \<and> listener_ok (ep_address (cf_listener c)) \<and>
     ep_port (cf_listener c) \<in> {1..65535} \<and> up_type (cf_upstream c) = ''socks5'' \<and>
     up_host (cf_upstream c) \<noteq> [] \<and> \<not> contains_any (up_host (cf_upstream c)) forbidden_host_chars \<and>
     up_port (cf_upstream c) \<in> {1..65535} \<and>
     length (up_username (cf_upstream c)) \<le> 255 \<and> length (up_password (cf_upstream c)) \<le> 255 \<and>
     (up_username (cf_upstream c) = [] \<longrightarrow> up_password (cf_upstream c) = []) \<and>
     po_mode (cf_policy c) \<in> {''uid_allowlist'', ''all_non_bypass''} \<and> cf_udp_mode c = ''pass'' \<and>
     list_all valid_cidr (po_bypass_cidrs (cf_policy c)) \<and>
     0 < cf_connect_timeout c \<and> 0 < cf_idle_timeout c \<and> cf_max_connections c \<in> {1..16384} \<and>
     cf_log_level c \<in> {''info'', ''error'', ''warn'', ''debug'', ''trace''}"

lemma check_limits_Inr:
  "check_limits c = Inr c' \<longleftrightarrow>
     0 < cf_connect_timeout c \<and> 0 < cf_idle_timeout c \<and> cf_max_connections c \<in> {1..16384} \<and>
     cf_log_level c \<in> {[], ''info'', ''error'', ''warn'', ''debug'', ''trace''} \<and>
     c' = (if cf_log_level c = [] then c\<lparr>cf_log_level := ''info''\<rparr> else c)"
  by (auto simp: check_limits_def)

lemma validate_config_Inr:
  assumes "validate_config c = Inr c'"
  shows "config_ok c' \<and> check_limits (with_defaults c) = Inr c'"
proof -
  have lim: "check_limits (with_defaults c) = Inr c'"
    using assms by (simp add: validate_config_def Let_def split: if_splits)
  then have c': "c' = with_defaults c \<or> c' = (with_defaults c)\<lparr>cf_log_level := ''info''\<rparr>"
    and lims: "0 < cf_connect_timeout c'" "0 < cf_idle_timeout c'" "cf_max_connections c' \<in> {1..16384}"
      "cf_log_level c' \<in> {''info'', ''error'', ''warn'', ''debug'', ''trace''}"
    unfolding check_limits_Inr by (auto split: if_splits)
  have same: "cf_version c' = cf_version c" "cf_listener c' = cf_listener c" "cf_upstream c' = cf_upstream c"
    "cf_policy c' = cf_policy c" "cf_udp_mode c' = cf_udp_mode c"
    using c' by (auto simp: with_defaults_def)
  show ?thesis
    using assms lim lims unfolding config_ok_def same
    by (simp add: validate_config_def Let_def split: if_splits) auto
qed

text \<open>Validating again changes nothing: the daemon revalidates what it has decoded.\<close>

lemma validate_config_idem:
  assumes "config_ok c"
  shows "validate_config c = Inr c"
proof -
  have "with_defaults c = c" using assms by (simp add: with_defaults_def config_ok_def)
  moreover have "check_limits c = Inr c" unfolding check_limits_Inr using assms by (auto simp: config_ok_def)
  ultimately show ?thesis using assms by (auto simp: validate_config_def Let_def config_ok_def)
qed

lemma decode_config_ok: "decode_config input = Inr c \<Longrightarrow> config_ok c"
  by (auto simp: decode_config_def Let_def split: sum.splits if_splits dest: validate_config_Inr)

end
