(* ===== verification/Socks5.thy ===== *)
theory Socks5
  imports Net
begin

text \<open>
  The SOCKS5 client, \<open>ebpf-proxy/internal/upstream/socks5.go\<close>, and the direct connector. A
  connection holds the bytes the peer will send, the bytes sent to it, and the outcomes of the
  coming \<open>Write\<close> calls (an exhausted script writes everything).
\<close>

section \<open>Connections\<close>

record conn =
  cn_in :: "u8 list"
  cn_out :: "u8 list"
  cn_writes :: "(gerr + nat) list"
  cn_closed :: bool

definition byte_of :: "nat \<Rightarrow> u8" where
  "byte_of n = word_of_nat n"

definition bytes_of :: "string \<Rightarrow> u8 list" where
  "bytes_of s = map of_char s"

text \<open>One \<open>Write\<close>: a scripted error, a scripted count (at most what is offered), or everything.\<close>

definition conn_write :: "u8 list \<Rightarrow> conn \<Rightarrow> (gerr + nat) \<times> conn" where
  "conn_write b c =
     (case cn_writes c of
        [] \<Rightarrow> (Inr (length b), c\<lparr>cn_out := cn_out c @ b\<rparr>)
      | Inl e # ws \<Rightarrow> (Inl e, c\<lparr>cn_writes := ws\<rparr>)
      | Inr n # ws \<Rightarrow>
          (Inr (min n (length b)), c\<lparr>cn_out := cn_out c @ take n b, cn_writes := ws\<rparr>))"

function write_all :: "u8 list \<Rightarrow> conn \<Rightarrow> gerr option \<times> conn" where
  "write_all b c =
     (if b = [] then (None, c)
      else (case conn_write b c of
              (Inl e, c1) \<Rightarrow> (Some e, c1)
            | (Inr n, c1) \<Rightarrow>
                if n = 0 then (Some (Err ''short write''), c1)
                else write_all (drop n b) c1))"
  by pat_completeness auto

termination
  by (relation "measure (\<lambda>(b, c). length b)") (auto simp: conn_write_def split: list.splits sum.splits)

declare write_all.simps [simp del]

lemma write_all_Nil [simp]: "write_all [] c = (None, c)"
  by (simp add: write_all.simps [of "[]"])

text \<open>\<open>io.ReadFull\<close>: all \<open>n\<close> bytes or an error.\<close>

definition read_full :: "nat \<Rightarrow> conn \<Rightarrow> u8 list option \<times> conn" where
  "read_full n c =
     (if length (cn_in c) < n then (None, c\<lparr>cn_in := []\<rparr>)
      else (Some (take n (cn_in c)), c\<lparr>cn_in := drop n (cn_in c)\<rparr>))"

definition closed :: "conn \<Rightarrow> conn" where
  "closed c = c\<lparr>cn_closed := True\<rparr>"

section \<open>The client\<close>

record socks5 =
  so_address :: string
  so_username :: string
  so_password :: string

definition auth_bytes :: "socks5 \<Rightarrow> u8 list" where
  "auth_bytes s =
     [1, byte_of (length (so_username s))] @ bytes_of (so_username s) @
     [byte_of (length (so_password s))] @ bytes_of (so_password s)"

text \<open>A failure closes the connection, as the deferred call does.\<close>

definition socks_fail :: "string \<Rightarrow> conn \<Rightarrow> (gerr + unit) \<times> conn" where
  "socks_fail m c = (Inl (Err m), closed c)"

definition authenticate :: "socks5 \<Rightarrow> conn \<Rightarrow> (gerr + unit) \<times> conn" where
  "authenticate s c =
     (if length (so_username s) > 255 \<or> length (so_password s) > 255
      then socks_fail ''authentication too long'' c
      else (case write_all (auth_bytes s) c of
              (Some e, c1) \<Rightarrow> (Inl e, closed c1)
            | (None, c1) \<Rightarrow>
                (case read_full 2 c1 of
                   (None, c2) \<Rightarrow> socks_fail ''upstream authentication failed'' c2
                 | (Some r, c2) \<Rightarrow>
                     if r \<noteq> [1, 0] then socks_fail ''upstream authentication failed'' c2
                     else (Inr (), c2))))"

definition socks_method :: "socks5 \<Rightarrow> u8" where
  "socks_method s = (if so_username s \<noteq> [] then 2 else 0)"

definition negotiate :: "socks5 \<Rightarrow> gerr + conn \<Rightarrow> gerr + conn \<times> (gerr + unit)" where
  "negotiate s dial =
     (case dial of
        Inl e \<Rightarrow> Inl (Wrap ''upstream TCP connection failed'' e)
      | Inr c \<Rightarrow>
          (case write_all [5, 1, socks_method s] c of
             (Some e, c1) \<Rightarrow> Inr (closed c1, Inl e)
           | (None, c1) \<Rightarrow>
               (case read_full 2 c1 of
                  (None, c2) \<Rightarrow> Inr (closed c2, Inl (Err ''upstream SOCKS5 greeting failed''))
                | (Some r, c2) \<Rightarrow>
                    if r \<noteq> [5, socks_method s]
                    then Inr (closed c2, Inl (Err ''upstream rejected SOCKS5 authentication method''))
                    else if socks_method s = 2 then
                      (case authenticate s c2 of (res, c3) \<Rightarrow> Inr (c3, res))
                    else Inr (c2, Inr ()))))"

definition socks_probe :: "socks5 \<Rightarrow> gerr + conn \<Rightarrow> gerr option" where
  "socks_probe s dial =
     (case negotiate s dial of
        Inl e \<Rightarrow> Some e
      | Inr (c, Inl e) \<Rightarrow> Some e
      | Inr (c, Inr ()) \<Rightarrow> None)"

text \<open>The CONNECT request for a destination.\<close>

definition host_bytes :: "string \<Rightarrow> gerr + u8 list" where
  "host_bytes host =
     (case parse_ip host of
        Some ip \<Rightarrow>
          (case to4 ip of
             Some v4 \<Rightarrow> Inr (1 # ip_bytes v4)
           | None \<Rightarrow> Inr (4 # ip_bytes ip))
      | None \<Rightarrow>
          if length host < 1 \<or> length host > 255 then Inl (Err ''invalid destination host'')
          else Inr (3 # byte_of (length host) # bytes_of host))"

definition connect_request :: "string \<Rightarrow> gerr + u8 list" where
  "connect_request destination =
     (case split_host_port destination of
        None \<Rightarrow> Inl (Err ''invalid destination'')
      | Some (host, ps) \<Rightarrow>
          (case atoi ps of
             None \<Rightarrow> Inl (Err ''invalid destination port'')
           | Some port \<Rightarrow>
               if port < 1 \<or> port > 65535 then Inl (Err ''invalid destination port'')
               else (case host_bytes host of
                       Inl e \<Rightarrow> Inl e
                     | Inr hb \<Rightarrow>
                         Inr ([5, 1, 0] @ hb @ [byte_of (nat port div 256), byte_of (nat port mod 256)]))))"

text \<open>The reply: its head, then the bound address, which is discarded.\<close>

definition bound_size :: "u8 \<Rightarrow> conn \<Rightarrow> (gerr + nat) \<times> conn" where
  "bound_size atyp c =
     (if atyp = 1 then (Inr 4, c)
      else if atyp = 4 then (Inr 16, c)
      else if atyp = 3 then
        (case read_full 1 c of
           (None, c1) \<Rightarrow> (Inl Eof, c1)
         | (Some b, c1) \<Rightarrow> (Inr (unat (hd b)), c1))
      else (Inl (Err ''invalid bound address''), c))"

definition read_reply :: "conn \<Rightarrow> (gerr + unit) \<times> conn" where
  "read_reply c =
     (case read_full 4 c of
        (None, c1) \<Rightarrow> socks_fail ''upstream CONNECT response incomplete'' c1
      | (Some head, c1) \<Rightarrow>
          if head ! 0 \<noteq> 5 \<or> head ! 2 \<noteq> 0 then socks_fail ''invalid upstream CONNECT response'' c1
          else if head ! 1 \<noteq> 0 then socks_fail ''upstream CONNECT rejected'' c1
          else (case bound_size (head ! 3) c1 of
                  (Inl e, c2) \<Rightarrow> (Inl e, closed c2)
                | (Inr n, c2) \<Rightarrow>
                    (case read_full (n + 2) c2 of
                       (None, c3) \<Rightarrow> socks_fail ''upstream bound address incomplete'' c3
                     | (Some _, c3) \<Rightarrow> (Inr (), c3))))"

text \<open>\<open>Connect\<close>: \<open>Inl\<close> when no connection was made.\<close>

definition socks_connect :: "socks5 \<Rightarrow> string \<Rightarrow> gerr + conn \<Rightarrow> gerr + conn \<times> (gerr + unit)" where
  "socks_connect s destination dial =
     (case connect_request destination of
        Inl e \<Rightarrow> Inl e
      | Inr req \<Rightarrow>
          (case negotiate s dial of
             Inl e \<Rightarrow> Inl e
           | Inr (c, Inl e) \<Rightarrow> Inr (c, Inl e)
           | Inr (c, Inr ()) \<Rightarrow>
               (case write_all req c of
                  (Some e, c1) \<Rightarrow> Inr (closed c1, Inl e)
                | (None, c1) \<Rightarrow> (case read_reply c1 of (res, c2) \<Rightarrow> Inr (c2, res)))))"

definition direct_connect :: "gerr + conn \<Rightarrow> gerr + conn" where
  "direct_connect dial = dial"

section \<open>Writing\<close>

lemma write_all_out:
  "write_all b c = (e, c') \<Longrightarrow>
     cn_in c' = cn_in c \<and> cn_closed c' = cn_closed c \<and>
     (\<exists>n \<le> length b. cn_out c' = cn_out c @ take n b) \<and> (e = None \<longrightarrow> cn_out c' = cn_out c @ b)"
proof (induction b c rule: write_all.induct)
  case (1 b c)
  show ?case
  proof (cases "b = []")
    case True
    then show ?thesis using 1(2) by simp
  next
    case False
    obtain r c1 where w: "conn_write b c = (r, c1)" by fastforce
    show ?thesis
    proof (cases r)
      case (Inl err)
      then show ?thesis
        using 1(2) False w by (auto simp: write_all.simps [of b] conn_write_def split: list.splits sum.splits)
    next
      case (Inr n)
      have c1: "cn_out c1 = cn_out c @ take n b" "cn_in c1 = cn_in c" "cn_closed c1 = cn_closed c" "n \<le> length b"
        using w Inr by (auto simp: conn_write_def min_def split: list.splits sum.splits if_splits)
      show ?thesis
      proof (cases "n = 0")
        case True
        then show ?thesis using 1(2) False w Inr c1 by (auto simp: write_all.simps [of b])
      next
        case n: False
        then have rec: "write_all (drop n b) c1 = (e, c')"
          using 1(2) False w Inr by (simp add: write_all.simps [of b])
        have "cn_in c' = cn_in c1 \<and> cn_closed c' = cn_closed c1 \<and>
            (\<exists>m \<le> length (drop n b). cn_out c' = cn_out c1 @ take m (drop n b)) \<and>
            (e = None \<longrightarrow> cn_out c' = cn_out c1 @ drop n b)"
          by (rule 1(1) [OF False w [symmetric] Inr n rec])
        then obtain m where "m \<le> length (drop n b)" "cn_out c' = cn_out c1 @ take m (drop n b)"
          and rest: "cn_in c' = cn_in c1" "cn_closed c' = cn_closed c1" "e = None \<longrightarrow> cn_out c' = cn_out c1 @ drop n b"
          by blast
        then have "n + m \<le> length b" "cn_out c' = cn_out c @ take (n + m) b"
          using c1 by (auto simp: take_add)
        then show ?thesis using rest c1 by auto
      qed
    qed
  qed
qed

lemma read_full_Some:
  "read_full n c = (Some b, c') \<longleftrightarrow> length b = n \<and> cn_in c = b @ cn_in c' \<and> c' = c\<lparr>cn_in := cn_in c'\<rparr>"
proof
  assume "read_full n c = (Some b, c')"
  then show "length b = n \<and> cn_in c = b @ cn_in c' \<and> c' = c\<lparr>cn_in := cn_in c'\<rparr>"
    by (auto simp: read_full_def split: if_splits)
next
  assume a: "length b = n \<and> cn_in c = b @ cn_in c' \<and> c' = c\<lparr>cn_in := cn_in c'\<rparr>"
  then have "read_full n c = (Some b, c\<lparr>cn_in := cn_in c'\<rparr>)" by (auto simp: read_full_def)
  then show "read_full n c = (Some b, c')" using a by metis
qed

lemma read_full_frame: "read_full n c = (b, c') \<Longrightarrow> cn_closed c' = cn_closed c \<and> cn_out c' = cn_out c"
  by (auto simp: read_full_def split: if_splits)

section \<open>The conversation\<close>

text \<open>What a successful negotiation sends.\<close>

definition negotiation_bytes :: "socks5 \<Rightarrow> u8 list" where
  "negotiation_bytes s =
     [5, 1, socks_method s] @ (if so_username s \<noteq> [] then auth_bytes s else [])"

definition negotiation_reply :: "socks5 \<Rightarrow> u8 list" where
  "negotiation_reply s = [5, socks_method s] @ (if so_username s \<noteq> [] then [1, 0] else [])"

lemma socks_method_2 [simp]: "socks_method s = 2 \<longleftrightarrow> so_username s \<noteq> []"
  by (simp add: socks_method_def)

lemma negotiate_ok:
  assumes "negotiate s (Inr c) = Inr (c', Inr ())"
  shows "cn_out c' = cn_out c @ negotiation_bytes s \<and> cn_in c = negotiation_reply s @ cn_in c' \<and>
    cn_closed c' = cn_closed c"
proof -
  obtain e1 c1 where w1: "write_all [5, 1, socks_method s] c = (e1, c1)" by fastforce
  obtain r2 c2 where rd2: "read_full 2 c1 = (r2, c2)" by fastforce
  have e1: "e1 = None" and r2: "r2 = Some [5, socks_method s]"
    using assms w1 rd2 by (auto simp: negotiate_def split: option.splits if_splits)
  note b1 = write_all_out [OF w1]
  have b2: "cn_in c1 = [5, socks_method s] @ cn_in c2" "cn_out c2 = cn_out c1" "cn_closed c2 = cn_closed c1"
    using rd2 r2 read_full_Some [of 2 c1 "[5, socks_method s]" c2] read_full_frame [OF rd2] by auto
  show ?thesis
  proof (cases "so_username s = []")
    case True
    then have "c' = c2" using assms w1 rd2 e1 r2 by (simp add: negotiate_def)
    then show ?thesis using True b1 b2 e1 by (simp add: negotiation_bytes_def negotiation_reply_def)
  next
    case False
    then have au: "authenticate s c2 = (Inr (), c')"
      using assms w1 rd2 e1 r2 by (auto simp: negotiate_def split: prod.splits)
    obtain e3 c3 where w3: "write_all (auth_bytes s) c2 = (e3, c3)" by fastforce
    obtain r4 c4 where rd4: "read_full 2 c3 = (r4, c4)" by fastforce
    have e3: "e3 = None" "r4 = Some [1, 0]" "c4 = c'"
      using au w3 rd4 by (auto simp: authenticate_def socks_fail_def split: option.splits if_splits)
    note b3 = write_all_out [OF w3]
    have "cn_in c3 = [1, 0] @ cn_in c'" "cn_out c' = cn_out c3" "cn_closed c' = cn_closed c3"
      using rd4 e3 read_full_Some [of 2 c3 "[1, 0]" c4] read_full_frame [OF rd4] by auto
    then show ?thesis using False b1 b2 b3 e1 e3
      by (simp add: negotiation_bytes_def negotiation_reply_def)
  qed
qed

lemma negotiate_closed:
  "negotiate s (Inr c) = Inr (c', Inl e) \<Longrightarrow> cn_closed c'"
  by (auto simp: negotiate_def authenticate_def socks_fail_def closed_def
      split: prod.splits option.splits if_splits)

text \<open>A reply of the protocol: accepted, with a bound address of the announced size.\<close>

definition connect_reply :: "u8 list \<Rightarrow> bool" where
  "connect_reply r \<longleftrightarrow>
     (\<exists>rest. r = [5, 0, 0, 1] @ rest \<and> length rest = 6) \<or>
     (\<exists>rest. r = [5, 0, 0, 4] @ rest \<and> length rest = 18) \<or>
     (\<exists>n rest. r = [5, 0, 0, 3, n] @ rest \<and> length rest = unat n + 2)"

lemma read_reply_ok:
  assumes "read_reply c = (Inr (), c')"
  shows "(\<exists>r. connect_reply r \<and> cn_in c = r @ cn_in c') \<and> cn_out c' = cn_out c \<and> cn_closed c' = cn_closed c"
proof -
  obtain hd4 c1 where rd1: "read_full 4 c = (Some hd4, c1)"
    using assms by (cases "read_full 4 c") (auto simp: read_reply_def socks_fail_def split: option.splits)
  then obtain a b d t where h: "hd4 = [a, b, d, t]"
    using read_full_Some [of 4 c hd4 c1] by (auto simp: length_Suc_conv numeral_eq_Suc)
  have ok: "a = 5" "b = 0" "d = 0" using assms rd1 h
    by (auto simp: read_reply_def socks_fail_def split: if_splits)
  obtain sz c2 where bs: "bound_size t c1 = (sz, c2)" by fastforce
  then obtain n where n: "sz = Inr n"
    using assms rd1 h ok by (cases sz) (auto simp: read_reply_def)
  obtain rest where rd3: "read_full (n + 2) c2 = (Some rest, c')"
    using assms rd1 h ok bs n
    by (cases "read_full (n + 2) c2") (auto simp: read_reply_def socks_fail_def split: option.splits)
  have i1: "cn_in c = [5, 0, 0, t] @ cn_in c1" using rd1 h ok read_full_Some by simp
  have i3: "cn_in c2 = rest @ cn_in c'" "length rest = n + 2" using rd3 read_full_Some by auto
  have fr: "cn_out c' = cn_out c2" "cn_closed c' = cn_closed c2" "cn_out c1 = cn_out c" "cn_closed c1 = cn_closed c"
    using read_full_frame [OF rd3] read_full_frame [OF rd1] by auto
  consider "t = 1" | "t = 4" | "t = 3" using bs n by (auto simp: bound_size_def split: if_splits)
  then show ?thesis
  proof cases
    case 3
    then obtain m where rd2: "read_full 1 c1 = (Some m, c2)" and nm: "n = unat (hd m)"
      using bs n by (auto simp: bound_size_def split: prod.splits option.splits)
    then obtain x where "m = [x]" using read_full_Some [of 1 c1 m c2] by (auto simp: length_Suc_conv)
    then have i2: "cn_in c1 = [x] @ cn_in c2" "n = unat x" using rd2 nm read_full_Some [of 1 c1 m c2] by auto
    have reply: "connect_reply ([5, 0, 0, 3, x] @ rest)" using i3 i2 by (simp add: connect_reply_def)
    have "cn_in c = ([5, 0, 0, 3, x] @ rest) @ cn_in c'" using i1 i2 i3 3 by simp
    moreover have "cn_out c' = cn_out c \<and> cn_closed c' = cn_closed c"
      using fr read_full_frame [OF rd2] by simp
    ultimately show ?thesis using reply by blast
  next
    case 1
    then have "c2 = c1" "n = 4" using bs n by (auto simp: bound_size_def)
    then have "connect_reply ([5, 0, 0, 1] @ rest)" "cn_in c = ([5, 0, 0, 1] @ rest) @ cn_in c'"
      using i1 i3 1 by (simp_all add: connect_reply_def)
    then show ?thesis using fr \<open>c2 = c1\<close> by metis
  next
    case 2
    then have "c2 = c1" "n = 16" using bs n by (auto simp: bound_size_def)
    then have "connect_reply ([5, 0, 0, 4] @ rest)" "cn_in c = ([5, 0, 0, 4] @ rest) @ cn_in c'"
      using i1 i3 2 by (simp_all add: connect_reply_def)
    then show ?thesis using fr \<open>c2 = c1\<close> by metis
  qed
qed

lemma read_reply_closed: "read_reply c = (Inl e, c') \<Longrightarrow> cn_closed c'"
  by (auto simp: read_reply_def socks_fail_def closed_def split: prod.splits option.splits if_splits sum.splits)

text \<open>
  A successful \<open>Connect\<close> has sent exactly the negotiation and the request, has read exactly the
  peer's replies, so that no byte of the tunnelled stream is lost, and leaves the connection open.
\<close>

lemma socks_connect_after:
  assumes "connect_request dst = Inr req" and "negotiate s (Inr c) = Inr (c1, Inr ())"
    and "write_all req c1 = (e2, c2)"
  shows "socks_connect s dst (Inr c) =
     (case e2 of Some e \<Rightarrow> Inr (closed c2, Inl e) | None \<Rightarrow> Inr (snd (read_reply c2), fst (read_reply c2)))"
  unfolding socks_connect_def assms sum.case prod.case unit.case
  by (cases e2) (simp_all add: split_beta)

lemma socks_connect_ok:
  assumes "socks_connect s dst (Inr c) = Inr (c', Inr ())"
  shows "\<exists>req reply. connect_request dst = Inr req \<and> connect_reply reply \<and>
    cn_out c' = cn_out c @ negotiation_bytes s @ req \<and>
    cn_in c = negotiation_reply s @ reply @ cn_in c' \<and> cn_closed c' = cn_closed c"
proof -
  obtain req where req: "connect_request dst = Inr req"
    using assms by (auto simp: socks_connect_def split: sum.splits)
  obtain c1 where n1: "negotiate s (Inr c) = Inr (c1, Inr ())"
    using assms req by (auto simp: socks_connect_def split: sum.splits)
  obtain e2 c2 where w2: "write_all req c1 = (e2, c2)" by fastforce
  note after = socks_connect_after [OF req n1 w2]
  have e2: "e2 = None" using assms after by (cases e2) simp_all
  then have rr: "read_reply c2 = (Inr (), c')" using assms after by (simp add: prod_eq_iff)
  obtain reply where r: "connect_reply reply" "cn_in c2 = reply @ cn_in c'"
    and fr: "cn_out c' = cn_out c2" "cn_closed c' = cn_closed c2"
    using read_reply_ok [OF rr] by blast
  have w: "cn_in c2 = cn_in c1" "cn_closed c2 = cn_closed c1" "cn_out c2 = cn_out c1 @ req"
    using write_all_out [OF w2] e2 by simp_all
  have n: "cn_out c1 = cn_out c @ negotiation_bytes s" "cn_in c = negotiation_reply s @ cn_in c1"
    "cn_closed c1 = cn_closed c" using negotiate_ok [OF n1] by simp_all
  have "cn_out c' = cn_out c @ negotiation_bytes s @ req" using fr w n by simp
  moreover have "cn_in c = negotiation_reply s @ reply @ cn_in c'" using n w r by metis
  moreover have "cn_closed c' = cn_closed c" using fr w n by simp
  ultimately show ?thesis using req r(1) by blast
qed

lemma socks_connect_closed:
  assumes "socks_connect s dst (Inr c) = Inr (c', Inl e)"
  shows "cn_closed c'"
proof -
  obtain req where req: "connect_request dst = Inr req"
    using assms by (auto simp: socks_connect_def split: sum.splits)
  show ?thesis
  proof (cases "\<exists>c1. negotiate s (Inr c) = Inr (c1, Inr ())")
    case True
    then obtain c1 where n1: "negotiate s (Inr c) = Inr (c1, Inr ())" by blast
    obtain e2 c2 where w2: "write_all req c1 = (e2, c2)" by fastforce
    note after = socks_connect_after [OF req n1 w2]
    show ?thesis
    proof (cases e2)
      case None
      then have "read_reply c2 = (Inl e, c')" using assms after by (simp add: prod_eq_iff)
      then show ?thesis by (rule read_reply_closed)
    next
      case (Some x)
      then show ?thesis using assms after by (auto simp: closed_def)
    qed
  next
    case False
    then show ?thesis using assms req negotiate_closed
      by (auto simp: socks_connect_def split: sum.splits)
  qed
qed

end
