(* ===== verification/Preflight.thy ===== *)
theory Preflight
  imports Config Scoped Socks5
begin

text \<open>
  The read-only preflight, \<open>ebpf-proxy/internal/tproxy/preflight.go\<close> and \<open>preflight_linux.go\<close>:
  which reasons block an automatic setup, given the captured evidence.
\<close>

section \<open>Options and report\<close>

record preflight_options =
  pf_mark :: u32
  pf_mask :: u32
  pf_table :: u32
  pf_priority :: u32
  pf_prefix :: string

record mark_reference =
  mr_source :: string
  mr_kind :: string
  mr_value :: u32
  mr_mask :: u32

record preflight_report =
  pr_version :: int
  pr_read_only :: bool
  pr_automatic :: bool
  pr_status :: string
  pr_options :: preflight_options
  pr_namespace :: string
  pr_uid :: int
  pr_upstream :: string
  pr_listener :: string
  pr_mode :: string
  pr_targets :: "u32 list"
  pr_bypass :: bool
  pr_blocks :: "string list"
  pr_warnings :: "string list"
  pr_marks :: "mark_reference list"
  pr_stable :: bool
  pr_probe :: string
  pr_required :: "string list"

definition default_options :: preflight_options where
  "default_options =
     \<lparr>pf_mark = push_bit 22 1, pf_mask = push_bit 22 1, pf_table = 38766, pf_priority = 9001,
      pf_prefix = ''ATP_LIVE''\<rparr>"

definition valid_options :: "preflight_options \<Rightarrow> bool" where
  "valid_options v \<longleftrightarrow>
     \<not> (pf_mark v = 0 \<or> pf_mark v \<noteq> pf_mask v \<or> pf_mask v AND (pf_mask v - 1) \<noteq> 0 \<or>
        pf_table v < 256 \<or> pf_priority v = 0 \<or> pf_priority v \<ge> 32766 \<or>
        \<not> plan_prefix_ok (pf_prefix v))"

section \<open>Evaluation\<close>

type_synonym evidence = "string \<Rightarrow> cmd_result option"

definition zero_result :: cmd_result where
  "zero_result = \<lparr>res_command = [], res_exit = 0, res_output = [], res_error = [], res_sha256 = []\<rparr>"

definition empty_routing_table :: "cmd_result \<Rightarrow> bool" where
  "empty_routing_table v \<longleftrightarrow>
     trim_space (res_output v) = [] \<and>
     (res_exit v = 0 \<and> res_error v = [] \<or>
      res_exit v = 2 \<and> trim_space (res_error v) =
        ''Error: ipv4: FIB table does not exist.'' @ [CHR 0x0A] @ ''Dump terminated'' \<or>
      res_exit v = 2 \<and> trim_space (res_error v) =
        ''Error: ipv6: FIB table does not exist.'' @ [CHR 0x0A] @ ''Dump terminated'')"

definition add_if :: "bool \<Rightarrow> string \<Rightarrow> string list \<Rightarrow> string list" where
  "add_if c code blocks = (if c then append_once blocks code else blocks)"

definition daemon_bypass :: "config \<Rightarrow> int \<Rightarrow> bool" where
  "daemon_bypass c uid \<longleftrightarrow> list_ex (\<lambda>b. b = word_of_int uid \<and> uid \<ge> 0) (po_bypass_uids (cf_policy c))"

text \<open>The target UIDs, each once, with the codes each of them adds.\<close>

definition target_blocks :: "u32 list \<Rightarrow> u32 list \<Rightarrow> string list \<Rightarrow> string list" where
  "target_blocks bypass targets blocks =
     foldl (\<lambda>bs u. add_if (u \<in> set bypass) ''TARGET_BYPASS_OVERLAP''
                     (add_if (u < 10000) ''SYSTEM_UID_SELECTED'' bs)) blocks targets"

text \<open>One \<open>lookup\<close>/\<open>table\<close> word of a policy rule.\<close>

definition lookup_blocks :: "preflight_options \<Rightarrow> aliases \<Rightarrow> string list \<Rightarrow> string list \<Rightarrow> nat \<Rightarrow> string list" where
  "lookup_blocks v aliases f bs i =
     (if f ! i = ''lookup'' \<or> f ! i = ''table'' then
        let name = f ! (i + 1)
        in (case parse_uint0 32 name of
              Some n \<Rightarrow> add_if (word_of_nat n = pf_table v) ''ROUTING_TABLE_REFERENCED'' bs
            | None \<Rightarrow>
                add_if ((case aliases name of Some t \<Rightarrow> t | None \<Rightarrow> 0) = pf_table v) ''ROUTING_TABLE_REFERENCED''
                  (add_if (aliases name = None \<and> name \<notin> {''local'', ''main'', ''default''})
                     ''SYMBOLIC_ROUTING_TABLE_UNKNOWN'' bs))
      else bs)"

definition rule_line_blocks :: "preflight_options \<Rightarrow> aliases \<Rightarrow> string list \<Rightarrow> string \<Rightarrow> string list" where
  "rule_line_blocks v aliases bs line =
     (let f = str_fields line
      in if f = [] then bs
         else (case parse_uint 10 32 (trim_suffix (hd f) '':'') of
                 None \<Rightarrow> append_once bs ''POLICY_RULE_PARSE_UNKNOWN''
               | Some n \<Rightarrow>
                   foldl (lookup_blocks v aliases f)
                     (add_if (word_of_nat n = pf_priority v) ''RULE_PRIORITY_IN_USE'' bs)
                     [1 ..< length f - 1]))"

definition evidence_names :: "string list" where
  "evidence_names = [''rules4'', ''rules6'', ''mangle4'', ''mangle6'', ''table4'', ''table6'',
     ''firewall4'', ''firewall6'']"

definition evidence_blocks :: "preflight_options \<Rightarrow> aliases \<Rightarrow> evidence \<Rightarrow> string list \<times> string list \<Rightarrow> string
    \<Rightarrow> string list \<times> string list" where
  "evidence_blocks v aliases ev acc name =
     (case acc of (bs, ws) \<Rightarrow>
        (case ev name of
           None \<Rightarrow> (append_once bs ''RESOURCE_QUERY_FAILED'', ws)
         | Some r \<Rightarrow>
             if has_prefix name ''table'' \<and> empty_routing_table r then (bs, ws)
             else if res_exit r \<noteq> 0 \<or> res_error r \<noteq> [] then (append_once bs ''RESOURCE_QUERY_FAILED'', ws)
             else
               let b1 = add_if (has_prefix name ''table'' \<and> trim_space (res_output r) \<noteq> [])
                          ''ROUTING_TABLE_IN_USE'' bs;
                   b2 = (if has_prefix name ''rules''
                         then foldl (rule_line_blocks v aliases) b1 (split_on (CHR 0x0A) (res_output r)) else b1);
                   b3 = add_if (has_prefix name ''mangle'' \<and>
                          list_ex (\<lambda>t. has_prefix t (pf_prefix v)) (str_fields (res_output r)))
                          ''CHAIN_PREFIX_IN_USE'' b2;
                   w1 = add_if (has_prefix name ''mangle'' \<and> str_contains (res_output r) ''-j TPROXY'')
                          ''EXISTING_TPROXY_RULES_PROBE_BYPASS_UNCONFIRMED'' ws
               in (b3, w1)))"

definition mark_references :: "preflight_options \<Rightarrow> evidence \<Rightarrow> mark_reference list" where
  "mark_references v ev =
     concat (map (\<lambda>name.
        map (\<lambda>u. \<lparr>mr_source = mu_source u, mr_kind = mu_kind u, mr_value = mu_value u, mr_mask = mu_mask u\<rparr>)
          (filter (\<lambda>u. mu_kind u = ''packet'' \<and> mu_mask u AND pf_mask v \<noteq> 0)
             (mark_uses name (case ev name of Some r \<Rightarrow> res_output r | None \<Rightarrow> []))))
       [''rules4'', ''rules6'', ''firewall4'', ''firewall6''])"

definition mandatory_blocks :: "string list" where
  "mandatory_blocks = [''VENDOR_MARK_SAFETY_UNPROVEN'', ''LIVE_OWNERSHIP_NOT_IMPLEMENTED'',
     ''PRODUCTION_SUPERVISOR_NOT_DEPLOYED'']"

definition policy_blocks :: "config \<Rightarrow> int \<Rightarrow> u16 list \<Rightarrow> string list" where
  "policy_blocks c uid ports =
     (let p = cf_policy c;
          targets = dedup {} (po_uids p);
          b0 = add_if (\<not> daemon_bypass c uid) ''DAEMON_UID_BYPASS_MISSING'' mandatory_blocks;
          b1 = add_if (po_mode p \<noteq> ''uid_allowlist'') ''LIVE_POC_REQUIRES_FINITE_UID_ALLOWLIST'' b0;
          b2 = target_blocks (po_bypass_uids p) targets b1;
          b3 = add_if (targets = []) ''NO_TARGET_UIDS'' b2;
          b4 = add_if (length targets > 32) ''LIVE_POC_UID_LIMIT_EXCEEDED'' b3;
          b5 = add_if (cf_ipv6 c) ''LIVE_IPV6_DATA_PATH_NOT_VALIDATED'' b4
      in add_if (list_ex (\<lambda>q. q = word_of_int (ep_port (cf_listener c))) ports) ''LISTENER_PORT_IN_USE'' b5)"

definition evaluate_preflight :: "config \<Rightarrow> preflight_options \<Rightarrow> int \<Rightarrow> evidence \<Rightarrow> aliases \<Rightarrow> bool \<Rightarrow> u16 list
    \<Rightarrow> preflight_report" where
  "evaluate_preflight c v uid ev aliases no_aliases ports =
     (case foldl (evidence_blocks v aliases ev) (policy_blocks c uid ports, []) evidence_names of (bs, ws) \<Rightarrow>
        let refs = mark_references v ev
        in \<lparr>pr_version = 1, pr_read_only = True, pr_automatic = False, pr_status = ''blocked'',
            pr_options = v, pr_namespace = [], pr_uid = uid,
            pr_upstream = join_host_port (up_host (cf_upstream c)) (itoa (up_port (cf_upstream c))),
            pr_listener = endpoint_string (cf_listener c), pr_mode = po_mode (cf_policy c),
            pr_targets = dedup {} (po_uids (cf_policy c)), pr_bypass = daemon_bypass c uid,
            pr_blocks = add_if (refs \<noteq> []) ''MARK_MASK_OVERLAP_OBSERVED'' bs,
            pr_warnings = add_if no_aliases ''SYMBOLIC_ROUTING_TABLE_ALIASES_NOT_AVAILABLE'' ws,
            pr_marks = refs, pr_stable = False, pr_probe = ''not_requested'',
            pr_required = [''daemon UID'', ''system network UIDs'', ''loopback'', ''link-local'',
              ''multicast/broadcast'', ''resolved upstream IP:port'']\<rparr>)"

section \<open>Listening ports\<close>

definition port_row :: "gerr + u16 list \<Rightarrow> string \<Rightarrow> gerr + u16 list" where
  "port_row acc line =
     (case acc of
        Inl e \<Rightarrow> Inl e
      | Inr ports \<Rightarrow>
          let f = str_fields line
          in if f = [] \<or> hd f = ''sl'' then Inr ports
             else if length f < 4 then Inl (Err ''invalid TCP socket row'')
             else if f ! 3 \<noteq> ''0A'' then Inr ports
             else (case last_index (CHR '':'') (f ! 1) of
                     None \<Rightarrow> Inl (Err ''invalid socket endpoint'')
                   | Some i \<Rightarrow>
                       (case parse_uint 16 16 (drop (Suc i) (f ! 1)) of
                          None \<Rightarrow> Inl (Err ''syntax'')
                        | Some n \<Rightarrow> Inr (ports @ [word_of_nat n]))))"

definition listening_ports :: "string \<Rightarrow> gerr + u16 list" where
  "listening_ports txt = foldl port_row (Inr []) (split_on (CHR 0x0A) txt)"

section \<open>The driver\<close>

definition preflight_command :: "preflight_options \<Rightarrow> string \<Rightarrow> argv" where
  "preflight_command v name =
     (let table = utoa (unat (pf_table v))
      in if name = ''rules4'' then [''ip'', ''rule'', ''show'']
         else if name = ''rules6'' then [''ip'', ''-6'', ''rule'', ''show'']
         else if name = ''mangle4'' then [''iptables'', ''-w'', ''2'', ''-t'', ''mangle'', ''-S'']
         else if name = ''mangle6'' then [''ip6tables'', ''-w'', ''2'', ''-t'', ''mangle'', ''-S'']
         else if name = ''table4'' then [''ip'', ''-4'', ''route'', ''show'', ''table'', table]
         else if name = ''table6'' then [''ip'', ''-6'', ''route'', ''show'', ''table'', table]
         else if name = ''firewall4'' then [''iptables-save'']
         else if name = ''firewall6'' then [''ip6tables-save'']
         else [])"

fun gather :: "'w runner \<Rightarrow> (string \<Rightarrow> argv) \<Rightarrow> string list \<Rightarrow> 'w \<Rightarrow> evidence \<times> 'w" where
  "gather run cmd [] w = (\<lambda>_. None, w)"
| "gather run cmd (n # ns) w =
     (case run (cmd n) w of (r, w1) \<Rightarrow>
        (case gather run cmd ns w1 of (ev, w2) \<Rightarrow> (ev(n \<mapsto> r), w2)))"

definition stable_names :: "string list" where
  "stable_names = [''rules4'', ''rules6'', ''mangle4'', ''mangle6'', ''table4'', ''table6'']"

definition stable_state :: "(string \<Rightarrow> u8 list) \<Rightarrow> evidence \<Rightarrow> string" where
  "stable_state sha ev =
     state_digest sha (map (\<lambda>n. let r = (case ev n of Some r \<Rightarrow> r | None \<Rightarrow> zero_result)
        in n @ '':'' @ itoa (res_exit r) @ '':'' @ res_error r @ '':'' @ res_output r) stable_names)"

text \<open>The socket tables: ports of every readable, well-formed file, and whether one failed.\<close>

definition socket_ports :: "(gerr + string) list \<Rightarrow> u16 list \<times> bool" where
  "socket_ports files =
     foldl (\<lambda>(ports, failed) file.
        (case file of
           Inl _ \<Rightarrow> (ports, True)
         | Inr b \<Rightarrow> (case listening_ports b of Inl _ \<Rightarrow> (ports, True) | Inr qs \<Rightarrow> (ports @ qs, failed))))
       ([], False) files"

text \<open>What the capability probe of the host reports.\<close>

record capabilities =
  ca_checks :: "string \<Rightarrow> cmd_result"
  ca_config :: cmd_result

definition capability_blocks :: "capabilities \<Rightarrow> string list \<times> string list \<Rightarrow> string list \<times> string list" where
  "capability_blocks ca acc =
     (case acc of (bs, ws) \<Rightarrow>
        let failed = list_ex (\<lambda>n. res_exit (ca_checks ca n) \<noteq> 0 \<or> res_error (ca_checks ca n) \<noteq> [])
              [''iptables'', ''tproxy4'', ''owner'', ''MARK'', ''mark'', ''IP_TRANSPARENT''];
            targets = ca_checks ca ''/proc/net/ip_tables_targets'';
            b1 = add_if failed ''CAPABILITY_QUERY_FAILED'' bs;
            b2 = add_if (res_exit targets \<noteq> 0 \<or>
                   \<not> str_contains ([CHR 0x0A] @ res_output targets @ [CHR 0x0A]) ([CHR 0x0A] @ ''TPROXY'' @ [CHR 0x0A]))
                   ''KERNEL_TPROXY_TARGET_UNCONFIRMED'' b1
        in if res_exit (ca_config ca) \<noteq> 0
           then (b2, append_once ws ''KERNEL_CONFIG_UNAVAILABLE_NOT_PROOF_OF_ABSENCE'')
           else (foldl (\<lambda>b key.
                   add_if (\<not> str_contains (res_output (ca_config ca)) (''CONFIG_'' @ key @ ''=y'') \<and>
                           \<not> str_contains (res_output (ca_config ca)) (''CONFIG_'' @ key @ ''=m''))
                     ''KERNEL_CONFIG_REQUIREMENT_UNCONFIRMED'' b) b2
                   [''NETFILTER_XT_TARGET_TPROXY'', ''NF_TPROXY_IPV4'', ''IP_MULTIPLE_TABLES''], ws))"

text \<open>The upstream probe: \<open>dial\<close> and \<open>dial2\<close> are the two connections it makes.\<close>

definition probe_upstream :: "config \<Rightarrow> gerr + conn \<Rightarrow> gerr + conn \<Rightarrow> bool \<Rightarrow> preflight_report \<Rightarrow> preflight_report" where
  "probe_upstream c dial dial2 wanted r =
     (if \<not> wanted then r\<lparr>pr_blocks := append_once (pr_blocks r) ''UPSTREAM_CONNECTIVITY_NOT_TESTED''\<rparr>
      else if \<not> pr_bypass r \<or> ''EXISTING_TPROXY_RULES_PROBE_BYPASS_UNCONFIRMED'' \<in> set (pr_warnings r)
      then r\<lparr>pr_probe := ''skipped_bypass_unconfirmed'',
             pr_blocks := append_once (pr_blocks r) ''UPSTREAM_PROBE_BYPASS_UNCONFIRMED''\<rparr>
      else (case dial of
              Inl e \<Rightarrow> r\<lparr>pr_probe := ''tcp_unreachable'',
                        pr_blocks := append_once (pr_blocks r) ''UPSTREAM_UNREACHABLE''\<rparr>
            | Inr _ \<Rightarrow>
                (case socks_probe \<lparr>so_address = pr_upstream r, so_username = up_username (cf_upstream c),
                        so_password = up_password (cf_upstream c)\<rparr> dial2 of
                   Some e \<Rightarrow> r\<lparr>pr_probe := ''socks5_failed'',
                              pr_blocks := append_once (pr_blocks r) ''SOCKS5_NEGOTIATION_FAILED''\<rparr>
                 | None \<Rightarrow> r\<lparr>pr_probe := ''socks5_ready''\<rparr>)))"

record preflight_inputs =
  pi_uid :: int
  pi_alias_files :: "string option list"
  pi_sockets :: "(gerr + string) list"
  pi_namespace :: "gerr + string"
  pi_capabilities :: capabilities
  pi_dial :: "gerr + conn"
  pi_dial2 :: "gerr + conn"

definition no_aliases :: "string option list \<Rightarrow> bool" where
  "no_aliases files \<longleftrightarrow>
     list_all (\<lambda>file. case file of None \<Rightarrow> True
       | Some b \<Rightarrow> list_all (\<lambda>line. alias_line (\<lambda>_. None) line = (\<lambda>_. None)) (split_on (CHR 0x0A) b)) files"

definition preflight :: "(string \<Rightarrow> u8 list) \<Rightarrow> 'w runner \<Rightarrow> preflight_inputs \<Rightarrow> config \<Rightarrow> preflight_options \<Rightarrow> bool
    \<Rightarrow> 'w \<Rightarrow> (gerr + preflight_report) \<times> 'w" where
  "preflight sha run I c v probe w =
     (if \<not> valid_options v
      then (Inl (Err ''invalid single-bit mark/mask, dedicated table, priority or prefix''), w)
      else case validate_config c of
        Inl e \<Rightarrow> (Inl e, w)
      | Inr c1 \<Rightarrow>
          (case gather run (preflight_command v) evidence_names w of (ev, w1) \<Rightarrow>
           (case socket_ports (pi_sockets I) of (ports, bad_sockets) \<Rightarrow>
             let aliases = routing_aliases (pi_alias_files I);
                 r0 = evaluate_preflight c1 v (pi_uid I) ev aliases (no_aliases (pi_alias_files I)) ports;
                 r1 = (case pi_namespace I of
                         Inl _ \<Rightarrow> r0\<lparr>pr_blocks := append_once (pr_blocks r0) ''NETWORK_NAMESPACE_IDENTITY_UNAVAILABLE''\<rparr>
                       | Inr ns \<Rightarrow> r0\<lparr>pr_namespace := ns\<rparr>);
                 r2 = r1\<lparr>pr_blocks := add_if bad_sockets ''LISTENER_QUERY_FAILED'' (pr_blocks r1)\<rparr>;
                 (bs, ws) = capability_blocks (pi_capabilities I) (pr_blocks r2, pr_warnings r2);
                 r3 = probe_upstream c1 (pi_dial I) (pi_dial2 I) probe (r2\<lparr>pr_blocks := bs, pr_warnings := ws\<rparr>)
             in (case gather run (preflight_command v) stable_names w1 of (after, w2) \<Rightarrow>
                   let stable = (stable_state sha ev = stable_state sha after)
                   in (Inr (r3\<lparr>pr_stable := stable,
                             pr_blocks := add_if (\<not> stable) ''RESOURCE_STATE_CHANGED_RETRY_REQUIRED'' (pr_blocks r3),
                             pr_warnings := pr_warnings r3 @
                               [''No transparent listener was bound; no interception path or real App/MITM acceptance is established.'',
                                ''A later setup must freshly recheck resources and separately resolve vendor mark risk; this report never authorizes writes.'']\<rparr>), w2)))))"

section \<open>The codes\<close>

lemma mem_add_if [simp]: "y \<in> set (add_if c x bs) \<longleftrightarrow> c \<and> y = x \<or> y \<in> set bs"
  by (auto simp: add_if_def)

lemma mem_target_blocks:
  "x \<in> set (target_blocks bypass us bs) \<longleftrightarrow> x \<in> set bs \<or>
     x = ''SYSTEM_UID_SELECTED'' \<and> (\<exists>u \<in> set us. u < 10000) \<or>
     x = ''TARGET_BYPASS_OVERLAP'' \<and> (\<exists>u \<in> set us. u \<in> set bypass)"
proof (induction us arbitrary: bs)
  case (Cons u us)
  have eq: "target_blocks bypass (u # us) bs = target_blocks bypass us
      (add_if (u \<in> set bypass) ''TARGET_BYPASS_OVERLAP'' (add_if (u < 10000) ''SYSTEM_UID_SELECTED'' bs))"
    by (simp add: target_blocks_def)
  show ?case unfolding eq Cons.IH mem_add_if list.set bex_simps by blast
qed (simp add: target_blocks_def)

lemma lookup_keeps: "x \<in> set bs \<Longrightarrow> x \<in> set (lookup_blocks v al f bs i)"
  by (simp add: lookup_blocks_def Let_def split: option.split)

lemma rule_line_keeps: "x \<in> set bs \<Longrightarrow> x \<in> set (rule_line_blocks v al bs line)"
  by (cases "parse_uint 10 32 (trim_suffix (hd (str_fields line)) '':'')")
     (simp_all add: rule_line_blocks_def Let_def foldl_keeps [where P = "\<lambda>b. x \<in> set b"] lookup_keeps)

lemma evidence_keeps:
  "x \<in> set (fst acc) \<Longrightarrow> x \<in> set (fst (evidence_blocks v al ev acc name))"
  by (cases acc; cases "ev name")
     (simp_all add: evidence_blocks_def Let_def foldl_keeps [where P = "\<lambda>b. x \<in> set b"] rule_line_keeps)

lemma evaluate_keeps:
  assumes "x \<in> set (policy_blocks c uid ports)"
  shows "x \<in> set (pr_blocks (evaluate_preflight c v uid ev al na ports))"
proof -
  have "x \<in> set (fst (foldl (evidence_blocks v al ev) (policy_blocks c uid ports, []) evidence_names))"
    by (rule foldl_keeps [where P = "\<lambda>b. x \<in> set (fst b)"]) (simp_all add: evidence_keeps assms)
  then show ?thesis by (simp add: evaluate_preflight_def Let_def split_beta)
qed

lemma list_ex_eq: "list_ex (\<lambda>y. y = x) xs \<longleftrightarrow> x \<in> set xs"
  by (induction xs) auto

text \<open>Which of the policy codes are present, and why.\<close>

lemma mem_policy_blocks:
  "x \<in> set (policy_blocks c uid ports) \<longleftrightarrow>
     x \<in> set mandatory_blocks \<or>
     x = ''DAEMON_UID_BYPASS_MISSING'' \<and> \<not> daemon_bypass c uid \<or>
     x = ''LIVE_POC_REQUIRES_FINITE_UID_ALLOWLIST'' \<and> po_mode (cf_policy c) \<noteq> ''uid_allowlist'' \<or>
     x = ''SYSTEM_UID_SELECTED'' \<and> (\<exists>u \<in> set (po_uids (cf_policy c)). u < 10000) \<or>
     x = ''TARGET_BYPASS_OVERLAP'' \<and> (\<exists>u \<in> set (po_uids (cf_policy c)). u \<in> set (po_bypass_uids (cf_policy c))) \<or>
     x = ''NO_TARGET_UIDS'' \<and> dedup {} (po_uids (cf_policy c)) = [] \<or>
     x = ''LIVE_POC_UID_LIMIT_EXCEEDED'' \<and> length (dedup {} (po_uids (cf_policy c))) > 32 \<or>
     x = ''LIVE_IPV6_DATA_PATH_NOT_VALIDATED'' \<and> cf_ipv6 c \<or>
     x = ''LISTENER_PORT_IN_USE'' \<and> word_of_int (ep_port (cf_listener c)) \<in> set ports"
  unfolding policy_blocks_def Let_def mem_add_if mem_target_blocks set_dedup list_ex_eq Diff_empty
  by satx

lemma dedup_eq_Nil: "dedup {} xs = [] \<longleftrightarrow> xs = []"
  using set_dedup [of "{}" xs] by (metis Diff_empty set_empty)

definition policy_clean :: "config \<Rightarrow> int \<Rightarrow> u16 list \<Rightarrow> bool" where
  "policy_clean c uid ports \<longleftrightarrow>
     daemon_bypass c uid \<and> po_mode (cf_policy c) = ''uid_allowlist'' \<and> po_uids (cf_policy c) \<noteq> [] \<and>
     length (dedup {} (po_uids (cf_policy c))) \<le> 32 \<and> \<not> cf_ipv6 c \<and>
     list_all (\<lambda>u. 10000 \<le> u \<and> u \<notin> set (po_bypass_uids (cf_policy c))) (po_uids (cf_policy c)) \<and>
     word_of_int (ep_port (cf_listener c)) \<notin> set ports"

lemma mandatory_plain:
  "''DAEMON_UID_BYPASS_MISSING'' \<notin> set mandatory_blocks" "''LIVE_POC_REQUIRES_FINITE_UID_ALLOWLIST'' \<notin> set mandatory_blocks"
  "''SYSTEM_UID_SELECTED'' \<notin> set mandatory_blocks" "''TARGET_BYPASS_OVERLAP'' \<notin> set mandatory_blocks"
  "''NO_TARGET_UIDS'' \<notin> set mandatory_blocks" "''LIVE_POC_UID_LIMIT_EXCEEDED'' \<notin> set mandatory_blocks"
  "''LIVE_IPV6_DATA_PATH_NOT_VALIDATED'' \<notin> set mandatory_blocks" "''LISTENER_PORT_IN_USE'' \<notin> set mandatory_blocks"
  by (simp_all add: mandatory_blocks_def)

lemma policy_blocks_only_mandatory:
  "set (policy_blocks c uid ports) = set mandatory_blocks \<longleftrightarrow> policy_clean c uid ports"
proof
  assume eq: "set (policy_blocks c uid ports) = set mandatory_blocks"
  have no: "x \<notin> set mandatory_blocks \<Longrightarrow> x \<notin> set (policy_blocks c uid ports)" for x using eq by simp
  show "policy_clean c uid ports"
    unfolding policy_clean_def list_all_iff
    using mandatory_plain [THEN no, unfolded mem_policy_blocks]
    by (simp add: dedup_eq_Nil not_less)
next
  assume "policy_clean c uid ports"
  then show "set (policy_blocks c uid ports) = set mandatory_blocks"
    unfolding policy_clean_def list_all_iff set_eq_iff mem_policy_blocks
    by (auto simp: dedup_eq_Nil not_less)
qed

text \<open>The driver only ever adds codes after the evaluation.\<close>

lemma probe_keeps: "x \<in> set (pr_blocks r) \<Longrightarrow> x \<in> set (pr_blocks (probe_upstream c d1 d2 wanted r))"
  by (auto simp: probe_upstream_def split: sum.splits option.splits)

lemma capability_keeps: "x \<in> set bs \<Longrightarrow> x \<in> set (fst (capability_blocks ca (bs, ws)))"
  by (simp add: capability_blocks_def Let_def foldl_keeps [where P = "\<lambda>b. x \<in> set b"])

lemma probe_fixed:
  "pr_automatic (probe_upstream c d1 d2 wanted r) = pr_automatic r"
  "pr_status (probe_upstream c d1 d2 wanted r) = pr_status r"
  "pr_read_only (probe_upstream c d1 d2 wanted r) = pr_read_only r"
  by (auto simp: probe_upstream_def split: sum.splits option.splits)

lemma evaluate_fixed:
  "pr_automatic (evaluate_preflight c v uid ev al na ports) = False"
  "pr_status (evaluate_preflight c v uid ev al na ports) = ''blocked''"
  "pr_read_only (evaluate_preflight c v uid ev al na ports) = True"
  by (simp_all add: evaluate_preflight_def Let_def split_beta)

lemma preflight_report_cases:
  assumes "preflight sha run I c v probe w = (Inr r, w')"
  shows "valid_options v \<and> (\<exists>c1. validate_config c = Inr c1) \<and> pr_status r = ''blocked'' \<and> \<not> pr_automatic r \<and>
    pr_read_only r \<and> set mandatory_blocks \<subseteq> set (pr_blocks r)"
proof -
  have v: "valid_options v" using assms by (auto simp: preflight_def split: if_splits)
  obtain c1 where c: "validate_config c = Inr c1" using assms v by (auto simp: preflight_def split: sum.splits)
  have mand: "x \<in> set mandatory_blocks \<Longrightarrow> x \<in> set (policy_blocks c1 u ports)" for x u ports
    by (simp add: mem_policy_blocks)
  show ?thesis
    using assms v c mand
    by (auto simp: preflight_def Let_def split_beta evaluate_fixed probe_fixed evaluate_keeps
        intro!: probe_keeps capability_keeps split: sum.splits)
qed

lemma preflight_reports:
  assumes "valid_options v" "validate_config c = Inr c1"
  shows "\<exists>r w'. preflight sha run I c v probe w = (Inr r, w')"
  using assms by (auto simp: preflight_def Let_def split_beta)

end
