(* ===== verification/Address.thy ===== *)
theory Address
  imports Socks5 Journal
begin

text \<open>
  \<open>net.IP.String\<close> on the bytes of an address, and what the parsers of package \<open>net\<close> read back from it.
\<close>

section \<open>Text of an IPv6 address\<close>

definition word16_of :: "u8 \<Rightarrow> u8 \<Rightarrow> u16" where
  "word16_of a b = word_of_nat (unat a * 256 + unat b)"

fun groups_of :: "u8 list \<Rightarrow> u16 list" where
  "groups_of (a # b # bs) = word16_of a b # groups_of bs"
| "groups_of _ = []"

text \<open>The first longest run of at least two zero groups, as start and length.\<close>

fun zero_run :: "u16 list \<Rightarrow> nat" where
  "zero_run [] = 0"
| "zero_run (g # gs) = (if g = 0 then Suc (zero_run gs) else 0)"

fun longest_run :: "u16 list \<Rightarrow> nat \<times> nat" where
  "longest_run [] = (0, 0)"
| "longest_run (g # gs) =
     (case longest_run gs of
        (j, m) \<Rightarrow>
          if zero_run (g # gs) \<ge> m \<and> zero_run (g # gs) \<ge> 2 then (0, zero_run (g # gs)) else (Suc j, m))"

fun htoa :: "nat \<Rightarrow> string" where
  "htoa n = (if n < 16 then [digit_char n] else htoa (n div 16) @ [digit_char (n mod 16)])"

declare htoa.simps [simp del]

definition groups_text :: "u16 list \<Rightarrow> string" where
  "groups_text gs = join '':'' (map (\<lambda>g. htoa (unat g)) gs)"

definition ip6_text :: "u16 list \<Rightarrow> string" where
  "ip6_text gs =
     (case longest_run gs of
        (start, len) \<Rightarrow>
          if len = 0 then groups_text gs
          else groups_text (take start gs) @ ''::'' @ groups_text (drop (start + len) gs))"

text \<open>\<open>IP.String\<close>: dotted for four bytes and for the IPv4-mapped form.\<close>

definition ip_text :: "u8 list \<Rightarrow> string" where
  "ip_text bs =
     (let v4 = (\<lambda>cs. join ''.'' (map (\<lambda>b. utoa (unat b)) cs))
      in if length bs = 4 then v4 bs
         else if length bs = 16 then
           (if take 12 bs = replicate 10 0 @ [0xFF, 0xFF] then v4 (drop 12 bs) else ip6_text (groups_of bs))
         else if bs = [] then ''<nil>'' else ''?'' @ hex_encode bs)"

text \<open>The bytes of a network: everything after the prefix is cleared.\<close>

definition mask_bytes :: "nat \<Rightarrow> u8 list \<Rightarrow> u8 list" where
  "mask_bytes bits bs =
     map (\<lambda>(i, b). if 8 * (i + 1) \<le> bits then b
                   else if bits \<le> 8 * i then 0
                   else push_bit (8 - (bits - 8 * i)) (drop_bit (8 - (bits - 8 * i)) b))
       (zip [0 ..< length bs] bs)"

section \<open>Reading it back\<close>

lemma is_hex_digit: "d < 16 \<Longrightarrow> is_hex (digit_char d) \<and> digit_value (digit_char d) = Some d"
  by (simp add: is_hex_def)

lemma htoa_hex: "list_all is_hex (htoa n) \<and> htoa n \<noteq> []"
proof (induction n rule: htoa.induct)
  case (1 n)
  then show ?case by (subst (1 2) htoa.simps) (auto simp: is_hex_digit)
qed

lemma digits_value_htoa: "digits_value 16 0 (htoa n) = Some n"
proof (induction n rule: htoa.induct)
  case (1 n)
  then show ?case by (subst htoa.simps) (auto simp: is_hex_digit digits_value_append)
qed

lemma length_htoa: "n < 16 ^ k \<Longrightarrow> 0 < k \<Longrightarrow> length (htoa n) \<le> k"
proof (induction k arbitrary: n)
  case (Suc k)
  show ?case
  proof (cases "n < 16")
    case True
    then show ?thesis by (subst htoa.simps) simp
  next
    case False
    then have "k \<noteq> 0" using Suc.prems by (cases k) auto
    moreover have "n div 16 < 16 ^ k" using Suc.prems by (simp add: less_mult_imp_div_less mult.commute)
    ultimately have "length (htoa (n div 16)) \<le> k" using Suc.IH by simp
    then show ?thesis using False by (subst htoa.simps) simp
  qed
qed simp

lemma htoa_group: "length (htoa (unat (g :: u16))) \<le> 4"
proof -
  have "unat g < 2 ^ LENGTH(16)" by (rule unsigned_less)
  then show ?thesis by (intro length_htoa) simp_all
qed

lemma is_hex_plain: "is_hex c \<Longrightarrow> c \<noteq> CHR '':'' \<and> c \<noteq> CHR ''.'' \<and> c \<noteq> CHR 0x25 \<and> c \<noteq> CHR 0x5B \<and> c \<noteq> CHR 0x5D"
  by (auto simp: is_hex_def digit_value_def split: if_splits)

lemma htoa_head: "\<exists>c t. htoa n = c # t \<and> is_hex c"
  using htoa_hex [of n] by (cases "htoa n") auto

lemma takeWhile_htoa: "s = [] \<or> \<not> is_hex (hd s) \<Longrightarrow> takeWhile is_hex (htoa n @ s) = htoa n"
  using htoa_hex [of n] by (cases s) (auto simp: list_all_iff takeWhile_append)

lemma groups_text_simps [simp]:
  "groups_text [] = []"
  "groups_text [g] = htoa (unat g)"
  "groups_text (g # h # gs) = htoa (unat g) @ '':'' @ groups_text (h # gs)"
  by (simp_all add: groups_text_def)

lemma groups_text_head: "gs \<noteq> [] \<Longrightarrow> \<exists>c t. groups_text gs = c # t \<and> is_hex c"
proof (induction gs rule: induct_list012)
  case (3 g h gs)
  then show ?case using htoa_head [of "unat g"] by auto
qed (use htoa_head in auto)

declare ip6_groups.simps [simp del]

text \<open>The group loop on a printed tail, and on a printed head that ends at \<open>::\<close>.\<close>

lemma ip6_groups_step:
  assumes "length acc < 8" and hex: "takeWhile is_hex s = h" "drop (length h) s = rest"
    and h: "h \<noteq> []" "length h \<le> 4" "digits_value 16 0 h = Some n" and dot: "rest = [] \<or> hd rest \<noteq> CHR ''.''"
  shows "ip6_groups acc ell s =
    (if rest = [] then Some (acc @ [word_of_nat n], ell, [])
     else if hd rest \<noteq> CHR '':'' \<or> length rest = 1 then None
     else if hd (tl rest) = CHR '':'' then
       (if ell \<noteq> None then None
        else if length rest = 2 then Some (acc @ [word_of_nat n], Some (Suc (length acc)), [])
        else ip6_groups (acc @ [word_of_nat n]) (Some (Suc (length acc))) (drop 2 rest))
     else ip6_groups (acc @ [word_of_nat n]) ell (tl rest))"
  using assms(1) h dot by (subst ip6_groups.simps) (auto simp: Let_def hex)

lemma ip6_groups_htoa:
  assumes "length acc < 8" and "s = [] \<or> hd s = CHR '':''"
  shows "ip6_groups acc ell (htoa (unat g) @ s) =
    (if s = [] then Some (acc @ [g], ell, [])
     else if length s = 1 then None
     else if hd (tl s) = CHR '':'' then
       (if ell \<noteq> None then None
        else if length s = 2 then Some (acc @ [g], Some (Suc (length acc)), [])
        else ip6_groups (acc @ [g]) (Some (Suc (length acc))) (drop 2 s))
     else ip6_groups (acc @ [g]) ell (tl s))"
proof -
  have "\<not> is_hex (CHR '':'')" by code_simp
  then have "takeWhile is_hex (htoa (unat g) @ s) = htoa (unat g)" using assms(2) by (intro takeWhile_htoa) auto
  from ip6_groups_step [OF assms(1) this, of s "unat g" ell] show ?thesis
    using assms(2) htoa_group [of g] htoa_hex [of "unat g"] digits_value_htoa [of "unat g"] by auto
qed

lemma ip6_groups_last: "length acc < 8 \<Longrightarrow> ip6_groups acc ell (htoa (unat g)) = Some (acc @ [g], ell, [])"
  using ip6_groups_htoa [of acc "[]" ell g] by simp

lemma ip6_groups_more:
  assumes "length acc < 8" and "s \<noteq> []" "hd s \<noteq> CHR '':''"
  shows "ip6_groups acc ell (htoa (unat g) @ CHR '':'' # s) = ip6_groups (acc @ [g]) ell s"
  using ip6_groups_htoa [of acc "CHR '':'' # s" ell g] assms by simp

lemma ip6_groups_gap:
  assumes "length acc < 8"
  shows "ip6_groups acc None (htoa (unat g) @ CHR '':'' # CHR '':'' # s) =
    (if s = [] then Some (acc @ [g], Some (Suc (length acc)), [])
     else ip6_groups (acc @ [g]) (Some (Suc (length acc))) s)"
  using ip6_groups_htoa [of acc "CHR '':'' # CHR '':'' # s" None g] assms by simp

lemma ip6_groups_text:
  "gs \<noteq> [] \<Longrightarrow> length acc + length gs \<le> 8 \<Longrightarrow>
     ip6_groups acc ell (groups_text gs) = Some (acc @ gs, ell, [])"
proof (induction gs arbitrary: acc rule: induct_list012)
  case (3 g h gs)
  obtain c t where "groups_text (h # gs) = c # t" "is_hex c" using groups_text_head by blast
  then show ?case
    using 3 ip6_groups_more [of acc "groups_text (h # gs)" ell g] is_hex_plain [of c] by simp
qed (use ip6_groups_last in auto)

lemma ip6_groups_head:
  "gs \<noteq> [] \<Longrightarrow> length acc + length gs + length hs \<le> 8 \<Longrightarrow>
     ip6_groups acc None (groups_text gs @ ''::'' @ groups_text hs) =
       Some (acc @ gs @ hs, Some (length acc + length gs), [])"
proof (induction gs arbitrary: acc rule: induct_list012)
  case (2 g)
  then show ?case
    using ip6_groups_gap [of acc g "groups_text hs"] ip6_groups_text [of hs "acc @ [g]" "Some (Suc (length acc))"]
      groups_text_head [of hs]
    by (cases hs) auto
next
  case (3 g h gs)
  obtain c t where "groups_text (h # gs) = c # t" "is_hex c" using groups_text_head by blast
  then show ?case
    using 3 ip6_groups_more [of acc "groups_text (h # gs) @ ''::'' @ groups_text hs" None g] is_hex_plain [of c] by simp
qed simp

lemma zero_run_le: "zero_run gs \<le> length gs"
  by (induction gs) auto

lemma zero_run_replicate: "take (zero_run gs) gs = replicate (zero_run gs) 0"
  by (induction gs) auto

lemma longest_run_zeros:
  "longest_run gs = (j, m) \<Longrightarrow> j + m \<le> length gs \<and> take m (drop j gs) = replicate m 0 \<and> (m = 0 \<or> 2 \<le> m)"
proof (induction gs arbitrary: j m)
  case (Cons g gs)
  obtain j' m' where r: "longest_run gs = (j', m')" by fastforce
  show ?case
    using Cons.prems Cons.IH [OF r] r zero_run_le [of "g # gs"] zero_run_replicate [of "g # gs"]
    by (auto split: if_splits simp del: zero_run.simps)
qed simp

lemma run_split: "take m (drop j gs) = replicate m 0 \<Longrightarrow> take j gs @ replicate m 0 @ drop (j + m) gs = gs"
  by (metis append_take_drop_id drop_drop add.commute)

lemma parse_ip6_gap:
  assumes "s \<noteq> ''::''"
    and "ip6_groups [] (if has_prefix s ''::'' then Some 0 else None) (if has_prefix s ''::'' then drop 2 s else s) =
      Some (xs @ ys, Some (length xs), [])"
    and "length xs + length ys < 8" and "xs @ replicate (8 - (length xs + length ys)) 0 @ ys = gs"
  shows "parse_ip6 s = Some (Ip6 gs [])"
  unfolding parse_ip6_def Let_def if_not_P [OF assms(1)] assms(2) using assms(3) assms(4) by simp

text \<open>Eight groups are read back from their text.\<close>

lemma parse_ip6_text:
  assumes "length gs = 8"
  shows "parse_ip6 (ip6_text gs) = Some (Ip6 gs [])"
proof -
  obtain j m where run: "longest_run gs = (j, m)" by fastforce
  note z = longest_run_zeros [OF run]
  let ?x = "take j gs" and ?y = "drop (j + m) gs"
  have gs: "?x @ replicate m 0 @ ?y = gs" using z run_split by blast
  have len: "length ?x = j" "length ?y = 8 - (j + m)" using z assms by simp_all
  have head: "\<not> has_prefix (groups_text hs @ s) ''::''" "groups_text hs @ s \<noteq> ''::''" if "hs \<noteq> []" for hs s
    using groups_text_head [OF that] is_hex_plain by (auto simp: has_prefix_def)
  show ?thesis
  proof (cases "m = 0")
    case True
    have "gs \<noteq> []" using assms by auto
    then show ?thesis
      using True run assms head [of gs "[]"] ip6_groups_text [of gs "[]" None]
      by (simp add: ip6_text_def parse_ip6_def Let_def)
  next
    case False
    let ?t = "groups_text ?x @ ''::'' @ groups_text ?y"
    have t: "ip6_text gs = ?t" using run False by (simp add: ip6_text_def)
    have jm: "j + m \<le> 8" "2 \<le> m" using z False assms by auto
    have m8: "8 - (length ?x + length ?y) = m" unfolding len using jm by arith
    have fill: "length ?x + length ?y < 8" "?x @ replicate (8 - (length ?x + length ?y)) 0 @ ?y = gs"
      unfolding m8 gs unfolding len using jm by arith+
    consider "?x = []" "?y = []" | "?x = []" "?y \<noteq> []" | "?x \<noteq> []" by blast
    then show ?thesis
    proof cases
      case 1
      have m: "replicate m 0 = gs" using gs unfolding 1 by simp
      then have "m = 8" using assms by (metis length_replicate)
      then have "gs = replicate 8 0" using m by simp
      then show ?thesis using t 1 by (simp add: parse_ip6_def)
    next
      case 2
      have ne: "groups_text ?y \<noteq> []" using groups_text_head [OF 2(2)] by auto
      have read: "ip6_groups [] (Some 0) (groups_text ?y) = Some (?x @ ?y, Some (length ?x), [])"
        using ip6_groups_text [OF 2(2), of "[]" "Some 0"] len 2(1) by simp
      have lead: "has_prefix (''::'' @ u) ''::''" "drop 2 (''::'' @ u) = u" for u by (simp_all add: has_prefix_def)
      have te: "?t = ''::'' @ groups_text ?y" unfolding 2(1) by simp
      show ?thesis
        unfolding t te
      proof (rule parse_ip6_gap [OF _ _ fill])
        show "''::'' @ groups_text ?y \<noteq> ''::''" using ne by simp
        show "ip6_groups [] (if has_prefix (''::'' @ groups_text ?y) ''::'' then Some 0 else None)
            (if has_prefix (''::'' @ groups_text ?y) ''::'' then drop 2 (''::'' @ groups_text ?y) else ''::'' @ groups_text ?y) =
          Some (?x @ ?y, Some (length ?x), [])"
          unfolding if_P [OF lead(1)] lead(2) by (rule read)
      qed
    next
      case 3
      have "ip6_groups [] None ?t = Some (?x @ ?y, Some (length ?x), [])"
      proof -
        have "length ([] :: u16 list) + length ?x + length ?y \<le> 8" unfolding len using jm by simp
        from ip6_groups_head [OF 3 this] show ?thesis by simp
      qed
      then show ?thesis
        unfolding t using head [OF 3, of "''::'' @ groups_text ?y"] by (intro parse_ip6_gap [OF _ _ fill]) simp_all
    qed
  qed
qed

section \<open>Addresses and their bytes\<close>

lemma groups_text_chars: "c \<in> set (groups_text gs) \<Longrightarrow> c = CHR '':'' \<or> is_hex c"
proof (induction gs rule: induct_list012)
  case (2 g)
  then show ?case using htoa_hex [of "unat g"] by (auto simp: list_all_iff)
next
  case (3 g h gs)
  then show ?case using htoa_hex [of "unat g"] by (auto simp: list_all_iff)
qed simp

lemma groups_text_colon: "2 \<le> length gs \<Longrightarrow> CHR '':'' \<in> set (groups_text gs)"
  by (cases gs rule: remdups_adj.cases) auto

lemma ip6_text_chars: "c \<in> set (ip6_text gs) \<Longrightarrow> c = CHR '':'' \<or> is_hex c"
  using groups_text_chars by (auto simp: ip6_text_def split: prod.splits if_splits)

lemma ip6_text_colon: "length gs = 8 \<Longrightarrow> CHR '':'' \<in> set (ip6_text gs)"
  using groups_text_colon [of gs] by (cases "longest_run gs") (simp add: ip6_text_def)

lemma find_colon:
  "CHR '':'' \<in> set s \<Longrightarrow> \<forall>c \<in> set s. c \<noteq> CHR ''.'' \<and> c \<noteq> CHR 0x25 \<Longrightarrow>
     find (\<lambda>c. c = CHR ''.'' \<or> c = CHR '':'' \<or> c = CHR 0x25) s = Some (CHR '':'')"
  by (induction s) auto

lemma parse_ip_text6:
  assumes "length gs = 8"
  shows "parse_ip (ip6_text gs) = Some (Ip6 gs [])"
proof -
  have plain: "\<forall>c \<in> set (ip6_text gs). c \<noteq> CHR ''.'' \<and> c \<noteq> CHR 0x25"
    using ip6_text_chars [of _ gs] is_hex_plain by blast
  then have "CHR 0x25 \<notin> set (ip6_text gs)" by blast
  then show ?thesis
    using find_colon [OF ip6_text_colon [OF assms] plain] parse_ip6_text [OF assms] by (simp add: parse_ip_def)
qed

lemma word16_bytes:
  "(word_of_nat (unat (word16_of a b) div 256) :: u8) = a" "(word_of_nat (unat (word16_of a b) mod 256) :: u8) = b"
proof -
  have ab: "unat a < 256" "unat b < 256" using unsigned_less [of a] unsigned_less [of b] by simp_all
  have "unat (word16_of a b) = (unat a * 256 + unat b) mod 2 ^ LENGTH(16)"
    unfolding word16_of_def by (rule unat_of_nat)
  then have "unat (word16_of a b) = unat a * 256 + unat b" using ab by simp
  then show "(word_of_nat (unat (word16_of a b) div 256) :: u8) = a" "(word_of_nat (unat (word16_of a b) mod 256) :: u8) = b"
    using ab by simp_all
qed

lemma groups_of_bytes:
  "even (length bs) \<Longrightarrow> length (groups_of bs) = length bs div 2 \<and>
     concat (map (\<lambda>g. [word_of_nat (unat g div 256), word_of_nat (unat g mod 256)]) (groups_of bs)) = bs"
  by (induction bs rule: groups_of.induct) (auto simp: word16_bytes)

lemma ip_bytes_groups: "length bs = 16 \<Longrightarrow> ip_bytes (Ip6 (groups_of bs) z) = bs"
  using groups_of_bytes [of bs] by simp

text \<open>The IPv4-mapped form by groups and by bytes.\<close>

lemma to4_groups:
  assumes "length bs = 16" and "take 12 bs \<noteq> replicate 10 0 @ [0xFF, 0xFF]"
  shows "to4 (Ip6 (groups_of bs) z) = None"
proof (rule ccontr)
  let ?gs = "groups_of bs" and ?f = "\<lambda>g :: u16. [word_of_nat (unat g div 256), word_of_nat (unat g mod 256)] :: u8 list"
  assume "to4 (Ip6 ?gs z) \<noteq> None"
  then have g: "length ?gs = 8" "take 5 ?gs = replicate 5 0" "?gs ! 5 = 0xFFFF"
    by (auto split: if_splits)
  have "?gs = take 5 ?gs @ ?gs ! 5 # drop (Suc 5) ?gs" by (rule id_take_nth_drop) (simp add: g)
  then have gs: "?gs = replicate 5 0 @ 0xFFFF # drop 6 ?gs" unfolding g by simp
  have "bs = concat (map ?f ?gs)" using groups_of_bytes [of bs] assms(1) by simp
  also have "\<dots> = concat (map ?f (replicate 5 0 @ 0xFFFF # drop 6 ?gs))" using gs by (rule arg_cong)
  also have "\<dots> = concat (replicate 5 (?f 0)) @ ?f 0xFFFF @ concat (map ?f (drop 6 ?gs))"
    by (simp only: map_append map_replicate list.map concat_append concat.simps)
  also have "\<dots> = replicate 10 0 @ [0xFF, 0xFF] @ concat (map ?f (drop 6 ?gs))"
  proof -
    have "concat (replicate 5 (?f 0)) = replicate 10 0" "?f 0xFFFF = [0xFF, 0xFF]" by code_simp+
    then show ?thesis by (simp only: append.assoc)
  qed
  finally have "take 12 bs = take 12 (replicate 10 0 @ [0xFF, 0xFF] @ concat (map ?f (drop 6 ?gs)))" by (rule arg_cong)
  also have "\<dots> = replicate 10 0 @ [0xFF, 0xFF]" by simp
  finally show False using assms(2) by contradiction
qed

lemma utoa_plain: "c \<in> set (utoa n) \<Longrightarrow> c \<noteq> CHR ''.'' \<and> c \<noteq> CHR '':'' \<and> c \<noteq> CHR 0x25 \<and> c \<noteq> CHR 0x5B \<and> c \<noteq> CHR 0x5D"
proof -
  assume "c \<in> set (utoa n)"
  then obtain d where "d < 10" "c = digit_char d" using utoa_digits by blast
  then have "(of_char c :: nat) \<notin> {46, 58, 37, 91, 93}" by (auto simp: of_char_digit_char)
  then show ?thesis by auto
qed

lemma find_dot:
  "\<forall>c \<in> set s. c \<noteq> CHR ''.'' \<and> c \<noteq> CHR '':'' \<and> c \<noteq> CHR 0x25 \<Longrightarrow>
     find (\<lambda>c. c = CHR ''.'' \<or> c = CHR '':'' \<or> c = CHR 0x25) (s @ CHR ''.'' # t) = Some (CHR ''.'')"
  by (induction s) auto

lemma parse_ip_text4:
  "parse_ip (join ''.'' (map (\<lambda>b. utoa (unat b)) [a, b, c, d])) = Some (Ip4 a b c d)"
proof -
  have s: "join ''.'' (map (\<lambda>b. utoa (unat b)) [a, b, c, d]) = addr_string (Ip4 a b c d)" by simp
  have "find (\<lambda>c. c = CHR ''.'' \<or> c = CHR '':'' \<or> c = CHR 0x25) (addr_string (Ip4 a b c d)) = Some (CHR ''.'')"
    using find_dot [of "utoa (unat a)"] utoa_plain [of _ "unat a"] by simp
  then show ?thesis unfolding s parse_ip_def by (simp add: parse_ip4_string del: addr_string.simps)
qed

lemma length_4: "length xs = 4 \<longleftrightarrow> (\<exists>a b c d. xs = [a, b, c, d])"
  by (auto simp: numeral_eq_Suc length_Suc_conv)

text \<open>The SOCKS5 form of a printed address: its type and its bytes.\<close>

lemma host_bytes_text:
  assumes "length bs = 4 \<or> length bs = 16"
  shows "host_bytes (ip_text bs) =
    Inr (if length bs = 4 then 1 # bs
         else if take 12 bs = replicate 10 0 @ [0xFF, 0xFF] then 1 # drop 12 bs else 4 # bs)"
proof (cases "length bs = 4")
  case True
  then obtain a b c d where bs: "bs = [a, b, c, d]" by (auto simp: length_4)
  then have "parse_ip (ip_text bs) = Some (Ip4 a b c d)" using parse_ip_text4 [of a b c d] by (simp add: ip_text_def)
  then show ?thesis using bs by (simp add: host_bytes_def)
next
  case False
  then have n: "length bs = 16" using assms by simp
  show ?thesis
  proof (cases "take 12 bs = replicate 10 0 @ [0xFF, 0xFF]")
    case True
    have "length (drop 12 bs) = 4" using n by simp
    then obtain a b c d where bs: "drop 12 bs = [a, b, c, d]" unfolding length_4 by blast
    have "ip_text bs = join ''.'' (map (\<lambda>b. utoa (unat b)) [a, b, c, d])" using n True bs by (simp add: ip_text_def)
    then have "parse_ip (ip_text bs) = Some (Ip4 a b c d)" using parse_ip_text4 [of a b c d] by simp
    then show ?thesis using n True bs by (simp add: host_bytes_def)
  next
    case False
    have "length (groups_of bs) = 8" using groups_of_bytes [of bs] n by simp
    then have "parse_ip (ip_text bs) = Some (Ip6 (groups_of bs) [])"
      using parse_ip_text6 [of "groups_of bs"] n False by (simp add: ip_text_def)
    then show ?thesis using n False to4_groups [OF n False] ip_bytes_groups [OF n] by (simp add: host_bytes_def)
  qed
qed

section \<open>From an address to the upstream request\<close>

definition mapped_prefix :: "u8 list" where
  "mapped_prefix = replicate 10 0 @ [0xFF, 0xFF]"

lemma ip_text_plain:
  assumes "length bs = 4 \<or> length bs = 16" and "c \<in> set (ip_text bs)"
  shows "c \<noteq> CHR 0x5B \<and> c \<noteq> CHR 0x5D"
proof -
  have v4: "c \<noteq> CHR 0x5B \<and> c \<noteq> CHR 0x5D" if "c \<in> set (join ''.'' (map (\<lambda>b :: u8. utoa (unat b)) cs))" for cs
    using that
  proof (induction cs rule: induct_list012)
    case (2 b)
    then show ?case using utoa_plain [of c "unat b"] by simp
  next
    case (3 b b' cs)
    then show ?case using utoa_plain [of c "unat b"] by auto
  qed simp
  show ?thesis
    using assms v4 ip6_text_chars [of c "groups_of bs"] is_hex_plain [of c]
    by (auto simp: ip_text_def Let_def split: if_splits)
qed

lemma atoi_utoa:
  assumes "int64_range (int n)"
  shows "atoi (utoa n) = Some (int n)"
proof -
  obtain c t where u: "utoa n = c # t" by (cases "utoa n") (auto simp: utoa.simps [of n] split: if_splits)
  then obtain d where "d < 10" "c = digit_char d" using utoa_digits [of c n] by auto
  then have "c \<noteq> CHR ''-''" "c \<noteq> CHR ''+''"
    using of_char_digit_char [of d] by auto
  then show ?thesis using assms digits_value_utoa [of n] by (simp add: atoi_def u)
qed

lemma small_range: "n < 65536 \<Longrightarrow> int64_range (int n)"
  by (simp add: int64_range_def)

text \<open>The request for a printed address and port asks for exactly these.\<close>

lemma connect_request_ip:
  assumes "length bs = 4 \<or> length bs = 16" and n: "0 < n" "n < 65536"
  shows "connect_request (join_host_port (ip_text bs) (utoa n)) =
    Inr ([5, 1, 0] @
      (if length bs = 4 then 1 # bs else if take 12 bs = mapped_prefix then 1 # drop 12 bs else 4 # bs) @
      [byte_of (n div 256), byte_of (n mod 256)])"
proof -
  have "CHR 0x5B \<notin> set (ip_text bs)" "CHR 0x5D \<notin> set (ip_text bs)" using ip_text_plain [OF assms(1)] by blast+
  moreover have "CHR '':'' \<notin> set (utoa n)" "CHR 0x5B \<notin> set (utoa n)" "CHR 0x5D \<notin> set (utoa n)" using utoa_plain by blast+
  ultimately have "split_host_port (join_host_port (ip_text bs) (utoa n)) = Some (ip_text bs, utoa n)"
    by (intro split_join_host_port) simp_all
  moreover have "atoi (utoa n) = Some (int n)" using n by (intro atoi_utoa small_range)
  ultimately show ?thesis
    using n host_bytes_text [OF assms(1)] by (simp add: connect_request_def mapped_prefix_def)
qed

end
