(* ===== verification/Probe.thy ===== *)
theory Probe
  imports Preflight Address
begin

text \<open>
  The read-only capability probe and the transparent listener:
  \<open>probe_linux.go\<close> and \<open>listener_linux.go\<close> of \<open>ebpf-proxy/internal/tproxy\<close>. What commands, files and
  sockets answer are arguments.
\<close>

section \<open>Queries\<close>

text \<open>How a started command ended; the text of an error that is not an exit status is given with it.\<close>

datatype run_end = RunOk | RunExit int string | RunError string

record finished_run =
  fr_output :: string
  fr_stderr :: string
  fr_end :: run_end
  fr_context :: "string option"

definition run_text :: "run_end \<Rightarrow> string" where
  "run_text e = (case e of RunOk \<Rightarrow> [] | RunExit _ s \<Rightarrow> s | RunError s \<Rightarrow> s)"

definition query_result :: "argv \<Rightarrow> finished_run \<Rightarrow> cmd_result" where
  "query_result args f =
     (let r = \<lparr>res_command = args, res_exit = 0, res_output = trim_space (fr_output f),
               res_error = trim_space (fr_stderr f), res_sha256 = []\<rparr>
      in if fr_end f = RunOk then r
         else
           let msg = (if res_error r = [] then run_text (fr_end f) else res_error r)
           in r\<lparr>res_exit := (case fr_end f of RunExit c _ \<Rightarrow> c | _ \<Rightarrow> -1),
                res_error := (case fr_context f of None \<Rightarrow> msg | Some e \<Rightarrow> msg @ '': '' @ e)\<rparr>)"

text \<open>The socket, the setting and the reading back of the option; the last with the value read.\<close>

definition option_supported :: string where
  "option_supported = ''supported: setsockopt=1, getsockopt=1; socket closed without binding''"

definition transparent_option :: "string option \<Rightarrow> string option \<Rightarrow> string + int \<Rightarrow> cmd_result" where
  "transparent_option opened set_opt get_opt =
     (let failed = (\<lambda>e. \<lparr>res_command = [], res_exit = -1, res_output = [],
            res_error = ''setsockopt/getsockopt: '' @ e, res_sha256 = []\<rparr>)
      in case opened of Some e \<Rightarrow> failed e | None \<Rightarrow>
         (case set_opt of Some e \<Rightarrow> failed e | None \<Rightarrow>
          (case get_opt of
             Inl e \<Rightarrow> failed e
           | Inr v \<Rightarrow>
               if v \<noteq> 1 then failed (''getsockopt returned '' @ itoa v)
               else \<lparr>res_command = [], res_exit = 0, res_output = option_supported, res_error = [], res_sha256 = []\<rparr>)))"

section \<open>The kernel configuration\<close>

definition config_keys :: "string list" where
  "config_keys =
     [''NETFILTER'', ''NETFILTER_XTABLES'', ''NETFILTER_XT_MARK'', ''NETFILTER_XT_MATCH_MARK'',
      ''NETFILTER_XT_MATCH_OWNER'', ''NETFILTER_XT_MATCH_SOCKET'', ''NETFILTER_XT_TARGET_MARK'',
      ''NETFILTER_XT_TARGET_TPROXY'', ''IP_ADVANCED_ROUTER'', ''IP_MULTIPLE_TABLES'', ''IPV6'',
      ''IPV6_MULTIPLE_TABLES'', ''NF_TABLES'', ''NFT_TPROXY'', ''NFT_SOCKET'', ''NFT_MARK'', ''NF_TPROXY_IPV4'',
      ''NF_TPROXY_IPV6'', ''IP_NF_MANGLE'', ''IP6_NF_MANGLE'']"

definition config_line :: "string list \<Rightarrow> string \<Rightarrow> string" where
  "config_line ls key =
     (case find (\<lambda>l. has_prefix l (''CONFIG_'' @ key @ ''='') \<or> l = ''# CONFIG_'' @ key @ '' is not set'') ls of
        Some l \<Rightarrow> l
      | None \<Rightarrow> ''CONFIG_'' @ key @ '': not present (not evidence of absence if config is unavailable)'')"

text \<open>The file, decompressed and cut at 4 MiB by the reader, or the error of a step.\<close>

definition kernel_config :: "(string \<Rightarrow> string) \<Rightarrow> string + string \<Rightarrow> cmd_result" where
  "kernel_config sha file =
     (case file of
        Inl e \<Rightarrow> \<lparr>res_command = [], res_exit = -1, res_output = [], res_error = e, res_sha256 = []\<rparr>
      | Inr b \<Rightarrow>
          \<lparr>res_command = [], res_exit = 0,
           res_output = join [CHR 0x0A] (map (config_line (split_on (CHR 0x0A) b)) config_keys),
           res_error = [], res_sha256 = sha b\<rparr>)"

section \<open>The probe\<close>

text \<open>The queries in the order of their names.\<close>

definition probe_commands :: "(string \<times> argv) list" where
  "probe_commands =
     [(''MARK'', [''iptables'', ''-j'', ''MARK'', ''-h'']),
      (''android'', [''getprop'', ''ro.build.version.release'']),
      (''firewall4'', [''iptables-save'']),
      (''firewall6'', [''ip6tables-save'']),
      (''identity'', [''id'']),
      (''ip6tables'', [''ip6tables'', ''--version'']),
      (''iptables'', [''iptables'', ''--version'']),
      (''kernel'', [''uname'', ''-a'']),
      (''mark'', [''iptables'', ''-m'', ''mark'', ''-h'']),
      (''nft'', [''nft'', ''--version'']),
      (''nft_ruleset'', [''nft'', ''list'', ''ruleset'']),
      (''owner'', [''iptables'', ''-m'', ''owner'', ''-h'']),
      (''routes4'', [''ip'', ''route'', ''show'', ''table'', ''all'']),
      (''routes6'', [''ip'', ''-6'', ''route'', ''show'', ''table'', ''all'']),
      (''rules4'', [''ip'', ''rule'', ''show'']),
      (''rules6'', [''ip'', ''-6'', ''rule'', ''show'']),
      (''sdk'', [''getprop'', ''ro.build.version.sdk'']),
      (''selinux'', [''getenforce'']),
      (''socket'', [''iptables'', ''-m'', ''socket'', ''-h'']),
      (''tproxy4'', [''iptables'', ''-j'', ''TPROXY'', ''-h'']),
      (''tproxy6'', [''ip6tables'', ''-j'', ''TPROXY'', ''-h'']),
      (''xtables_wait'', [''iptables'', ''-w'', ''2'', ''-t'', ''mangle'', ''-S''])]"

text \<open>The text after the last empty line.\<close>

fun last_paragraph :: "string \<Rightarrow> string option" where
  "last_paragraph [] = None"
| "last_paragraph (c # s) =
     (case last_paragraph s of
        Some p \<Rightarrow> Some p
      | None \<Rightarrow> if c = CHR 0x0A \<and> s \<noteq> [] \<and> hd s = CHR 0x0A then Some (tl s) else None)"

definition marked_sources :: "string list" where
  "marked_sources = [''firewall4'', ''firewall6'', ''rules4'', ''rules6'', ''nft_ruleset'']"

definition hidden_output :: "string \<Rightarrow> bool" where
  "hidden_output name \<longleftrightarrow> has_prefix name ''firewall'' \<or> name = ''nft_ruleset'' \<or> name = ''xtables_wait''"

definition trim_help :: "argv \<Rightarrow> cmd_result \<Rightarrow> cmd_result" where
  "trim_help args v =
     (if last args = ''-h'' \<and> res_exit v = 0
      then (case last_paragraph (res_output v) of None \<Rightarrow> v | Some p \<Rightarrow> v\<lparr>res_output := p\<rparr>) else v)"

text \<open>One query: the marks found in it and the check that is recorded, firewall dumps replaced by their hash.\<close>

definition probe_check :: "(string \<Rightarrow> string) \<Rightarrow> string \<Rightarrow> argv \<Rightarrow> cmd_result \<Rightarrow> mark_use list \<times> cmd_result" where
  "probe_check sha name args v0 =
     (let v = trim_help args v0
      in (if name \<in> set marked_sources then mark_uses name (res_output v) else [],
          if hidden_output name
          then v\<lparr>res_sha256 := sha (res_output v),
                 res_output := ''captured '' @ utoa (length (res_output v)) @ '' bytes; full firewall omitted''\<rparr>
          else v))"

definition probe_paths :: "string list" where
  "probe_paths =
     [''/proc/net/ip_tables_targets'', ''/proc/net/ip_tables_matches'', ''/proc/net/ip6_tables_targets'',
      ''/proc/sys/net/ipv4/conf/all/rp_filter'', ''/proc/sys/net/ipv4/conf/lo/rp_filter'',
      ''/proc/sys/net/ipv4/conf/all/route_localnet'', ''/proc/sys/net/ipv4/conf/lo/route_localnet'']"

definition path_check :: "string + string \<Rightarrow> cmd_result" where
  "path_check b =
     (case b of
        Inl e \<Rightarrow> \<lparr>res_command = [], res_exit = -1, res_output = [], res_error = e, res_sha256 = []\<rparr>
      | Inr s \<Rightarrow> \<lparr>res_command = [], res_exit = 0, res_output = trim_space s, res_error = [], res_sha256 = []\<rparr>)"

record probe_report =
  pb_version :: int
  pb_read_only :: bool
  pb_namespace :: string
  pb_config :: cmd_result
  pb_checks :: "(string \<times> cmd_result) list"
  pb_marks :: "mark_use list"
  pb_candidate :: string
  pb_mask :: string
  pb_automatic :: bool
  pb_risks :: "string list"
  pb_conclusion :: string

record probe_inputs =
  pn_namespace :: string
  pn_run :: "argv \<Rightarrow> finished_run"
  pn_config :: "string + string"
  pn_files :: "string \<Rightarrow> string + string"
  pn_option4 :: "string option \<times> string option \<times> (string + int)"
  pn_option6 :: "string option \<times> string option \<times> (string + int)"

definition probe_mark :: u32 where "probe_mark = 0x00400000"

definition certain_risk :: string where
  "certain_risk = ''TPROXY mark collision risk: vendor BPF/netd future changes cannot be certified by this snapshot; explicit live-namespace override required''"

definition probe :: "(string \<Rightarrow> string) \<Rightarrow> probe_inputs \<Rightarrow> probe_report" where
  "probe sha I =
     (let rs = map (\<lambda>(name, args). (name, probe_check sha name args (query_result args (pn_run I args)))) probe_commands;
          marks = concat (map (fst \<circ> snd) rs);
          opt = (\<lambda>(o1, o2, o3). transparent_option o1 o2 o3)
      in \<lparr>pb_version = 1, pb_read_only = True, pb_namespace = pn_namespace I, pb_config = kernel_config sha (pn_config I),
          pb_checks = map (\<lambda>(name, m, v). (name, v)) rs @ map (\<lambda>p. (p, path_check (pn_files I p))) probe_paths @
            [(''IP_TRANSPARENT'', opt (pn_option4 I)), (''IPV6_TRANSPARENT'', opt (pn_option6 I))],
          pb_marks = marks, pb_candidate = ''0x00400000'', pb_mask = ''0x00400000'', pb_automatic = False,
          pb_risks = mark_risk probe_mark marks @ [certain_risk],
          pb_conclusion = ''Capability evidence only: OUTPUT -> policy route -> PREROUTING requires a real TCP PoC. Automatic live-network setup is disabled.''\<rparr>)"

text \<open>The form in which the preflight takes the probe: a check that is missing is an empty result.\<close>

definition empty_check :: cmd_result where
  "empty_check = \<lparr>res_command = [], res_exit = 0, res_output = [], res_error = [], res_sha256 = []\<rparr>"

definition probe_capabilities :: "probe_report \<Rightarrow> capabilities" where
  "probe_capabilities r =
     \<lparr>ca_checks = (\<lambda>n. case map_of (pb_checks r) n of Some v \<Rightarrow> v | None \<Rightarrow> empty_check), ca_config = pb_config r\<rparr>"

text \<open>Every check the preflight looks at is one the probe makes.\<close>

definition preflight_checks :: "string list" where
  "preflight_checks =
     [''iptables'', ''tproxy4'', ''owner'', ''MARK'', ''mark'', ''IP_TRANSPARENT'', ''/proc/net/ip_tables_targets'']"

definition check_names :: "string list" where
  "check_names = map fst probe_commands @ probe_paths @ [''IP_TRANSPARENT'', ''IPV6_TRANSPARENT'']"

lemma probe_check_names: "map fst (pb_checks (probe sha I)) = check_names"
  by (simp add: probe_def check_names_def comp_def case_prod_beta Let_def)

lemma distinct_check_names: "distinct check_names"
  by code_simp

lemma preflight_checks_made: "list_all (\<lambda>n. n \<in> set check_names) preflight_checks"
  by code_simp

text \<open>A probe is never an approval, and its risks are never empty.\<close>

lemma probe_never_approves:
  "pb_read_only (probe sha I) \<and> \<not> pb_automatic (probe sha I) \<and> certain_risk \<in> set (pb_risks (probe sha I))"
  by (simp add: probe_def Let_def)

text \<open>No firewall dump is in the report: such a check holds a length and a hash.\<close>

lemma probe_hides_firewall:
  assumes "(name, v) \<in> set (pb_checks (probe sha I))" and "hidden_output name"
  shows "\<exists>out. res_output v = ''captured '' @ utoa (length out) @ '' bytes; full firewall omitted'' \<and> res_sha256 v = sha out"
proof -
  have "\<not> list_ex hidden_output (probe_paths @ [''IP_TRANSPARENT'', ''IPV6_TRANSPARENT''])" by code_simp
  then have not: "name \<notin> set (probe_paths @ [''IP_TRANSPARENT'', ''IPV6_TRANSPARENT''])"
    using assms(2) by (auto simp: list_ex_iff)
  then obtain args m where "probe_check sha name args (query_result args (pn_run I args)) = (m, v)"
    using assms(1) by (auto simp: probe_def Let_def split: prod.splits)
  then show ?thesis using assms(2) by (auto simp: probe_check_def Let_def)
qed

section \<open>The transparent listener\<close>

text \<open>The socket option is set before the bind; \<open>raw\<close> is the failure of reaching the descriptor.\<close>

definition listen_transparent :: "string \<Rightarrow> gerr option \<Rightarrow> gerr option \<Rightarrow> gerr option \<Rightarrow> gerr option" where
  "listen_transparent network raw set_opt listen =
     (if network \<noteq> ''tcp4'' \<and> network \<noteq> ''tcp6'' then Some (Err ''transparent listener requires tcp4 or tcp6'')
      else if raw \<noteq> None then raw
      else case set_opt of Some e \<Rightarrow> Some (Wrap ''transparent setsockopt'' e) | None \<Rightarrow> listen)"

text \<open>The option: level and name, as for the address family.\<close>

definition transparent_sockopt :: "string \<Rightarrow> int \<times> int" where
  "transparent_sockopt network = (if network = ''tcp6'' then (41, 75) else (0, 19))"

definition unspecified_ip :: "u8 list \<Rightarrow> bool" where
  "unspecified_ip ip \<longleftrightarrow>
     ip = replicate 4 0 \<or> ip = replicate 10 0 @ [0xFF, 0xFF] @ replicate 4 0 \<or> ip = replicate 16 0"

text \<open>The destination of an accepted connection is its local address: bytes, zone, port.\<close>

definition original_destination :: "(u8 list \<times> string \<times> int) option \<Rightarrow> gerr + string" where
  "original_destination a =
     (case a of
        None \<Rightarrow> Inl (Err ''invalid accepted original destination'')
      | Some (ip, zone, port) \<Rightarrow>
          if unspecified_ip ip \<or> port = 0 then Inl (Err ''invalid accepted original destination'')
          else
            let text_ip = (if ip = [] then [] else ip_text ip)
            in Inr (join_host_port (if zone = [] then text_ip else text_ip @ ''%'' @ zone) (itoa port)))"

text \<open>A transparently accepted connection is relayed to its own local address.\<close>

lemma original_request:
  assumes "original_destination (Some (ip, [], port)) = Inr dst" and "length ip = 4 \<or> length ip = 16"
    and "0 \<le> port" "port < 65536"
  shows "connect_request dst =
    Inr ([5, 1, 0] @
      (if length ip = 4 then 1 # ip else if take 12 ip = mapped_prefix then 1 # drop 12 ip else 4 # ip) @
      [byte_of (nat port div 256), byte_of (nat port mod 256)])"
proof -
  have "dst = join_host_port (ip_text ip) (utoa (nat port))" "0 < nat port" "nat port < 65536"
    using assms by (auto simp: original_destination_def itoa_def Let_def split: if_splits)
  then show ?thesis using connect_request_ip [OF assms(2)] by simp
qed

end
