(* ===== verification/Supervisor.thy ===== *)
theory Supervisor
  imports Durable
begin

text \<open>
  Supervision of one worker at a time: \<open>ebpf-proxy/internal/tproxy/supervisor.go\<close> and
  \<open>supervisor_linux.go\<close>. Everything the operating system and the worker decide (launch, readiness,
  exits, signals, timers, cancellation) is read from an environment, one per attempt.
\<close>

section \<open>Options and results\<close>

text \<open>Durations in nanoseconds, as \<open>time.Duration\<close>.\<close>

record supervisor_options =
  sv_max_restarts :: int
  sv_ready_timeout :: int
  sv_stop_grace :: int
  sv_kill_wait :: int
  sv_recovery_timeout :: int
  sv_backoff :: int

definition millis :: "int \<Rightarrow> int" where
  "millis n = n * 10 ^ 6"

definition seconds :: "int \<Rightarrow> int" where
  "seconds n = n * 10 ^ 9"

definition valid_supervisor :: "supervisor_options \<Rightarrow> bool" where
  "valid_supervisor v \<longleftrightarrow>
     \<not> (sv_max_restarts v < 0 \<or> sv_max_restarts v > 3 \<or>
        sv_ready_timeout v < millis 10 \<or> sv_ready_timeout v > seconds 30 \<or>
        sv_stop_grace v < millis 10 \<or> sv_stop_grace v > seconds 10 \<or>
        sv_kill_wait v < millis 10 \<or> sv_kill_wait v > seconds 5 \<or>
        sv_recovery_timeout v < seconds 1 \<or> sv_recovery_timeout v > seconds 120 \<or>
        sv_backoff v < millis 10 \<or> sv_backoff v > seconds 1)"

record attempt =
  at_number :: nat
  at_ready :: bool
  at_reason :: string
  at_exit_observed :: bool
  at_exit_code :: int
  at_term :: bool
  at_kill :: bool
  at_clean :: bool
  at_recovered :: int

record supervisor_result =
  sr_state :: string
  sr_clean :: bool
  sr_restarts :: nat
  sr_attempts :: "attempt list"

section \<open>The readiness record\<close>

definition ready_field :: "string \<Rightarrow> json \<Rightarrow> int \<times> bool \<Rightarrow> (int \<times> bool) option" where
  "ready_field k v m =
     (if fold_eq k ''version'' then map_option (\<lambda>i. (i, snd m)) (dec_int v (fst m))
      else if fold_eq k ''ready'' then map_option (\<lambda>b. (fst m, b)) (dec_bool v (snd m))
      else None)"

definition dec_ready :: "json \<Rightarrow> (int \<times> bool) option" where
  "dec_ready v =
     (case dec_struct ready_field v (0, False) of
        None \<Rightarrow> None
      | Some m \<Rightarrow> if fst m \<noteq> 1 \<or> \<not> snd m then None else Some m)"

text \<open>At most 257 bytes are read, up to and including the first newline.\<close>

definition ready_record :: "string \<Rightarrow> gerr option" where
  "ready_record input =
     (let lim = take 257 input;
          line = takeWhile (\<lambda>c. c \<noteq> CHR 0x0A) lim @ [CHR 0x0A]
      in if CHR 0x0A \<notin> set lim \<or> length line > 256
         then Some (Err ''invalid or incomplete readiness record'')
         else (case decode_single dec_ready line (Err ''invalid readiness record'') (Err ''trailing readiness data'') of
                 Inl e \<Rightarrow> Some e
               | Inr _ \<Rightarrow> None))"

section \<open>One attempt\<close>

datatype factory_result = FactoryError | FactoryStarted | FactoryInvalid | FactoryAttrs | FactoryOk

datatype first_event = Cancelled | Exited | ReadyData string | ReadyTimeout

datatype pinned = NoCallback | PinnedOk | PinnedFailed gerr

record attempt_env =
  ae_factory :: factory_result
  ae_pipe :: "gerr option"
  ae_start :: "gerr option"
  ae_pidfd :: "gerr option"
  ae_killed_exits :: bool
  ae_pinned :: pinned
  ae_first :: first_event
  ae_second_exit :: bool
  ae_exits_now :: bool
  ae_term :: "gerr option"
  ae_grace_exits :: bool
  ae_kill :: "gerr option"
  ae_wait_exits :: bool
  ae_exit_code :: int

definition new_attempt :: "nat \<Rightarrow> attempt" where
  "new_attempt n =
     \<lparr>at_number = n, at_ready = False, at_reason = ''launch_failed'', at_exit_observed = False,
      at_exit_code = -1, at_term = False, at_kill = False, at_clean = False, at_recovered = 0\<rparr>"

definition signal_failed :: "gerr option \<Rightarrow> bool" where
  "signal_failed e \<longleftrightarrow> e \<noteq> None \<and> e \<noteq> Some Esrch"

text \<open>Waiting for readiness: the attempt after it, and whether the child's exit was seen.\<close>

definition await_ready :: "attempt_env \<Rightarrow> attempt \<Rightarrow> attempt \<times> bool" where
  "await_ready E a =
     (case ae_first E of
        Cancelled \<Rightarrow> (a\<lparr>at_reason := ''stop_requested''\<rparr>, False)
      | Exited \<Rightarrow> (a\<lparr>at_reason := ''exit_before_ready''\<rparr>, True)
      | ReadyData b \<Rightarrow>
          (case ready_record b of
             Some e \<Rightarrow> (a\<lparr>at_reason := ''readiness_invalid''\<rparr>, False)
           | None \<Rightarrow>
               if ae_second_exit E then (a\<lparr>at_ready := True, at_reason := ''worker_exited''\<rparr>, True)
               else (a\<lparr>at_ready := True, at_reason := ''stop_requested''\<rparr>, False))
      | ReadyTimeout \<Rightarrow> (a\<lparr>at_reason := ''readiness_timeout''\<rparr>, False))"

definition observed :: "attempt_env \<Rightarrow> attempt \<Rightarrow> attempt" where
  "observed E a = a\<lparr>at_exit_observed := True, at_exit_code := ae_exit_code E\<rparr>"

text \<open>Stop escalation: SIGTERM, the grace period, SIGKILL, the kill wait.\<close>

definition stop_worker :: "attempt_env \<Rightarrow> bool \<Rightarrow> attempt \<Rightarrow> attempt \<times> gerr option" where
  "stop_worker E exited a =
     (if exited \<or> ae_exits_now E then (observed E a, None)
      else
        let a1 = a\<lparr>at_term := True\<rparr>
        in if signal_failed (ae_term E) then (a1, Some (Err ''verified worker termination failed''))
           else if ae_grace_exits E then (observed E a1, None)
           else
             let a2 = a1\<lparr>at_kill := True\<rparr>
             in if signal_failed (ae_kill E) then (a2, Some (Err ''verified worker kill failed''))
                else if ae_wait_exits E then (observed E a2, None)
                else (a2, Some (Err ''verified worker did not exit within kill wait'')))"

definition supervise_attempt :: "attempt_env \<Rightarrow> bool \<Rightarrow> nat \<Rightarrow> attempt \<times> gerr option" where
  "supervise_attempt E brokered n =
     (let a = new_attempt n
      in case ae_factory E of
           FactoryError \<Rightarrow> (a, Some (Err ''worker factory failed''))
         | FactoryStarted \<Rightarrow>
             (a\<lparr>at_reason := ''factory_returned_started_worker''\<rparr>, Some (Err ''factory must not start the worker''))
         | FactoryInvalid \<Rightarrow> (a, Some (Err ''invalid unstarted worker''))
         | f \<Rightarrow>
             if brokered \<and> f = FactoryAttrs then (a, Some (Err ''broker owns worker launch attributes''))
             else case ae_pipe E of Some e \<Rightarrow> (a, Some e) | None \<Rightarrow>
               (if ae_start E \<noteq> None then (a, Some (Err ''worker launch failed''))
                else if ae_pidfd E \<noteq> None then
                  (a\<lparr>at_exit_observed := ae_killed_exits E, at_reason := ''identity_acquisition_failed''\<rparr>,
                   Some (Err ''child pidfd acquisition failed''))
                else (case (if brokered then ae_pinned E else NoCallback) of
                        PinnedFailed e \<Rightarrow>
                          (a\<lparr>at_exit_observed := ae_killed_exits E, at_reason := ''broker_identity_failed''\<rparr>, Some e)
                      | _ \<Rightarrow> (case await_ready E a of (a1, exited) \<Rightarrow> stop_worker E exited a1))))"

text \<open>Whether a child process was created at all by this attempt.\<close>

definition child_started :: "attempt_env \<Rightarrow> bool \<Rightarrow> bool" where
  "child_started E brokered \<longleftrightarrow>
     (case ae_factory E of
        FactoryOk \<Rightarrow> ae_pipe E = None \<and> ae_start E = None
      | FactoryAttrs \<Rightarrow> \<not> brokered \<and> ae_pipe E = None \<and> ae_start E = None
      | FactoryStarted \<Rightarrow> True
      | _ \<Rightarrow> False)"

section \<open>Cleanup\<close>

text \<open>
  \<open>scopedCleanup\<close>: open, resolve, recover. \<open>expired\<close> is the context error after the recovery.
\<close>

definition scoped_cleanup :: "'k dur_env \<Rightarrow> open_env \<Rightarrow> plan \<Rightarrow> gerr option \<Rightarrow> 'k world
    \<Rightarrow> (int \<times> gerr option) \<times> 'k world" where
  "scoped_cleanup E V p expired w =
     (case open_durable V p True w of
        Inl e \<Rightarrow> ((0, Some e), w)
      | Inr d \<Rightarrow>
          (case resolve_pending E d w of
             (Some e, d1, w1) \<Rightarrow> ((0, Some e), w1)
           | (None, d1, w1) \<Rightarrow>
               (case durable_recover E d1 w1 of
                  (Some e, d2, w2) \<Rightarrow> ((jr_owned (du_rec d1), Some e), w2)
                | (None, d2, w2) \<Rightarrow> ((jr_owned (du_rec d1), expired), w2))))"

section \<open>The supervision loop\<close>

text \<open>One round: cancellation before, during the back-off and after, the attempt and its cleanup.\<close>

record round =
  ro_stop_before :: bool
  ro_stop_backoff :: bool
  ro_attempt :: attempt_env
  ro_cleanup :: "int \<times> gerr option"
  ro_stop_after :: bool

definition add_attempt :: "attempt \<Rightarrow> nat \<Rightarrow> supervisor_result \<Rightarrow> supervisor_result" where
  "add_attempt a number r =
     r\<lparr>sr_attempts := sr_attempts r @ [a], sr_clean := False,
       sr_restarts := (if number > 0 then Suc (sr_restarts r) else sr_restarts r)\<rparr>"

definition settle_attempt :: "(attempt \<Rightarrow> attempt) \<Rightarrow> supervisor_result \<Rightarrow> supervisor_result" where
  "settle_attempt f r =
     r\<lparr>sr_attempts := (sr_attempts r)[length (sr_attempts r) - 1 := f (last (sr_attempts r))]\<rparr>"

fun supervise_loop :: "(nat \<Rightarrow> round) \<Rightarrow> nat \<Rightarrow> nat \<Rightarrow> supervisor_result \<Rightarrow> supervisor_result \<times> gerr option" where
  "supervise_loop rounds 0 number r = (r, Some (Err ''unreachable supervisor state''))"
| "supervise_loop rounds (Suc left) number r =
     (let R = rounds number
      in if ro_stop_before R \<or> (number > 0 \<and> ro_stop_backoff R)
         then (r\<lparr>sr_state := ''stopped''\<rparr>, None)
         else (case supervise_attempt (ro_attempt R) False number of (a, run_error) \<Rightarrow>
           let r1 = add_attempt a number r
           in if \<not> at_exit_observed a \<and> at_reason a \<noteq> ''launch_failed''
              then (r1, Some (Err ''worker exit unverified; no cleanup/restart''))
              else
                let r2 = settle_attempt (\<lambda>a. a\<lparr>at_recovered := fst (ro_cleanup R)\<rparr>) r1
                in case snd (ro_cleanup R) of
                     Some e \<Rightarrow> (r2, Some (Wrap ''recovery refused; no restart'' e))
                   | None \<Rightarrow>
                       let r3 = (settle_attempt (\<lambda>a. a\<lparr>at_clean := True\<rparr>) r2)\<lparr>sr_clean := True\<rparr>
                       in if ro_stop_after R then (r3\<lparr>sr_state := ''stopped''\<rparr>, None)
                          else if at_ready a \<and> at_exit_observed a \<and> at_exit_code a = 0
                          then (r3\<lparr>sr_state := ''completed''\<rparr>, None)
                          else if left = 0
                          then (r3\<lparr>sr_state := ''exhausted''\<rparr>,
                                Some (Err ''restart budget exhausted after verified cleanup''))
                          else supervise_loop rounds left (Suc number) r3))"

text \<open>The checks before the loop, in order.\<close>

record launch_env =
  le_ns :: "gerr + string"
  le_host :: "gerr + string"
  le_factory :: bool
  le_pidfd :: "gerr option"
  le_signal :: "gerr option"
  le_cancelled :: bool
  le_open :: "gerr option"
  le_session :: "gerr option"
  le_session_lock :: "gerr option"
  le_cleanup :: "int \<times> gerr option"

definition launch_refused :: "supervisor_options \<Rightarrow> plan \<Rightarrow> launch_env \<Rightarrow> (string \<times> gerr) option" where
  "launch_refused v p L =
     (if \<not> valid_supervisor v then Some (''blocked'', Err ''invalid bounded supervisor options'')
      else case plan_steps p of Inl e \<Rightarrow> Some (''blocked'', e) | Inr _ \<Rightarrow>
      (case le_ns L of Inl e \<Rightarrow> Some (''blocked'', e) | Inr ns \<Rightarrow>
       if \<not> is_ok (le_host L) \<or> le_host L = Inr ns
       then Some (''blocked'', Err ''supervisor requires private network namespace'')
       else if \<not> le_factory L then Some (''blocked'', Err ''worker factory required'')
       else case le_pidfd L of Some e \<Rightarrow> Some (''blocked'', e) | None \<Rightarrow>
       (case le_signal L of Some e \<Rightarrow> Some (''blocked'', e) | None \<Rightarrow>
        if le_cancelled L then Some (''stopped'', Canceled)
        else case le_open L of Some e \<Rightarrow> Some (''blocked'', e) | None \<Rightarrow>
        (case le_session L of Some e \<Rightarrow> Some (''blocked'', e) | None \<Rightarrow>
         (case le_session_lock L of
            Some e \<Rightarrow> Some (''blocked'', Wrap ''supervisor session unavailable'' e)
          | None \<Rightarrow>
              (case snd (le_cleanup L) of
                 Some e \<Rightarrow> Some (''blocked'', Wrap ''initial recovery refused'' e)
               | None \<Rightarrow> None))))))"

definition supervise_scoped :: "supervisor_options \<Rightarrow> plan \<Rightarrow> launch_env \<Rightarrow> (nat \<Rightarrow> round)
    \<Rightarrow> supervisor_result \<times> gerr option" where
  "supervise_scoped v p L rounds =
     (case launch_refused v p L of
        Some (state, e) \<Rightarrow>
          (\<lparr>sr_state = state, sr_clean = False, sr_restarts = 0, sr_attempts = []\<rparr>, Some e)
      | None \<Rightarrow>
          supervise_loop rounds (Suc (nat (sv_max_restarts v))) 0
            \<lparr>sr_state = ''blocked'', sr_clean = True, sr_restarts = 0, sr_attempts = []\<rparr>)"

section \<open>Attempts\<close>

lemma stop_worker_reason: "at_reason (fst (stop_worker E x a)) = at_reason a"
  by (auto simp: stop_worker_def observed_def Let_def)

lemma await_ready_reason: "at_reason (fst (await_ready E a)) \<noteq> ''launch_failed''"
  by (auto simp: await_ready_def split: first_event.splits option.splits)

text \<open>\<open>launch_failed\<close> is reported exactly when there is no child process.\<close>

lemma launch_failed_iff:
  "at_reason (fst (supervise_attempt E b n)) = ''launch_failed'' \<longleftrightarrow> \<not> child_started E b"
  using await_ready_reason [of E "new_attempt n"]
  by (cases "ae_factory E")
     (auto simp: supervise_attempt_def child_started_def Let_def stop_worker_reason new_attempt_def
       split_beta split: option.splits pinned.splits)

lemma stop_worker_clean: "at_clean (fst (stop_worker E x a)) = at_clean a"
  by (simp add: stop_worker_def observed_def Let_def)

lemma await_ready_clean: "at_clean (fst (await_ready E a)) = at_clean a"
  by (simp add: await_ready_def split: first_event.splits option.splits)

lemma attempt_not_clean: "\<not> at_clean (fst (supervise_attempt E b n))"
  using await_ready_clean [of E "new_attempt n"]
  by (simp add: supervise_attempt_def stop_worker_clean new_attempt_def Let_def split_beta
      split: factory_result.split option.split pinned.split)

text \<open>An attempt is settled when nothing of it can still run and its cleanup succeeded.\<close>

definition settled_attempt :: "attempt \<Rightarrow> bool" where
  "settled_attempt a \<longleftrightarrow> at_clean a \<and> (at_exit_observed a \<or> at_reason a = ''launch_failed'')"

text \<open>The invariant of the loop at its head, and what a finished run satisfies.\<close>

definition loop_inv :: "nat \<Rightarrow> supervisor_result \<Rightarrow> bool" where
  "loop_inv number r \<longleftrightarrow>
     sr_clean r \<and> sr_restarts r = number - 1 \<and> length (sr_attempts r) = number \<and>
     list_all settled_attempt (sr_attempts r)"

definition finished :: "nat \<Rightarrow> supervisor_result \<Rightarrow> gerr option \<Rightarrow> bool" where
  "finished limit r e \<longleftrightarrow>
     length (sr_attempts r) \<le> limit \<and> sr_restarts r = length (sr_attempts r) - 1 \<and>
     list_all settled_attempt (butlast (sr_attempts r)) \<and>
     (sr_clean r \<longrightarrow> list_all settled_attempt (sr_attempts r)) \<and>
     (sr_state r = ''completed'' \<longrightarrow> e = None \<and> sr_clean r \<and> sr_attempts r \<noteq> [] \<and>
        at_ready (last (sr_attempts r)) \<and> at_exit_observed (last (sr_attempts r)) \<and>
        at_exit_code (last (sr_attempts r)) = 0) \<and>
     (sr_state r = ''exhausted'' \<longrightarrow> sr_clean r \<and> length (sr_attempts r) = limit) \<and>
     (e = None \<longrightarrow> sr_clean r)"

lemma settle_add [simp]:
  "settle_attempt f (add_attempt a n r) = (add_attempt (f a) n r)"
  by (simp add: settle_attempt_def add_attempt_def)

lemma supervise_loop_finished:
  assumes "loop_inv number r" and "sr_state r = ''blocked''" and "0 < left"
  shows "finished (number + left) (fst (supervise_loop rounds left number r)) (snd (supervise_loop rounds left number r))"
  using assms
proof (induction left arbitrary: number r)
  case (Suc left)
  let ?R = "rounds number"
  obtain a re where at: "supervise_attempt (ro_attempt ?R) False number = (a, re)" by fastforce
  obtain n ce where cl: "ro_cleanup ?R = (n, ce)" by fastforce
  have inv: "sr_clean r" "sr_restarts r = number - 1" "length (sr_attempts r) = number"
    "list_all settled_attempt (sr_attempts r)" using Suc.prems(1) by (simp_all add: loop_inv_def)
  let ?a3 = "a\<lparr>at_recovered := n, at_clean := True\<rparr>"
  let ?r3 = "(add_attempt ?a3 number r)\<lparr>sr_clean := True\<rparr>"
  consider (stop) "ro_stop_before ?R \<or> (number > 0 \<and> ro_stop_backoff ?R)"
    | (unseen) "\<not> (ro_stop_before ?R \<or> (number > 0 \<and> ro_stop_backoff ?R))"
        "\<not> at_exit_observed a \<and> at_reason a \<noteq> ''launch_failed''"
    | (seen) "\<not> (ro_stop_before ?R \<or> (number > 0 \<and> ro_stop_backoff ?R))"
        "at_exit_observed a \<or> at_reason a = ''launch_failed''" by blast
  then show ?case
  proof cases
    case stop
    then have "supervise_loop rounds (Suc left) number r = (r\<lparr>sr_state := ''stopped''\<rparr>, None)" by simp
    then show ?thesis using inv by (simp add: finished_def list_all_iff in_set_butlastD)
  next
    case unseen
    then have "supervise_loop rounds (Suc left) number r =
        (add_attempt a number r, Some (Err ''worker exit unverified; no cleanup/restart''))"
      using at by (simp add: Let_def)
    then show ?thesis using inv Suc.prems(2) by (simp add: finished_def add_attempt_def)
  next
    case seen
    have not_stop: "(ro_stop_before ?R \<or> (number > 0 \<and> ro_stop_backoff ?R)) = False" using seen by simp
    have not_unseen: "(\<not> at_exit_observed a \<and> at_reason a \<noteq> ''launch_failed'') = False" using seen by auto
    show ?thesis
    proof (cases ce)
      case (Some err)
      then have "supervise_loop rounds (Suc left) number r =
          (add_attempt (a\<lparr>at_recovered := n\<rparr>) number r, Some (Wrap ''recovery refused; no restart'' err))"
        unfolding supervise_loop.simps Let_def at cl Some prod.case fst_conv snd_conv not_stop not_unseen if_False
          option.case settle_add by simp
      then show ?thesis using inv Suc.prems(2) by (simp add: finished_def add_attempt_def)
    next
      case None
      have eq: "supervise_loop rounds (Suc left) number r =
          (if ro_stop_after ?R then (?r3\<lparr>sr_state := ''stopped''\<rparr>, None)
           else if at_ready a \<and> at_exit_observed a \<and> at_exit_code a = 0
           then (?r3\<lparr>sr_state := ''completed''\<rparr>, None)
           else if left = 0
           then (?r3\<lparr>sr_state := ''exhausted''\<rparr>, Some (Err ''restart budget exhausted after verified cleanup''))
           else supervise_loop rounds left (Suc number) ?r3)"
        unfolding supervise_loop.simps Let_def at cl None prod.case fst_conv snd_conv not_stop not_unseen if_False
          option.case settle_add by simp
      have "settled_attempt ?a3" using seen by (auto simp: settled_attempt_def)
      then have inv3: "loop_inv (Suc number) ?r3" and st3: "sr_state ?r3 = ''blocked''"
        using inv Suc.prems(2) by (auto simp: loop_inv_def add_attempt_def)
      consider "ro_stop_after ?R" | "\<not> ro_stop_after ?R" "at_ready a \<and> at_exit_observed a \<and> at_exit_code a = 0"
        | "\<not> ro_stop_after ?R" "\<not> (at_ready a \<and> at_exit_observed a \<and> at_exit_code a = 0)" "left = 0"
        | "\<not> ro_stop_after ?R" "\<not> (at_ready a \<and> at_exit_observed a \<and> at_exit_code a = 0)" "0 < left"
        by blast
      then show ?thesis
      proof cases
        case 4
        then have "supervise_loop rounds (Suc left) number r = supervise_loop rounds left (Suc number) ?r3"
          unfolding eq by auto
        then show ?thesis using Suc.IH [OF inv3 st3] 4 by (simp only: add_Suc_right add_Suc)
      qed (unfold eq, use inv3 in \<open>auto simp: finished_def loop_inv_def add_attempt_def\<close>)
    qed
  qed
qed simp

lemma launch_refused_valid: "launch_refused v p L = None \<Longrightarrow> valid_supervisor v"
  by (auto simp: launch_refused_def split: if_splits)

lemma launch_refused_state: "launch_refused v p L = Some (st, e) \<Longrightarrow> st = ''blocked'' \<or> st = ''stopped''"
  by (auto simp: launch_refused_def split: if_splits sum.splits option.splits)

lemma supervise_scoped_run:
  assumes "launch_refused v p L = None"
  shows "finished (Suc (nat (sv_max_restarts v))) (fst (supervise_scoped v p L rounds)) (snd (supervise_scoped v p L rounds))"
proof -
  have "finished (0 + Suc (nat (sv_max_restarts v)))
      (fst (supervise_loop rounds (Suc (nat (sv_max_restarts v))) 0
         \<lparr>sr_state = ''blocked'', sr_clean = True, sr_restarts = 0, sr_attempts = []\<rparr>))
      (snd (supervise_loop rounds (Suc (nat (sv_max_restarts v))) 0
         \<lparr>sr_state = ''blocked'', sr_clean = True, sr_restarts = 0, sr_attempts = []\<rparr>))"
    by (rule supervise_loop_finished) (simp_all add: loop_inv_def)
  then show ?thesis using assms by (simp add: supervise_scoped_def del: supervise_loop.simps)
qed

lemma supervise_scoped_refused:
  "launch_refused v p L = Some (st, e) \<Longrightarrow>
     supervise_scoped v p L rounds = (\<lparr>sr_state = st, sr_clean = False, sr_restarts = 0, sr_attempts = []\<rparr>, Some e)"
  by (simp add: supervise_scoped_def)

end
