(* ===== verification/Guardian.thy ===== *)
theory Guardian
  imports Supervisor
begin

text \<open>
  Guardians that recover after a worker's exit and the witness of one command's three processes:
  \<open>guardian_linux.go\<close>, \<open>command_witness_linux.go\<close> and \<open>command_guard_linux.go\<close> of
  \<open>ebpf-proxy/internal/tproxy\<close>. Readings of \<open>/proc\<close>, polls and descriptors come from an environment.
\<close>

section \<open>Namespaces and polls\<close>

definition private_namespace :: "string \<Rightarrow> gerr + string \<Rightarrow> gerr + string \<Rightarrow> gerr + string" where
  "private_namespace msg self host =
     (case self of
        Inl e \<Rightarrow> Inl e
      | Inr ns \<Rightarrow> if \<not> is_ok host \<or> host = Inr ns then Inl (Err msg) else Inr ns)"

definition witness_namespace :: "gerr + string \<Rightarrow> gerr + string \<Rightarrow> gerr + string" where
  "witness_namespace self host =
     (if \<not> is_ok self \<or> \<not> is_ok host \<or> self = host
      then Inl (Err ''command witness requires private network namespace'') else self)"

definition poll_in :: u16 where "poll_in = 0x01"
definition poll_err :: u16 where "poll_err = 0x08"
definition poll_hup :: u16 where "poll_hup = 0x10"
definition poll_nval :: u16 where "poll_nval = 0x20"

definition poll_bad :: "u16 \<Rightarrow> bool" where
  "poll_bad ev \<longleftrightarrow> ev AND (poll_err OR poll_nval) \<noteq> 0"

definition poll_dead :: "u16 \<Rightarrow> bool" where
  "poll_dead ev \<longleftrightarrow> ev AND (poll_in OR poll_hup) \<noteq> 0"

text \<open>\<open>witnessPoll\<close>: have all the polled processes exited?\<close>

fun revents_exited :: "u16 list \<Rightarrow> bool \<Rightarrow> gerr + bool" where
  "revents_exited [] all = Inr all"
| "revents_exited (r # rs) all =
     (if poll_bad r then Inl (Err ''invalid witness descriptor'')
      else revents_exited rs (all \<and> poll_dead r))"

definition witness_poll :: "gerr option \<times> u16 list \<Rightarrow> gerr + bool" where
  "witness_poll p =
     (case fst p of
        Some Eintr \<Rightarrow> Inr False
      | Some e \<Rightarrow> Inl e
      | None \<Rightarrow> revents_exited (snd p) True)"

lemma revents_exited_True:
  "revents_exited rs all = Inr True \<longleftrightarrow> all \<and> list_all (\<lambda>r. \<not> poll_bad r \<and> poll_dead r) rs"
  by (induction rs arbitrary: all) auto

lemma witness_poll_True:
  "witness_poll p = Inr True \<longleftrightarrow> fst p = None \<and> list_all (\<lambda>r. \<not> poll_bad r \<and> poll_dead r) (snd p)"
  by (auto simp: witness_poll_def revents_exited_True split: option.splits gerr.splits)

section \<open>Recovery after an exit\<close>

record guardian_result =
  gr_exit_code :: int
  gr_signal :: string
  gr_recovered :: int
  gr_clean :: bool
  gr_reconciled :: bool
  gr_exit_observed :: bool
  gr_code_known :: bool

definition new_guardian :: "int \<Rightarrow> guardian_result" where
  "new_guardian code =
     \<lparr>gr_exit_code = code, gr_signal = [], gr_recovered = 0, gr_clean = False,
      gr_reconciled = False, gr_exit_observed = False, gr_code_known = False\<rparr>"

definition recover_exit :: "'k dur_env \<Rightarrow> open_env \<Rightarrow> plan \<Rightarrow> bool \<Rightarrow> guardian_result \<Rightarrow> 'k world
    \<Rightarrow> guardian_result \<times> gerr option \<times> 'k world" where
  "recover_exit E V p scoped g w =
     (case open_durable V p scoped w of
        Inl e \<Rightarrow> (g, Some e, w)
      | Inr d \<Rightarrow>
          let g1 = g\<lparr>gr_reconciled := (jr_pending (du_rec d) \<noteq> [])\<rparr>
          in (case resolve_pending E d w of
                (Some e, d1, w1) \<Rightarrow> (g1, Some e, w1)
              | (None, d1, w1) \<Rightarrow>
                  let g2 = g1\<lparr>gr_recovered := jr_owned (du_rec d1)\<rparr>
                  in (case durable_recover E d1 w1 of
                        (Some e, d2, w2) \<Rightarrow> (g2, Some e, w2)
                      | (None, d2, w2) \<Rightarrow> (g2\<lparr>gr_clean := (jr_owned (du_rec d2) = 0)\<rparr>, None, w2))))"

text \<open>The child-exit guardian: \<open>wait\<close> is \<open>None\<close> when the exit could not be verified.\<close>

definition watch_worker :: "'k dur_env \<Rightarrow> open_env \<Rightarrow> plan \<Rightarrow> bool \<Rightarrow> bool \<Rightarrow> (int \<times> string) option \<Rightarrow> 'k world
    \<Rightarrow> guardian_result \<times> gerr option \<times> 'k world" where
  "watch_worker E V p scoped started wait w =
     (case private_namespace ''guardian requires private network namespace'' (oe_ns V) (oe_host V) of
        Inl e \<Rightarrow> (new_guardian 0, Some e, w)
      | Inr _ \<Rightarrow>
          if \<not> started then (new_guardian 0, Some (Err ''worker not started''), w)
          else (case wait of
                  None \<Rightarrow> (new_guardian 0, Some (Err ''cannot verify child exit''), w)
                | Some (code, sig) \<Rightarrow>
                    recover_exit E V p scoped
                      ((new_guardian code)\<lparr>gr_exit_observed := True, gr_code_known := True, gr_signal := sig\<rparr>) w))"

text \<open>One poll round: the context, the poll error, the returned events.\<close>

type_synonym poll_round = "gerr option \<times> gerr option \<times> u16"

text \<open>The wait for a pinned process; \<open>None\<close> when the rounds end with the process still alive.\<close>

fun await_exit :: "poll_round list \<Rightarrow> (gerr + unit) option" where
  "await_exit [] = None"
| "await_exit ((ctx, perr, ev) # rs) =
     (case ctx of
        Some e \<Rightarrow> Some (Inl e)
      | None \<Rightarrow>
          if perr = Some Eintr then await_exit rs
          else case perr of
                 Some e \<Rightarrow> Some (Inl e)
               | None \<Rightarrow>
                   if poll_bad ev then Some (Inl (Err ''invalid pidfd poll''))
                   else if poll_dead ev then Some (Inr ())
                   else await_exit rs)"

lemma await_exit_dead:
  "await_exit rs = Some (Inr ()) \<Longrightarrow> \<exists>ev. (None, None, ev) \<in> set rs \<and> poll_dead ev \<and> \<not> poll_bad ev"
  by (induction rs rule: await_exit.induct) (auto split: option.splits if_splits)

text \<open>The scoped tail of the descriptor guardian; \<open>ctx\<close> is the context after the recovery.\<close>

definition watch_scoped_tail :: "'k dur_env \<Rightarrow> open_env \<Rightarrow> plan \<Rightarrow> gerr option \<Rightarrow> guardian_result \<Rightarrow> 'k world
    \<Rightarrow> guardian_result \<times> gerr option \<times> 'k world" where
  "watch_scoped_tail E V p ctx g w =
     (case open_durable V p True w of
        Inl e \<Rightarrow> (g, Some e, w)
      | Inr d \<Rightarrow>
          let g1 = g\<lparr>gr_reconciled := (jr_pending (du_rec d) \<noteq> [])\<rparr>
          in (case resolve_pending E d w of
                (Some e, d1, w1) \<Rightarrow> (g1, Some e, w1)
              | (None, d1, w1) \<Rightarrow>
                  let g2 = g1\<lparr>gr_recovered := jr_owned (du_rec d1)\<rparr>
                  in (case durable_recover E d1 w1 of
                        (Some e, d2, w2) \<Rightarrow> (g2, Some e, w2)
                      | (None, d2, w2) \<Rightarrow>
                          (g2\<lparr>gr_clean := (ctx = None \<and> jr_owned (du_rec d2) = 0)\<rparr>, ctx, w2))))"

definition watch_pidfd :: "'k dur_env \<Rightarrow> open_env \<Rightarrow> plan \<Rightarrow> bool \<Rightarrow> gerr + string \<Rightarrow> poll_round list \<Rightarrow> gerr option
    \<Rightarrow> gerr option \<Rightarrow> 'k world \<Rightarrow> (guardian_result \<times> gerr option \<times> 'k world) option" where
  "watch_pidfd E V p scoped link rounds ctx ctx_end w =
     (let g = new_guardian (-1)
      in case private_namespace ''pidfd guardian requires private namespace'' (oe_ns V) (oe_host V) of
           Inl e \<Rightarrow> Some (g, Some e, w)
         | Inr _ \<Rightarrow>
             if link \<noteq> Inr ''anon_inode:[pidfd]'' then Some (g, Some (Err ''not a pidfd''), w)
             else (case await_exit rounds of
                     None \<Rightarrow> None
                   | Some (Inl e) \<Rightarrow> Some (g, Some e, w)
                   | Some (Inr _) \<Rightarrow>
                       let g1 = g\<lparr>gr_exit_observed := True\<rparr>
                       in if ctx \<noteq> None then Some (g1, ctx, w)
                          else if scoped then Some (watch_scoped_tail E V p ctx_end g1 w)
                          else Some (recover_exit E V p False g1 w)))"

text \<open>A guardian touches the kernel only after it has seen the exit.\<close>

lemma watch_pidfd_waits:
  assumes "watch_pidfd E V p scoped link rounds ctx ctx_end w = Some (g, e, w')"
    and "\<forall>ev. (None, None, ev) \<in> set rounds \<longrightarrow> \<not> poll_dead ev"
  shows "w' = w \<and> \<not> gr_clean g \<and> \<not> gr_exit_observed g"
  using assms await_exit_dead [of rounds]
  by (auto simp: watch_pidfd_def Let_def new_guardian_def split: sum.splits if_splits option.splits)

lemma watch_worker_waits:
  "watch_worker E V p scoped started None w = (g, e, w') \<Longrightarrow> w' = w \<and> \<not> gr_clean g \<and> e \<noteq> None"
  by (auto simp: watch_worker_def new_guardian_def split: sum.splits if_splits)

section \<open>The witness of a command\<close>

record witness_source =
  ws_dup :: "gerr + nat"
  ws_link :: "gerr + string"
  ws_info :: "gerr + string"
  ws_live :: "gerr option \<times> u16 list"

text \<open>The number after the last \<open>Pid:\<close> line; a malformed one counts as 0.\<close>

definition fdinfo_pid :: "string \<Rightarrow> int" where
  "fdinfo_pid info =
     foldl (\<lambda>pid line.
        if has_prefix line ''Pid:'' then
          (case atoi (trim_space (trim_prefix line ''Pid:'')) of Some n \<Rightarrow> n | None \<Rightarrow> 0)
        else pid) 0 (split_on (CHR 0x0A) info)"

text \<open>The descriptors taken so far, and the process identities seen.\<close>

fun acquire_fds :: "string \<Rightarrow> (int \<Rightarrow> gerr + string) \<Rightarrow> witness_source list \<Rightarrow> nat list \<Rightarrow> int list
    \<Rightarrow> gerr option \<times> nat list \<times> int list" where
  "acquire_fds ns proc_ns [] fds seen = (None, fds, seen)"
| "acquire_fds ns proc_ns (s # ss) fds seen =
     (case ws_dup s of
        Inl e \<Rightarrow> (Some (Wrap ''witness duplication failed'' e), fds, seen)
      | Inr fd \<Rightarrow>
          let fds1 = fds @ [fd]
          in if ws_link s \<noteq> Inr ''anon_inode:[pidfd]''
             then (Some (Err ''witness is not a pidfd''), fds1, seen)
             else (case ws_info s of
                     Inl e \<Rightarrow> (Some e, fds1, seen)
                   | Inr info \<Rightarrow>
                       let pid = fdinfo_pid info
                       in if pid \<le> 0 \<or> pid \<in> set seen
                          then (Some (Err ''witness identities must be distinct and live''), fds1, seen)
                          else if proc_ns pid \<noteq> Inr ns
                          then (Some (Err ''witness namespace differs''), fds1, seen @ [pid])
                          else acquire_fds ns proc_ns ss fds1 (seen @ [pid])))"

definition all_live :: "witness_source list \<Rightarrow> bool" where
  "all_live ss \<longleftrightarrow> list_all (\<lambda>s. witness_poll (ws_live s) = Inr False) ss"

text \<open>
  \<open>AcquireScopedCommandWitness\<close>: on success the three owned descriptors and their identities, on
  failure the descriptors it has closed again.
\<close>

definition acquire_witness :: "gerr + string \<Rightarrow> gerr + string \<Rightarrow> (int \<Rightarrow> gerr + string) \<Rightarrow> witness_source list
    \<Rightarrow> (gerr \<times> nat list) + (nat list \<times> int list \<times> string)" where
  "acquire_witness self host proc_ns ss =
     (case witness_namespace self host of
        Inl e \<Rightarrow> Inl (e, [])
      | Inr ns \<Rightarrow>
          (case acquire_fds ns proc_ns ss [] [] of
             (Some e, fds, seen) \<Rightarrow> Inl (e, fds)
           | (None, fds, seen) \<Rightarrow>
               if \<not> all_live ss then Inl (Err ''witness exited during handoff'', fds)
               else Inr (fds, seen, ns)))"

lemma acquire_fds_ok:
  assumes "acquire_fds ns proc_ns ss fds seen = (None, fds', seen')" and "distinct seen"
    and "\<forall>pid \<in> set seen. 0 < pid \<and> proc_ns pid = Inr ns"
  shows "length fds' = length fds + length ss \<and> length seen' = length seen + length ss \<and> distinct seen' \<and>
    (\<forall>pid \<in> set seen'. 0 < pid \<and> proc_ns pid = Inr ns)"
  using assms
proof (induction ss arbitrary: fds seen)
  case Nil
  then show ?case by simp
next
  case (Cons s ss)
  obtain fd info where s: "ws_dup s = Inr fd" "ws_link s = Inr ''anon_inode:[pidfd]''" "ws_info s = Inr info"
    using Cons.prems(1) by (auto simp: Let_def split: sum.splits if_splits)
  let ?pid = "fdinfo_pid info"
  have ok: "0 < ?pid" "?pid \<notin> set seen" "proc_ns ?pid = Inr ns"
    and rec: "acquire_fds ns proc_ns ss (fds @ [fd]) (seen @ [?pid]) = (None, fds', seen')"
    using Cons.prems(1) s by (auto simp: Let_def split: if_splits)
  have "distinct (seen @ [?pid])" "\<forall>q \<in> set (seen @ [?pid]). 0 < q \<and> proc_ns q = Inr ns"
    using ok Cons.prems(2,3) by auto
  from Cons.IH [OF rec this] show ?case by simp
qed

lemma acquire_witness_ok:
  assumes "acquire_witness self host proc_ns ss = Inr (fds, pids, ns)"
  shows "length fds = length ss \<and> length pids = length ss \<and> distinct pids \<and>
    (\<forall>pid \<in> set pids. 0 < pid \<and> proc_ns pid = Inr ns) \<and> self = Inr ns \<and> host \<noteq> Inr ns \<and> all_live ss"
proof -
  have ns: "witness_namespace self host = Inr ns"
    and fds: "acquire_fds ns proc_ns ss [] [] = (None, fds, pids)" and live: "all_live ss"
    using assms by (auto simp: acquire_witness_def split: sum.splits prod.splits option.splits if_splits)
  then show ?thesis
    using acquire_fds_ok [OF fds] ns by (auto simp: witness_namespace_def split: if_splits)
qed

text \<open>Recovery of a witness: every pinned process has exited before the journal is opened.\<close>

record command_witness =
  cw_fds :: "nat list"
  cw_namespace :: string

record witness_report =
  wr_witnesses :: nat
  wr_all_exited :: bool
  wr_recovery :: guardian_result

text \<open>One poll round of a witness: the context and the poll of its descriptor.\<close>

fun await_witness :: "(gerr option \<times> gerr option \<times> u16 list) list \<Rightarrow> (gerr + unit) option" where
  "await_witness [] = None"
| "await_witness ((ctx, p) # rs) =
     (case ctx of
        Some e \<Rightarrow> Some (Inl e)
      | None \<Rightarrow>
          (case witness_poll p of
             Inl e \<Rightarrow> Some (Inl e)
           | Inr True \<Rightarrow> Some (Inr ())
           | Inr False \<Rightarrow> await_witness rs))"

fun await_all :: "(gerr option \<times> gerr option \<times> u16 list) list list \<Rightarrow> (gerr + unit) option" where
  "await_all [] = Some (Inr ())"
| "await_all (r # rs) =
     (case await_witness r of Some (Inr _) \<Rightarrow> await_all rs | x \<Rightarrow> x)"

definition recover_witness :: "'k dur_env \<Rightarrow> open_env \<Rightarrow> plan \<Rightarrow> command_witness \<Rightarrow> bool
    \<Rightarrow> (gerr option \<times> gerr option \<times> u16 list) list list \<Rightarrow> gerr option
    \<Rightarrow> gerr + string \<Rightarrow> poll_round list \<Rightarrow> gerr option \<Rightarrow> gerr option \<Rightarrow> 'k world
    \<Rightarrow> (witness_report \<times> gerr option \<times> 'k world) option" where
  "recover_witness E V p cw deadline polls ctx link rounds ctx1 ctx_end w =
     (let r = \<lparr>wr_witnesses = 0, wr_all_exited = False, wr_recovery = new_guardian (-1)\<rparr>
      in if length (cw_fds cw) \<noteq> 3 then Some (r, Some (Err ''command witness closed or incomplete''), w)
         else
           let r1 = r\<lparr>wr_witnesses := length (cw_fds cw)\<rparr>
           in if witness_namespace (oe_ns V) (oe_host V) \<noteq> Inr (cw_namespace cw)
              then Some (r1, Some (Err ''command witness namespace changed''), w)
              else if \<not> deadline then Some (r1, Some (Err ''command witness recovery deadline required''), w)
              else case plan_steps p of Inl e \<Rightarrow> Some (r1, Some e, w) | Inr _ \<Rightarrow>
                (case await_all polls of
                   None \<Rightarrow> None
                 | Some (Inl e) \<Rightarrow> Some (r1, Some e, w)
                 | Some (Inr _) \<Rightarrow>
                     if ctx \<noteq> None then Some (r1, ctx, w)
                     else (case watch_pidfd E V p True link rounds ctx1 ctx_end w of
                             None \<Rightarrow> None
                           | Some (g, e, w1) \<Rightarrow>
                             Some (r1\<lparr>wr_all_exited := True, wr_recovery := g\<rparr>, e, w1))))"

lemma await_witness_dead:
  "await_witness rs = Some (Inr ()) \<Longrightarrow> \<exists>p. (None, p) \<in> set rs \<and> witness_poll p = Inr True"
proof (induction rs)
  case (Cons r rs)
  obtain ctx q where r: "r = (ctx, q)" by (cases r)
  have ctx: "ctx = None" using Cons.prems r by (cases ctx) auto
  consider e where "witness_poll q = Inl e" | "witness_poll q = Inr True" | "witness_poll q = Inr False"
    by (cases "witness_poll q") auto
  then show ?case
  proof cases
    case 2
    then show ?thesis using r ctx by (metis list.set_intros(1))
  next
    case 3
    then have "await_witness rs = Some (Inr ())" using Cons.prems r ctx by simp
    then show ?thesis using Cons.IH by auto
  qed (use Cons.prems r ctx in auto)
qed simp

lemma await_all_dead:
  "await_all polls = Some (Inr ()) \<Longrightarrow>
     list_all (\<lambda>rs. \<exists>p. (None, p) \<in> set rs \<and> witness_poll p = Inr True) polls"
proof (induction polls)
  case (Cons rs polls)
  have one: "await_witness rs = Some (Inr ())" and rest: "await_all polls = Some (Inr ())"
    using Cons.prems by (auto split: option.splits sum.splits)
  show ?case using await_witness_dead [OF one] Cons.IH [OF rest] by simp
qed simp

lemma recover_witness_waits:
  assumes "recover_witness E V p cw deadline polls ctx link rounds ctx1 ctx_end w = Some (r, e, w')"
    and "w' \<noteq> w"
  shows "wr_all_exited r \<and> list_all (\<lambda>rs. \<exists>p. (None, p) \<in> set rs \<and> witness_poll p = Inr True) polls"
proof -
  have "await_all polls = Some (Inr ())"
  proof (rule ccontr)
    assume no: "await_all polls \<noteq> Some (Inr ())"
    show False
    proof (cases "await_all polls")
      case None
      then show ?thesis using assms by (simp add: recover_witness_def Let_def split: if_splits sum.splits)
    next
      case (Some x)
      then obtain err where "x = Inl err" using no by (cases x) auto
      then show ?thesis using assms Some by (simp add: recover_witness_def Let_def split: if_splits sum.splits)
    qed
  qed
  then show ?thesis
    using assms await_all_dead [of polls]
    by (auto simp: recover_witness_def Let_def split: if_splits sum.splits option.splits prod.splits)
qed

section \<open>The guarded command\<close>

text \<open>How a finished child is reported as an exit code.\<close>

datatype child_end = ChildOk | ChildSignaled nat | ChildExit int | ChildLaunchFailed

definition guard_exit_code :: "child_end \<Rightarrow> int" where
  "guard_exit_code c =
     (case c of ChildOk \<Rightarrow> 0 | ChildSignaled s \<Rightarrow> 128 + int s | ChildExit n \<Rightarrow> n | ChildLaunchFailed \<Rightarrow> 1)"

record guard_env =
  ge_self :: "gerr + string"
  ge_host :: "gerr + string"
  ge_euid :: u32
  ge_lease :: "(gerr + file_stat) option"
  ge_flock :: "gerr option"
  ge_child :: child_end

definition guard_argument :: string where "guard_argument = ''__tproxy-command-guard-v1''"
definition registered_guard_argument :: string where "registered_guard_argument = ''__tproxy-registered-guard-v1''"
definition registered_anchor_argument :: string where "registered_anchor_argument = ''__tproxy-registered-anchor-v1''"
definition admission_argument :: string where "admission_argument = ''__tproxy-command-admission-v1''"

text \<open>
  The dispatcher before the ordinary command line: \<open>None\<close> when the arguments are not its own. The
  exits of the other three entries are arguments.
\<close>

definition guard_entry :: "guard_env \<Rightarrow> int \<Rightarrow> int \<Rightarrow> int \<Rightarrow> string list \<Rightarrow> int option" where
  "guard_entry G registered_guard anchor admission args =
     (if length args > 1 \<and> args ! 1 = registered_guard_argument then Some registered_guard
      else if length args > 1 \<and> args ! 1 = registered_anchor_argument then Some anchor
      else if length args > 1 \<and> args ! 1 = admission_argument then Some admission
      else if length args < 2 \<or> args ! 1 \<noteq> guard_argument then None
      else if length args < 4 \<or> args ! 2 \<noteq> ''--'' then Some 1
      else if \<not> is_ok (ge_self G) \<or> \<not> is_ok (ge_host G) \<or> ge_self G = ge_host G then Some 1
      else (case ge_lease G of
              None \<Rightarrow> Some 1
            | Some st \<Rightarrow>
                if private_file (ge_euid G) st \<noteq> None \<or> ge_flock G \<noteq> None then Some 1
                else Some (guard_exit_code (ge_child G))))"

text \<open>\<open>queryLeasedContext\<close>: the result of the guard's run, or the refusal.\<close>

definition query_leased :: "bool \<Rightarrow> gerr + string \<Rightarrow> (argv \<Rightarrow> cmd_result) \<Rightarrow> argv \<Rightarrow> cmd_result" where
  "query_leased lease exe run args =
     (if \<not> lease \<or> args = [] then
        \<lparr>res_command = args, res_exit = -1, res_output = [], res_error = ''scoped command lease required'', res_sha256 = []\<rparr>
      else case exe of
        Inl e \<Rightarrow> \<lparr>res_command = args, res_exit = -1, res_output = [],
                  res_error = ''command guard executable unavailable'', res_sha256 = []\<rparr>
      | Inr path \<Rightarrow> (run ([path, guard_argument, ''--''] @ args))\<lparr>res_command := args\<rparr>)"

lemma query_leased_refused:
  "\<not> lease \<or> args = [] \<or> \<not> is_ok exe \<Longrightarrow> command_error (query_leased lease exe run args) \<noteq> None"
  by (auto simp: query_leased_def command_error_def split: sum.splits)

end
