(* ===== verification/Broker.thy ===== *)
theory Broker
  imports Guardian
begin

text \<open>
  The worker's command broker, \<open>ebpf-proxy/internal/tproxy/worker_broker_linux.go\<close>: the membership
  registry, the command allow-list, the worker's client, the broker's loop and the supervision that
  cleans up only when the registry proves that every admitted command has exited.
\<close>

section \<open>The registry\<close>

record registry =
  rg_requested :: u64
  rg_completed :: u64
  rg_active :: bool
  rg_blocked :: bool
  rg_sealed :: bool

definition new_registry :: registry where
  "new_registry = \<lparr>rg_requested = 0, rg_completed = 0, rg_active = False, rg_blocked = False, rg_sealed = False\<rparr>"

definition registry_reserve :: "u64 \<Rightarrow> registry \<Rightarrow> gerr option \<times> registry" where
  "registry_reserve rid r =
     (if rg_blocked r \<or> rg_sealed r \<or> rg_active r \<or> rid \<noteq> rg_requested r + 1
      then (Some (Err ''worker command membership refused''), r\<lparr>rg_blocked := True\<rparr>)
      else (None, r\<lparr>rg_requested := rid, rg_active := True\<rparr>))"

definition registry_finish :: "bool \<Rightarrow> registry \<Rightarrow> registry" where
  "registry_finish quiet r =
     (let r1 = (if \<not> rg_active r \<or> \<not> quiet then r\<lparr>rg_blocked := True\<rparr> else r);
          r2 = (if quiet \<and> rg_active r1 then r1\<lparr>rg_completed := rg_completed r1 + 1\<rparr> else r1)
      in r2\<lparr>rg_active := False\<rparr>)"

definition clean_gate :: "registry \<Rightarrow> bool" where
  "clean_gate r \<longleftrightarrow> rg_sealed r \<and> \<not> rg_blocked r \<and> \<not> rg_active r \<and> rg_requested r = rg_completed r"

section \<open>What may be run\<close>

definition broker_allowed :: "plan \<Rightarrow> argv \<Rightarrow> bool" where
  "broker_allowed p args \<longleftrightarrow>
     args \<in> set capture_queries \<or>
     (case plan_steps p of
        Inl e \<Rightarrow> False
      | Inr steps \<Rightarrow>
          list_ex (\<lambda>s. args = step_add s \<or> args = step_remove s \<or> args = check_args (step_remove s)) steps)"

section \<open>Records on the channel\<close>

type_synonym binding = "u8 list"

record broker_request =
  br_version :: int
  br_id :: u64
  br_binding :: binding
  br_args :: argv

record broker_response =
  bs_version :: int
  bs_id :: u64
  bs_quiet :: bool
  bs_command :: cmd_result

definition broker_limit :: nat where "broker_limit = 150000"

text \<open>A Go \<open>[32]byte\<close>: further elements are skipped, missing ones are zero.\<close>

definition dec_bytes32 :: "json \<Rightarrow> binding \<Rightarrow> binding option" where
  "dec_bytes32 v old =
     (case v of
        JNull \<Rightarrow> Some old
      | JArr vs \<Rightarrow>
          let xs = map (\<lambda>x. dec_uint 8 x 0) (take 32 vs)
          in if None \<in> set xs then None
             else Some (map (\<lambda>x. word_of_nat (the x)) xs @ replicate (32 - length xs) 0)
      | _ \<Rightarrow> None)"

definition dec_argv :: "json \<Rightarrow> argv \<Rightarrow> argv option" where
  "dec_argv v old =
     (case v of
        JNull \<Rightarrow> Some []
      | JArr vs \<Rightarrow>
          let xs = map (\<lambda>x. dec_string x []) vs in if None \<in> set xs then None else Some (map the xs)
      | _ \<Rightarrow> None)"

definition request_field :: "string \<Rightarrow> json \<Rightarrow> broker_request \<Rightarrow> broker_request option" where
  "request_field k v r =
     (if fold_eq k ''version'' then map_option (\<lambda>i. r\<lparr>br_version := i\<rparr>) (dec_int v (br_version r))
      else if fold_eq k ''id'' then map_option (\<lambda>n. r\<lparr>br_id := word_of_nat n\<rparr>) (dec_uint 64 v (unat (br_id r)))
      else if fold_eq k ''binding'' then map_option (\<lambda>b. r\<lparr>br_binding := b\<rparr>) (dec_bytes32 v (br_binding r))
      else if fold_eq k ''args'' then map_option (\<lambda>a. r\<lparr>br_args := a\<rparr>) (dec_argv v (br_args r))
      else None)"

definition result_field :: "string \<Rightarrow> json \<Rightarrow> cmd_result \<Rightarrow> cmd_result option" where
  "result_field k v r =
     (if fold_eq k ''command'' then map_option (\<lambda>a. r\<lparr>res_command := a\<rparr>) (dec_argv v (res_command r))
      else if fold_eq k ''exit_code'' then map_option (\<lambda>i. r\<lparr>res_exit := i\<rparr>) (dec_int v (res_exit r))
      else if fold_eq k ''output'' then map_option (\<lambda>s. r\<lparr>res_output := s\<rparr>) (dec_string v (res_output r))
      else if fold_eq k ''error'' then map_option (\<lambda>s. r\<lparr>res_error := s\<rparr>) (dec_string v (res_error r))
      else if fold_eq k ''sha256'' then map_option (\<lambda>s. r\<lparr>res_sha256 := s\<rparr>) (dec_string v (res_sha256 r))
      else None)"

definition response_field :: "string \<Rightarrow> json \<Rightarrow> broker_response \<Rightarrow> broker_response option" where
  "response_field k v r =
     (if fold_eq k ''version'' then map_option (\<lambda>i. r\<lparr>bs_version := i\<rparr>) (dec_int v (bs_version r))
      else if fold_eq k ''id'' then map_option (\<lambda>n. r\<lparr>bs_id := word_of_nat n\<rparr>) (dec_uint 64 v (unat (bs_id r)))
      else if fold_eq k ''quiet'' then map_option (\<lambda>b. r\<lparr>bs_quiet := b\<rparr>) (dec_bool v (bs_quiet r))
      else if fold_eq k ''command'' then
        map_option (\<lambda>c. r\<lparr>bs_command := c\<rparr>) (dec_struct result_field v (bs_command r))
      else None)"

definition no_result :: cmd_result where
  "no_result = \<lparr>res_command = [], res_exit = 0, res_output = [], res_error = [], res_sha256 = []\<rparr>"

definition broker_decode :: "(json \<Rightarrow> 'a option) \<Rightarrow> string \<Rightarrow> gerr + 'a" where
  "broker_decode dec b = decode_single dec b (Err ''invalid broker record'') (Err ''trailing broker record'')"

definition dec_request :: "json \<Rightarrow> broker_request option" where
  "dec_request v = dec_struct request_field v
     \<lparr>br_version = 0, br_id = 0, br_binding = replicate 32 0, br_args = []\<rparr>"

definition dec_response :: "json \<Rightarrow> broker_response option" where
  "dec_response v = dec_struct response_field v
     \<lparr>bs_version = 0, bs_id = 0, bs_quiet = False, bs_command = no_result\<rparr>"

text \<open>One received message: payload, ancillary size, truncation, control messages, descriptors.\<close>

record packet =
  pk_bytes :: string
  pk_control :: nat
  pk_truncated :: bool
  pk_parse_ok :: bool
  pk_messages :: nat
  pk_fds :: "nat list"

definition packet_check :: "nat \<Rightarrow> packet \<Rightarrow> gerr + string \<times> nat list" where
  "packet_check want k =
     (if pk_bytes k = [] \<and> pk_control k = 0 then Inl Eof
      else if length (pk_bytes k) > broker_limit \<or> pk_truncated k \<or> \<not> pk_parse_ok k \<or>
              length (pk_fds k) \<noteq> want \<or> (want = 0 \<and> pk_control k \<noteq> 0) \<or> (want > 0 \<and> pk_messages k \<noteq> 1)
      then Inl (Err ''invalid broker packet/descriptors'')
      else Inr (pk_bytes k, pk_fds k))"

text \<open>
  \<open>brokerReceive\<close>: rounds of a context check and a receive, retried (after a poll) on \<open>EAGAIN\<close> and
  \<open>EINTR\<close>; \<open>None\<close> when the rounds end.
\<close>

type_synonym recv_round = "gerr option \<times> (gerr + packet) \<times> gerr option"

fun broker_receive :: "nat \<Rightarrow> recv_round list \<Rightarrow> (gerr + string \<times> nat list) option" where
  "broker_receive want [] = None"
| "broker_receive want ((ctx, recv, poll) # rs) =
     (case ctx of
        Some e \<Rightarrow> Some (Inl e)
      | None \<Rightarrow>
          (case recv of
             Inl e \<Rightarrow>
               if e = Eagain \<or> e = Eintr then
                 (case poll of Some pe \<Rightarrow> Some (Inl pe) | None \<Rightarrow> broker_receive want rs)
               else Some (Inl e)
           | Inr k \<Rightarrow> Some (packet_check want k)))"

lemma broker_receive_ok:
  "broker_receive want rs = Some (Inr (b, fds)) \<Longrightarrow> length fds = want \<and> length b \<le> broker_limit"
proof (induction rs)
  case (Cons r rs)
  obtain ctx recv poll where r: "r = (ctx, recv, poll)" by (cases r) auto
  show ?case
    using Cons r by (auto simp: packet_check_def split: option.splits sum.splits if_splits)
qed simp

section \<open>The worker's side\<close>

record client =
  cl_id :: u64
  cl_blocked :: bool

definition broker_failure :: "argv \<Rightarrow> cmd_result" where
  "broker_failure args =
     \<lparr>res_command = args, res_exit = -1, res_output = [], res_error = ''worker broker proof unavailable'', res_sha256 = []\<rparr>"

text \<open>
  One brokered command: the request that is sent (if any) and the result. \<open>send\<close> and \<open>reply\<close> are
  the outcomes of the exchange.
\<close>

definition client_run :: "plan \<Rightarrow> binding \<Rightarrow> argv \<Rightarrow> gerr option \<Rightarrow> gerr + string \<Rightarrow> client
    \<Rightarrow> cmd_result \<times> broker_request option \<times> client" where
  "client_run p bnd args send reply c =
     (if cl_blocked c \<or> \<not> broker_allowed p args
      then (broker_failure args, None, c\<lparr>cl_blocked := True\<rparr>)
      else
        let rid = cl_id c + 1;
            c1 = c\<lparr>cl_id := rid\<rparr>;
            req = \<lparr>br_version = 1, br_id = rid, br_binding = bnd, br_args = args\<rparr>;
            refused = (broker_failure args, Some req, c1\<lparr>cl_blocked := True\<rparr>)
        in if send \<noteq> None then refused
           else (case reply of
                   Inl e \<Rightarrow> refused
                 | Inr b \<Rightarrow>
                     (case broker_decode dec_response b of
                        Inl e \<Rightarrow> refused
                      | Inr r \<Rightarrow>
                          if bs_version r \<noteq> 1 \<or> bs_id r \<noteq> rid \<or> \<not> bs_quiet r \<or> res_command (bs_command r) \<noteq> args
                          then refused
                          else (bs_command r, Some req, c1))))"

text \<open>A failed proof is sticky, and a result is only ever for the command that was asked.\<close>

lemma client_run_sticky:
  "cl_blocked c \<Longrightarrow> client_run p bnd args send reply c = (broker_failure args, None, c)"
  by (cases c) (simp add: client_run_def)

lemma client_run_cases:
  assumes "client_run p bnd args send reply c = (r, req, c')"
  shows "res_command r = args \<and> (cl_blocked c' \<longleftrightarrow> r = broker_failure args \<and> cl_blocked c') \<and>
    (req \<noteq> None \<longrightarrow> broker_allowed p args \<and> \<not> cl_blocked c \<and> req = Some \<lparr>br_version = 1, br_id = cl_id c + 1, br_binding = bnd, br_args = args\<rparr> \<and> cl_id c' = cl_id c + 1) \<and>
    (\<not> cl_blocked c' \<longrightarrow> req \<noteq> None)"
  using assms
  by (auto simp: client_run_def broker_failure_def Let_def split: if_splits sum.splits)

section \<open>The broker's loop\<close>

text \<open>
  One round: the received packet (as \<open>brokerReceive\<close> reports it), whether the lease is the journal's
  lock and private, the binding now, what the registered command did, and the reply's outcome.
\<close>

record broker_round =
  rd_recv :: "gerr + string \<times> nat list"
  rd_lease_ok :: bool
  rd_binding :: "gerr + binding"
  rd_started :: bool
  rd_quiescent :: bool
  rd_result :: cmd_result
  rd_send :: "gerr option"

record broker_state =
  bk_registry :: registry
  bk_stopped :: bool
  bk_executed :: "(u64 \<times> argv) list"

definition request_valid :: "plan \<Rightarrow> binding \<Rightarrow> broker_round \<Rightarrow> string \<Rightarrow> broker_request option" where
  "request_valid p bnd R b =
     (case broker_decode dec_request b of
        Inl e \<Rightarrow> None
      | Inr q \<Rightarrow>
          if br_version q = 1 \<and> br_binding q = bnd \<and> broker_allowed p (br_args q) \<and> rd_lease_ok R \<and>
             rd_binding R = Inr bnd
          then Some q else None)"

definition broker_block :: "broker_state \<Rightarrow> broker_state" where
  "broker_block s = s\<lparr>bk_registry := (bk_registry s)\<lparr>rg_blocked := True\<rparr>, bk_stopped := True\<rparr>"

text \<open>The boolean says whether the loop goes on.\<close>

definition broker_round_step :: "plan \<Rightarrow> binding \<Rightarrow> broker_round \<Rightarrow> broker_state \<Rightarrow> broker_state \<times> bool" where
  "broker_round_step p bnd R s =
     (case rd_recv R of
        Inl e \<Rightarrow> if e = Eof \<or> e = Canceled then (s, False) else (broker_block s, False)
      | Inr (b, fds) \<Rightarrow>
          (case request_valid p bnd R b of
             None \<Rightarrow> (broker_block s, False)
           | Some q \<Rightarrow>
               (case registry_reserve (br_id q) (bk_registry s) of
                  (Some e, rg) \<Rightarrow> (broker_block (s\<lparr>bk_registry := rg\<rparr>), False)
                | (None, rg) \<Rightarrow>
                    let s1 = s\<lparr>bk_registry := registry_finish (rd_started R \<and> rd_quiescent R) rg,
                               bk_executed := bk_executed s @ [(br_id q, br_args q)]\<rparr>
                    in if rg_blocked (bk_registry s1) then (s1\<lparr>bk_stopped := True\<rparr>, False)
                       else if rd_send R \<noteq> None then (s1\<lparr>bk_stopped := True\<rparr>, False)
                       else (s1, True))))"

fun broker_rounds :: "plan \<Rightarrow> binding \<Rightarrow> broker_round list \<Rightarrow> broker_state \<Rightarrow> broker_state" where
  "broker_rounds p bnd [] s = s"
| "broker_rounds p bnd (R # Rs) s =
     (case broker_round_step p bnd R s of (s1, go) \<Rightarrow> if go then broker_rounds p bnd Rs s1 else s1)"

text \<open>The deferred seal ends every run.\<close>

definition broker_run :: "plan \<Rightarrow> binding \<Rightarrow> broker_round list \<Rightarrow> broker_state \<Rightarrow> broker_state" where
  "broker_run p bnd Rs s =
     (let s1 = broker_rounds p bnd Rs s in s1\<lparr>bk_registry := (bk_registry s1)\<lparr>rg_sealed := True\<rparr>\<rparr>)"

definition new_broker :: broker_state where
  "new_broker = \<lparr>bk_registry = new_registry, bk_stopped = False, bk_executed = []\<rparr>"

text \<open>
  While nothing is blocked, the executed commands are exactly the requested ones, in the order of
  their consecutive identifiers, each allowed by the plan.
\<close>

definition broker_inv :: "plan \<Rightarrow> broker_state \<Rightarrow> bool" where
  "broker_inv p s \<longleftrightarrow>
     list_all (\<lambda>x. broker_allowed p (snd x)) (bk_executed s) \<and> \<not> rg_active (bk_registry s) \<and>
     (\<not> rg_blocked (bk_registry s) \<longrightarrow>
        rg_requested (bk_registry s) = rg_completed (bk_registry s) \<and>
        rg_requested (bk_registry s) = word_of_nat (length (bk_executed s)) \<and>
        map fst (bk_executed s) = map (\<lambda>i. word_of_nat (Suc i)) [0 ..< length (bk_executed s)])"

lemma broker_round_inv:
  assumes "broker_inv p s" and "broker_round_step p bnd R s = (s', go)"
  shows "broker_inv p s' \<and> (go \<longrightarrow> \<not> rg_blocked (bk_registry s'))"
proof (cases "rd_recv R")
  case (Inl e)
  then show ?thesis using assms by (auto simp: broker_round_step_def broker_inv_def broker_block_def split: if_splits)
next
  case (Inr pk)
  obtain b fds where pk: "pk = (b, fds)" by (cases pk)
  show ?thesis
  proof (cases "request_valid p bnd R b")
    case None
    then show ?thesis using assms Inr pk
      by (auto simp: broker_round_step_def broker_inv_def broker_block_def)
  next
    case (Some q)
    have allowed: "broker_allowed p (br_args q)"
      using Some by (auto simp: request_valid_def split: sum.splits if_splits)
    obtain e rg where res: "registry_reserve (br_id q) (bk_registry s) = (e, rg)" by fastforce
    show ?thesis
    proof (cases e)
      case (Some err)
      then have "rg_active rg = rg_active (bk_registry s)"
        using res by (auto simp: registry_reserve_def split: if_splits)
      then show ?thesis using assms Inr pk Some \<open>request_valid p bnd R b = Some q\<close> res
        by (auto simp: broker_round_step_def broker_inv_def broker_block_def)
    next
      case None
      then have rg: "rg = (bk_registry s)\<lparr>rg_requested := br_id q, rg_active := True\<rparr>"
        and rid: "br_id q = rg_requested (bk_registry s) + 1" and nb: "\<not> rg_blocked (bk_registry s)"
        using res by (auto simp: registry_reserve_def split: if_splits)
      let ?s1 = "s\<lparr>bk_registry := registry_finish (rd_started R \<and> rd_quiescent R) rg,
                   bk_executed := bk_executed s @ [(br_id q, br_args q)]\<rparr>"
      have inv1: "broker_inv p ?s1"
        using assms(1) allowed rg rid nb
        by (auto simp: broker_inv_def registry_finish_def Let_def add.commute)
      have "s' = ?s1 \<or> s' = ?s1\<lparr>bk_stopped := True\<rparr>" "go \<longrightarrow> s' = ?s1 \<and> \<not> rg_blocked (bk_registry ?s1)"
        using assms(2) Inr pk Some res None
        by (auto simp: broker_round_step_def Let_def split: if_splits)
      then show ?thesis using inv1 by (auto simp: broker_inv_def)
    qed
  qed
qed

lemma broker_rounds_inv: "broker_inv p s \<Longrightarrow> broker_inv p (broker_rounds p bnd Rs s)"
proof (induction Rs arbitrary: s)
  case (Cons R Rs)
  obtain s1 go where st: "broker_round_step p bnd R s = (s1, go)" by fastforce
  then have "broker_inv p s1" using broker_round_inv [OF Cons.prems] by blast
  then show ?case using Cons.IH st by simp
qed simp

lemma new_broker_inv: "broker_inv p new_broker"
  by (simp add: broker_inv_def new_broker_def new_registry_def)

text \<open>Every executed command of a round was valid, and exited quietly unless the run was blocked.\<close>

lemma broker_run_gate:
  assumes "clean_gate (bk_registry (broker_run p bnd Rs new_broker))"
  defines "s \<equiv> broker_run p bnd Rs new_broker"
  shows "list_all (\<lambda>x. broker_allowed p (snd x)) (bk_executed s) \<and>
    map fst (bk_executed s) = map (\<lambda>i. word_of_nat (Suc i)) [0 ..< length (bk_executed s)] \<and>
    rg_completed (bk_registry s) = word_of_nat (length (bk_executed s))"
  using broker_rounds_inv [OF new_broker_inv, of p bnd Rs] assms
  by (auto simp: broker_run_def Let_def broker_inv_def clean_gate_def)

section \<open>Brokered supervision\<close>

text \<open>The gate after an attempt, on top of the round of the plain supervisor.\<close>

record gated_round = round +
  gd_socketpair :: "gerr option"
  gd_started :: bool
  gd_drained :: bool
  gd_broker :: "broker_round list"
  gd_binding :: "gerr + binding"

definition attempt_registry :: "plan \<Rightarrow> binding \<Rightarrow> gated_round \<Rightarrow> registry" where
  "attempt_registry p bnd R =
     (if gd_started R then bk_registry (broker_run p bnd (gd_broker R) new_broker)
      else new_registry\<lparr>rg_sealed := True\<rparr>)"

fun brokered_loop :: "plan \<Rightarrow> binding \<Rightarrow> (nat \<Rightarrow> gated_round) \<Rightarrow> nat \<Rightarrow> nat \<Rightarrow> supervisor_result \<times> registry list
    \<Rightarrow> (supervisor_result \<times> registry list) \<times> gerr option" where
  "brokered_loop p bnd rounds 0 number rr = (rr, Some (Err ''unreachable broker state''))"
| "brokered_loop p bnd rounds (Suc left) number rr =
     (let R = rounds number; r = fst rr; regs = snd rr
      in if ro_stop_before R \<or> (number > 0 \<and> ro_stop_backoff R)
         then ((r\<lparr>sr_state := ''stopped''\<rparr>, regs), None)
         else if gd_socketpair R \<noteq> None then (rr, gd_socketpair R)
         else
           let a = fst (supervise_attempt (ro_attempt R) True number)
           in if gd_started R \<and> \<not> gd_drained R
              then ((r\<lparr>sr_attempts := sr_attempts r @ [a], sr_clean := False\<rparr>, regs),
                    Some (Err ''worker command registry drain unverified''))
              else
                let rg = attempt_registry p bnd R;
                    r1 = add_attempt a number r;
                    regs1 = regs @ [rg]
                in if (\<not> at_exit_observed a \<and> at_reason a \<noteq> ''launch_failed'') \<or> \<not> clean_gate rg
                   then ((r1, regs1), Some (Err ''worker membership/exit unverified; no cleanup/restart''))
                   else if gd_binding R \<noteq> Inr bnd
                   then ((r1, regs1), Some (Err ''broker state binding changed; no cleanup/restart''))
                   else
                     let r2 = settle_attempt (\<lambda>a. a\<lparr>at_recovered := fst (ro_cleanup R)\<rparr>) r1
                     in if snd (ro_cleanup R) \<noteq> None
                        then ((r2, regs1), Some (Err ''broker recovery refused''))
                        else
                          let r3 = (settle_attempt (\<lambda>a. a\<lparr>at_clean := True\<rparr>) r2)\<lparr>sr_clean := True\<rparr>
                          in if ro_stop_after R then ((r3\<lparr>sr_state := ''stopped''\<rparr>, regs1), None)
                             else if at_ready a \<and> at_exit_observed a \<and> at_exit_code a = 0
                             then ((r3\<lparr>sr_state := ''completed''\<rparr>, regs1), None)
                             else if left = 0
                             then ((r3\<lparr>sr_state := ''exhausted''\<rparr>, regs1),
                                   Some (Err ''broker restart budget exhausted after verified cleanup''))
                             else brokered_loop p bnd rounds left (Suc number) (r3, regs1))"

text \<open>The admission before the loop and the marker file that outlives an unclean run.\<close>

record session_env =
  se_context :: bool
  se_binding :: "gerr + binding"
  se_open :: "gerr + durable"
  se_session :: "gerr option"
  se_root :: "gerr option"
  se_marker :: "gerr option"
  se_marker_sync :: "gerr option"
  se_cleanup :: "int \<times> gerr option"
  se_remove :: "gerr option"
  se_remove_sync :: "gerr option"

datatype marker = MarkerAbsent | MarkerPresent

definition session_refused :: "supervisor_options \<Rightarrow> session_env \<Rightarrow> gerr option" where
  "session_refused v S =
     (if \<not> se_context S then Some (Err ''broker supervisor context/factory required'')
      else if \<not> valid_supervisor v then Some (Err ''invalid bounded supervisor options'')
      else case se_binding S of Inl e \<Rightarrow> Some e | Inr _ \<Rightarrow>
      (case se_open S of Inl e \<Rightarrow> Some e | Inr d \<Rightarrow>
       if jr_owned (du_rec d) \<noteq> 0 \<or> jr_pending (du_rec d) \<noteq> []
       then Some (Err ''prior worker state has no broker membership proof; no adoption'')
       else if se_session S \<noteq> None then Some (Err ''broker session unavailable'')
       else se_root S))"

definition close_session :: "session_env \<Rightarrow> (supervisor_result \<times> registry list) \<times> gerr option \<Rightarrow> marker
    \<Rightarrow> (supervisor_result \<times> registry list) \<times> gerr option \<times> marker" where
  "close_session S out m =
     (case out of ((r, regs), e) \<Rightarrow>
        if \<not> sr_clean r then ((r, regs), e, m)
        else (case se_remove S of
                Some re \<Rightarrow> ((r\<lparr>sr_clean := False, sr_state := ''blocked''\<rparr>, regs), Some re, m)
              | None \<Rightarrow>
                  (case se_remove_sync S of
                     Some se \<Rightarrow> ((r\<lparr>sr_clean := False, sr_state := ''blocked''\<rparr>, regs), Some se, MarkerAbsent)
                   | None \<Rightarrow> ((r, regs), e, MarkerAbsent))))"

definition supervise_brokered :: "supervisor_options \<Rightarrow> plan \<Rightarrow> session_env \<Rightarrow> (nat \<Rightarrow> gated_round) \<Rightarrow> marker
    \<Rightarrow> (supervisor_result \<times> registry list) \<times> gerr option \<times> marker" where
  "supervise_brokered v p S rounds m =
     (let r = \<lparr>sr_state = ''blocked'', sr_clean = False, sr_restarts = 0, sr_attempts = []\<rparr>
      in case session_refused v S of
           Some e \<Rightarrow> ((r, []), Some e, m)
         | None \<Rightarrow>
             if m = MarkerPresent \<or> se_marker S \<noteq> None
             then ((r, []), Some (Err ''unresolved broker session; no cleanup/restart''), m)
             else if se_marker_sync S \<noteq> None
             then ((r, []), Some (Err ''broker admission durability failed''), MarkerPresent)
             else if snd (se_cleanup S) \<noteq> None then ((r, []), snd (se_cleanup S), MarkerPresent)
             else (case se_binding S of
                     Inl e \<Rightarrow> ((r, []), Some e, MarkerPresent)
                   | Inr bnd \<Rightarrow>
                       close_session S
                         (brokered_loop p bnd rounds (Suc (nat (sv_max_restarts v))) 0 (r\<lparr>sr_clean := True\<rparr>, []))
                         MarkerPresent))"

section \<open>Only proven-quiet attempts are cleaned up\<close>

definition gated_inv :: "nat \<Rightarrow> supervisor_result \<times> registry list \<Rightarrow> bool" where
  "gated_inv number rr \<longleftrightarrow>
     sr_clean (fst rr) \<and> length (sr_attempts (fst rr)) = number \<and> length (snd rr) = number \<and>
     list_all settled_attempt (sr_attempts (fst rr)) \<and> list_all clean_gate (snd rr)"

text \<open>What the end of the loop guarantees about the attempts before the last and about a clean result.\<close>

definition gated_ok :: "nat \<Rightarrow> supervisor_result \<times> registry list \<Rightarrow> bool" where
  "gated_ok limit rr \<longleftrightarrow>
     length (sr_attempts (fst rr)) \<le> limit \<and>
     list_all settled_attempt (butlast (sr_attempts (fst rr))) \<and>
     (sr_clean (fst rr) \<longrightarrow>
        list_all settled_attempt (sr_attempts (fst rr)) \<and> list_all clean_gate (snd rr) \<and>
        length (snd rr) = length (sr_attempts (fst rr)))"

lemma gated_inv_ok: "gated_inv number rr \<Longrightarrow> number \<le> limit \<Longrightarrow> gated_ok limit rr"
  by (auto simp: gated_inv_def gated_ok_def list_all_iff dest: in_set_butlastD)

lemma gated_ok_state: "gated_ok limit (r\<lparr>sr_state := st\<rparr>, regs) = gated_ok limit (r, regs)"
  by (simp add: gated_ok_def)

lemma brokered_loop_ok:
  assumes "gated_inv number rr" and "0 < left"
  shows "gated_ok (number + left) (fst (brokered_loop p bnd rounds left number rr))"
  using assms
proof (induction left arbitrary: number rr)
  case (Suc left)
  obtain r regs where rr: "rr = (r, regs)" by (cases rr)
  let ?R = "rounds number"
  let ?a = "fst (supervise_attempt (ro_attempt ?R) True number)"
  let ?rg = "attempt_registry p bnd ?R"
  have inv: "sr_clean r" "length (sr_attempts r) = number" "length regs = number"
    "list_all settled_attempt (sr_attempts r)" "list_all clean_gate regs"
    using Suc.prems(1) rr by (simp_all add: gated_inv_def)
  have same: "gated_ok (number + Suc left) (r, regs)"
    using gated_inv_ok [OF Suc.prems(1), of "number + Suc left"] rr by simp
  have unclean: "gated_ok (number + Suc left) (r', regs')"
    if "sr_attempts r' = sr_attempts r @ [b]" "\<not> sr_clean r'" for r' b regs'
    using that inv by (simp add: gated_ok_def)
  have added: "\<not> sr_clean (add_attempt b number r)" "sr_attempts (add_attempt b number r) = sr_attempts r @ [b]" for b
    by (simp_all add: add_attempt_def)
  let ?a3 = "?a\<lparr>at_recovered := fst (ro_cleanup ?R), at_clean := True\<rparr>"
  let ?r3 = "(add_attempt ?a3 number r)\<lparr>sr_clean := True\<rparr>"
  show ?case
  proof (cases "ro_stop_before ?R \<or> (number > 0 \<and> ro_stop_backoff ?R) \<or> gd_socketpair ?R \<noteq> None")
    case True
    show ?thesis
    proof (cases "ro_stop_before ?R \<or> (number > 0 \<and> ro_stop_backoff ?R)")
      case stop: True
      have "brokered_loop p bnd rounds (Suc left) number rr = ((r\<lparr>sr_state := ''stopped''\<rparr>, regs), None)"
        unfolding brokered_loop.simps Let_def rr fst_conv snd_conv by (simp only: stop if_True)
      then show ?thesis using same by (simp add: gated_ok_state)
    next
      case run: False
      then have pair: "gd_socketpair ?R \<noteq> None" using True by blast
      have "brokered_loop p bnd rounds (Suc left) number rr = (rr, gd_socketpair ?R)"
        unfolding brokered_loop.simps Let_def rr fst_conv snd_conv
        by (simp only: run if_False) (simp only: pair simp_thms if_True)
      then show ?thesis using same rr by simp
    qed
  next
    case go: False
    show ?thesis
    proof (cases "gd_started ?R \<and> \<not> gd_drained ?R")
      case True
      then show ?thesis using go rr unclean [of "r\<lparr>sr_attempts := sr_attempts r @ [?a], sr_clean := False\<rparr>" ?a regs]
        by (auto simp: Let_def)
    next
      case drained: False
      show ?thesis
      proof (cases "(\<not> at_exit_observed ?a \<and> at_reason ?a \<noteq> ''launch_failed'') \<or> \<not> clean_gate ?rg \<or>
          gd_binding ?R \<noteq> Inr bnd \<or> snd (ro_cleanup ?R) \<noteq> None")
        case True
        have u1: "gated_ok (number + Suc left) (add_attempt ?a number r, regs @ [?rg])"
          by (rule unclean [OF added(2) added(1)])
        have u2: "gated_ok (number + Suc left)
            (add_attempt (?a\<lparr>at_recovered := fst (ro_cleanup ?R)\<rparr>) number r, regs @ [?rg])"
          by (rule unclean [OF added(2) added(1)])
        have "fst (brokered_loop p bnd rounds (Suc left) number rr) = (add_attempt ?a number r, regs @ [?rg]) \<or>
            fst (brokered_loop p bnd rounds (Suc left) number rr) =
              (add_attempt (?a\<lparr>at_recovered := fst (ro_cleanup ?R)\<rparr>) number r, regs @ [?rg])"
          using True go drained rr by (auto simp: Let_def)
        then show ?thesis using u1 u2 by metis
      next
        case False
        then have ok: "at_exit_observed ?a \<or> at_reason ?a = ''launch_failed''" "clean_gate ?rg" by auto
        have "settled_attempt ?a3" using ok by (simp add: settled_attempt_def)
        then have inv3: "gated_inv (Suc number) (?r3, regs @ [?rg])"
          using inv ok by (simp add: gated_inv_def add_attempt_def)
        then have ok3: "gated_ok (number + Suc left) (?r3, regs @ [?rg])"
          by (rule gated_inv_ok) simp
        have "fst (brokered_loop p bnd rounds (Suc left) number rr) = (?r3\<lparr>sr_state := ''stopped''\<rparr>, regs @ [?rg]) \<or>
            fst (brokered_loop p bnd rounds (Suc left) number rr) = (?r3\<lparr>sr_state := ''completed''\<rparr>, regs @ [?rg]) \<or>
            fst (brokered_loop p bnd rounds (Suc left) number rr) = (?r3\<lparr>sr_state := ''exhausted''\<rparr>, regs @ [?rg]) \<or>
            0 < left \<and> brokered_loop p bnd rounds (Suc left) number rr =
              brokered_loop p bnd rounds left (Suc number) (?r3, regs @ [?rg])"
          using go drained False rr by (auto simp: Let_def)
        then show ?thesis
        proof (elim disjE conjE)
          assume "0 < left" "brokered_loop p bnd rounds (Suc left) number rr =
              brokered_loop p bnd rounds left (Suc number) (?r3, regs @ [?rg])"
          then show ?thesis using Suc.IH [OF inv3] by simp
        qed (use ok3 in \<open>simp_all only: gated_ok_state\<close>)
      qed
    qed
  qed
qed simp

text \<open>A clean session removed its marker and proved every attempt quiet.\<close>

lemma supervise_brokered_clean:
  assumes "supervise_brokered v p S rounds m = ((r, regs), e, m')" and "sr_clean r"
  shows "length (sr_attempts r) \<le> Suc (nat (sv_max_restarts v)) \<and> list_all settled_attempt (sr_attempts r) \<and>
    list_all clean_gate regs \<and> length regs = length (sr_attempts r) \<and> m' = MarkerAbsent"
proof -
  let ?r0 = "\<lparr>sr_state = ''blocked'', sr_clean = True, sr_restarts = 0, sr_attempts = []\<rparr>"
  obtain bnd where bnd: "session_refused v S = None" "se_binding S = Inr bnd"
    and out: "close_session S (brokered_loop p bnd rounds (Suc (nat (sv_max_restarts v))) 0 (?r0, [])) MarkerPresent =
       ((r, regs), e, m')"
    using assms by (auto simp: supervise_brokered_def Let_def split: option.splits if_splits sum.splits)
  obtain rr e1 where loop: "brokered_loop p bnd rounds (Suc (nat (sv_max_restarts v))) 0 (?r0, []) = (rr, e1)"
    by fastforce
  have "gated_inv 0 (?r0, [])" by (simp add: gated_inv_def)
  from brokered_loop_ok [OF this, of "Suc (nat (sv_max_restarts v))" p bnd rounds] loop
  have ok: "gated_ok (Suc (nat (sv_max_restarts v))) rr" by simp
  obtain r1 regs1 where rr: "rr = (r1, regs1)" by (cases rr)
  have "(r, regs) = (r1, regs1) \<and> m' = MarkerAbsent"
    using out loop rr assms(2) by (auto simp: close_session_def split: if_splits option.splits)
  then show ?thesis using ok rr assms(2) by (simp add: gated_ok_def)
qed

end
