(* ===== verification/Handoff.thy ===== *)
theory Handoff
  imports Broker Socks5
begin

text \<open>
  The hand-over of a paused command to an anchor that survives its parents:
  \<open>command_handoff_linux.go\<close> and \<open>command_admission_linux.go\<close> of \<open>ebpf-proxy/internal/tproxy\<close>.
  Each handler is one function of what the system calls report; the conversation of the three
  processes is a step relation over the same packets.
\<close>

section \<open>The state and plan binding\<close>

record bind_env =
  be_self :: "gerr + string"
  be_host :: "gerr + string"
  be_euid :: u32
  be_lstat :: "gerr + file_stat"
  be_root :: "gerr option"
  be_dot :: "gerr option"
  be_same :: bool
  be_abs :: "gerr + string"
  be_boot :: "gerr + string"
  be_device :: u64
  be_inode :: u64

text \<open>What is hashed: the JSON text of an anonymous struct.\<close>

definition binding_json :: "string \<Rightarrow> string \<Rightarrow> string \<Rightarrow> u64 \<Rightarrow> u64 \<Rightarrow> plan \<Rightarrow> json" where
  "binding_json dir ns boot dev ino p = JObj
     [(''Version'', JInt 1), (''Directory'', JStr dir), (''Namespace'', JStr ns), (''Boot'', JStr boot),
      (''Device'', JInt (int (unat dev))), (''Inode'', JInt (int (unat ino))), (''Plan'', plan_json p)]"

definition binding_text :: "bind_env \<Rightarrow> plan \<Rightarrow> gerr + string" where
  "binding_text B p =
     (case witness_namespace (be_self B) (be_host B) of
        Inl e \<Rightarrow> Inl e
      | Inr ns \<Rightarrow>
          (case plan_steps p of
             Inl e \<Rightarrow> Inl e
           | Inr _ \<Rightarrow>
               (case be_lstat B of
                  Inl e \<Rightarrow> Inl e
                | Inr s \<Rightarrow>
                    if \<not> private_state_dir (be_euid B) s
                    then Inl (Err ''handoff state must be private owned directory'')
                    else case be_root B of Some e \<Rightarrow> Inl e | None \<Rightarrow>
                      (case be_dot B of Some e \<Rightarrow> Inl e | None \<Rightarrow>
                        if \<not> be_same B then Inl (Err ''handoff state identity changed'')
                        else case be_abs B of Inl e \<Rightarrow> Inl e | Inr dir \<Rightarrow>
                          (case be_boot B of Inl e \<Rightarrow> Inl e | Inr boot \<Rightarrow>
                             Inr (json_text
                               (binding_json dir ns (trim_space boot) (be_device B) (be_inode B) p)))))))"

definition command_binding :: "(string \<Rightarrow> u8 list) \<Rightarrow> bind_env \<Rightarrow> plan \<Rightarrow> gerr + binding" where
  "command_binding sha B p = (case binding_text B p of Inl e \<Rightarrow> Inl e | Inr t \<Rightarrow> Inr (sha t))"

text \<open>The text determines directory, namespace, boot, device, inode and plan.\<close>

lemma plan_json_inject:
  assumes "plan_json p = plan_json q" "plan_steps p = Inr ss" "plan_steps q = Inr ts"
  shows "p = q"
proof -
  have "is4 (ap_addr (pl_destination p))" "is4 (ap_addr (pl_destination q))"
    using assms(2,3) by (auto simp: plan_steps_Inr valid_destination_def)
  then have "dec_struct plan_field (plan_json p) p = Some p" "dec_struct plan_field (plan_json q) p = Some q"
    by (simp_all only: dec_plan_json)
  with assms(1) show ?thesis by (metis option.inject)
qed

lemma binding_text_inject:
  assumes "binding_text B p = Inr t" and "binding_text C q = Inr t"
  shows "p = q \<and> be_abs B = be_abs C \<and> be_self B = be_self C \<and> be_device B = be_device C \<and> be_inode B = be_inode C \<and>
    (\<exists>x y. be_boot B = Inr x \<and> be_boot C = Inr y \<and> trim_space x = trim_space y)"
proof -
  have parts: "\<exists>dir ns boot ss. be_abs B = Inr dir \<and> be_self B = Inr ns \<and> be_boot B = Inr boot \<and> plan_steps p = Inr ss \<and>
      t = json_text (binding_json dir ns (trim_space boot) (be_device B) (be_inode B) p)"
    if "binding_text B p = Inr t" for B p
    using that
    by (auto simp: binding_text_def witness_namespace_def split: sum.splits option.splits if_splits)
  obtain d1 n1 b1 s1 where 1: "be_abs B = Inr d1" "be_self B = Inr n1" "be_boot B = Inr b1" "plan_steps p = Inr s1"
      "t = json_text (binding_json d1 n1 (trim_space b1) (be_device B) (be_inode B) p)"
    using parts [OF assms(1)] by blast
  obtain d2 n2 b2 s2 where 2: "be_abs C = Inr d2" "be_self C = Inr n2" "be_boot C = Inr b2" "plan_steps q = Inr s2"
      "t = json_text (binding_json d2 n2 (trim_space b2) (be_device C) (be_inode C) q)"
    using parts [OF assms(2)] by blast
  have print: "printable (binding_json d n b v i r)" for d n b v i r
    by (simp add: binding_json_def plan_json_def)
  have read: "json_read (json_text v) = TokVal v []" if "printable v" for v
    using json_read_text [OF that, of "[]"] by (simp add: ends_number_def)
  have "json_read t = TokVal (binding_json d1 n1 (trim_space b1) (be_device B) (be_inode B) p) []"
    unfolding 1(5) by (rule read [OF print])
  moreover have "json_read t = TokVal (binding_json d2 n2 (trim_space b2) (be_device C) (be_inode C) q) []"
    unfolding 2(5) by (rule read [OF print])
  ultimately have "binding_json d1 n1 (trim_space b1) (be_device B) (be_inode B) p =
      binding_json d2 n2 (trim_space b2) (be_device C) (be_inode C) q" by simp
  then show ?thesis
    using 1(1-4) 2(1-4) plan_json_inject [of p q s1 s2]
    by (auto simp: binding_json_def word_uint_eq_iff)
qed

section \<open>Deadlines, sockets and polls\<close>

text \<open>\<open>dl_left1\<close> and \<open>dl_left2\<close> are the two readings of the time left, in nanoseconds.\<close>

record deadline_env =
  dl_context :: bool
  dl_deadline :: bool
  dl_err :: "gerr option"
  dl_left1 :: int
  dl_left2 :: int

definition handoff_deadline :: "deadline_env \<Rightarrow> gerr option" where
  "handoff_deadline D =
     (if \<not> dl_context D then Some (Err ''handoff context required'')
      else if \<not> dl_deadline D \<or> dl_err D \<noteq> None \<or> dl_left1 D \<le> 0 \<or> dl_left2 D > seconds 8
      then Some (Err ''handoff requires live deadline within eight seconds'') else None)"

definition sock_seqpacket :: int where "sock_seqpacket = 5"

text \<open>The socket type and whether the peer has a Unix address.\<close>

definition handoff_socket :: "gerr + int \<Rightarrow> gerr + bool \<Rightarrow> gerr option" where
  "handoff_socket kind peer =
     (if kind \<noteq> Inr sock_seqpacket
      then Some (Err ''handoff needs connected Unix seqpacket capability'')
      else if peer \<noteq> Inr True then Some (Err ''handoff socket is not connected Unix socket'')
      else None)"

type_synonym poll_env = "gerr option \<times> (gerr option \<times> u16) \<times> gerr option"

fun handoff_poll :: "poll_env \<Rightarrow> gerr option" where
  "handoff_poll (ctx, (perr, revents), ctx_after) =
     (case ctx of
        Some e \<Rightarrow> Some e
      | None \<Rightarrow>
          if perr = Some Eintr then None
          else case perr of
                 Some e \<Rightarrow> Some e
               | None \<Rightarrow> if poll_bad revents then Some (Err ''handoff channel failed'') else ctx_after)"

text \<open>Sending: retried after a poll while the channel is full; \<open>None\<close> when the rounds end.\<close>

type_synonym send_round = "gerr option \<times> gerr option \<times> poll_env"

fun handoff_send :: "send_round list \<Rightarrow> gerr option option" where
  "handoff_send [] = None"
| "handoff_send ((ctx, sent, poll) # rs) =
     (case ctx of
        Some e \<Rightarrow> Some (Some e)
      | None \<Rightarrow>
          if sent \<noteq> Some Eagain \<and> sent \<noteq> Some Eintr then Some sent
          else (case handoff_poll poll of Some e \<Rightarrow> Some (Some e) | None \<Rightarrow> handoff_send rs))"

definition handoff_packet_size :: nat where "handoff_packet_size = 65"

text \<open>A received message; a refused one has its descriptors closed.\<close>

definition handoff_check :: "nat \<Rightarrow> packet \<Rightarrow> gerr + string \<times> nat list" where
  "handoff_check want k =
     (if length (pk_bytes k) \<noteq> handoff_packet_size \<or> hd (pk_bytes k) \<noteq> CHR 0x01 \<or> pk_truncated k \<or>
         \<not> pk_parse_ok k \<or> length (pk_fds k) \<noteq> want \<or> (want > 0 \<and> pk_messages k \<noteq> 1) \<or>
         (want = 0 \<and> pk_control k \<noteq> 0)
      then Inl (Err ''invalid handoff packet or descriptor set'')
      else Inr (pk_bytes k, pk_fds k))"

type_synonym take_round = "gerr option \<times> (gerr + packet) \<times> poll_env"

fun handoff_receive :: "nat \<Rightarrow> take_round list \<Rightarrow> (gerr + string \<times> nat list) option" where
  "handoff_receive want [] = None"
| "handoff_receive want ((ctx, recv, poll) # rs) =
     (case ctx of
        Some e \<Rightarrow> Some (Inl e)
      | None \<Rightarrow>
          (case recv of
             Inl e \<Rightarrow>
               if e = Eagain \<or> e = Eintr then
                 (case handoff_poll poll of Some pe \<Rightarrow> Some (Inl pe) | None \<Rightarrow> handoff_receive want rs)
               else Some (Inl e)
           | Inr k \<Rightarrow> Some (handoff_check want k)))"

lemma handoff_receive_ok:
  "handoff_receive want rs = Some (Inr (b, fds)) \<Longrightarrow>
     length b = handoff_packet_size \<and> hd b = CHR 0x01 \<and> length fds = want"
proof (induction rs)
  case (Cons r rs)
  obtain ctx recv poll where r: "r = (ctx, recv, poll)" by (cases r) auto
  show ?case
    using Cons r by (auto simp: handoff_check_def split: option.splits sum.splits if_splits)
qed simp

section \<open>Live identities\<close>

record live_env =
  lv_self :: "gerr + string"
  lv_host :: "gerr + string"
  lv_link :: "gerr + string"
  lv_before :: "gerr option \<times> u16 list"
  lv_info :: "gerr + string"
  lv_ns :: "int \<Rightarrow> gerr + string"
  lv_after :: "gerr option \<times> u16 list"

definition live_handoff_pid :: "live_env \<Rightarrow> gerr + int" where
  "live_handoff_pid L =
     (case witness_namespace (lv_self L) (lv_host L) of
        Inl e \<Rightarrow> Inl e
      | Inr ns \<Rightarrow>
          if lv_link L \<noteq> Inr ''anon_inode:[pidfd]'' then Inl (Err ''handoff identity must be pidfd'')
          else if witness_poll (lv_before L) \<noteq> Inr False then Inl (Err ''handoff identity exited'')
          else (case lv_info L of
                  Inl e \<Rightarrow> Inl e
                | Inr info \<Rightarrow>
                    let pid = fdinfo_pid info
                    in if pid \<le> 0 then Inl (Err ''handoff live identity missing'')
                       else if lv_ns L pid \<noteq> Inr ns then Inl (Err ''handoff identity namespace differs'')
                       else if witness_poll (lv_after L) \<noteq> Inr False
                       then Inl (Err ''handoff identity raced exit'')
                       else Inr pid))"

lemma live_handoff_pid_ok:
  "live_handoff_pid L = Inr pid \<Longrightarrow> 0 < pid \<and> lv_ns L pid = lv_self L \<and> lv_host L \<noteq> lv_self L \<and>
     witness_poll (lv_after L) = Inr False"
  by (auto simp: live_handoff_pid_def witness_namespace_def Let_def split: sum.splits if_splits)

section \<open>The anchor\<close>

record anchor =
  an_fds :: "nat list"
  an_dir :: string
  an_plan :: plan
  an_binding :: binding
  an_used :: bool

text \<open>Duplicating descriptors one by one: the first error and those already owned.\<close>

fun dup_all :: "(gerr + nat) list \<Rightarrow> nat list \<Rightarrow> gerr option \<times> nat list" where
  "dup_all [] fds = (None, fds)"
| "dup_all (r # rs) fds = (case r of Inl e \<Rightarrow> (Some e, fds) | Inr fd \<Rightarrow> dup_all rs (fds @ [fd]))"

record anchor_env =
  na_binding :: "gerr + binding"
  na_dups :: "(gerr + nat) list"
  na_socket :: "gerr option"
  na_worker :: "gerr + int"
  na_guard :: "gerr + int"

text \<open>On failure: the error and the descriptors that were closed again.\<close>

definition new_anchor :: "string \<Rightarrow> plan \<Rightarrow> anchor_env \<Rightarrow> (gerr \<times> nat list) + anchor" where
  "new_anchor dir p N =
     (case na_binding N of
        Inl e \<Rightarrow> Inl (e, [])
      | Inr bnd \<Rightarrow>
          (case dup_all (na_dups N) [] of
             (Some e, fds) \<Rightarrow> Inl (e, fds)
           | (None, fds) \<Rightarrow>
               if na_socket N \<noteq> None then Inl (the (na_socket N), fds)
               else (case na_worker N of
                       Inl e \<Rightarrow> Inl (e, fds)
                     | Inr w \<Rightarrow>
                         if na_guard N = Inr w \<or> \<not> is_ok (na_guard N)
                         then Inl (Err ''expected handoff roles invalid'', fds)
                         else Inr \<lparr>an_fds = fds, an_dir = dir, an_plan = p, an_binding = bnd, an_used = False\<rparr>)))"

definition anchor_close :: "anchor \<Rightarrow> anchor" where
  "anchor_close a = a\<lparr>an_fds := []\<rparr>"

text \<open>The role check: the expected identity, the received one, the expected one again.\<close>

record role_env =
  rl_expected :: "gerr + int"
  rl_got :: "gerr + int"
  rl_again :: "gerr + int"

definition role_check :: "role_env \<Rightarrow> gerr option" where
  "role_check R =
     (case rl_expected R of
        Inl e \<Rightarrow> Some e
      | Inr pid \<Rightarrow>
          if rl_got R \<noteq> Inr pid then Some (Err ''handoff role identity mismatch'')
          else (case rl_again R of Inl e \<Rightarrow> Some e | Inr _ \<Rightarrow> None))"

record accept_env =
  ac_deadline :: "gerr option"
  ac_recv :: "take_round list"
  ac_worker :: role_env
  ac_guard :: role_env
  ac_gate :: "gerr option"
  ac_binding :: "gerr + binding"
  ac_self :: "gerr + string"
  ac_host :: "gerr + string"
  ac_proc_ns :: "int \<Rightarrow> gerr + string"
  ac_sources :: "witness_source list"
  ac_ack :: "send_round list"
  ac_confirm :: "take_round list"
  ac_release :: "send_round list"

definition packet_binding :: "string \<Rightarrow> binding" where
  "packet_binding b = bytes_of (drop 33 b)"

text \<open>From the received packet to the owned witness.\<close>

definition accept_validate :: "anchor \<Rightarrow> accept_env \<Rightarrow> string \<Rightarrow> gerr + command_witness" where
  "accept_validate a A b =
     (if packet_binding b \<noteq> an_binding a then Inl (Err ''handoff state/plan mismatch'')
      else case role_check (ac_worker A) of Some e \<Rightarrow> Inl e | None \<Rightarrow>
      (case role_check (ac_guard A) of Some e \<Rightarrow> Inl e | None \<Rightarrow>
       if ac_gate A \<noteq> None then Inl (the (ac_gate A))
       else if ac_binding A \<noteq> Inr (an_binding a) then Inl (Err ''anchor state identity changed'')
       else (case acquire_witness (ac_self A) (ac_host A) (ac_proc_ns A) (ac_sources A) of
               Inl (e, _) \<Rightarrow> Inl e
             | Inr (fds, _, ns) \<Rightarrow> Inr \<lparr>cw_fds = fds, cw_namespace = ns\<rparr>)))"

record registered =
  rc_witness :: command_witness
  rc_dir :: string
  rc_plan :: plan
  rc_binding :: binding

text \<open>What the anchor did, in order.\<close>

datatype anchor_event = Owned | AckSent string | ConfirmSeen string | Released

text \<open>After the witness is owned: acknowledge, await the confirmation, release.\<close>

definition accept_release :: "accept_env \<Rightarrow> string \<Rightarrow> registered
    \<Rightarrow> (registered option \<times> gerr option \<times> anchor_event list) option" where
  "accept_release A b r =
     (case handoff_send (ac_ack A) of
        None \<Rightarrow> None
      | Some (Some e) \<Rightarrow> Some (None, Some e, [Owned])
      | Some None \<Rightarrow>
          (case handoff_receive 0 (ac_confirm A) of
             None \<Rightarrow> None
           | Some (Inl e) \<Rightarrow>
               Some (None, Some (Err ''sender confirmation missing or mismatched''), [Owned, AckSent b])
           | Some (Inr (c, _)) \<Rightarrow>
               if c \<noteq> b
               then Some (None, Some (Err ''sender confirmation missing or mismatched''), [Owned, AckSent b])
               else (case handoff_send (ac_release A) of
                       None \<Rightarrow> None
                     | Some (Some e) \<Rightarrow> Some (Some r, Some e, [Owned, AckSent b, ConfirmSeen c])
                     | Some None \<Rightarrow> Some (Some r, None, [Owned, AckSent b, ConfirmSeen c, Released]))))"

text \<open>\<open>Accept\<close>: \<open>None\<close> while one of its waits has not ended.\<close>

definition anchor_accept :: "anchor \<Rightarrow> accept_env
    \<Rightarrow> (registered option \<times> gerr option \<times> anchor_event list) option \<times> anchor" where
  "anchor_accept a A =
     (if an_used a \<or> length (an_fds a) \<noteq> 3
      then (Some (None, Some (Err ''anchor closed or already used''), []), a)
      else
        let a1 = a\<lparr>an_used := True\<rparr>
        in if ac_deadline A \<noteq> None then (Some (None, ac_deadline A, []), a1)
           else (case handoff_receive 4 (ac_recv A) of
                   None \<Rightarrow> (None, a1)
                 | Some (Inl e) \<Rightarrow> (Some (None, Some e, []), a1)
                 | Some (Inr (b, _)) \<Rightarrow>
                     (case accept_validate a A b of
                        Inl e \<Rightarrow> (Some (None, Some e, []), a1)
                      | Inr w \<Rightarrow>
                          (accept_release A b
                             \<lparr>rc_witness = w, rc_dir = an_dir a, rc_plan = an_plan a, rc_binding = an_binding a\<rparr>,
                           a1))))"

lemma accept_validate_ok:
  assumes "accept_validate a A b = Inr w"
  shows "packet_binding b = an_binding a \<and> ac_binding A = Inr (an_binding a) \<and>
    rl_got (ac_worker A) = rl_expected (ac_worker A) \<and> rl_got (ac_guard A) = rl_expected (ac_guard A) \<and>
    length (cw_fds w) = length (ac_sources A) \<and> all_live (ac_sources A)"
proof -
  obtain fds pids ns where aq: "acquire_witness (ac_self A) (ac_host A) (ac_proc_ns A) (ac_sources A) = Inr (fds, pids, ns)"
    and w: "w = \<lparr>cw_fds = fds, cw_namespace = ns\<rparr>"
    using assms by (auto simp: accept_validate_def split: if_splits option.splits sum.splits prod.splits)
  have roles: "role_check (ac_worker A) = None" "role_check (ac_guard A) = None"
    using assms by (auto simp: accept_validate_def split: if_splits option.splits)
  have "rl_got (ac_worker A) = rl_expected (ac_worker A)" "rl_got (ac_guard A) = rl_expected (ac_guard A)"
    using roles by (auto simp: role_check_def split: sum.splits if_splits)
  then show ?thesis
    using assms acquire_witness_ok [OF aq] w roles by (simp add: accept_validate_def split: if_splits)
qed

text \<open>The gate is opened last, with the witness in hand and the confirmation of the same packet.\<close>

lemma accept_release_order:
  assumes "accept_release A b r0 = Some (r, e, evs)"
  shows "evs \<in> {[Owned], [Owned, AckSent b], [Owned, AckSent b, ConfirmSeen b], [Owned, AckSent b, ConfirmSeen b, Released]} \<and>
    (e = None \<longleftrightarrow> Released \<in> set evs) \<and> (r = None \<or> r = Some r0) \<and> (r = Some r0 \<longleftrightarrow> ConfirmSeen b \<in> set evs)"
  using assms
  by (auto simp: accept_release_def split: option.splits sum.splits prod.splits if_splits)

lemma anchor_accept_cases:
  assumes "anchor_accept a A = (Some (r, e, evs), a')"
  obtains (refused) "r = None" "e \<noteq> None" "evs = []"
  | (owned) b w where "\<not> an_used a" "an_used a'" "accept_validate a A b = Inr w"
      "accept_release A b \<lparr>rc_witness = w, rc_dir = an_dir a, rc_plan = an_plan a, rc_binding = an_binding a\<rparr> = Some (r, e, evs)"
proof (cases "evs = []")
  case True
  have "r = None \<and> e \<noteq> None"
    using assms True
    by (auto simp: anchor_accept_def Let_def eq_commute [of "Some _" "ac_deadline A"] dest!: accept_release_order
        split: if_splits option.splits sum.splits prod.splits)
  then show ?thesis using True refused by blast
next
  case False
  then show ?thesis
    using assms owned
    by (auto simp: anchor_accept_def Let_def split: if_splits option.splits sum.splits prod.splits)
qed

lemma anchor_accept_order:
  assumes "anchor_accept a A = (Some (r, e, evs), a')"
  shows "\<exists>b. evs \<in> {[], [Owned], [Owned, AckSent b], [Owned, AckSent b, ConfirmSeen b],
        [Owned, AckSent b, ConfirmSeen b, Released]} \<and>
    (e = None \<longleftrightarrow> Released \<in> set evs) \<and> (r \<noteq> None \<longleftrightarrow> ConfirmSeen b \<in> set evs) \<and>
    (evs \<noteq> [] \<longrightarrow> \<not> an_used a \<and> an_used a' \<and> packet_binding b = an_binding a \<and> ac_binding A = Inr (an_binding a) \<and>
       rl_got (ac_worker A) = rl_expected (ac_worker A) \<and> rl_got (ac_guard A) = rl_expected (ac_guard A))"
  using assms
proof (cases rule: anchor_accept_cases)
  case refused
  then show ?thesis by auto
next
  case (owned b w)
  note o = accept_release_order [OF owned(4)] and v = accept_validate_ok [OF owned(3)]
  have "(r \<noteq> None) = (ConfirmSeen b \<in> set evs)" using o by auto
  then show ?thesis using o v owned(1,2) by (intro exI [of _ b]) simp
qed

section \<open>Recovery and closing\<close>

text \<open>\<open>RegisteredScopedCommand.Recover\<close>: the binding is checked again before the witness is used.\<close>

definition registered_recover :: "'k dur_env \<Rightarrow> open_env \<Rightarrow> registered \<Rightarrow> gerr + binding \<Rightarrow> bool
    \<Rightarrow> (gerr option \<times> gerr option \<times> u16 list) list list \<Rightarrow> gerr option
    \<Rightarrow> gerr + string \<Rightarrow> poll_round list \<Rightarrow> gerr option \<Rightarrow> gerr option \<Rightarrow> 'k world
    \<Rightarrow> (witness_report \<times> gerr option \<times> 'k world) option" where
  "registered_recover E V r now deadline polls ctx link rounds ctx1 ctx_end w =
     (if now \<noteq> Inr (rc_binding r)
      then Some (\<lparr>wr_witnesses = 0, wr_all_exited = False, wr_recovery = (new_guardian 0)\<rparr>,
                 Some (Err ''registered state/plan binding changed''), w)
      else recover_witness E V (rc_plan r) (rc_witness r) deadline polls ctx link rounds ctx1 ctx_end w)"

section \<open>The paused command\<close>

text \<open>\<open>pc_ready\<close>: child, gate and context are all set, as they are after a start.\<close>

record paused =
  pc_ready :: bool
  pc_gate_open :: bool
  pc_admitted :: bool
  pc_closed :: bool
  pc_killed :: bool

record pause_env =
  pe_self :: "gerr + string"
  pe_host :: "gerr + string"
  pe_deadline :: bool
  pe_left1 :: int
  pe_left2 :: int
  pe_euid :: u32
  pe_lease :: "(gerr + file_stat) option"
  pe_exe :: "gerr option"
  pe_socketpair :: "gerr option"
  pe_start :: "gerr option"
  pe_pidfd :: "gerr option"

text \<open>On failure: the error, and whether a child had been started and was killed.\<close>

definition start_paused :: "argv \<Rightarrow> pause_env \<Rightarrow> (gerr \<times> bool) + paused" where
  "start_paused args S =
     (case witness_namespace (pe_self S) (pe_host S) of
        Inl e \<Rightarrow> Inl (e, False)
      | Inr _ \<Rightarrow>
          if \<not> pe_deadline S \<or> pe_left1 S \<le> 0 \<or> pe_left2 S > seconds 8
          then Inl (Err ''admission requires a live deadline within eight seconds'', False)
          else if args = [] \<or> (case pe_lease S of None \<Rightarrow> True | Some st \<Rightarrow> private_file (pe_euid S) st \<noteq> None)
          then Inl (Err ''private lease and command required'', False)
          else case pe_exe S of Some e \<Rightarrow> Inl (e, False) | None \<Rightarrow>
          (case pe_socketpair S of Some e \<Rightarrow> Inl (e, False) | None \<Rightarrow>
           (case pe_start S of Some e \<Rightarrow> Inl (e, False) | None \<Rightarrow>
            (case pe_pidfd S of Some e \<Rightarrow> Inl (e, True) | None \<Rightarrow>
               Inr \<lparr>pc_ready = True, pc_gate_open = True, pc_admitted = False, pc_closed = False,
                    pc_killed = False\<rparr>))))"

text \<open>\<open>finish\<close>: close the gate, kill if asked, reap; \<open>we\<close> is the error of the wait.\<close>

definition paused_finish :: "bool \<Rightarrow> gerr option \<Rightarrow> paused \<Rightarrow> gerr option \<times> paused" where
  "paused_finish kill we p =
     (if pc_closed p then (None, p)
      else if \<not> pc_ready p then (Some (Err ''paused command uninitialized''), p)
      else (we, p\<lparr>pc_closed := True, pc_gate_open := False, pc_killed := pc_killed p \<or> kill\<rparr>))"

definition paused_wait :: "gerr option \<Rightarrow> paused \<Rightarrow> gerr option \<times> paused" where
  "paused_wait we p =
     (if \<not> pc_admitted p \<or> pc_closed p then (Some (Err ''command not admitted or already reaped''), p)
      else paused_finish False we p)"

definition paused_abort :: "gerr option \<Rightarrow> paused \<Rightarrow> gerr option \<times> paused" where
  "paused_abort we p = paused_finish True we p"

text \<open>Admission by the starting process: the witness first, then the one byte on the gate.\<close>

definition paused_admit :: "gerr option \<Rightarrow> (gerr \<times> nat list) + (nat list \<times> int list \<times> string) \<Rightarrow> gerr option
    \<Rightarrow> gerr option \<Rightarrow> paused \<Rightarrow> (gerr + command_witness) \<times> paused" where
  "paused_admit ctx wit ctx1 sent p =
     (let fail = (\<lambda>e. (Inl e, snd (paused_finish True None p)))
      in if pc_closed p \<or> pc_admitted p then (Inl (Err ''admission is single use''), p)
         else if \<not> pc_ready p then (Inl (Err ''paused command uninitialized''), p)
         else if ctx \<noteq> None then fail (the ctx)
         else (case wit of
                 Inl (e, _) \<Rightarrow> fail e
               | Inr (fds, _, ns) \<Rightarrow>
                   if ctx1 \<noteq> None then fail (the ctx1)
                   else if sent \<noteq> None then fail (the sent)
                   else (Inr \<lparr>cw_fds = fds, cw_namespace = ns\<rparr>,
                         p\<lparr>pc_admitted := True, pc_gate_open := False\<rparr>)))"

text \<open>The stub that waits for its release and then becomes the command.\<close>

record stub_env =
  st_self :: "gerr + string"
  st_host :: "gerr + string"
  st_euid :: u32
  st_lease :: "(gerr + file_stat) option"
  st_flock :: "gerr option"
  st_kind :: "gerr + int"
  st_timeout :: "gerr option"
  st_recv :: "gerr + packet"
  st_path :: "string \<Rightarrow> gerr + string"

datatype stub_end = StubRefused | StubExec string argv

definition gate_message :: string where "gate_message = [CHR 0x01]"

definition stub_entry :: "stub_env \<Rightarrow> argv \<Rightarrow> stub_end" where
  "stub_entry S args =
     (if length args < 4 \<or> args ! 2 \<noteq> ''--'' then StubRefused
      else if \<not> is_ok (witness_namespace (st_self S) (st_host S)) then StubRefused
      else case st_lease S of None \<Rightarrow> StubRefused | Some st \<Rightarrow>
        if private_file (st_euid S) st \<noteq> None \<or> st_flock S \<noteq> None then StubRefused
        else if st_kind S \<noteq> Inr sock_seqpacket then StubRefused
        else if st_timeout S \<noteq> None then StubRefused
        else (case st_recv S of
                Inl _ \<Rightarrow> StubRefused
              | Inr k \<Rightarrow>
                  if pk_bytes k \<noteq> gate_message \<or> pk_control k \<noteq> 0 \<or> pk_truncated k then StubRefused
                  else (case st_path S (args ! 3) of
                          Inl _ \<Rightarrow> StubRefused
                        | Inr path \<Rightarrow> StubExec path (drop 3 args))))"

lemma stub_entry_exec:
  "stub_entry S args = StubExec path cmd \<Longrightarrow>
     cmd = drop 3 args \<and> (\<exists>k. st_recv S = Inr k \<and> pk_bytes k = gate_message \<and> pk_control k = 0)"
  by (auto simp: stub_entry_def split: if_splits option.splits sum.splits)

section \<open>The sender\<close>

record handoff_env =
  ho_deadline :: "gerr option"
  ho_ctx :: "gerr option"
  ho_binding :: "gerr + binding"
  ho_dup :: "gerr option"
  ho_socket :: "gerr option"
  ho_witness :: "(gerr \<times> nat list) + (nat list \<times> int list \<times> string)"
  ho_nonce :: "gerr + string"
  ho_send :: "send_round list"
  ho_ack :: "take_round list"
  ho_ctx1 :: "gerr option"
  ho_confirm :: "send_round list"

datatype sender_event = PacketSent string | GateClosed | AckSeen string | ConfirmSent string

definition handoff_packet :: "string \<Rightarrow> binding \<Rightarrow> string" where
  "handoff_packet nonce bnd = CHR 0x01 # nonce @ map (\<lambda>b. char_of (unat b)) bnd"

text \<open>After the packet is sent: close the gate, check the acknowledgement, confirm.\<close>

definition handoff_commit :: "handoff_env \<Rightarrow> string \<Rightarrow> (gerr option \<times> sender_event list) option" where
  "handoff_commit H b =
     (case handoff_receive 0 (ho_ack H) of
        None \<Rightarrow> None
      | Some (Inl e) \<Rightarrow>
          Some (Some (Err ''anchor acknowledgement missing or mismatched''), [PacketSent b, GateClosed])
      | Some (Inr (ack, _)) \<Rightarrow>
          if ack \<noteq> b
          then Some (Some (Err ''anchor acknowledgement missing or mismatched''), [PacketSent b, GateClosed])
          else if ho_ctx1 H \<noteq> None then Some (ho_ctx1 H, [PacketSent b, GateClosed, AckSeen ack])
          else (case handoff_send (ho_confirm H) of
                  None \<Rightarrow> None
                | Some (Some e) \<Rightarrow> Some (Some e, [PacketSent b, GateClosed, AckSeen ack])
                | Some None \<Rightarrow> Some (None, [PacketSent b, GateClosed, AckSeen ack, ConfirmSent b])))"

text \<open>The checks before anything leaves the process, and the packet.\<close>

definition handoff_offer :: "handoff_env \<Rightarrow> gerr + string" where
  "handoff_offer H =
     (if ho_deadline H \<noteq> None then Inl (the (ho_deadline H))
      else if ho_ctx H \<noteq> None then Inl (the (ho_ctx H))
      else case ho_binding H of Inl e \<Rightarrow> Inl e | Inr bnd \<Rightarrow>
      (case ho_dup H of Some e \<Rightarrow> Inl e | None \<Rightarrow>
       (case ho_socket H of Some e \<Rightarrow> Inl e | None \<Rightarrow>
        (case ho_witness H of Inl (e, _) \<Rightarrow> Inl e | Inr _ \<Rightarrow>
         (case ho_nonce H of Inl e \<Rightarrow> Inl e | Inr nonce \<Rightarrow> Inr (handoff_packet nonce bnd))))))"

text \<open>\<open>HandoffScoped\<close>: every failure kills and reaps the owned command.\<close>

definition handoff_scoped :: "handoff_env \<Rightarrow> paused \<Rightarrow> (gerr option \<times> sender_event list) option \<times> paused" where
  "handoff_scoped H p =
     (let fail = (\<lambda>e evs. (Some (Some e, evs), snd (paused_finish True None p)))
      in if pc_closed p \<or> pc_admitted p \<or> \<not> pc_ready p
         then (Some (Some (Err ''paused command unavailable''), []), p)
         else (case handoff_offer H of
                 Inl e \<Rightarrow> fail e []
               | Inr b \<Rightarrow>
                   (case handoff_send (ho_send H) of
                      None \<Rightarrow> (None, p)
                    | Some (Some e) \<Rightarrow> fail e []
                    | Some None \<Rightarrow>
                        (case handoff_commit H b of
                           None \<Rightarrow> (None, p\<lparr>pc_gate_open := False\<rparr>)
                         | Some (Some e, evs) \<Rightarrow> fail e evs
                         | Some (None, evs) \<Rightarrow>
                             (Some (None, evs), p\<lparr>pc_gate_open := False, pc_admitted := True\<rparr>)))))"

lemma handoff_commit_order:
  assumes "handoff_commit H b = Some (e, evs)"
  shows "evs \<in> {[PacketSent b, GateClosed], [PacketSent b, GateClosed, AckSeen b],
      [PacketSent b, GateClosed, AckSeen b, ConfirmSent b]} \<and> (e = None \<longleftrightarrow> ConfirmSent b \<in> set evs)"
  using assms by (auto simp: handoff_commit_def split: option.splits sum.splits if_splits)

text \<open>The command is admitted exactly when the confirmation went out; otherwise it is dead and reaped.\<close>

lemma handoff_scoped_outcome:
  assumes "handoff_scoped H p = (Some (e, evs), p')" and "\<not> pc_closed p" "\<not> pc_admitted p" "pc_ready p"
  shows "\<not> pc_gate_open p' \<and> (pc_admitted p' \<longleftrightarrow> e = None) \<and> (e \<noteq> None \<longrightarrow> pc_closed p' \<and> pc_killed p') \<and>
    (pc_admitted p' \<longleftrightarrow> (\<exists>b. handoff_offer H = Inr b \<and> evs = [PacketSent b, GateClosed, AckSeen b, ConfirmSent b]))"
proof (cases "handoff_offer H")
  case (Inl err)
  then show ?thesis
    using assms by (auto simp: handoff_scoped_def Let_def paused_finish_def)
next
  case (Inr b)
  show ?thesis
    using assms Inr
    by (auto simp: handoff_scoped_def Let_def paused_finish_def
        dest!: handoff_commit_order split: option.splits)
qed

section \<open>The conversation\<close>

text \<open>
  The three processes together: the sender at the points between its sends and receives, the anchor
  likewise, and the stub. Channels are queues; a datagram on the anchor's channel carries its number
  of descriptors. Any process can fail or die at any point, and packets other than the sender's may
  appear on both channels.
\<close>

datatype sender_phase = Preparing | Offered | AckChecked | Admitted | SenderGone

datatype anchor_phase = Listening | Owning string | Waiting string | ConfirmedBy string | Done | AnchorGone

datatype stub_phase = Paused | Running | Stopped

record talk =
  tk_sender :: sender_phase
  tk_anchor :: anchor_phase
  tk_stub :: stub_phase
  tk_to_anchor :: "(string \<times> nat) list"
  tk_to_sender :: "string list"
  tk_gate :: "string list"
  tk_owned :: bool
  tk_confirmed :: bool

definition talk_start :: talk where
  "talk_start =
     \<lparr>tk_sender = Preparing, tk_anchor = Listening, tk_stub = Paused, tk_to_anchor = [], tk_to_sender = [],
      tk_gate = [], tk_owned = False, tk_confirmed = False\<rparr>"

text \<open>
  Whether a write end of the gate is left: with the sender before its packet is out, in the packet,
  or with an anchor that has taken the packet.
\<close>

definition gate_held :: "talk \<Rightarrow> bool" where
  "gate_held s \<longleftrightarrow>
     tk_sender s = Preparing \<or> (\<exists>m \<in> set (tk_to_anchor s). snd m = 4) \<or>
     (case tk_anchor s of Owning _ \<Rightarrow> True | Waiting _ \<Rightarrow> True | ConfirmedBy _ \<Rightarrow> True | _ \<Rightarrow> False)"

inductive sender_step :: "handoff_env \<Rightarrow> talk \<Rightarrow> talk \<Rightarrow> bool" for H where
  send: "tk_sender s = Preparing \<Longrightarrow> handoff_offer H = Inr b \<Longrightarrow>
      sender_step H s (s\<lparr>tk_sender := Offered, tk_to_anchor := tk_to_anchor s @ [(b, 4)]\<rparr>)"
| ack: "tk_sender s = Offered \<Longrightarrow> handoff_offer H = Inr b \<Longrightarrow> tk_to_sender s = b # rest \<Longrightarrow>
      sender_step H s (s\<lparr>tk_sender := AckChecked, tk_to_sender := rest\<rparr>)"
| confirm: "tk_sender s = AckChecked \<Longrightarrow> handoff_offer H = Inr b \<Longrightarrow>
      sender_step H s (s\<lparr>tk_sender := Admitted, tk_confirmed := True, tk_to_anchor := tk_to_anchor s @ [(b, 0)]\<rparr>)"
| fail: "tk_sender s \<notin> {Admitted, SenderGone} \<Longrightarrow>
      sender_step H s (s\<lparr>tk_sender := SenderGone, tk_stub := Stopped\<rparr>)"
| die: "sender_step H s (s\<lparr>tk_sender := SenderGone\<rparr>)"

inductive anchor_step :: "anchor \<Rightarrow> accept_env \<Rightarrow> talk \<Rightarrow> talk \<Rightarrow> bool" for a A where
  take: "tk_anchor s = Listening \<Longrightarrow> tk_to_anchor s = (b, 4) # rest \<Longrightarrow> accept_validate a A b = Inr w \<Longrightarrow>
      anchor_step a A s (s\<lparr>tk_anchor := Owning b, tk_to_anchor := rest, tk_owned := True\<rparr>)"
| ack: "tk_anchor s = Owning b \<Longrightarrow>
      anchor_step a A s (s\<lparr>tk_anchor := Waiting b, tk_to_sender := tk_to_sender s @ [b]\<rparr>)"
| confirm: "tk_anchor s = Waiting b \<Longrightarrow> tk_to_anchor s = (b, 0) # rest \<Longrightarrow>
      anchor_step a A s (s\<lparr>tk_anchor := ConfirmedBy b, tk_to_anchor := rest\<rparr>)"
| release: "tk_anchor s = ConfirmedBy b \<Longrightarrow>
      anchor_step a A s (s\<lparr>tk_anchor := Done, tk_gate := tk_gate s @ [gate_message]\<rparr>)"
| die: "anchor_step a A s (s\<lparr>tk_anchor := AnchorGone, tk_owned := False\<rparr>)"

inductive stub_step :: "talk \<Rightarrow> talk \<Rightarrow> bool" where
  run: "tk_stub s = Paused \<Longrightarrow> tk_gate s = m # rest \<Longrightarrow> m = gate_message \<Longrightarrow>
      stub_step s (s\<lparr>tk_stub := Running, tk_gate := rest\<rparr>)"
| eof: "tk_stub s = Paused \<Longrightarrow> tk_gate s = [] \<Longrightarrow> \<not> gate_held s \<Longrightarrow>
      stub_step s (s\<lparr>tk_stub := Stopped\<rparr>)"

text \<open>Strangers can put any datagram without the four descriptors on the channels, except the sender's
  own packet, which has its nonce.\<close>

inductive noise_step :: "handoff_env \<Rightarrow> talk \<Rightarrow> talk \<Rightarrow> bool" for H where
  to_anchor: "handoff_offer H \<noteq> Inr b \<Longrightarrow> n \<noteq> 4 \<Longrightarrow>
      noise_step H s (s\<lparr>tk_to_anchor := tk_to_anchor s @ [(b, n)]\<rparr>)"
| to_sender: "handoff_offer H \<noteq> Inr b \<Longrightarrow> noise_step H s (s\<lparr>tk_to_sender := tk_to_sender s @ [b]\<rparr>)"

inductive talk_reach :: "handoff_env \<Rightarrow> anchor \<Rightarrow> accept_env \<Rightarrow> talk \<Rightarrow> bool" for H a A where
  start: "talk_reach H a A talk_start"
| step: "talk_reach H a A s \<Longrightarrow>
      sender_step H s t \<or> anchor_step a A s t \<or> stub_step s t \<or> noise_step H s t \<Longrightarrow> talk_reach H a A t"

inductive_cases sender_stepE: "sender_step H s t"
inductive_cases anchor_stepE: "anchor_step a A s t"
inductive_cases stub_stepE: "stub_step s t"
inductive_cases noise_stepE: "noise_step H s t"

text \<open>
  The invariant: the anchor only ever works on the sender's packet, a confirmation in its queue was
  sent, and what opens the gate or runs was confirmed.
\<close>

definition talk_inv :: "handoff_env \<Rightarrow> anchor \<Rightarrow> accept_env \<Rightarrow> talk \<Rightarrow> bool" where
  "talk_inv H a A s \<longleftrightarrow>
     (\<forall>b. (b, 4) \<in> set (tk_to_anchor s) \<longrightarrow> handoff_offer H = Inr b) \<and>
     (\<forall>b n. (b, n) \<in> set (tk_to_anchor s) \<longrightarrow> n \<noteq> 4 \<longrightarrow> handoff_offer H = Inr b \<longrightarrow> tk_confirmed s) \<and>
     (\<forall>b. tk_anchor s \<in> {Owning b, Waiting b, ConfirmedBy b} \<longrightarrow>
        handoff_offer H = Inr b \<and> (\<exists>w. accept_validate a A b = Inr w) \<and> tk_owned s) \<and>
     (\<forall>b. tk_anchor s = ConfirmedBy b \<longrightarrow> tk_confirmed s) \<and>
     (tk_anchor s = Done \<longrightarrow> tk_owned s) \<and>
     (tk_gate s \<noteq> [] \<or> tk_stub s = Running \<or> tk_anchor s = Done \<longrightarrow>
        tk_confirmed s \<and> (\<exists>b w. handoff_offer H = Inr b \<and> accept_validate a A b = Inr w)) \<and>
     (tk_confirmed s \<longrightarrow> tk_sender s \<in> {Admitted, SenderGone})"

lemma talk_inv_start: "talk_inv H a A talk_start"
  by (simp add: talk_inv_def talk_start_def)

lemma talk_inv_sender:
  assumes "talk_inv H a A s" and "sender_step H s t"
  shows "talk_inv H a A t"
  using assms(2)
proof cases
  case (send b)
  then show ?thesis using assms(1) by (auto simp: talk_inv_def)
next
  case (ack b rest)
  then show ?thesis using assms(1) by (auto simp: talk_inv_def)
next
  case (confirm b)
  then show ?thesis using assms(1) by (auto simp: talk_inv_def)
next
  case fail
  then show ?thesis using assms(1) by (auto simp: talk_inv_def)
next
  case die
  then show ?thesis using assms(1) by (auto simp: talk_inv_def)
qed

lemma talk_inv_anchor:
  assumes "talk_inv H a A s" and "anchor_step a A s t"
  shows "talk_inv H a A t"
  using assms(2)
proof cases
  case (take b rest w)
  then have "handoff_offer H = Inr b" using assms(1) by (simp add: talk_inv_def)
  then show ?thesis using take assms(1) by (simp add: talk_inv_def)
next
  case (ack b)
  then show ?thesis using assms(1) by (auto simp: talk_inv_def)
next
  case (confirm b rest)
  then show ?thesis using assms(1) by (auto simp: talk_inv_def)
next
  case (release b)
  then show ?thesis using assms(1) by (auto simp: talk_inv_def)
next
  case die
  then show ?thesis using assms(1) by (simp add: talk_inv_def)
qed

lemma talk_inv_stub:
  assumes "talk_inv H a A s" and "stub_step s t"
  shows "talk_inv H a A t"
  using assms(2) assms(1) by cases (simp_all add: talk_inv_def)

lemma talk_inv_noise:
  assumes "talk_inv H a A s" and "noise_step H s t"
  shows "talk_inv H a A t"
  using assms(2)
proof cases
  case (to_anchor b n)
  then show ?thesis using assms(1) by (auto simp: talk_inv_def)
next
  case (to_sender b)
  then show ?thesis using assms(1) by (simp add: talk_inv_def)
qed

lemma talk_reach_inv: "talk_reach H a A s \<Longrightarrow> talk_inv H a A s"
  by (induction rule: talk_reach.induct)
     (auto intro: talk_inv_start talk_inv_sender talk_inv_anchor talk_inv_stub talk_inv_noise)

lemma talk_safe:
  assumes "talk_reach H a A s" and "tk_stub s = Running"
  shows "tk_confirmed s \<and> tk_sender s \<in> {Admitted, SenderGone} \<and>
    (\<exists>b w. handoff_offer H = Inr b \<and> accept_validate a A b = Inr w)"
  using talk_reach_inv [OF assms(1)] assms(2) by (simp add: talk_inv_def)

text \<open>And the conversation can succeed: the undisturbed run ends with the command running and owned.\<close>

lemma talk_can_run:
  assumes offer: "handoff_offer H = Inr b" and ok: "accept_validate a A b = Inr w"
  shows "\<exists>s. talk_reach H a A s \<and> tk_stub s = Running \<and> tk_owned s \<and> tk_sender s = Admitted"
proof -
  let ?s1 = "talk_start\<lparr>tk_sender := Offered, tk_to_anchor := [(b, 4)]\<rparr>"
  let ?s2 = "?s1\<lparr>tk_anchor := Owning b, tk_to_anchor := [], tk_owned := True\<rparr>"
  let ?s3 = "?s2\<lparr>tk_anchor := Waiting b, tk_to_sender := [b]\<rparr>"
  let ?s4 = "?s3\<lparr>tk_sender := AckChecked, tk_to_sender := []\<rparr>"
  let ?s5 = "?s4\<lparr>tk_sender := Admitted, tk_confirmed := True, tk_to_anchor := [(b, 0)]\<rparr>"
  let ?s6 = "?s5\<lparr>tk_anchor := ConfirmedBy b, tk_to_anchor := []\<rparr>"
  let ?s7 = "?s6\<lparr>tk_anchor := Done, tk_gate := [gate_message]\<rparr>"
  let ?s8 = "?s7\<lparr>tk_stub := Running, tk_gate := []\<rparr>"
  have "sender_step H talk_start ?s1" using sender_step.send [of talk_start H b] offer by (simp add: talk_start_def)
  moreover have "anchor_step a A ?s1 ?s2" using anchor_step.take [of ?s1 b "[]" a A w] ok by (simp add: talk_start_def)
  moreover have "anchor_step a A ?s2 ?s3" using anchor_step.ack [of ?s2 b a A] by (simp add: talk_start_def)
  moreover have "sender_step H ?s3 ?s4" using sender_step.ack [of ?s3 H b "[]"] offer by (simp add: talk_start_def)
  moreover have "sender_step H ?s4 ?s5" using sender_step.confirm [of ?s4 H b] offer by (simp add: talk_start_def)
  moreover have "anchor_step a A ?s5 ?s6" using anchor_step.confirm [of ?s5 b "[]" a A] by (simp add: talk_start_def)
  moreover have "anchor_step a A ?s6 ?s7" using anchor_step.release [of ?s6 b a A] by (simp add: talk_start_def)
  moreover have "stub_step ?s7 ?s8" using stub_step.run [of ?s7 gate_message "[]"] by (simp add: talk_start_def)
  ultimately have "talk_reach H a A ?s8" by (meson talk_reach.start talk_reach.step)
  then show ?thesis by (intro exI [of _ ?s8]) simp
qed

end
