(* ===== verification/Registered.thy ===== *)
theory Registered
  imports Handoff
begin

text \<open>
  One registered command: the guard process that pauses and hands over a command, the anchor process
  that owns its witness, and the session of the worker that waits for both
  (\<open>ebpf-proxy/internal/tproxy/registered_command_linux.go\<close>).
\<close>

section \<open>The inherited configuration\<close>

record registered_config =
  rf_version :: int
  rf_directory :: string
  rf_plan :: plan

definition config_json :: "registered_config \<Rightarrow> json" where
  "config_json c = JObj
     [(''version'', JInt (rf_version c)), (''directory'', JStr (rf_directory c)), (''plan'', plan_json (rf_plan c))]"

definition no_plan :: plan where
  "no_plan = \<lparr>pl_destination = \<lparr>ap_addr = IpZero, ap_port = 0\<rparr>, pl_listener_port = 0, pl_mark = 0, pl_mask = 0,
     pl_table = 0, pl_priority = 0, pl_prefix = []\<rparr>"

definition registered_field :: "string \<Rightarrow> json \<Rightarrow> registered_config \<Rightarrow> registered_config option" where
  "registered_field k v c =
     (if fold_eq k ''version'' then map_option (\<lambda>i. c\<lparr>rf_version := i\<rparr>) (dec_int v (rf_version c))
      else if fold_eq k ''directory'' then map_option (\<lambda>s. c\<lparr>rf_directory := s\<rparr>) (dec_string v (rf_directory c))
      else if fold_eq k ''plan'' then map_option (\<lambda>p. c\<lparr>rf_plan := p\<rparr>) (dec_struct plan_field v (rf_plan c))
      else None)"

definition dec_registered :: "json \<Rightarrow> registered_config option" where
  "dec_registered v =
     (case dec_struct registered_field v \<lparr>rf_version = 0, rf_directory = [], rf_plan = no_plan\<rparr> of
        None \<Rightarrow> None
      | Some c \<Rightarrow> if rf_version c \<noteq> 1 then None else Some c)"

text \<open>\<open>pipe\<close> says whether descriptor 6 is a pipe; \<open>bnd\<close> is the binding of the decoded directory and plan.\<close>

definition read_registered_config :: "bool \<Rightarrow> string \<Rightarrow> (string \<Rightarrow> plan \<Rightarrow> gerr + binding) \<Rightarrow> gerr + registered_config" where
  "read_registered_config pipe input bnd =
     (if \<not> pipe then Inl (Err ''inherited configuration pipe required'')
      else (case decode_single dec_registered (take 4097 input) (Err ''invalid inherited configuration'')
                (Err ''trailing inherited configuration'') of
              Inl e \<Rightarrow> Inl e
            | Inr c \<Rightarrow> (case bnd (rf_directory c) (rf_plan c) of Inl e \<Rightarrow> Inl e | Inr _ \<Rightarrow> Inr c)))"

text \<open>The writer's side: the whole configuration or an error.\<close>

definition config_pipe :: "registered_config \<Rightarrow> gerr option \<Rightarrow> gerr option \<Rightarrow> gerr + string" where
  "config_pipe c pipe_error write_error =
     (let b = json_text (config_json c)
      in if length b > 4096 then Inl (Err ''configuration too large'')
         else if pipe_error \<noteq> None then Inl (the pipe_error)
         else if write_error \<noteq> None then Inl (the write_error)
         else Inr b)"

section \<open>The guard process\<close>

record guard_run =
  gu_config :: "gerr + registered_config"
  gu_euid :: u32
  gu_lease :: "gerr + file_stat"
  gu_flock :: "gerr option"
  gu_pidfd :: "gerr option"
  gu_pause :: pause_env
  gu_handoff :: handoff_env
  gu_child :: child_end

text \<open>The exit code and the command's state at the end; \<open>None\<close> while a wait has not ended.\<close>

definition registered_guard :: "guard_run \<Rightarrow> argv \<Rightarrow> (int \<times> paused option) option" where
  "registered_guard G args =
     (if length args < 4 \<or> args ! 2 \<noteq> ''--'' then Some (1, None)
      else if \<not> is_ok (gu_config G) then Some (1, None)
      else if private_file (gu_euid G) (gu_lease G) \<noteq> None \<or> gu_flock G \<noteq> None then Some (1, None)
      else if gu_pidfd G \<noteq> None then Some (1, None)
      else (case start_paused (drop 3 args) (gu_pause G) of
              Inl _ \<Rightarrow> Some (1, None)
            | Inr p \<Rightarrow>
                (case handoff_scoped (gu_handoff G) p of
                   (None, _) \<Rightarrow> None
                 | (Some (Some e, _), p1) \<Rightarrow> Some (1, Some (snd (paused_abort None p1)))
                 | (Some (None, _), p1) \<Rightarrow>
                     Some (guard_exit_code (gu_child G), Some (snd (paused_wait None p1))))))"

section \<open>The anchor process\<close>

record anchor_report =
  rp_version :: int
  rp_state :: string
  rp_quiescent :: bool
  rp_recovery :: witness_report

definition no_recovery :: witness_report where
  "no_recovery = \<lparr>wr_witnesses = 0, wr_all_exited = False, wr_recovery = new_guardian 0\<rparr>"

definition blocked_report :: anchor_report where
  "blocked_report = \<lparr>rp_version = 1, rp_state = ''blocked'', rp_quiescent = False, rp_recovery = no_recovery\<rparr>"

definition quiescent_report :: anchor_report where
  "quiescent_report = \<lparr>rp_version = 1, rp_state = ''quiescent'', rp_quiescent = True, rp_recovery = no_recovery\<rparr>"

definition recovered_report :: "witness_report \<Rightarrow> gerr option \<Rightarrow> anchor_report" where
  "recovered_report r e =
     \<lparr>rp_version = 1,
      rp_state = (if e = None \<and> gr_clean (wr_recovery r) then ''recovered'' else ''blocked''),
      rp_quiescent = False, rp_recovery = r\<rparr>"

text \<open>
  One round of watching: the context, the worker's poll, the recovery if the worker is dead, the poll
  of guard and command, the writing of the report, and the second look at the worker.
\<close>

record watch_round =
  wa_ctx :: "gerr option"
  wa_worker :: "gerr option \<times> u16 list"
  wa_recover :: "witness_report \<times> gerr option"
  wa_others :: "gerr option \<times> u16 list"
  wa_emit :: "gerr option"
  wa_again :: "gerr option \<times> u16 list"

text \<open>The exit code and the reports that were emitted; the rounds end when the deadline has passed.\<close>

fun anchor_watch :: "watch_round list \<Rightarrow> int \<times> anchor_report list" where
  "anchor_watch [] = (1, [blocked_report])"
| "anchor_watch (R # Rs) =
     (if wa_ctx R \<noteq> None then (1, [blocked_report])
      else (case witness_poll (wa_worker R) of
              Inl _ \<Rightarrow> (1, [])
            | Inr True \<Rightarrow>
                (case wa_recover R of (r, e) \<Rightarrow>
                   (if e \<noteq> None then 1 else 0, [recovered_report r e]))
            | Inr False \<Rightarrow>
                (case witness_poll (wa_others R) of
                   Inl _ \<Rightarrow> (1, [])
                 | Inr True \<Rightarrow>
                     if wa_emit R = None then (0, [quiescent_report])
                     else if witness_poll (wa_again R) = Inr True then anchor_watch Rs
                     else (1, [])
                 | Inr False \<Rightarrow> anchor_watch Rs)))"

record anchor_run =
  ar_pipe :: bool
  ar_config :: "gerr + registered_config"
  ar_anchor :: "(gerr \<times> nat list) + anchor"
  ar_accept :: accept_env
  ar_rounds :: "watch_round list"

definition registered_anchor :: "anchor_run \<Rightarrow> argv \<Rightarrow> (int \<times> anchor_report list) option" where
  "registered_anchor N args =
     (if length args \<noteq> 2 then Some (1, [])
      else if \<not> ar_pipe N then Some (1, [])
      else if \<not> is_ok (ar_config N) then Some (1, [])
      else (case ar_anchor N of
              Inl _ \<Rightarrow> Some (1, [])
            | Inr a \<Rightarrow>
                (case anchor_accept a (ar_accept N) of
                   (None, _) \<Rightarrow> None
                 | (Some (r, e, _), _) \<Rightarrow>
                     if e \<noteq> None then Some (1, [blocked_report]) else Some (anchor_watch (ar_rounds N)))))"

text \<open>Success is reported only with an exit seen: of guard and command, or of all three with a clean recovery.\<close>

lemma anchor_watch_reports:
  assumes "anchor_watch Rs = (c, rs)"
  shows "(rs = [quiescent_report] \<longrightarrow> c = 0 \<and> (\<exists>R \<in> set Rs. witness_poll (wa_worker R) = Inr False \<and>
            witness_poll (wa_others R) = Inr True)) \<and>
    (c = 0 \<longrightarrow> rs = [quiescent_report] \<or> (\<exists>R \<in> set Rs. witness_poll (wa_worker R) = Inr True \<and>
            snd (wa_recover R) = None \<and> rs = [recovered_report (fst (wa_recover R)) None]))"
  using assms
proof (induction Rs)
  case Nil
  then show ?case by (auto simp: blocked_report_def quiescent_report_def)
next
  case (Cons R Rs)
  have diff: "blocked_report \<noteq> quiescent_report" "recovered_report r e \<noteq> quiescent_report" for r e
    by (simp_all add: blocked_report_def quiescent_report_def recovered_report_def)
  have IH: "anchor_watch Rs = (c, rs) \<Longrightarrow> ?case" using Cons.IH by auto
  show ?case
    using Cons.prems IH diff
    by (cases "wa_recover R") (auto split: if_splits sum.splits bool.splits)
qed

section \<open>Bounded capture\<close>

record capture =
  cp_bytes :: string
  cp_overflow :: bool

definition capture_limit :: nat where "capture_limit = 65536"

text \<open>\<open>registeredOutput.Write\<close>: it always reports the whole length as written.\<close>

definition capture_write :: "string \<Rightarrow> capture \<Rightarrow> nat \<times> capture" where
  "capture_write b c =
     (let available = int capture_limit - int (length (cp_bytes c));
          c1 = (if int (length b) > available then c\<lparr>cp_overflow := True\<rparr> else c);
          n = (if available > int (length b) then int (length b) else available)
      in (length b, if n > 0 then c1\<lparr>cp_bytes := cp_bytes c1 @ take (nat n) b\<rparr> else c1))"

definition capture_all :: "string list \<Rightarrow> capture" where
  "capture_all bs = foldl (\<lambda>c b. snd (capture_write b c)) \<lparr>cp_bytes = [], cp_overflow = False\<rparr> bs"

lemma capture_write_step:
  assumes "cp_bytes c = take capture_limit t" and "cp_overflow c \<longleftrightarrow> capture_limit < length t"
  shows "cp_bytes (snd (capture_write b c)) = take capture_limit (t @ b) \<and>
    (cp_overflow (snd (capture_write b c)) \<longleftrightarrow> capture_limit < length (t @ b))"
proof (cases "length t \<le> capture_limit")
  case True
  then have c: "cp_bytes c = t" "\<not> cp_overflow c" using assms by simp_all
  show ?thesis
  proof (cases "length b \<le> capture_limit - length t")
    case fits: True
    then show ?thesis using True c by (auto simp: capture_write_def Let_def)
  next
    case False
    then have "int (length b) > int capture_limit - int (length t)" using True by linarith
    moreover have "nat (int capture_limit - int (length t)) = capture_limit - length t" using True by simp
    ultimately show ?thesis using True c False by (auto simp: capture_write_def Let_def)
  qed
next
  case False
  then have "length (cp_bytes c) = capture_limit" "cp_overflow c" using assms by simp_all
  then show ?thesis using False assms by (auto simp: capture_write_def Let_def)
qed

text \<open>Whatever the sizes of the writes, the buffer is the first 64 KiB and the flag says if that is all.\<close>

lemma capture_all_prefix:
  "cp_bytes (capture_all bs) = take capture_limit (concat bs) \<and>
   (cp_overflow (capture_all bs) \<longleftrightarrow> capture_limit < length (concat bs))"
proof (induction bs rule: rev_induct)
  case Nil
  then show ?case by (simp add: capture_all_def)
next
  case (snoc b bs)
  then show ?case
    using capture_write_step [of "capture_all bs" "concat bs" b] by (simp add: capture_all_def)
qed

section \<open>The session\<close>

text \<open>The report as the session reads it.\<close>

definition guardian_field :: "string \<Rightarrow> json \<Rightarrow> guardian_result \<Rightarrow> guardian_result option" where
  "guardian_field k v g =
     (if fold_eq k ''worker_exit_code'' then map_option (\<lambda>i. g\<lparr>gr_exit_code := i\<rparr>) (dec_int v (gr_exit_code g))
      else if fold_eq k ''worker_signal'' then map_option (\<lambda>s. g\<lparr>gr_signal := s\<rparr>) (dec_string v (gr_signal g))
      else if fold_eq k ''recovered_steps'' then map_option (\<lambda>i. g\<lparr>gr_recovered := i\<rparr>) (dec_int v (gr_recovered g))
      else if fold_eq k ''clean'' then map_option (\<lambda>b. g\<lparr>gr_clean := b\<rparr>) (dec_bool v (gr_clean g))
      else if fold_eq k ''pending_reconciled'' then map_option (\<lambda>b. g\<lparr>gr_reconciled := b\<rparr>) (dec_bool v (gr_reconciled g))
      else if fold_eq k ''exit_observed'' then map_option (\<lambda>b. g\<lparr>gr_exit_observed := b\<rparr>) (dec_bool v (gr_exit_observed g))
      else if fold_eq k ''exit_code_known'' then map_option (\<lambda>b. g\<lparr>gr_code_known := b\<rparr>) (dec_bool v (gr_code_known g))
      else None)"

text \<open>The version of the nested record is decoded but never looked at.\<close>

definition recovery_field :: "string \<Rightarrow> json \<Rightarrow> witness_report \<Rightarrow> witness_report option" where
  "recovery_field k v r =
     (if fold_eq k ''version'' then map_option (\<lambda>_. r) (dec_int v 0)
      else if fold_eq k ''witnesses'' then
        map_option (\<lambda>i. r\<lparr>wr_witnesses := nat i\<rparr>) (dec_int v (int (wr_witnesses r)))
      else if fold_eq k ''all_exits_observed'' then map_option (\<lambda>b. r\<lparr>wr_all_exited := b\<rparr>) (dec_bool v (wr_all_exited r))
      else if fold_eq k ''recovery'' then
        map_option (\<lambda>g. r\<lparr>wr_recovery := g\<rparr>) (dec_struct guardian_field v (wr_recovery r))
      else None)"

definition report_field :: "string \<Rightarrow> json \<Rightarrow> anchor_report \<Rightarrow> anchor_report option" where
  "report_field k v r =
     (if fold_eq k ''version'' then map_option (\<lambda>i. r\<lparr>rp_version := i\<rparr>) (dec_int v (rp_version r))
      else if fold_eq k ''state'' then map_option (\<lambda>s. r\<lparr>rp_state := s\<rparr>) (dec_string v (rp_state r))
      else if fold_eq k ''quiescent'' then map_option (\<lambda>b. r\<lparr>rp_quiescent := b\<rparr>) (dec_bool v (rp_quiescent r))
      else if fold_eq k ''recovery'' then
        map_option (\<lambda>w. r\<lparr>rp_recovery := w\<rparr>) (dec_struct recovery_field v (rp_recovery r))
      else None)"

definition dec_report :: "json \<Rightarrow> anchor_report option" where
  "dec_report v =
     (case dec_struct report_field v
         \<lparr>rp_version = 0, rp_state = [], rp_quiescent = False, rp_recovery = no_recovery\<rparr> of
        None \<Rightarrow> None
      | Some r \<Rightarrow> if rp_version r \<noteq> 1 then None else Some r)"

record session_result =
  sn_command :: cmd_result
  sn_guard_exit :: bool
  sn_anchor_exit :: bool
  sn_quiescent :: bool
  sn_truncated :: bool

definition new_session_result :: session_result where
  "new_session_result =
     \<lparr>sn_command = \<lparr>res_command = [], res_exit = -1, res_output = [], res_error = [], res_sha256 = []\<rparr>,
      sn_guard_exit = False, sn_anchor_exit = False, sn_quiescent = False, sn_truncated = False\<rparr>"

text \<open>Waiting for both exits: the events of the select, in the order they arrive.\<close>

datatype wait_event = GuardExited | AnchorExited | StopAsked | WaitTimeout

text \<open>The exits seen, and whether the timer fired; \<open>None\<close> when the events end too early.\<close>

fun await_exits :: "wait_event list \<Rightarrow> bool \<Rightarrow> bool \<Rightarrow> (bool \<times> bool) option \<times> bool" where
  "await_exits [] g a = (if g \<and> a then (Some (g, a), False) else (None, False))"
| "await_exits (ev # evs) g a =
     (if g \<and> a then (Some (g, a), False)
      else (case ev of
              GuardExited \<Rightarrow> await_exits evs True a
            | AnchorExited \<Rightarrow> await_exits evs g True
            | StopAsked \<Rightarrow> await_exits evs g a
            | WaitTimeout \<Rightarrow> (Some (g, a), True)))"

record wait_env =
  sn_events :: "wait_event list"
  sn_exit_code :: int
  sn_anchor_code :: int
  sn_report :: string
  sn_out :: "string list"
  sn_err :: "string list"
  sn_ctx :: "gerr option"

text \<open>Whether the report authorises going on.\<close>

definition report_quiet :: "bool \<Rightarrow> anchor_report \<Rightarrow> bool" where
  "report_quiet allow_recovered r \<longleftrightarrow>
     (rp_state r = ''quiescent'' \<and> rp_quiescent r) \<or>
     (allow_recovered \<and> rp_state r = ''recovered'' \<and> wr_witnesses (rp_recovery r) = 3 \<and>
      wr_all_exited (rp_recovery r) \<and> gr_clean (wr_recovery (rp_recovery r)))"

definition captured_command :: "argv \<Rightarrow> wait_env \<Rightarrow> cmd_result" where
  "captured_command args S =
     \<lparr>res_command = args, res_exit = sn_exit_code S,
      res_output = trim_space (cp_bytes (capture_all (sn_out S))),
      res_error = trim_space (cp_bytes (capture_all (sn_err S))), res_sha256 = []\<rparr>"

definition unverified :: gerr where
  "unverified = Err ''registered quiescence unverified; no cleanup/retry''"

text \<open>\<open>wait\<close> on an initialised session that nobody has waited for.\<close>

definition session_wait :: "argv \<Rightarrow> bool \<Rightarrow> wait_env \<Rightarrow> (session_result \<times> gerr option) option" where
  "session_wait args allow_recovered S =
     (case await_exits (sn_events S) False False of
        (None, _) \<Rightarrow> None
      | (Some (g, a), timeout) \<Rightarrow>
          let r = new_session_result\<lparr>sn_guard_exit := g, sn_anchor_exit := a\<rparr>
          in if timeout then Some (r, Some (Err ''registered exits unverified; no cleanup/retry''))
             else
               let r1 = r\<lparr>sn_command := captured_command args S\<rparr>
               in (case decode_single dec_report (take 1025 (sn_report S)) unverified unverified of
                     Inl e \<Rightarrow> Some (r1, Some e)
                   | Inr rp \<Rightarrow>
                       if sn_anchor_code S \<noteq> 0 \<or> \<not> report_quiet allow_recovered rp
                       then Some (r1, Some unverified)
                       else
                         let r2 = r1\<lparr>sn_quiescent := True\<rparr>
                         in if cp_overflow (capture_all (sn_out S)) \<or> cp_overflow (capture_all (sn_err S))
                            then Some (r2\<lparr>sn_truncated := True,
                                   sn_command := (sn_command r2)\<lparr>res_exit := -1,
                                     res_error := ''registered command output exceeds capture limit''\<rparr>\<rparr>,
                                 Some (Err ''truncated output cannot authorize an observation''))
                            else if sn_ctx S \<noteq> None then Some (r2, sn_ctx S)
                            else if sn_exit_code S \<noteq> 0 then Some (r2, Some (Err ''registered command failed''))
                            else Some (r2, None)))"

lemma await_exits_done: "await_exits evs g a = (Some (g', a'), False) \<Longrightarrow> g' \<and> a'"
  by (induction evs arbitrary: g a) (auto split: wait_event.splits if_splits)

text \<open>A successful wait has seen both exits and a quiet report, and holds the whole output.\<close>

lemma session_wait_ok:
  assumes "session_wait args allow S = Some (r, None)"
  shows "sn_guard_exit r \<and> sn_anchor_exit r \<and> sn_quiescent r \<and> \<not> sn_truncated r \<and> sn_anchor_code S = 0 \<and>
    (\<exists>rp. decode_single dec_report (take 1025 (sn_report S)) unverified unverified = Inr rp \<and> report_quiet allow rp) \<and>
    sn_command r = \<lparr>res_command = args, res_exit = 0, res_output = trim_space (concat (sn_out S)),
      res_error = trim_space (concat (sn_err S)), res_sha256 = []\<rparr>"
proof -
  obtain g a t where ex: "await_exits (sn_events S) False False = (Some (g, a), t)" and t: "\<not> t"
    using assms by (auto simp: session_wait_def Let_def split: option.splits prod.splits if_splits)
  then have "g \<and> a" using await_exits_done by simp
  then show ?thesis
    using assms ex t capture_all_prefix [of "sn_out S"] capture_all_prefix [of "sn_err S"]
    by (auto simp: session_wait_def Let_def captured_command_def new_session_result_def split: sum.splits if_splits)
qed

section \<open>Starting\<close>

text \<open>
  What happened to processes that were already started when a later step failed. The anchor may
  already hold the only witness, so it is waited for and never killed.
\<close>

datatype start_action = GuardKilled | GuardTerminated | GuardWaited | AnchorWaited

record start_env =
  sx_deadline :: "gerr option"
  sx_binding :: "gerr + binding"
  sx_euid :: u32
  sx_lease :: "(gerr + file_stat) option"
  sx_exe :: "gerr option"
  sx_worker :: "gerr option"
  sx_pinned :: "(gerr + int) option"
  sx_socketpair :: "gerr option"
  sx_guard_pipe :: "gerr option \<times> gerr option"
  sx_anchor_pipe :: "gerr option \<times> gerr option"
  sx_report_pipe :: "gerr option"
  sx_guard :: "gerr option"
  sx_guard_pidfd :: "gerr option"
  sx_guard_dup :: "gerr option"
  sx_anchor :: "gerr option"
  sx_anchor_pidfd :: "gerr option"

text \<open>The part before any process exists.\<close>

definition start_prepare :: "argv \<Rightarrow> string \<Rightarrow> plan \<Rightarrow> start_env \<Rightarrow> gerr option" where
  "start_prepare args dir p X =
     (let c = \<lparr>rf_version = 1, rf_directory = dir, rf_plan = p\<rparr>
      in if sx_deadline X \<noteq> None then sx_deadline X
         else case sx_binding X of Inl e \<Rightarrow> Some e | Inr _ \<Rightarrow>
           if args = [] \<or> (case sx_lease X of None \<Rightarrow> True | Some st \<Rightarrow> private_file (sx_euid X) st \<noteq> None)
           then Some (Err ''private lease and command required'')
           else if sx_exe X \<noteq> None then sx_exe X
           else if sx_worker X \<noteq> None then sx_worker X
           else case (case sx_pinned X of None \<Rightarrow> Inr 1 | Some r \<Rightarrow> r) of Inl e \<Rightarrow> Some e | Inr _ \<Rightarrow>
             if sx_socketpair X \<noteq> None then sx_socketpair X
             else case config_pipe c (fst (sx_guard_pipe X)) (snd (sx_guard_pipe X)) of Inl e \<Rightarrow> Some e | Inr _ \<Rightarrow>
               (case config_pipe c (fst (sx_anchor_pipe X)) (snd (sx_anchor_pipe X)) of Inl e \<Rightarrow> Some e | Inr _ \<Rightarrow>
                  sx_report_pipe X))"

definition start_registered :: "argv \<Rightarrow> string \<Rightarrow> plan \<Rightarrow> start_env \<Rightarrow> gerr option \<times> start_action list" where
  "start_registered args dir p X =
     (if start_prepare args dir p X \<noteq> None then (start_prepare args dir p X, [])
      else if sx_guard X \<noteq> None then (sx_guard X, [])
      else if sx_guard_pidfd X \<noteq> None then (sx_guard_pidfd X, [GuardKilled, GuardWaited])
      else if sx_guard_dup X \<noteq> None then (sx_guard_dup X, [GuardTerminated, GuardWaited])
      else if sx_anchor X \<noteq> None then (sx_anchor X, [GuardTerminated, GuardWaited])
      else if sx_anchor_pidfd X \<noteq> None
      then (sx_anchor_pidfd X, [GuardTerminated, GuardWaited, AnchorWaited])
      else (None, []))"

definition supervise_registered :: "argv \<Rightarrow> string \<Rightarrow> plan \<Rightarrow> start_env \<Rightarrow> wait_env
    \<Rightarrow> (session_result \<times> gerr option) option" where
  "supervise_registered args dir p X S =
     (case start_registered args dir p X of
        (Some e, _) \<Rightarrow> Some (new_session_result, Some e)
      | (None, _) \<Rightarrow> session_wait args False S)"

text \<open>No failed start leaves a guard behind.\<close>

lemma start_registered_reaps:
  assumes "start_registered args dir p X = (Some e, acts)"
  shows "(start_prepare args dir p X \<noteq> None \<or> sx_guard X \<noteq> None) \<and> acts = [] \<or> GuardWaited \<in> set acts"
    and "start_prepare args dir p X = None \<Longrightarrow> sx_guard X = None \<Longrightarrow> sx_guard_pidfd X = None \<Longrightarrow>
      sx_guard_dup X = None \<Longrightarrow> sx_anchor X = None \<Longrightarrow> AnchorWaited \<in> set acts"
  using assms by (auto simp: start_registered_def split: if_splits)

end
