(* ===== verification/Relay.thy ===== *)
theory Relay
  imports Socks5
begin

text \<open>
  Relaying one redirected connection and serving a listener: \<open>ebpf-proxy/internal/relay/relay.go\<close>.
  The goroutines of \<open>Relay\<close> and of \<open>Serve\<close> are step relations; one round of \<open>io.Copy\<close>
  is a function.
\<close>

section \<open>Two copy directions\<close>

text \<open>
  A direction is named by the side it reads from. A wire is one connection as the program sees it: what its
  peer sent and the program has not read yet, whether the peer ended its stream, what the program wrote, and
  whether the program shut its own side or closed the connection. \<open>wi_sent\<close> is all the peer ever sent.
\<close>

datatype side = Client | Remote

fun other :: "side \<Rightarrow> side" where
  "other Client = Remote"
| "other Remote = Client"

lemma other_simps [simp]: "other (other s) = s" "other s \<noteq> s" "s \<noteq> other s"
  by (cases s; simp)+

lemma side_cases: "s = t \<or> s = other t"
  by (cases s; cases t) auto

record wire =
  wi_tcp :: bool
  wi_sent :: "u8 list"
  wi_pending :: "u8 list"
  wi_fin :: bool
  wi_out :: "u8 list"
  wi_shut :: bool
  wi_closed :: bool

text \<open>\<open>Copied\<close>: \<open>io.Copy\<close> has returned; \<open>Settled\<close>: the counter and the closing that follow are done.\<close>

datatype copy_phase = Copying | Copied "gerr option" | Settled "gerr option"

record relaying =
  re_wire :: "side \<Rightarrow> wire"
  re_phase :: "side \<Rightarrow> copy_phase"
  re_count :: "side \<Rightarrow> nat"
  re_sent :: u64
  re_received :: u64
  re_cancelled :: bool
  re_returned :: bool

text \<open>The buffer of \<open>io.Copy\<close>.\<close>

definition copy_buffer :: nat where "copy_buffer = 32768"

text \<open>
  One round of \<open>io.Copy\<close>: what \<open>Read\<close> returned, what \<open>Write\<close> took of it, and how the loop goes on.
  \<open>Write\<close> is called for a non-empty read only.
\<close>

definition copy_turn :: "u8 list \<Rightarrow> gerr option \<Rightarrow> nat \<Rightarrow> gerr option \<Rightarrow> nat \<times> copy_phase" where
  "copy_turn buf read_error taken write_error =
     (let n = (if buf = [] then 0 else if length buf < taken then 0 else taken);
          we = (if buf = [] then None
                else if length buf < taken \<and> write_error = None then Some (Err ''invalid write result'')
                else write_error)
      in (n,
          if we \<noteq> None then Copied we
          else if buf \<noteq> [] \<and> n \<noteq> length buf then Copied (Some (Err ''short write''))
          else if read_error = None then Copying
          else if read_error = Some Eof then Copied None
          else Copied read_error))"

text \<open>What a connection can answer: \<open>Read\<close> on one side, \<open>Write\<close> on the other.\<close>

definition read_allowed :: "wire \<Rightarrow> u8 list \<Rightarrow> gerr option \<Rightarrow> bool" where
  "read_allowed c buf e \<longleftrightarrow>
     length buf \<le> copy_buffer \<and> buf = take (length buf) (wi_pending c) \<and>
     (buf = [] \<longrightarrow> e \<noteq> None) \<and> (wi_closed c \<longrightarrow> buf = [] \<and> e \<noteq> Some Eof) \<and>
     (e = Some Eof \<longrightarrow> wi_fin c \<and> buf = wi_pending c)"

definition write_allowed :: "wire \<Rightarrow> u8 list \<Rightarrow> nat \<Rightarrow> gerr option \<Rightarrow> bool" where
  "write_allowed c buf n e \<longleftrightarrow>
     n \<le> length buf \<and> (n < length buf \<longrightarrow> e \<noteq> None) \<and> (wi_closed c \<or> wi_shut c \<longrightarrow> n = 0)"

definition copy_apply :: "side \<Rightarrow> u8 list \<Rightarrow> gerr option \<Rightarrow> nat \<Rightarrow> gerr option \<Rightarrow> relaying \<Rightarrow> relaying" where
  "copy_apply s buf re n we r =
     (case copy_turn buf re n we of
        (m, ph) \<Rightarrow>
          r\<lparr>re_wire := (re_wire r)
              (s := (re_wire r s)\<lparr>wi_pending := drop (length buf) (wi_pending (re_wire r s))\<rparr>,
               other s := (re_wire r (other s))\<lparr>wi_out := wi_out (re_wire r (other s)) @ take m buf\<rparr>),
            re_phase := (re_phase r)(s := ph),
            re_count := (re_count r)(s := re_count r s + m)\<rparr>)"

definition close_wires :: "(side \<Rightarrow> wire) \<Rightarrow> side \<Rightarrow> wire" where
  "close_wires w = (\<lambda>s. (w s)\<lparr>wi_closed := True\<rparr>)"

text \<open>After \<open>io.Copy\<close>: count, then close both sides on an error or end the stream of the other side.\<close>

definition settle_copy :: "side \<Rightarrow> gerr option \<Rightarrow> relaying \<Rightarrow> relaying" where
  "settle_copy s e r =
     (let r1 = (case s of
                  Client \<Rightarrow> r\<lparr>re_sent := re_sent r + word_of_nat (re_count r s)\<rparr>
                | Remote \<Rightarrow> r\<lparr>re_received := re_received r + word_of_nat (re_count r s)\<rparr>);
          dst = re_wire r (other s)
      in r1\<lparr>re_phase := (re_phase r)(s := Settled e),
            re_wire :=
              (if e \<noteq> None then close_wires (re_wire r)
               else if wi_tcp dst then (re_wire r)(other s := dst\<lparr>wi_shut := True\<rparr>)
               else (re_wire r)(other s := dst\<lparr>wi_closed := True\<rparr>))\<rparr>)"

text \<open>The steps of the two copies, of the context watcher, of the return, and of the two peers.\<close>

inductive relay_step :: "relaying \<Rightarrow> relaying \<Rightarrow> bool" where
  copy: "re_phase r s = Copying \<Longrightarrow> read_allowed (re_wire r s) buf re \<Longrightarrow>
      write_allowed (re_wire r (other s)) buf n we \<Longrightarrow> relay_step r (copy_apply s buf re n we r)"
| settle: "re_phase r s = Copied e \<Longrightarrow> relay_step r (settle_copy s e r)"
| cancel: "\<not> re_returned r \<Longrightarrow>
      relay_step r (r\<lparr>re_cancelled := True, re_wire := close_wires (re_wire r)\<rparr>)"
| return: "re_phase r Client = Settled e \<Longrightarrow> re_phase r Remote = Settled f \<Longrightarrow> \<not> re_returned r \<Longrightarrow>
      relay_step r (r\<lparr>re_returned := True, re_wire := close_wires (re_wire r)\<rparr>)"
| peer_sends: "\<not> wi_fin (re_wire r s) \<Longrightarrow>
      relay_step r (r\<lparr>re_wire := (re_wire r)
        (s := (re_wire r s)\<lparr>wi_sent := wi_sent (re_wire r s) @ bs, wi_pending := wi_pending (re_wire r s) @ bs\<rparr>)\<rparr>)"
| peer_ends: "relay_step r (r\<lparr>re_wire := (re_wire r)(s := (re_wire r s)\<lparr>wi_fin := True\<rparr>)\<rparr>)"

definition new_wire :: "bool \<Rightarrow> wire" where
  "new_wire tcp =
     \<lparr>wi_tcp = tcp, wi_sent = [], wi_pending = [], wi_fin = False, wi_out = [], wi_shut = False, wi_closed = False\<rparr>"

text \<open>The start; the counters of the process are whatever earlier connections left.\<close>

definition new_relay :: "(side \<Rightarrow> bool) \<Rightarrow> u64 \<Rightarrow> u64 \<Rightarrow> relaying" where
  "new_relay tcp sent received =
     \<lparr>re_wire = (\<lambda>s. new_wire (tcp s)), re_phase = (\<lambda>_. Copying), re_count = (\<lambda>_. 0), re_sent = sent,
      re_received = received, re_cancelled = False, re_returned = False\<rparr>"

inductive relay_reach :: "relaying \<Rightarrow> relaying \<Rightarrow> bool" for r where
  start: "relay_reach r r"
| step: "relay_reach r t \<Longrightarrow> relay_step t u \<Longrightarrow> relay_reach r u"

inductive_cases relay_stepE: "relay_step r t"

section \<open>The invariant of a direction\<close>

fun phase_error :: "copy_phase \<Rightarrow> gerr option" where
  "phase_error Copying = None"
| "phase_error (Copied e) = e"
| "phase_error (Settled e) = e"

fun settled_copy :: "copy_phase \<Rightarrow> bool" where
  "settled_copy (Settled e) = True"
| "settled_copy _ = False"

text \<open>
  Bytes are never lost before an error: what was written is what was read, in order. A direction that ended
  well has passed on everything, and the other side's stream is ended by nothing else.
\<close>

definition copy_inv :: "side \<Rightarrow> relaying \<Rightarrow> bool" where
  "copy_inv s r \<longleftrightarrow>
     re_count r s = length (wi_out (re_wire r (other s))) \<and>
     (if phase_error (re_phase r s) = None
      then wi_sent (re_wire r s) = wi_out (re_wire r (other s)) @ wi_pending (re_wire r s)
      else \<exists>rest. wi_sent (re_wire r s) = wi_out (re_wire r (other s)) @ rest) \<and>
     (re_phase r s \<in> {Copied None, Settled None} \<longrightarrow> wi_fin (re_wire r s) \<and> wi_pending (re_wire r s) = []) \<and>
     (wi_shut (re_wire r (other s)) \<longrightarrow> re_phase r s = Settled None)"

definition close_reason :: "relaying \<Rightarrow> side \<Rightarrow> bool" where
  "close_reason r s \<longleftrightarrow>
     re_cancelled r \<or> re_returned r \<or> (\<exists>t e. re_phase r t = Settled (Some e)) \<or>
     (\<not> wi_tcp (re_wire r s) \<and> re_phase r (other s) = Settled None)"

definition closing_inv :: "relaying \<Rightarrow> bool" where
  "closing_inv r \<longleftrightarrow>
     (\<forall>s. wi_closed (re_wire r s) \<longrightarrow> close_reason r s) \<and>
     (re_returned r \<longrightarrow> (\<forall>s. settled_copy (re_phase r s) \<and> wi_closed (re_wire r s)))"

definition count_inv :: "u64 \<Rightarrow> u64 \<Rightarrow> relaying \<Rightarrow> bool" where
  "count_inv sent received r \<longleftrightarrow>
     re_sent r = sent + (if settled_copy (re_phase r Client) then word_of_nat (re_count r Client) else 0) \<and>
     re_received r = received + (if settled_copy (re_phase r Remote) then word_of_nat (re_count r Remote) else 0)"

lemma copy_inv_new: "copy_inv s (new_relay tcp x y)"
  by (simp add: copy_inv_def new_relay_def new_wire_def)

lemma copy_turn_ok:
  assumes "write_allowed c buf n we" and "copy_turn buf re n we = (m, ph)"
  shows "m \<le> length buf \<and> (phase_error ph = None \<longrightarrow> m = length buf) \<and> \<not> settled_copy ph \<and>
    (ph = Copied None \<longrightarrow> re = Some Eof) \<and> m \<le> n"
  using assms by (auto simp: copy_turn_def write_allowed_def Let_def split: if_splits)

lemma take_append_drop': "xs @ take n ys @ drop n ys = xs @ ys"
  by simp

lemma copy_inv_turn:
  assumes inv: "copy_inv s r" and ph: "re_phase r s = Copying"
    and rd: "read_allowed (re_wire r s) buf re" and wr: "write_allowed (re_wire r (other s)) buf n we"
  shows "copy_inv s (copy_apply s buf re n we r)"
proof -
  obtain m ph' where turn: "copy_turn buf re n we = (m, ph')" by fastforce
  note ok = copy_turn_ok [OF wr turn]
  have buf: "take (length buf) (wi_pending (re_wire r s)) = buf" using rd by (simp add: read_allowed_def)
  have sent: "wi_sent (re_wire r s) = wi_out (re_wire r (other s)) @ wi_pending (re_wire r s)"
    using inv ph by (simp add: copy_inv_def)
  have pend: "wi_pending (re_wire r s) = buf @ drop (length buf) (wi_pending (re_wire r s))"
    by (metis buf append_take_drop_id)
  have split: "buf = take m buf @ drop m buf" by simp
  have pre: "wi_sent (re_wire r s) = (wi_out (re_wire r (other s)) @ take m buf) @
      drop m buf @ drop (length buf) (wi_pending (re_wire r s))"
    by (metis sent pend split append.assoc)
  have "\<not> wi_shut (re_wire r (other s))" using inv ph by (auto simp: copy_inv_def)
  moreover have "wi_fin (re_wire r s) \<and> drop (length buf) (wi_pending (re_wire r s)) = []" if "ph' = Copied None"
    using ok that rd by (auto simp: read_allowed_def)
  moreover have "ph' \<noteq> Settled None" using ok by auto
  moreover have "wi_sent (re_wire r s) = wi_out (re_wire r (other s)) @ take m buf @ drop (length buf) (wi_pending (re_wire r s))"
    if "phase_error ph' = None" using pre ok that by simp
  moreover have "re_count r s = length (wi_out (re_wire r (other s)))" using inv by (simp add: copy_inv_def)
  moreover have "\<exists>rest. wi_sent (re_wire r s) = wi_out (re_wire r (other s)) @ take m buf @ rest"
    using pre by auto
  ultimately show ?thesis
    using ok turn by (auto simp: copy_inv_def copy_apply_def)
qed

lemma copy_inv_turn_other:
  assumes "copy_inv (other s) r" and "re_phase r s = Copying" and "read_allowed (re_wire r s) buf re"
  shows "copy_inv (other s) (copy_apply s buf re n we r)"
  using assms by (auto simp: copy_inv_def copy_apply_def split: prod.splits)

lemma copy_inv_settle:
  assumes "copy_inv t r" and "re_phase r s = Copied e"
  shows "copy_inv t (settle_copy s e r)"
  using assms side_cases [of t s]
  by (cases s) (auto simp: copy_inv_def settle_copy_def close_wires_def Let_def)

lemma copy_inv_close: "copy_inv t (r\<lparr>re_wire := close_wires (re_wire r)\<rparr>) = copy_inv t r"
  by (simp add: copy_inv_def close_wires_def)

lemma copy_inv_more [simp]:
  "copy_inv t (r\<lparr>re_cancelled := b\<rparr>) = copy_inv t r" "copy_inv t (r\<lparr>re_returned := b\<rparr>) = copy_inv t r"
  by (simp_all add: copy_inv_def)

text \<open>Bytes that a peer sends after its end do not exist, so an ended direction stays complete.\<close>

lemma copy_inv_step:
  assumes "\<forall>t. copy_inv t r" and "relay_step r r'"
  shows "\<forall>t. copy_inv t r'"
  using assms(2)
proof cases
  case (copy s buf re n we)
  show ?thesis
  proof
    fix t
    show "copy_inv t r'"
      using side_cases [of t s] copy assms(1) copy_inv_turn [of s r buf re n we] copy_inv_turn_other [of s r buf re n we]
      by auto
  qed
next
  case (settle s e)
  then show ?thesis using assms(1) copy_inv_settle by simp
next
  case cancel
  then show ?thesis using assms(1) copy_inv_close [of _ "r\<lparr>re_cancelled := True\<rparr>"] by simp
next
  case (return e f)
  then show ?thesis using assms(1) copy_inv_close [of _ "r\<lparr>re_returned := True\<rparr>"] by simp
next
  case (peer_sends s bs)
  show ?thesis
  proof
    fix t
    show "copy_inv t r'"
      using side_cases [of t s] spec [OF assms(1), of t] peer_sends by (auto simp: copy_inv_def)
  qed
next
  case (peer_ends s)
  show ?thesis
  proof
    fix t
    show "copy_inv t r'"
      using side_cases [of t s] spec [OF assms(1), of t] peer_ends by (auto simp: copy_inv_def)
  qed
qed

lemma close_reason_mono:
  assumes "close_reason r s" and "re_cancelled r \<Longrightarrow> re_cancelled r'" and "re_returned r \<Longrightarrow> re_returned r'"
    and "\<And>t e. re_phase r t = Settled e \<Longrightarrow> re_phase r' t = Settled e"
    and "wi_tcp (re_wire r' s) = wi_tcp (re_wire r s)"
  shows "close_reason r' s"
  using assms unfolding close_reason_def by blast

lemma copy_apply_frame:
  assumes "re_phase r s = Copying"
  shows "wi_closed (re_wire (copy_apply s buf re n we r) t) = wi_closed (re_wire r t)"
    and "wi_tcp (re_wire (copy_apply s buf re n we r) t) = wi_tcp (re_wire r t)"
    and "re_cancelled (copy_apply s buf re n we r) = re_cancelled r"
    and "re_returned (copy_apply s buf re n we r) = re_returned r"
    and "re_phase r t = Settled e \<Longrightarrow> re_phase (copy_apply s buf re n we r) t = Settled e"
  using assms by (auto simp: copy_apply_def split: prod.splits)

lemma settle_copy_frame:
  assumes "re_phase r s = Copied e"
  shows "wi_tcp (re_wire (settle_copy s e r) t) = wi_tcp (re_wire r t)"
    and "re_cancelled (settle_copy s e r) = re_cancelled r"
    and "re_returned (settle_copy s e r) = re_returned r"
    and "re_phase r t = Settled x \<Longrightarrow> re_phase (settle_copy s e r) t = Settled x"
    and "re_phase (settle_copy s e r) s = Settled e"
    and "e = None \<Longrightarrow> wi_closed (re_wire (settle_copy s e r) t) \<Longrightarrow>
      wi_closed (re_wire r t) \<or> t = other s \<and> \<not> wi_tcp (re_wire r t)"
  using assms by (cases s; auto simp: settle_copy_def close_wires_def Let_def split: if_splits)+

lemma closing_inv_step:
  assumes inv: "closing_inv r" and "relay_step r r'"
  shows "closing_inv r'"
  using assms(2)
proof cases
  case (copy s buf re n we)
  have run: "\<not> re_returned r" using inv copy(2) by (auto simp: closing_inv_def) (metis settled_copy.simps(2))
  have "close_reason r' t" if "wi_closed (re_wire r' t)" for t
    using close_reason_mono [of r t r'] inv that copy_apply_frame [OF copy(2)] copy(1)
    by (auto simp: closing_inv_def)
  then show ?thesis using run copy_apply_frame [OF copy(2)] copy(1) by (simp add: closing_inv_def)
next
  case (settle s e)
  have run: "\<not> re_returned r" using inv settle(2) by (auto simp: closing_inv_def) (metis settled_copy.simps(3))
  note frame = settle_copy_frame [OF settle(2)]
  have "close_reason r' t" if cl: "wi_closed (re_wire r' t)" for t
  proof (cases e)
    case None
    then consider "wi_closed (re_wire r t)" | "t = other s" "\<not> wi_tcp (re_wire r t)"
      using cl frame(6) [OF None, of t] settle(1) by blast
    then show ?thesis
    proof cases
      case 1
      then show ?thesis using close_reason_mono [of r t r'] inv frame settle(1) by (auto simp: closing_inv_def)
    next
      case 2
      then show ?thesis using frame None settle(1) by (simp add: close_reason_def)
    qed
  next
    case (Some x)
    then show ?thesis using frame(5) settle(1) by (auto simp: close_reason_def)
  qed
  then show ?thesis using run frame(3) settle(1) by (simp add: closing_inv_def)
next
  case cancel
  then show ?thesis using inv by (auto simp: closing_inv_def close_reason_def close_wires_def)
next
  case (return e f)
  then have "settled_copy (re_phase r s)" for s by (cases s) simp_all
  then show ?thesis using return by (simp add: closing_inv_def close_reason_def close_wires_def)
next
  case (peer_sends s bs)
  have "close_reason r' t" if "wi_closed (re_wire r' t)" for t
    using close_reason_mono [of r t r'] inv that peer_sends by (auto simp: closing_inv_def split: if_splits)
  then show ?thesis using inv peer_sends by (auto simp: closing_inv_def)
next
  case (peer_ends s)
  have "close_reason r' t" if "wi_closed (re_wire r' t)" for t
    using close_reason_mono [of r t r'] inv that peer_ends by (auto simp: closing_inv_def split: if_splits)
  then show ?thesis using inv peer_ends by (auto simp: closing_inv_def)
qed

lemma count_inv_step:
  assumes inv: "count_inv x y r" and "relay_step r r'"
  shows "count_inv x y r'"
  using assms(2)
proof cases
  case (copy s buf re n we)
  obtain m ph where turn: "copy_turn buf re n we = (m, ph)" by fastforce
  have "\<not> settled_copy ph" using turn by (auto simp: copy_turn_def Let_def split: if_splits)
  then show ?thesis using inv copy turn by (cases s) (auto simp: count_inv_def copy_apply_def)
next
  case (settle s e)
  then show ?thesis using inv by (cases s) (simp_all add: count_inv_def settle_copy_def Let_def)
qed (use inv in \<open>simp_all add: count_inv_def\<close>)

lemma relay_reach_inv:
  assumes "relay_reach r t" and "r = new_relay tcp x y"
  shows "(\<forall>s. copy_inv s t) \<and> closing_inv t \<and> count_inv x y t"
  using assms
proof (induction rule: relay_reach.induct)
  case start
  then show ?case
    by (simp add: copy_inv_new) (simp add: closing_inv_def count_inv_def new_relay_def new_wire_def)
next
  case (step t u)
  then show ?case using copy_inv_step closing_inv_step count_inv_step by blast
qed

text \<open>When the relay returns, both connections are closed and the counters hold what was passed on.\<close>

lemma relay_returned:
  assumes "relay_reach (new_relay tcp x y) r" and "re_returned r"
  shows "wi_closed (re_wire r s) \<and> (\<exists>rest. wi_sent (re_wire r s) = wi_out (re_wire r (other s)) @ rest) \<and>
    re_sent r = x + word_of_nat (length (wi_out (re_wire r Remote))) \<and>
    re_received r = y + word_of_nat (length (wi_out (re_wire r Client)))"
proof -
  have inv: "\<forall>s. copy_inv s r" "closing_inv r" "count_inv x y r" using relay_reach_inv [OF assms(1)] by blast+
  have "re_count r s = length (wi_out (re_wire r (other s)))" for s using inv(1) by (simp add: copy_inv_def)
  moreover have "\<exists>rest. wi_sent (re_wire r s) = wi_out (re_wire r (other s)) @ rest"
    using spec [OF inv(1), of s] by (auto simp: copy_inv_def split: if_splits)
  ultimately show ?thesis using inv(2,3) assms(2) by (simp add: closing_inv_def count_inv_def)
qed

text \<open>A direction that ended well delivered its whole stream, in order.\<close>

lemma relay_delivers:
  assumes "relay_reach (new_relay tcp x y) r" and "re_phase r s = Settled None"
  shows "wi_out (re_wire r (other s)) = wi_sent (re_wire r s) \<and> wi_fin (re_wire r s)"
  using relay_reach_inv [OF assms(1)] assms(2) by (simp add: copy_inv_def)

text \<open>
  Half-close: the end of one stream leaves the other alone. After it, without a cancellation or an error,
  what the other peer has sent can still be delivered.
\<close>

lemma relay_half_close:
  assumes reach: "relay_reach (new_relay tcp x y) r" and one: "re_phase r s = Settled None"
    and two: "re_phase r (other s) = Copying" and tcp: "wi_tcp (re_wire r (other s))" "wi_tcp (re_wire r s)"
    and calm: "\<not> re_cancelled r"
  shows "\<not> wi_closed (re_wire r s) \<and> \<not> wi_closed (re_wire r (other s)) \<and>
    (\<exists>t. relay_reach (new_relay tcp x y) t \<and> re_phase t (other s) = Copying \<and>
      wi_out (re_wire t s) = wi_sent (re_wire r (other s)))"
proof -
  have inv: "\<forall>s. copy_inv s r" "closing_inv r" using relay_reach_inv [OF reach] by blast+
  have ret: "\<not> re_returned r" using inv(2) two by (auto simp: closing_inv_def) (metis settled_copy.simps(2))
  have "\<not> close_reason r t" for t
  proof -
    have "\<exists>t e. re_phase r t = Settled (Some e) \<Longrightarrow> False"
      by (metis one two side_cases copy_phase.distinct(3) copy_phase.inject(2) option.distinct(1))
    then show ?thesis using calm ret tcp side_cases [of t s] by (auto simp: close_reason_def)
  qed
  then have open_: "\<not> wi_closed (re_wire r t)" for t using inv(2) by (auto simp: closing_inv_def)
  have unshut: "\<not> wi_shut (re_wire r s)" using spec [OF inv(1), of "other s"] two by (auto simp: copy_inv_def)
  have "\<exists>t. relay_reach (new_relay tcp x y) t \<and> re_phase t (other s) = Copying \<and>
      wi_out (re_wire t s) = wi_sent (re_wire r (other s))"
    if "length (wi_pending (re_wire r (other s))) = k" "relay_reach (new_relay tcp x y) r"
      "re_phase r (other s) = Copying" "\<not> wi_closed (re_wire r s)" "\<not> wi_closed (re_wire r (other s))"
      "\<not> wi_shut (re_wire r s)" for k r
    using that
  proof (induction k arbitrary: r rule: less_induct)
    case (less k)
    let ?p = "wi_pending (re_wire r (other s))"
    have sent: "wi_sent (re_wire r (other s)) = wi_out (re_wire r s) @ ?p"
      using relay_reach_inv [OF less.prems(2)] less.prems(3) by (auto simp: copy_inv_def dest: spec [of _ "other s"])
    show ?case
    proof (cases "?p = []")
      case True
      then show ?thesis using sent less.prems by auto
    next
      case False
      let ?b = "take copy_buffer ?p"
      have b: "?b \<noteq> []" "length ?b \<le> copy_buffer" "take (length ?b) ?p = ?b" using False by (auto simp: copy_buffer_def min_def)
      let ?r = "copy_apply (other s) ?b None (length ?b) None r"
      have rd: "read_allowed (re_wire r (other s)) ?b None"
        using b less.prems by (simp add: read_allowed_def)
      have wr: "write_allowed (re_wire r (other (other s))) ?b (length ?b) None"
        using less.prems by (simp add: write_allowed_def)
      have turn: "copy_turn ?b None (length ?b) None = (length ?b, Copying)" using b by (simp add: copy_turn_def)
      have reach': "relay_reach (new_relay tcp x y) ?r"
        using relay_reach.step [OF less.prems(2) relay_step.copy [OF less.prems(3) rd wr]] .
      have "length (wi_pending (re_wire ?r (other s))) < k"
        using turn False less.prems(1) by (cases "?p") (auto simp: copy_apply_def copy_buffer_def)
      moreover have "re_phase ?r (other s) = Copying" "\<not> wi_closed (re_wire ?r s)"
          "\<not> wi_closed (re_wire ?r (other s))" "\<not> wi_shut (re_wire ?r s)"
          "wi_sent (re_wire ?r (other s)) = wi_sent (re_wire r (other s))"
        using turn less.prems by (simp_all add: copy_apply_def)
      ultimately show ?thesis using less.IH [OF _ refl reach'] by metis
    qed
  qed
  from this [OF refl reach two open_ open_ unshut] show ?thesis using open_ by blast
qed

section \<open>Serving a listener\<close>

text \<open>
  A handler resolves, connects and relays; on its way out it frees its slot and then decrements the
  counter of active connections.
\<close>

datatype handler_phase = Resolving | Connecting string | Relayed | Leaving | SlotFree | Ended

record handler =
  hd_phase :: handler_phase
  hd_failed :: bool
  hd_closed :: bool

datatype accept_loop = Accepting | Draining "gerr option" | Returned "gerr option"

record serving =
  lp_loop :: accept_loop
  lp_slots :: nat
  lp_handlers :: "handler list"
  lp_refused :: nat
  lp_accepted :: u64
  lp_active :: int
  lp_failures :: u64
  lp_cancelled :: bool

definition new_handler :: handler where
  "new_handler = \<lparr>hd_phase = Resolving, hd_failed = False, hd_closed = False\<rparr>"

definition set_handler :: "nat \<Rightarrow> (handler \<Rightarrow> handler) \<Rightarrow> serving \<Rightarrow> serving" where
  "set_handler i f s = s\<lparr>lp_handlers := (lp_handlers s)[i := f (lp_handlers s ! i)]\<rparr>"

text \<open>A handler that gives up: counted as a failure, its client closed.\<close>

definition fail_handler :: "nat \<Rightarrow> serving \<Rightarrow> serving" where
  "fail_handler i s =
     (set_handler i (\<lambda>h. h\<lparr>hd_phase := Leaving, hd_failed := True, hd_closed := True\<rparr>) s)
       \<lparr>lp_failures := lp_failures s + 1\<rparr>"

definition in_phase :: "serving \<Rightarrow> nat \<Rightarrow> handler_phase \<Rightarrow> bool" where
  "in_phase s i p \<longleftrightarrow> i < length (lp_handlers s) \<and> hd_phase (lp_handlers s ! i) = p"

text \<open>
  One accepted connection: a free slot starts a handler, no free slot closes the connection and counts a
  failure. An accept error ends the loop, with an error unless the context was cancelled.
\<close>

inductive serve_step :: "nat \<Rightarrow> serving \<Rightarrow> serving \<Rightarrow> bool" for limit where
  accept: "lp_loop s = Accepting \<Longrightarrow> lp_slots s < limit \<Longrightarrow>
      serve_step limit s (s\<lparr>lp_slots := lp_slots s + 1, lp_accepted := lp_accepted s + 1,
        lp_active := lp_active s + 1, lp_handlers := lp_handlers s @ [new_handler]\<rparr>)"
| refuse: "lp_loop s = Accepting \<Longrightarrow> \<not> lp_slots s < limit \<Longrightarrow>
      serve_step limit s (s\<lparr>lp_failures := lp_failures s + 1, lp_refused := lp_refused s + 1\<rparr>)"
| accept_error: "lp_loop s = Accepting \<Longrightarrow>
      serve_step limit s (s\<lparr>lp_loop := Draining (if lp_cancelled s then None else Some e)\<rparr>)"
| cancel: "serve_step limit s (s\<lparr>lp_cancelled := True\<rparr>)"
| resolve: "in_phase s i Resolving \<Longrightarrow>
      serve_step limit s (set_handler i (\<lambda>h. h\<lparr>hd_phase := Connecting dst\<rparr>) s)"
| resolve_error: "in_phase s i Resolving \<Longrightarrow> serve_step limit s (fail_handler i s)"
| connect: "in_phase s i (Connecting dst) \<Longrightarrow>
      serve_step limit s (set_handler i (\<lambda>h. h\<lparr>hd_phase := Relayed\<rparr>) s)"
| connect_error: "in_phase s i (Connecting dst) \<Longrightarrow> serve_step limit s (fail_handler i s)"
| relay_end: "in_phase s i Relayed \<Longrightarrow>
      serve_step limit s (set_handler i (\<lambda>h. h\<lparr>hd_phase := Leaving, hd_closed := True\<rparr>) s)"
| free: "in_phase s i Leaving \<Longrightarrow>
      serve_step limit s ((set_handler i (\<lambda>h. h\<lparr>hd_phase := SlotFree\<rparr>) s)\<lparr>lp_slots := lp_slots s - 1\<rparr>)"
| uncount: "in_phase s i SlotFree \<Longrightarrow>
      serve_step limit s ((set_handler i (\<lambda>h. h\<lparr>hd_phase := Ended\<rparr>) s)\<lparr>lp_active := lp_active s - 1\<rparr>)"
| return: "lp_loop s = Draining e \<Longrightarrow> list_all (\<lambda>h. hd_phase h = Ended) (lp_handlers s) \<Longrightarrow>
      serve_step limit s (s\<lparr>lp_loop := Returned e\<rparr>)"

definition new_serving :: serving where
  "new_serving =
     \<lparr>lp_loop = Accepting, lp_slots = 0, lp_handlers = [], lp_refused = 0, lp_accepted = 0, lp_active = 0,
      lp_failures = 0, lp_cancelled = False\<rparr>"

inductive serve_reach :: "nat \<Rightarrow> serving \<Rightarrow> bool" for limit where
  start: "serve_reach limit new_serving"
| step: "serve_reach limit s \<Longrightarrow> serve_step limit s t \<Longrightarrow> serve_reach limit t"

definition holds_slot :: "handler \<Rightarrow> bool" where
  "holds_slot h \<longleftrightarrow> hd_phase h \<noteq> SlotFree \<and> hd_phase h \<noteq> Ended"

definition count_if :: "('a \<Rightarrow> bool) \<Rightarrow> 'a list \<Rightarrow> nat" where
  "count_if P xs = length (filter P xs)"

lemma count_if_simps [simp]:
  "count_if P [] = 0" "count_if P (xs @ [x]) = count_if P xs + (if P x then 1 else 0)"
  by (simp_all add: count_if_def)

lemma count_if_update:
  "i < length xs \<Longrightarrow>
     count_if P (xs[i := y]) + (if P (xs ! i) then 1 else 0) = count_if P xs + (if P y then 1 else 0)"
proof (induction xs arbitrary: i)
  case (Cons x xs)
  then show ?case by (cases i) (auto simp: count_if_def)
qed simp

lemma count_if_0: "count_if P xs = 0 \<longleftrightarrow> list_all (\<lambda>x. \<not> P x) xs"
  by (simp add: count_if_def filter_empty_conv list_all_iff)

definition serve_inv :: "nat \<Rightarrow> serving \<Rightarrow> bool" where
  "serve_inv limit s \<longleftrightarrow>
     lp_slots s = count_if holds_slot (lp_handlers s) \<and> lp_slots s \<le> limit \<and>
     lp_active s = int (count_if (\<lambda>h. hd_phase h \<noteq> Ended) (lp_handlers s)) \<and>
     lp_accepted s = word_of_nat (length (lp_handlers s)) \<and>
     lp_failures s = word_of_nat (lp_refused s + count_if hd_failed (lp_handlers s)) \<and>
     list_all (\<lambda>h. (hd_closed h \<longleftrightarrow> hd_phase h \<in> {Leaving, SlotFree, Ended}) \<and> (hd_failed h \<longrightarrow> hd_closed h))
       (lp_handlers s) \<and>
     (\<forall>e. lp_loop s = Returned e \<longrightarrow> list_all (\<lambda>h. hd_phase h = Ended) (lp_handlers s))"

lemma list_all_update: "list_all P xs \<Longrightarrow> P y \<Longrightarrow> list_all P (xs[i := y])"
  by (auto simp: list_all_iff dest: set_update_subset_insert [THEN subsetD])

lemma serve_inv_set:
  assumes inv: "serve_inv limit s" and i: "i < length (lp_handlers s)" and h: "h = lp_handlers s ! i"
    and not_ended: "hd_phase h \<noteq> Ended"
    and t: "t = (set_handler i f s)\<lparr>lp_slots := a, lp_active := b, lp_failures := c\<rparr>"
    and a: "a + (if holds_slot h then 1 else 0) = lp_slots s + (if holds_slot (f h) then 1 else 0)" "a \<le> limit"
    and b: "b + (if hd_phase h \<noteq> Ended then 1 else 0) = lp_active s + (if hd_phase (f h) \<noteq> Ended then 1 else 0)"
    and c: "c = lp_failures s + (if \<not> hd_failed h \<and> hd_failed (f h) then 1 else 0)" "hd_failed h \<Longrightarrow> hd_failed (f h)"
    and closed: "hd_closed (f h) \<longleftrightarrow> hd_phase (f h) \<in> {Leaving, SlotFree, Ended}" "hd_failed (f h) \<Longrightarrow> hd_closed (f h)"
  shows "serve_inv limit t"
proof -
  let ?hs = "lp_handlers s"
  note up = count_if_update [OF i, of _ "f h"]
  have not_returned: "lp_loop s \<noteq> Returned e" for e
    using inv not_ended i h by (auto simp: serve_inv_def list_all_length)
  have "count_if hd_failed (?hs[i := f h]) = count_if hd_failed ?hs + (if \<not> hd_failed h \<and> hd_failed (f h) then 1 else 0)"
    using up [of hd_failed] h c(2) by (auto split: if_splits)
  then have "c = word_of_nat (lp_refused s + count_if hd_failed (?hs[i := f h]))"
    using c inv by (simp add: serve_inv_def)
  then show ?thesis
    using inv a b up [of holds_slot] up [of "\<lambda>h. hd_phase h \<noteq> Ended"] h closed not_returned
    by (auto simp: serve_inv_def t set_handler_def list_all_update split: if_splits)
qed

lemma serve_inv_handler:
  assumes "serve_inv limit s" and "in_phase s i p"
  shows "lp_slots s \<le> limit" and "hd_closed (lp_handlers s ! i) \<longleftrightarrow> p \<in> {Leaving, SlotFree, Ended}"
    and "hd_failed (lp_handlers s ! i) \<Longrightarrow> hd_closed (lp_handlers s ! i)"
    and "holds_slot (lp_handlers s ! i) \<Longrightarrow> lp_slots s \<noteq> 0"
proof -
  have i: "i < length (lp_handlers s)" "hd_phase (lp_handlers s ! i) = p" using assms(2) by (auto simp: in_phase_def)
  show "lp_slots s \<le> limit" using assms(1) by (simp add: serve_inv_def)
  show "hd_closed (lp_handlers s ! i) \<longleftrightarrow> p \<in> {Leaving, SlotFree, Ended}"
    using assms(1) i by (simp add: serve_inv_def list_all_length)
  show "hd_closed (lp_handlers s ! i)" if "hd_failed (lp_handlers s ! i)"
    using assms(1) i that by (auto simp: serve_inv_def list_all_length)
  show "lp_slots s \<noteq> 0" if "holds_slot (lp_handlers s ! i)"
  proof
    assume "lp_slots s = 0"
    then have "list_all (\<lambda>h. \<not> holds_slot h) (lp_handlers s)"
      using assms(1) by (simp add: serve_inv_def count_if_0)
    then show False using that i by (simp add: list_all_length)
  qed
qed

lemma serve_inv_step:
  assumes inv: "serve_inv limit s" and "serve_step limit s t"
  shows "serve_inv limit t"
  using assms(2)
proof cases
  case accept
  then show ?thesis using inv by (simp add: serve_inv_def new_handler_def holds_slot_def)
next
  case (resolve i dst)
  show ?thesis
    by (rule serve_inv_set [OF inv, where i = i and f = "\<lambda>h. h\<lparr>hd_phase := Connecting dst\<rparr>" and a = "lp_slots s"
          and b = "lp_active s" and c = "lp_failures s", OF _ refl])
       (use resolve serve_inv_handler [OF inv resolve(2)] in
         \<open>auto simp: in_phase_def set_handler_def fail_handler_def holds_slot_def\<close>)
next
  case (resolve_error i)
  show ?thesis
    by (rule serve_inv_set [OF inv, where i = i and f = "\<lambda>h. h\<lparr>hd_phase := Leaving, hd_failed := True, hd_closed := True\<rparr>" and a = "lp_slots s"
          and b = "lp_active s" and c = "lp_failures s + 1", OF _ refl])
       (use resolve_error serve_inv_handler [OF inv resolve_error(2)] in
         \<open>auto simp: in_phase_def set_handler_def fail_handler_def holds_slot_def\<close>)
next
  case (connect i dst)
  show ?thesis
    by (rule serve_inv_set [OF inv, where i = i and f = "\<lambda>h. h\<lparr>hd_phase := Relayed\<rparr>" and a = "lp_slots s"
          and b = "lp_active s" and c = "lp_failures s", OF _ refl])
       (use connect serve_inv_handler [OF inv connect(2)] in
         \<open>auto simp: in_phase_def set_handler_def fail_handler_def holds_slot_def\<close>)
next
  case (connect_error i dst)
  show ?thesis
    by (rule serve_inv_set [OF inv, where i = i and f = "\<lambda>h. h\<lparr>hd_phase := Leaving, hd_failed := True, hd_closed := True\<rparr>" and a = "lp_slots s"
          and b = "lp_active s" and c = "lp_failures s + 1", OF _ refl])
       (use connect_error serve_inv_handler [OF inv connect_error(2)] in
         \<open>auto simp: in_phase_def set_handler_def fail_handler_def holds_slot_def\<close>)
next
  case (relay_end i)
  show ?thesis
    by (rule serve_inv_set [OF inv, where i = i and f = "\<lambda>h. h\<lparr>hd_phase := Leaving, hd_closed := True\<rparr>" and a = "lp_slots s"
          and b = "lp_active s" and c = "lp_failures s", OF _ refl])
       (use relay_end serve_inv_handler [OF inv relay_end(2)] in
         \<open>auto simp: in_phase_def set_handler_def fail_handler_def holds_slot_def\<close>)
next
  case (free i)
  show ?thesis
    by (rule serve_inv_set [OF inv, where i = i and f = "\<lambda>h. h\<lparr>hd_phase := SlotFree\<rparr>" and a = "lp_slots s - 1"
          and b = "lp_active s" and c = "lp_failures s", OF _ refl])
       (use free serve_inv_handler [OF inv free(2)] in
         \<open>auto simp: in_phase_def set_handler_def fail_handler_def holds_slot_def\<close>)
next
  case (uncount i)
  show ?thesis
    by (rule serve_inv_set [OF inv, where i = i and f = "\<lambda>h. h\<lparr>hd_phase := Ended\<rparr>" and a = "lp_slots s"
          and b = "lp_active s - 1" and c = "lp_failures s", OF _ refl])
       (use uncount serve_inv_handler [OF inv uncount(2)] in
         \<open>auto simp: in_phase_def set_handler_def fail_handler_def holds_slot_def\<close>)
qed (use inv in \<open>simp_all add: serve_inv_def\<close>)

lemma serve_reach_inv: "serve_reach limit s \<Longrightarrow> serve_inv limit s"
proof (induction rule: serve_reach.induct)
  case start
  then show ?case by (simp add: serve_inv_def new_serving_def)
qed (rule serve_inv_step)

text \<open>When \<open>Serve\<close> has returned nothing is left: no handler, no slot, no open client connection.\<close>

lemma serve_returned:
  assumes "serve_reach limit s" and "lp_loop s = Returned e"
  shows "lp_slots s = 0 \<and> lp_active s = 0 \<and> list_all hd_closed (lp_handlers s)"
proof -
  have inv: "serve_inv limit s" by (rule serve_reach_inv [OF assms(1)])
  then have "list_all (\<lambda>h. hd_phase h = Ended) (lp_handlers s)" using assms(2) by (simp add: serve_inv_def)
  then have "count_if holds_slot (lp_handlers s) = 0" "count_if (\<lambda>h. hd_phase h \<noteq> Ended) (lp_handlers s) = 0"
    "list_all hd_closed (lp_handlers s)"
    using inv by (auto simp: count_if_0 holds_slot_def serve_inv_def list_all_iff)
  then show ?thesis using inv by (simp add: serve_inv_def)
qed

end
