(* ===== verification/Redirect.thy ===== *)
theory Redirect
  imports Address Config "HOL-Library.AList"
begin

text \<open>
  The loader of the BPF redirector and the tables it shares with the kernel:
  \<open>ebpf-proxy/internal/redirect\<close>, files \<open>abi.go\<close> and \<open>loader_linux.go\<close>. The kernel's tables are
  parameters with the laws of a map; links are the descriptors the manager holds.
\<close>

section \<open>Shared records\<close>

definition abi_version :: u32 where "abi_version = 1"

record flow_key =
  fk_version :: u32
  fk_family :: u16
  fk_protocol :: u8
  fk_reserved :: u8
  fk_client :: "u8 list"
  fk_listener :: "u8 list"
  fk_client_port :: u16
  fk_listener_port :: u16
  fk_reserved2 :: u32

record flow_value =
  fv_version :: u32
  fv_family :: u16
  fv_port :: u16
  fv_destination :: "u8 list"
  fv_uid :: u32
  fv_tgid :: u32
  fv_cookie :: u64
  fv_created :: u64

record bpf_policy =
  bp_version :: u32
  bp_enabled :: u32
  bp_all :: u32
  bp_ipv6 :: u32
  bp_port :: u16
  bp_reserved :: u16
  bp_ipv4 :: "u8 list"
  bp_heartbeat :: u64
  bp_lease :: u64

record lpm_prefix =
  px_bits :: u32
  px_address :: "u8 list"

section \<open>Tables\<close>

text \<open>
  The operations of one kernel table on a world. \<open>tb_iterate\<close> lists the entries the iterator yields; it
  stops early when the kernel reports an error, which the code does not look at.
\<close>

record ('k, 'v, 'w) bpf_table =
  tb_put :: "'k \<Rightarrow> 'v \<Rightarrow> 'w \<Rightarrow> gerr option \<times> 'w"
  tb_delete :: "'k \<Rightarrow> 'w \<Rightarrow> gerr option \<times> 'w"
  tb_lookup :: "'k \<Rightarrow> 'w \<Rightarrow> gerr + 'v"
  tb_iterate :: "'w \<Rightarrow> ('k \<times> 'v) list"

locale kernel_table =
  fixes T :: "('k, 'v, 'w) bpf_table" and view :: "'w \<Rightarrow> 'k \<Rightarrow> 'v option"
  assumes put_ok: "tb_put T k v w = (None, w') \<Longrightarrow> view w' = (view w)(k \<mapsto> v)"
    and put_error: "tb_put T k v w = (Some e, w') \<Longrightarrow> view w' = view w"
    and delete_ok: "tb_delete T k w = (None, w') \<Longrightarrow> view w' = (view w)(k := None)"
    and delete_error: "tb_delete T k w = (Some e, w') \<Longrightarrow> view w' = view w"
    and delete_missing: "tb_delete T k w = (Some KeyNotExist, w') \<Longrightarrow> view w k = None"
    and lookup_ok: "tb_lookup T k w = Inr v \<Longrightarrow> view w k = Some v"
    and lookup_missing: "tb_lookup T k w = Inl KeyNotExist \<Longrightarrow> view w k = None"
    and iterate_sound: "(k, v) \<in> set (tb_iterate T w) \<Longrightarrow> view w k = Some v"
    and iterate_distinct: "distinct (map fst (tb_iterate T w))"

section \<open>Selected applications\<close>

fun delete_keys :: "('k, 'v, 'w) bpf_table \<Rightarrow> 'k list \<Rightarrow> 'w \<Rightarrow> gerr option \<times> 'w" where
  "delete_keys T [] w = (None, w)"
| "delete_keys T (k # ks) w =
     (case tb_delete T k w of
        (Some e, w1) \<Rightarrow> (Some e, w1)
      | (None, w1) \<Rightarrow> delete_keys T ks w1)"

definition uid_list :: "(u32, u32, 'w) bpf_table \<Rightarrow> 'w \<Rightarrow> u32 list" where
  "uid_list T w = sort (map fst (tb_iterate T w))"

definition uid_action :: "(u32, u32, 'w) bpf_table \<Rightarrow> string \<Rightarrow> u32 \<Rightarrow> 'w \<Rightarrow> gerr option \<times> 'w" where
  "uid_action T action uid w =
     (if action = ''add'' then tb_put T uid 1 w
      else if action = ''del'' then
        (case tb_delete T uid w of
           (e, w1) \<Rightarrow> (if e = Some KeyNotExist then None else e, w1))
      else if action = ''clear'' then delete_keys T (uid_list T w) w
      else (Some (Err ''invalid UID action''), w))"

context kernel_table
begin

lemma delete_keys_view:
  "delete_keys T ks w = (e, w') \<Longrightarrow>
     (\<exists>gone. set gone \<subseteq> set ks \<and> (e = None \<longrightarrow> gone = ks) \<and> view w' = (\<lambda>k. if k \<in> set gone then None else view w k))"
proof (induction ks arbitrary: w)
  case Nil
  then show ?case by auto
next
  case (Cons k ks)
  obtain d w1 where d: "tb_delete T k w = (d, w1)" by fastforce
  show ?case
  proof (cases d)
    case (Some x)
    then have "view w' = view w" "e = Some x" using Cons.prems d delete_error by auto
    then show ?thesis by (intro exI [of _ "[]"]) simp
  next
    case None
    then have "delete_keys T ks w1 = (e, w')" using Cons.prems d by simp
    from Cons.IH [OF this] obtain gone where gone: "set gone \<subseteq> set ks" "e = None \<longrightarrow> gone = ks"
        "view w' = (\<lambda>k. if k \<in> set gone then None else view w1 k)" by blast
    have "view w1 = (view w)(k := None)" using d None delete_ok by blast
    then show ?thesis using gone by (intro exI [of _ "k # gone"]) auto
  qed
qed

end

locale uid_table = kernel_table T view
  for T :: "(u32, u32, 'w) bpf_table" and view :: "'w \<Rightarrow> u32 \<Rightarrow> u32 option"
begin

lemma uid_add: "uid_action T ''add'' uid w = (None, w') \<Longrightarrow> view w' = (view w)(uid \<mapsto> 1)"
  by (simp add: uid_action_def put_ok)

text \<open>Deleting an absent uid succeeds, so after every success the uid is gone and nothing else changed.\<close>

lemma uid_del:
  assumes "uid_action T ''del'' uid w = (None, w')"
  shows "view w' = (view w)(uid := None)"
proof -
  obtain e where d: "tb_delete T uid w = (e, w')" and e: "e = None \<or> e = Some KeyNotExist"
    using assms by (auto simp: uid_action_def split: prod.splits if_splits)
  show ?thesis
  proof (cases e)
    case None
    then show ?thesis using d delete_ok by blast
  next
    case (Some x)
    then have "tb_delete T uid w = (Some KeyNotExist, w')" using d e by simp
    then show ?thesis using delete_error delete_missing by (metis fun_upd_triv)
  qed
qed

text \<open>Clearing removes exactly what the iterator listed; all of it when the listing was complete.\<close>

lemma uid_clear:
  assumes "uid_action T ''clear'' uid w = (None, w')"
  shows "view w' = (\<lambda>k. if k \<in> set (uid_list T w) then None else view w k)"
    and "set (uid_list T w) = dom (view w) \<Longrightarrow> view w' = Map.empty"
proof -
  have "delete_keys T (uid_list T w) w = (None, w')" using assms by (simp add: uid_action_def)
  from delete_keys_view [OF this]
  show *: "view w' = (\<lambda>k. if k \<in> set (uid_list T w) then None else view w k)" by blast
  show "view w' = Map.empty" if "set (uid_list T w) = dom (view w)"
    unfolding * that by (auto simp: domIff)
qed

lemma uid_action_error: "uid_action T action uid w = (Some e, w') \<Longrightarrow> action \<noteq> ''clear'' \<Longrightarrow> view w' = view w"
  by (auto simp: uid_action_def split: if_splits prod.splits dest: put_error delete_error)

end

section \<open>Original destinations\<close>

text \<open>Addresses as the byte slices of \<open>net.IP\<close>; a connection that is not TCP has no usable address.\<close>

datatype net_addr = TcpAddr "u8 list" int | OtherAddr

definition to4_bytes :: "u8 list \<Rightarrow> u8 list option" where
  "to4_bytes ip =
     (if length ip = 4 then Some ip
      else if length ip = 16 \<and> take 12 ip = mapped_prefix then Some (drop 12 ip)
      else None)"

definition to16_bytes :: "u8 list \<Rightarrow> u8 list" where
  "to16_bytes ip =
     (if length ip = 4 then mapped_prefix @ ip else if length ip = 16 then ip else [])"

text \<open>\<open>copy\<close> into a zeroed array of sixteen bytes.\<close>

definition copy16 :: "u8 list \<Rightarrow> u8 list" where
  "copy16 bs = take 16 (bs @ replicate 16 0)"

definition flow_key_of :: "net_addr \<Rightarrow> net_addr \<Rightarrow> gerr + flow_key" where
  "flow_key_of remote local =
     (case remote of
        OtherAddr \<Rightarrow> Inl (Err ''invalid client address'')
      | TcpAddr rip rport \<Rightarrow>
          (case local of
             OtherAddr \<Rightarrow> Inl (Err ''invalid listener address'')
           | TcpAddr lip lport \<Rightarrow>
               let key = \<lparr>fk_version = abi_version, fk_family = 10, fk_protocol = 6, fk_reserved = 0,
                     fk_client = copy16 (to16_bytes rip), fk_listener = copy16 (to16_bytes lip),
                     fk_client_port = word_of_int rport, fk_listener_port = word_of_int lport, fk_reserved2 = 0\<rparr>
               in (case (to4_bytes rip, to4_bytes lip) of
                     (Some r4, Some l4) \<Rightarrow>
                       Inr (key\<lparr>fk_family := 2, fk_client := copy16 r4, fk_listener := copy16 l4\<rparr>)
                   | _ \<Rightarrow> Inr key)))"

definition nanos :: "nat \<Rightarrow> u64" where
  "nanos s = word_of_nat (s * 1000000000)"

definition flow_valid :: "u16 \<Rightarrow> u64 \<Rightarrow> flow_value \<Rightarrow> bool" where
  "flow_valid family now v \<longleftrightarrow>
     \<not> (fv_version v \<noteq> abi_version \<or> fv_cookie v = 0 \<or> fv_family v \<noteq> family \<or> now - fv_created v > nanos 30)"

text \<open>
  The lookup loop: ten attempts five milliseconds apart. \<open>meanwhile\<close> is what the kernel does to the world during
  the i-th sleep and \<open>now\<close> the clock after the i-th lookup.
\<close>

fun resolve_loop :: "nat \<Rightarrow> (flow_key, flow_value, 'w) bpf_table \<Rightarrow> (nat \<Rightarrow> 'w \<Rightarrow> 'w) \<Rightarrow> (nat \<Rightarrow> u64)
    \<Rightarrow> flow_key \<Rightarrow> 'w \<Rightarrow> (gerr + flow_value) \<times> 'w" where
  "resolve_loop 0 T meanwhile now key w = (Inl (Err ''original destination unavailable''), w)"
| "resolve_loop (Suc n) T meanwhile now key w =
     (case tb_lookup T key w of
        Inr v \<Rightarrow>
          if \<not> flow_valid (fk_family key) (now n) v then (Inl (Err ''invalid/stale flow metadata''), w)
          else (Inr v, snd (tb_delete T key w))
      | Inl e \<Rightarrow>
          if e \<noteq> KeyNotExist then (Inl e, w) else resolve_loop n T meanwhile now key (meanwhile n w))"

definition resolve_flow :: "(flow_key, flow_value, 'w) bpf_table \<Rightarrow> (nat \<Rightarrow> 'w \<Rightarrow> 'w) \<Rightarrow> (nat \<Rightarrow> u64)
    \<Rightarrow> net_addr \<Rightarrow> net_addr \<Rightarrow> 'w \<Rightarrow> (gerr + flow_value) \<times> 'w" where
  "resolve_flow T meanwhile now remote local w =
     (case flow_key_of remote local of
        Inl e \<Rightarrow> (Inl e, w)
      | Inr key \<Rightarrow> resolve_loop 10 T meanwhile now key w)"

text \<open>With a clock below \<open>2 ^ 63\<close>, as the signed nanoseconds of the kernel are, the age is a true difference.\<close>

lemma flow_age:
  fixes now created :: u64
  assumes "unat now < 2 ^ 63" and "unat created < 2 ^ 63" and "s \<le> 60"
  shows "now - created \<le> nanos s \<longleftrightarrow> unat created \<le> unat now \<and> unat now \<le> unat created + s * 1000000000"
proof -
  have s: "unat (nanos s) = s * 1000000000" using assms(3) unfolding nanos_def unat_of_nat by (intro mod_less) simp
  show ?thesis
  proof (cases "created \<le> now")
    case True
    then have "unat (now - created) = unat now - unat created" by (rule unat_sub)
    then show ?thesis using True s by (auto simp: word_le_nat_alt)
  next
    case False
    then have lt: "unat now < unat created" by (simp add: word_le_nat_alt)
    have "unat (now - created) = 2 ^ 64 + unat now - unat created"
      using lt by (simp add: unat_sub_if_size word_size)
    then have "unat (now - created) > 2 ^ 63" using assms lt by simp
    then show ?thesis using lt s assms(3) by (simp add: word_le_nat_alt)
  qed
qed

text \<open>What a successful lookup returned was in the table, under exactly this key, fresh and well formed.\<close>

lemma ex_less_Suc: "\<exists>i < n. P i \<Longrightarrow> \<exists>i < Suc n. P i"
  by (auto intro: less_SucI)

locale flow_table = kernel_table T view
  for T :: "(flow_key, flow_value, 'w) bpf_table" and view :: "'w \<Rightarrow> flow_key \<Rightarrow> flow_value option"
begin

lemma resolve_loop_ok:
  assumes run: "resolve_loop n T meanwhile now key w = (Inr v, w')"
  shows "\<exists>i < n. \<exists>u. view u key = Some v \<and> flow_valid (fk_family key) (now i) v \<and>
    (w' = snd (tb_delete T key u)) \<and> (fst (tb_delete T key u) = None \<longrightarrow> view w' = (view u)(key := None))"
  using run
proof (induction n arbitrary: w)
  case (Suc n)
  show ?case
  proof (cases "tb_lookup T key w")
    case (Inl e)
    then have "resolve_loop n T meanwhile now key (meanwhile n w) = (Inr v, w')"
      using Suc.prems by (simp split: if_splits)
    from Suc.IH [OF this] show ?thesis by (rule ex_less_Suc)
  next
    case (Inr x)
    then have x: "x = v" "flow_valid (fk_family key) (now n) v" "w' = snd (tb_delete T key w)"
      using Suc.prems by (auto split: if_splits)
    have "view w key = Some v" using Inr x(1) lookup_ok by blast
    moreover have "view w' = (view w)(key := None)" if "fst (tb_delete T key w) = None"
      using x(3) that delete_ok [of key w w'] by (cases "tb_delete T key w") auto
    ultimately show ?thesis using x(2,3) by (intro exI [of _ n] conjI exI [of _ w]) auto
  qed
qed simp

end

section \<open>Sweeping and listing\<close>

definition stale_flow :: "u64 \<Rightarrow> flow_value \<Rightarrow> bool" where
  "stale_flow now v \<longleftrightarrow> now - fv_created v > nanos 60"

text \<open>One listed entry: a stale one is looked up again and removed if it is still the same connection.\<close>

definition sweep_entry :: "(flow_key, flow_value, 'w) bpf_table \<Rightarrow> u64 \<Rightarrow> flow_key \<times> flow_value \<Rightarrow> 'w \<Rightarrow> 'w" where
  "sweep_entry T now e w =
     (case e of
        (k, v) \<Rightarrow>
          if stale_flow now v then
            (case tb_lookup T k w of
               Inl _ \<Rightarrow> w
             | Inr current \<Rightarrow> if fv_cookie current = fv_cookie v then snd (tb_delete T k w) else w)
          else w)"

text \<open>\<open>nows\<close> are the clock readings, one per entry; the iteration reads each entry once.\<close>

fun sweep_list :: "(flow_key, flow_value, 'w) bpf_table \<Rightarrow> (nat \<Rightarrow> u64) \<Rightarrow> nat \<Rightarrow> (flow_key \<times> flow_value) list \<Rightarrow> 'w \<Rightarrow> 'w" where
  "sweep_list T nows i [] w = w"
| "sweep_list T nows i (e # es) w = sweep_list T nows (Suc i) es (sweep_entry T (nows i) e w)"

definition sweep_flows :: "(flow_key, flow_value, 'w) bpf_table \<Rightarrow> (nat \<Rightarrow> u64) \<Rightarrow> 'w \<Rightarrow> 'w" where
  "sweep_flows T nows w = sweep_list T nows 0 (tb_iterate T w) w"

context flow_table
begin

lemma sweep_entry_view:
  "view (sweep_entry T now (k, v) w) = view w \<or>
   (view (sweep_entry T now (k, v) w) = (view w)(k := None) \<and> stale_flow now v)"
proof (cases "tb_delete T k w")
  case (Pair e w1)
  then show ?thesis
    using delete_ok [of k w w1] delete_error [of k w _ w1]
    by (cases e) (auto simp: sweep_entry_def split: sum.splits)
qed

lemma sweep_list_view:
  "view (sweep_list T nows i es w) k = view w k \<or>
   (view (sweep_list T nows i es w) k = None \<and> (\<exists>j v. (k, v) \<in> set es \<and> stale_flow (nows j) v))"
proof (induction es arbitrary: i w)
  case (Cons e es)
  obtain k' v where e: "e = (k', v)" by fastforce
  consider "view (sweep_entry T (nows i) e w) k = view w k"
    | "view (sweep_entry T (nows i) e w) k = None" "k = k'" "stale_flow (nows i) v"
    using sweep_entry_view [of "nows i" k' v w] e by (cases "k = k'") auto
  then show ?case
    using Cons.IH [of "Suc i" "sweep_entry T (nows i) e w"] e by cases auto
qed simp

text \<open>A sweep removes stale entries only and changes none.\<close>

lemma sweep_keeps_fresh:
  "view (sweep_flows T nows w) k = view w k \<or>
   (view (sweep_flows T nows w) k = None \<and> (\<exists>j v. view w k = Some v \<and> stale_flow (nows j) v))"
  using sweep_list_view [of nows 0 "tb_iterate T w" w k] iterate_sound by (auto simp: sweep_flows_def)

end

text \<open>\<open>FlowValue.Address\<close>: what the relay hands to the upstream connector.\<close>

definition flow_address :: "flow_value \<Rightarrow> string" where
  "flow_address v =
     join_host_port (ip_text (if fv_family v = 2 then take 4 (fv_destination v) else fv_destination v))
       (utoa (unat (fv_port v)))"

text \<open>One entry of the listing: uid, cookie, destination and age in milliseconds.\<close>

definition flow_entries :: "(flow_key, flow_value, 'w) bpf_table \<Rightarrow> (nat \<Rightarrow> u64) \<Rightarrow> 'w \<Rightarrow> (u32 \<times> u64 \<times> string \<times> u64) list" where
  "flow_entries T nows w =
     map (\<lambda>(i, k, v). (fv_uid v, fv_cookie v, flow_address v, (nows i - fv_created v) div 1000000))
       (zip [0 ..< length (tb_iterate T w)] (tb_iterate T w))"

text \<open>The upstream request asks for exactly the address and port the kernel recorded.\<close>

lemma flow_request:
  assumes "length (fv_destination v) = 16" and "fv_port v \<noteq> 0"
  shows "connect_request (flow_address v) =
    Inr ([5, 1, 0] @
      (if fv_family v = 2 then 1 # take 4 (fv_destination v)
       else if take 12 (fv_destination v) = mapped_prefix then 1 # drop 12 (fv_destination v)
       else 4 # fv_destination v) @
      [byte_of (unat (fv_port v) div 256), byte_of (unat (fv_port v) mod 256)])"
proof -
  define bs where "bs = (if fv_family v = 2 then take 4 (fv_destination v) else fv_destination v)"
  define n where "n = unat (fv_port v)"
  have len: "length bs = 4 \<or> length bs = 16" using assms(1) by (simp add: bs_def)
  have n: "0 < n" "n < 65536"
    using unsigned_less [of "fv_port v"] assms(2) by (simp_all add: n_def unat_gt_0)
  have "flow_address v = join_host_port (ip_text bs) (utoa n)" by (simp add: flow_address_def bs_def n_def)
  then show ?thesis
    using connect_request_ip [OF len n] assms(1) unfolding n_def by (simp add: bs_def)
qed

text \<open>The key of the flow table identifies both ends of a connection.\<close>

lemma mapped_to16:
  "to4_bytes ip = Some b \<Longrightarrow> to16_bytes ip = mapped_prefix @ b \<and> length b = 4"
proof -
  assume a: "to4_bytes ip = Some b"
  then consider "length ip = 4" "b = ip" | "length ip = 16" "take 12 ip = mapped_prefix" "b = drop 12 ip"
    by (auto simp: to4_bytes_def split: if_splits)
  then show ?thesis
  proof cases
    case 2
    then have "mapped_prefix @ b = ip" by (metis append_take_drop_id)
    then show ?thesis using 2 by (simp add: to16_bytes_def)
  qed (simp add: to16_bytes_def)
qed

lemma copy16_inject4: "length a = 4 \<Longrightarrow> length b = 4 \<Longrightarrow> copy16 a = copy16 b \<Longrightarrow> a = b"
  by (simp add: copy16_def)

lemma copy16_id: "length a = 16 \<Longrightarrow> copy16 a = a"
  by (simp add: copy16_def)

lemma length_to16: "length ip = 4 \<or> length ip = 16 \<Longrightarrow> length (to16_bytes ip) = 16"
  by (auto simp: to16_bytes_def mapped_prefix_def)

lemma flow_key_inject:
  assumes "flow_key_of (TcpAddr r p) (TcpAddr l q) = Inr k" and "flow_key_of (TcpAddr r' p') (TcpAddr l' q') = Inr k"
    and len: "\<forall>ip \<in> {r, l, r', l'}. length ip = 4 \<or> length ip = 16"
    and ports: "\<forall>n \<in> {p, q, p', q'}. 0 \<le> n \<and> n < 65536"
  shows "to16_bytes r = to16_bytes r' \<and> to16_bytes l = to16_bytes l' \<and> p = p' \<and> q = q'"
proof -
  have key: "fk_client_port k = word_of_int p" "fk_listener_port k = word_of_int q"
    "(fk_family k = 2 \<and> (\<exists>a b. to4_bytes r = Some a \<and> to4_bytes l = Some b \<and> fk_client k = copy16 a \<and> fk_listener k = copy16 b)) \<or>
     (fk_family k = 10 \<and> fk_client k = copy16 (to16_bytes r) \<and> fk_listener k = copy16 (to16_bytes l))"
    if "flow_key_of (TcpAddr r p) (TcpAddr l q) = Inr k" for r p l q
    using that by (cases "to4_bytes r"; cases "to4_bytes l"; auto simp: flow_key_of_def Let_def)+
  note k1 = key [OF assms(1)] and k2 = key [OF assms(2)]
  have inj: "n = m" if "(word_of_int n :: u16) = word_of_int m" "n \<in> {p, q, p', q'}" "m \<in> {p, q, p', q'}" for n m
  proof -
    have "n mod 2 ^ 16 = m mod 2 ^ 16" using that(1) by (simp add: word_of_int_eq_iff take_bit_eq_mod)
    moreover have "0 \<le> n \<and> n < 65536" "0 \<le> m \<and> m < 65536" using ports that(2,3) by blast+
    ultimately show ?thesis by simp
  qed
  have "p = p'" "q = q'" using inj [of p p'] inj [of q q'] k1(1,2) k2(1,2) by simp_all
  moreover have "to16_bytes r = to16_bytes r' \<and> to16_bytes l = to16_bytes l'"
  proof (cases "fk_family k = 2")
    case True
    then obtain a b a' b' where "to4_bytes r = Some a" "to4_bytes l = Some b" "to4_bytes r' = Some a'" "to4_bytes l' = Some b'"
        "copy16 a = copy16 a'" "copy16 b = copy16 b'"
      using k1(3) k2(3) by auto
    then show ?thesis using mapped_to16 copy16_inject4 by metis
  next
    case False
    then have "copy16 (to16_bytes r) = copy16 (to16_bytes r')" "copy16 (to16_bytes l) = copy16 (to16_bytes l')"
      using k1(3) k2(3) by auto
    then show ?thesis using len by (simp add: copy16_id length_to16)
  qed
  ultimately show ?thesis by simp
qed

section \<open>Foreign programs\<close>

text \<open>
  \<open>CheckCgroup\<close> walks from the target to the root of the hierarchy; \<open>cg_query\<close> gives flags, count and
  the sixty-four identifiers of the query buffer.
\<close>

datatype attach_type = Connect4 | SockOps | Connect6

record cgroup_env =
  cg_eval :: "gerr + string"
  cg_initial :: "gerr + int"
  cg_statfs :: "string \<Rightarrow> gerr + int"
  cg_open :: "string \<Rightarrow> gerr option"
  cg_query :: "string \<Rightarrow> attach_type \<Rightarrow> gerr + u32 \<times> nat \<times> u32 list"

definition cgroup2_magic :: int where "cgroup2_magic = 0x63677270"

definition query_cgroup :: "gerr + u32 \<times> nat \<times> u32 list \<Rightarrow> gerr + u32 \<times> u32 list" where
  "query_cgroup r =
     (case r of
        Inl e \<Rightarrow> Inl e
      | Inr (flags, count, ids) \<Rightarrow>
          if count > 64 then Inl (Err ''too many existing cgroup programs'') else Inr (flags, take count ids))"

fun check_hooks :: "cgroup_env \<Rightarrow> string \<Rightarrow> attach_type list \<Rightarrow> gerr option" where
  "check_hooks V p [] = None"
| "check_hooks V p (t # ts) =
     (case query_cgroup (cg_query V p t) of
        Inl e \<Rightarrow> Some (Wrap (''cgroup query '' @ p) e)
      | Inr (flags, ids) \<Rightarrow>
          if ids \<noteq> [] \<and> flags \<noteq> 2
          then Some (Err (''cgroup '' @ p @ '' has exclusive/overriding programs''))
          else check_hooks V p ts)"

definition hook_types :: "bool \<Rightarrow> attach_type list" where
  "hook_types ipv6 = [Connect4, SockOps] @ (if ipv6 then [Connect6] else [])"

text \<open>\<open>filepath.Dir\<close> on a cleaned path.\<close>

definition path_dir :: "string \<Rightarrow> string" where
  "path_dir p =
     (case last_index (CHR ''/'') p of
        None \<Rightarrow> ''.''
      | Some i \<Rightarrow> if i = 0 then ''/'' else take i p)"

lemma last_index_less: "last_index c s = Some i \<Longrightarrow> i < length s"
proof -
  assume "last_index c s = Some i"
  then have "i = length (dropWhile (\<lambda>d. d \<noteq> c) (rev s)) - 1" "dropWhile (\<lambda>d. d \<noteq> c) (rev s) \<noteq> []"
    by (auto simp: last_index_def Let_def split: if_splits)
  moreover have "length (dropWhile (\<lambda>d. d \<noteq> c) (rev s)) \<le> length s" using length_dropWhile_le [of _ "rev s"] by simp
  ultimately show ?thesis by (cases "dropWhile (\<lambda>d. d \<noteq> c) (rev s)") auto
qed

lemma path_dir_less:
  assumes "path_dir p \<noteq> p"
  shows "(if path_dir p = ''.'' then 0 else Suc (length (path_dir p))) < (if p = ''.'' then 0 else Suc (length p))"
proof (cases "last_index (CHR ''/'') p")
  case None
  then show ?thesis using assms by (simp add: path_dir_def)
next
  case (Some i)
  then have i: "i < length p" by (rule last_index_less)
  have "CHR ''/'' \<in> set p"
    using Some by (auto simp: last_index_def Let_def dropWhile_eq_Nil_conv split: if_splits)
  then have dot: "p \<noteq> ''.''" by auto
  show ?thesis
  proof (cases "i = 0")
    case True
    have "length p \<noteq> 1"
    proof
      assume "length p = 1"
      then obtain c where "p = [c]" by (auto simp: length_Suc_conv)
      then have "p = ''/''" using \<open>CHR ''/'' \<in> set p\<close> by simp
      then show False using assms Some True by (simp add: path_dir_def)
    qed
    then have "1 < length p" using i True by linarith
    then show ?thesis using Some True dot by (simp add: path_dir_def)
  next
    case False
    then show ?thesis using Some i dot by (simp add: path_dir_def)
  qed
qed

function check_walk :: "cgroup_env \<Rightarrow> attach_type list \<Rightarrow> string \<Rightarrow> gerr option" where
  "check_walk V types p =
     (case cg_statfs V p of
        Inl e \<Rightarrow> Some e
      | Inr magic \<Rightarrow>
          if magic \<noteq> cgroup2_magic then None
          else case cg_open V p of Some e \<Rightarrow> Some e | None \<Rightarrow>
          (case check_hooks V p types of Some e \<Rightarrow> Some e | None \<Rightarrow>
             if path_dir p = p then None else check_walk V types (path_dir p)))"
  by pat_completeness auto

termination
  by (relation "measure (\<lambda>(V, types, p). if p = ''.'' then 0 else Suc (length p))")
     (use path_dir_less in auto)

declare check_walk.simps [simp del]

definition check_cgroup :: "cgroup_env \<Rightarrow> bool \<Rightarrow> gerr option" where
  "check_cgroup V ipv6 =
     (case cg_eval V of
        Inl e \<Rightarrow> Some e
      | Inr path \<Rightarrow>
          (case cg_initial V of
             Inl e \<Rightarrow> Some e
           | Inr magic \<Rightarrow>
               if magic \<noteq> cgroup2_magic then Some (Err ''target is not a cgroup v2 directory'')
               else check_walk V (hook_types ipv6) path))"

text \<open>A directory and its parents, up to the root or the current directory.\<close>

function path_chain :: "string \<Rightarrow> string list" where
  "path_chain p = p # (if path_dir p = p then [] else path_chain (path_dir p))"
  by pat_completeness auto

termination
  by (relation "measure (\<lambda>p. if p = ''.'' then 0 else Suc (length p))") (use path_dir_less in auto)

declare path_chain.simps [simp del]

definition shared_hooks :: "cgroup_env \<Rightarrow> attach_type list \<Rightarrow> string \<Rightarrow> bool" where
  "shared_hooks V types p \<longleftrightarrow>
     list_all (\<lambda>t. case query_cgroup (cg_query V p t) of
                     Inl _ \<Rightarrow> False | Inr (flags, ids) \<Rightarrow> ids = [] \<or> flags = 2) types"

lemma check_hooks_None: "check_hooks V p types = None \<longleftrightarrow> shared_hooks V types p"
  by (induction types) (auto simp: shared_hooks_def split: sum.splits)

text \<open>An accepted target has only shareable programs on it and on every parent inside the hierarchy.\<close>

lemma check_walk_ok:
  assumes "check_walk V types p = None"
    and "q \<in> set (takeWhile (\<lambda>q. cg_statfs V q = Inr cgroup2_magic) (path_chain p))"
  shows "shared_hooks V types q"
  using assms
proof (induction V types p rule: check_walk.induct)
  case (1 V types p)
  show ?case
  proof (cases "q = p")
    case True
    have "cg_statfs V p = Inr cgroup2_magic"
      using 1(3) by (subst (asm) path_chain.simps) (auto split: if_splits)
    then show ?thesis
      using 1(2) True check_hooks_None [of V p types]
      by (subst (asm) check_walk.simps) (auto split: option.splits)
  next
    case False
    then have st: "cg_statfs V p = Inr cgroup2_magic" and dir: "path_dir p \<noteq> p"
        and q: "q \<in> set (takeWhile (\<lambda>q. cg_statfs V q = Inr cgroup2_magic) (path_chain (path_dir p)))"
      using 1(3) by (subst (asm) path_chain.simps; auto split: if_splits)+
    have "cg_open V p = None" "check_hooks V p types = None" "check_walk V types (path_dir p) = None"
      using 1(2) st dir by (subst (asm) check_walk.simps; auto split: option.splits)+
    then show ?thesis using 1(1) st dir q by simp
  qed
qed

section \<open>The manager\<close>

record 'w collection =
  co_target :: "(u32, u32, 'w) bpf_table"
  co_bypass :: "(u32, u32, 'w) bpf_table"
  co_config :: "(u32, bpf_policy, 'w) bpf_table"
  co_flow :: "(flow_key, flow_value, 'w) bpf_table"
  co_prefix :: "(lpm_prefix, u32, 'w) bpf_table"
  co_prefix6 :: "(lpm_prefix, u32, 'w) bpf_table"
  co_stats :: "u32 \<Rightarrow> 'w \<Rightarrow> gerr + u64 list"

text \<open>\<open>mg_links\<close> are the programs whose link descriptors are open, in the order of their attachment.\<close>

record manager =
  mg_open :: bool
  mg_links :: "string list"
  mg_policy :: bpf_policy

definition set_enabled :: "'w collection \<Rightarrow> u64 \<Rightarrow> bool \<Rightarrow> manager \<Rightarrow> 'w \<Rightarrow> gerr option \<times> manager \<times> 'w" where
  "set_enabled C now enabled m w =
     (let m1 = m\<lparr>mg_policy := (mg_policy m)\<lparr>bp_enabled := (if enabled then 1 else 0), bp_heartbeat := now\<rparr>\<rparr>
      in case tb_put (co_config C) 0 (mg_policy m1) w of (e, w1) \<Rightarrow> (e, m1, w1))"

definition heartbeat :: "'w collection \<Rightarrow> u64 \<Rightarrow> manager \<Rightarrow> 'w \<Rightarrow> gerr option \<times> manager \<times> 'w" where
  "heartbeat C now m w =
     (let m1 = m\<lparr>mg_policy := (mg_policy m)\<lparr>bp_heartbeat := now\<rparr>\<rparr>
      in case tb_put (co_config C) 0 (mg_policy m1) w of (e, w1) \<Rightarrow> (e, m1, w1))"

text \<open>The links are closed in reverse order; the second component lists them.\<close>

definition detach_links :: "manager \<Rightarrow> manager \<times> string list" where
  "detach_links m = (m\<lparr>mg_links := []\<rparr>, rev (mg_links m))"

definition close_manager :: "'w collection \<Rightarrow> u64 \<Rightarrow> manager \<Rightarrow> 'w \<Rightarrow> manager \<times> string list \<times> 'w" where
  "close_manager C now m w =
     (if \<not> mg_open m then (m, [], w)
      else (case set_enabled C now False m w of
              (_, m1, w1) \<Rightarrow> (case detach_links m1 of (m2, gone) \<Rightarrow> (m2\<lparr>mg_open := False\<rparr>, gone, w1))))"

fun put_all :: "('k, 'v, 'w) bpf_table \<Rightarrow> ('k \<times> 'v) list \<Rightarrow> 'w \<Rightarrow> gerr option \<times> 'w" where
  "put_all T [] w = (None, w)"
| "put_all T ((k, v) # es) w =
     (case tb_put T k v w of (Some e, w1) \<Rightarrow> (Some e, w1) | (None, w1) \<Rightarrow> put_all T es w1)"

text \<open>\<open>netip.ParsePrefix\<close>: stricter than \<open>net.ParseCIDR\<close> on the length; zones are refused.\<close>

definition parse_prefix :: "string \<Rightarrow> (ip_addr \<times> nat) option" where
  "parse_prefix s =
     (case last_index (CHR ''/'') s of
        None \<Rightarrow> None
      | Some i \<Rightarrow>
          (case parse_ip (take i s) of
             None \<Rightarrow> None
           | Some a \<Rightarrow>
               let bits = drop (Suc i) s
               in if length bits > 1 \<and> ((of_char (hd bits) :: nat) < 49 \<or> (of_char (hd bits) :: nat) > 57) then None
                  else (case atoi bits of
                          None \<Rightarrow> None
                        | Some n \<Rightarrow>
                            if n < 0 \<or> n > (if is4 a then 32 else 128) then None else Some (a, nat n))))"

text \<open>The key of a prefix: the masked address as sixteen bytes, an IPv4 length counted from there.\<close>

definition prefix_key :: "ip_addr \<Rightarrow> nat \<Rightarrow> lpm_prefix" where
  "prefix_key a bits =
     (let n = (if is4 a then bits + 96 else bits)
      in \<lparr>px_bits = word_of_nat n, px_address = mask_bytes n (to16_bytes (ip_bytes a))\<rparr>)"

fun put_prefixes :: "'w collection \<Rightarrow> string list \<Rightarrow> 'w \<Rightarrow> gerr option \<times> 'w" where
  "put_prefixes C [] w = (None, w)"
| "put_prefixes C (s # ss) w =
     (case parse_prefix s of
        None \<Rightarrow> (Some (Err ''netip.ParsePrefix''), w)
      | Some (a, bits) \<Rightarrow>
          (case tb_put (if is4 a then co_prefix C else co_prefix6 C) (prefix_key a bits) 1 w of
             (Some e, w1) \<Rightarrow> (Some e, w1)
           | (None, w1) \<Rightarrow> put_prefixes C ss w1))"

section \<open>Loading\<close>

definition map_abi :: "(string \<times> u32 \<times> u32) list" where
  "map_abi =
     [(''target_uid_map'', 4, 4), (''bypass_uid_map'', 4, 4), (''config_map'', 4, 40), (''socket_store'', 4, 48),
      (''flow_map'', 48, 48), (''bypass_prefix'', 20, 4), (''bypass_prefix6'', 20, 4), (''stats_map'', 4, 8)]"

definition abi_ok :: "(string \<Rightarrow> (u32 \<times> u32) option) \<Rightarrow> bool" where
  "abi_ok spec \<longleftrightarrow> list_all (\<lambda>(name, k, v). spec name = Some (k, v)) map_abi"

record load_env =
  lo_cgroup :: cgroup_env
  lo_spec :: "gerr + (string \<Rightarrow> (u32 \<times> u32) option)"
  lo_collection :: "gerr option"
  lo_euid :: u32
  lo_open :: "gerr option"
  lo_program :: "string \<Rightarrow> bool"
  lo_attach :: "string \<Rightarrow> gerr option"
  lo_now :: u64
  lo_now_close :: u64

definition load_policy :: "config \<Rightarrow> bpf_policy" where
  "load_policy c =
     \<lparr>bp_version = abi_version, bp_enabled = 0, bp_all = (if po_mode (cf_policy c) = ''all_non_bypass'' then 1 else 0),
      bp_ipv6 = (if cf_ipv6 c then 1 else 0), bp_port = word_of_int (ep_port (cf_listener c)), bp_reserved = 0,
      bp_ipv4 =
        (case Option.bind (parse_ip (ep_address (cf_listener c))) to4 of
           None \<Rightarrow> replicate 4 0 | Some a \<Rightarrow> ip_bytes a),
      bp_heartbeat = 0, bp_lease = nanos 3\<rparr>"

definition hook_names :: "bool \<Rightarrow> string list" where
  "hook_names ipv6 = [''ep_sockops'', ''ep_connect4''] @ (if ipv6 then [''ep_connect6''] else [])"

fun attach_all :: "load_env \<Rightarrow> string list \<Rightarrow> manager \<Rightarrow> gerr option \<times> manager" where
  "attach_all L [] m = (None, m)"
| "attach_all L (n # ns) m =
     (if \<not> lo_program L n then (Some (Err (''BPF object missing '' @ n)), m)
      else (case lo_attach L n of
              Some e \<Rightarrow> (Some (Wrap (''native cgroup link '' @ n) e), m)
            | None \<Rightarrow> attach_all L ns (m\<lparr>mg_links := mg_links m @ [n]\<rparr>)))"

text \<open>With the collection created: fill the tables, store the disabled policy, attach.\<close>

definition load_fill :: "'w collection \<Rightarrow> config \<Rightarrow> load_env \<Rightarrow> 'w \<Rightarrow> gerr option \<times> 'w" where
  "load_fill C c L w =
     (case put_all (co_target C) (map (\<lambda>u. (u, 1)) (po_uids (cf_policy c))) w of
        (Some e, w1) \<Rightarrow> (Some e, w1)
      | (None, w1) \<Rightarrow>
          (case put_all (co_bypass C) (map (\<lambda>u. (u, 1)) (po_bypass_uids (cf_policy c) @ [lo_euid L])) w1 of
             (Some e, w2) \<Rightarrow> (Some e, w2)
           | (None, w2) \<Rightarrow> put_prefixes C (po_bypass_cidrs (cf_policy c)) w2))"

definition load_steps :: "'w collection \<Rightarrow> config \<Rightarrow> load_env \<Rightarrow> manager \<Rightarrow> 'w \<Rightarrow> gerr option \<times> manager \<times> 'w" where
  "load_steps C c L m w =
     (case load_fill C c L w of
        (Some e, w1) \<Rightarrow> (Some e, m, w1)
      | (None, w1) \<Rightarrow>
          (case set_enabled C (lo_now L) False m w1 of
             (Some e, m1, w2) \<Rightarrow> (Some e, m1, w2)
           | (None, m1, w2) \<Rightarrow>
               (case lo_open L of
                  Some e \<Rightarrow> (Some e, m1, w2)
                | None \<Rightarrow> (case attach_all L (hook_names (cf_ipv6 c)) m1 of (e, m2) \<Rightarrow> (e, m2, w2)))))"

text \<open>The manager, or the error and the links that were closed again.\<close>

definition load_redirect :: "'w collection \<Rightarrow> config \<Rightarrow> load_env \<Rightarrow> 'w \<Rightarrow> ((gerr \<times> string list) + manager) \<times> 'w" where
  "load_redirect C c L w =
     (if cf_bpf_object c = [] \<or> cf_bpf_cgroup c = [] then (Inl (Err ''BPF object and cgroup are required'', []), w)
      else case check_cgroup (lo_cgroup L) (cf_ipv6 c) of Some e \<Rightarrow> (Inl (e, []), w) | None \<Rightarrow>
      (case lo_spec L of Inl e \<Rightarrow> (Inl (e, []), w) | Inr spec \<Rightarrow>
       if \<not> abi_ok spec then (Inl (Err ''BPF map missing or ABI mismatch'', []), w)
       else case lo_collection L of Some e \<Rightarrow> (Inl (Wrap ''load BPF (verifier)'' e, []), w) | None \<Rightarrow>
       (case load_steps C c L \<lparr>mg_open = True, mg_links = [], mg_policy = load_policy c\<rparr> w of
          (Some e, m, w1) \<Rightarrow> (case close_manager C (lo_now_close L) m w1 of (_, gone, w2) \<Rightarrow> (Inl (e, gone), w2))
        | (None, m, w1) \<Rightarrow> (Inr m, w1))))"

text \<open>The counters: per-CPU values summed, a counter that cannot be read left out.\<close>

definition counter_names :: "string list" where
  "counter_names = [''redirect'', ''policy_pass'', ''bypass'', ''metadata_failures'', ''flow_published'']"

definition counters :: "'w collection \<Rightarrow> 'w \<Rightarrow> (string \<times> u64) list" where
  "counters C w =
     concat (map (\<lambda>(i, n). case co_stats C (word_of_nat i) w of Inl _ \<Rightarrow> [] | Inr vs \<Rightarrow> [(n, sum_list vs)])
       (zip [0 ..< length counter_names] counter_names))"

section \<open>Loading is all or nothing\<close>

lemma attach_all_links:
  "attach_all L ns m = (e, m') \<Longrightarrow>
     mg_links m' = mg_links m @ takeWhile (\<lambda>n. lo_program L n \<and> lo_attach L n = None) ns \<and>
     mg_open m' = mg_open m \<and> mg_policy m' = mg_policy m"
  by (induction ns arbitrary: m) (auto split: if_splits option.splits)

lemma attach_all_ok: "attach_all L ns m = (None, m') \<Longrightarrow> mg_links m' = mg_links m @ ns"
  by (induction ns arbitrary: m) (auto split: if_splits option.splits)

lemma load_steps_links:
  assumes "load_steps C c L m w = (e, m', w')" and "mg_links m = []"
  shows "mg_open m' = mg_open m \<and>
    (mg_links m' = [] \<or> mg_links m' = takeWhile (\<lambda>n. lo_program L n \<and> lo_attach L n = None) (hook_names (cf_ipv6 c)))"
  using assms
  by (auto simp: load_steps_def set_enabled_def Let_def dest!: attach_all_links split: prod.splits option.splits)

lemma load_steps_ok:
  assumes "load_steps C c L m w = (None, m', w')" and "mg_links m = []"
  shows "mg_links m' = hook_names (cf_ipv6 c) \<and> bp_enabled (mg_policy m') = 0 \<and> mg_open m' = mg_open m \<and>
    (\<exists>w1. tb_put (co_config C) 0 (mg_policy m') w1 = (None, w'))"
proof -
  obtain w1 m1 where w1: "tb_put (co_config C) 0 (mg_policy m1) w1 = (None, w')"
      and m1: "m1 = m\<lparr>mg_policy := (mg_policy m)\<lparr>bp_enabled := 0, bp_heartbeat := lo_now L\<rparr>\<rparr>"
      and all: "attach_all L (hook_names (cf_ipv6 c)) m1 = (None, m')"
    using assms(1) by (auto simp: load_steps_def set_enabled_def Let_def split: prod.splits option.splits)
  then show ?thesis
    using attach_all_links [OF all] attach_all_ok [OF all] assms(2) by auto
qed

text \<open>
  A successful load holds every hook and has stored a disabled policy; a failed one has closed every link it
  opened, in reverse order.
\<close>

lemma load_redirect_ok:
  assumes "load_redirect C c L w = (Inr m, w')"
  shows "mg_open m \<and> mg_links m = hook_names (cf_ipv6 c) \<and> bp_enabled (mg_policy m) = 0 \<and>
    check_cgroup (lo_cgroup L) (cf_ipv6 c) = None \<and> (\<exists>spec. lo_spec L = Inr spec \<and> abi_ok spec) \<and>
    (\<exists>w1. tb_put (co_config C) 0 (mg_policy m) w1 = (None, w'))"
  using assms
  by (auto simp: load_redirect_def dest!: load_steps_ok split: if_splits option.splits sum.splits prod.splits)

lemma load_redirect_error:
  assumes "load_redirect C c L w = (Inl (e, gone), w')"
  shows "gone = [] \<or> gone = rev (takeWhile (\<lambda>n. lo_program L n \<and> lo_attach L n = None) (hook_names (cf_ipv6 c)))"
  using assms
  by (auto simp: load_redirect_def close_manager_def detach_links_def set_enabled_def Let_def
      dest!: load_steps_links split: if_splits option.splits sum.splits prod.splits)

section \<open>A table for evaluation\<close>

text \<open>
  A kernel table as an association list with a schedule of failing updates. It satisfies the laws, so
  the hypotheses about the kernel's tables can hold.
\<close>

type_synonym ('k, 'v) script = "('k \<times> 'v) list \<times> bool list"

definition script_step :: "('k, 'v) script \<Rightarrow> (('k \<times> 'v) list \<Rightarrow> gerr option \<times> ('k \<times> 'v) list) \<Rightarrow> gerr option \<times> ('k, 'v) script" where
  "script_step w f =
     (case w of
        (es, True # fs) \<Rightarrow> (Some (Err ''bpf''), (es, fs))
      | (es, fs) \<Rightarrow> (case f es of (e, es1) \<Rightarrow> (e, (es1, tl fs))))"

definition script_table :: "('k, 'v, ('k, 'v) script) bpf_table" where
  "script_table =
     \<lparr>tb_put = (\<lambda>k v w. script_step w (\<lambda>es. (None, AList.update k v es))),
      tb_delete = (\<lambda>k w. script_step w (\<lambda>es.
        if k \<in> fst ` set es then (None, AList.delete k es) else (Some KeyNotExist, es))),
      tb_lookup = (\<lambda>k w. case map_of (fst w) k of None \<Rightarrow> Inl KeyNotExist | Some v \<Rightarrow> Inr v),
      tb_iterate = (\<lambda>w. AList.clearjunk (fst w))\<rparr>"

lemma script_step_cases:
  assumes "script_step w f = (e, w')"
  shows "(e = Some (Err ''bpf'') \<and> fst w' = fst w) \<or> (e, fst w') = f (fst w)"
  using assms by (auto simp: script_step_def split: prod.splits list.splits bool.splits)

lemma script_table_laws: "kernel_table script_table (\<lambda>w. map_of (fst w))"
proof
  fix k :: 'k and v :: 'v and w w' :: "('k, 'v) script" and e
  have put: "(e = Some (Err ''bpf'') \<and> fst w' = fst w) \<or> (e = None \<and> fst w' = AList.update k v (fst w))"
    if "tb_put script_table k v w = (e, w')" for e
  proof -
    have "script_step w (\<lambda>es. (None, AList.update k v es)) = (e, w')" using that by (simp add: script_table_def)
    from script_step_cases [OF this] show ?thesis by auto
  qed
  show "map_of (fst w') = (map_of (fst w))(k \<mapsto> v)" if "tb_put script_table k v w = (None, w')"
    using put [OF that] by (auto simp: update_conv')
  show "map_of (fst w') = map_of (fst w)" if "tb_put script_table k v w = (Some e, w')"
    using put [OF that] by auto
  have del: "(e = Some (Err ''bpf'') \<and> fst w' = fst w) \<or>
      (if k \<in> fst ` set (fst w) then e = None \<and> fst w' = AList.delete k (fst w) else e = Some KeyNotExist \<and> fst w' = fst w)"
    if "tb_delete script_table k w = (e, w')" for e
  proof -
    have "script_step w (\<lambda>es. if k \<in> fst ` set es then (None, AList.delete k es) else (Some KeyNotExist, es)) = (e, w')"
      using that by (simp add: script_table_def)
    from script_step_cases [OF this] show ?thesis by (auto split: if_splits)
  qed
  show "map_of (fst w') = (map_of (fst w))(k := None)" if "tb_delete script_table k w = (None, w')"
    using del [OF that] by (auto simp: delete_conv' split: if_splits)
  show "map_of (fst w') = map_of (fst w)" if "tb_delete script_table k w = (Some e, w')"
    using del [OF that] by (auto split: if_splits)
  show "map_of (fst w) k = None" if "tb_delete script_table k w = (Some KeyNotExist, w')"
    using del [OF that] by (auto simp: map_of_eq_None_iff split: if_splits)
  show "map_of (fst w) k = Some v" if "tb_lookup script_table k w = Inr v"
    using that by (auto simp: script_table_def split: option.splits)
  show "map_of (fst w) k = None" if "tb_lookup script_table k w = Inl KeyNotExist"
    using that by (auto simp: script_table_def split: option.splits)
  show "map_of (fst w) k = Some v" if "(k, v) \<in> set (tb_iterate script_table w)"
  proof -
    have "map_of (AList.clearjunk (fst w)) k = Some v"
      using that by (intro map_of_is_SomeI) (auto simp: script_table_def distinct_clearjunk)
    then show ?thesis by (simp add: map_of_clearjunk)
  qed
  show "distinct (map fst (tb_iterate script_table w))"
    by (simp add: script_table_def distinct_clearjunk)
qed

interpretation uid_script: uid_table script_table "\<lambda>w. map_of (fst w)"
  by (simp add: uid_table_def script_table_laws)

interpretation flow_script: flow_table script_table "\<lambda>w. map_of (fst w)"
  by (simp add: flow_table_def script_table_laws)

end
