(* ===== verification/Daemon.thy ===== *)
theory Daemon
  imports Relay Redirect
begin

text \<open>
  The daemon that ties configuration, redirector, relay and control socket together:
  \<open>ebpf-proxy/internal/daemon/server_linux.go\<close>. Its start is a list of steps with the deferred
  calls they register; its life and shutdown produce a trace of events.
\<close>

section \<open>The runtime directory\<close>

record runtime_env =
  rn_mkdir :: "gerr option"
  rn_lstat :: "gerr + bool \<times> bool \<times> nat"
  rn_open :: "gerr option"
  rn_flock :: "gerr option"

text \<open>The stat gives directory, symbolic link, permission bits. Only the owner may have permissions.\<close>

definition secure_runtime :: "string \<Rightarrow> runtime_env \<Rightarrow> gerr option" where
  "secure_runtime dir R =
     (if \<not> has_prefix dir ''/'' then Some (Err ''runtime_dir must be an absolute private directory'')
      else if rn_mkdir R \<noteq> None then rn_mkdir R
      else (case rn_lstat R of
              Inl e \<Rightarrow> Some e
            | Inr (is_dir, is_link, perm) \<Rightarrow>
                if \<not> is_dir \<or> is_link \<or> perm mod 64 \<noteq> 0
                then Some (Err ''runtime_dir must be private non-symlink directory (0700)'')
                else if rn_open R \<noteq> None then rn_open R
                else if rn_flock R \<noteq> None then Some (Err ''daemon already running or lock unavailable'')
                else None))"

section \<open>Commands\<close>

record request =
  rq_action :: string
  rq_uid :: u32

text \<open>Unknown members are ignored here, and what follows the first value is never read.\<close>

definition control_field :: "string \<Rightarrow> json \<Rightarrow> request \<Rightarrow> request option" where
  "control_field k v r =
     (if fold_eq k ''action'' then map_option (\<lambda>s. r\<lparr>rq_action := s\<rparr>) (dec_string v (rq_action r))
      else if fold_eq k ''uid'' then map_option (\<lambda>n. r\<lparr>rq_uid := word_of_nat n\<rparr>) (dec_uint 32 v (unat (rq_uid r)))
      else Some r)"

definition decode_request :: "string \<Rightarrow> request option" where
  "decode_request body =
     (case json_read (take 4096 body) of
        TokVal v _ \<Rightarrow> dec_struct control_field v \<lparr>rq_action = [], rq_uid = 0\<rparr>
      | _ \<Rightarrow> None)"

record daemon_status =
  ds_running :: bool
  ds_listener :: string
  ds_ipv6 :: bool
  ds_upstream :: string
  ds_uids :: "u32 list"
  ds_policy_mode :: string
  ds_counters :: "(string \<times> u64) list"
  ds_relay :: "u64 \<times> int \<times> u64 \<times> u64 \<times> u64"
  ds_flow_entries :: nat

datatype reply =
    ReplyOk
  | ReplyStatus daemon_status
  | ReplyFlows "(u32 \<times> u64 \<times> string \<times> u64) list"
  | ReplyUids "u32 list"
  | ReplyError gerr
  | ReplyText string

text \<open>What a handler reads of the process: configuration, readiness, clock readings, relay counters.\<close>

record daemon_view =
  dv_config :: config
  dv_ready :: bool
  dv_nows :: "nat \<Rightarrow> u64"
  dv_relay :: "u64 \<times> int \<times> u64 \<times> u64 \<times> u64"

definition upstream_address :: "config \<Rightarrow> string" where
  "upstream_address c = join_host_port (up_host (cf_upstream c)) (itoa (up_port (cf_upstream c)))"

definition upstream_connector :: "config \<Rightarrow> socks5" where
  "upstream_connector c =
     \<lparr>so_address = upstream_address c, so_username = up_username (cf_upstream c), so_password = up_password (cf_upstream c)\<rparr>"

definition status_of :: "daemon_view \<Rightarrow> 'w collection \<Rightarrow> 'w \<Rightarrow> daemon_status" where
  "status_of D C w =
     \<lparr>ds_running = dv_ready D, ds_listener = endpoint_string (cf_listener (dv_config D)), ds_ipv6 = cf_ipv6 (dv_config D),
      ds_upstream = upstream_address (dv_config D), ds_uids = uid_list (co_target C) w,
      ds_policy_mode = po_mode (cf_policy (dv_config D)), ds_counters = counters C w, ds_relay = dv_relay D,
      ds_flow_entries = length (flow_entries (co_flow C) (dv_nows D) w)\<rparr>"

text \<open>One action: result or error, whether to stop, and the world after it.\<close>

definition run_action :: "daemon_view \<Rightarrow> 'w collection \<Rightarrow> request \<Rightarrow> 'w \<Rightarrow> reply \<times> gerr option \<times> bool \<times> 'w" where
  "run_action D C q w =
     (let a = rq_action q; T = co_target C;
          done = (\<lambda>(e, w1). (ReplyOk, e, False, w1))
      in if a = ''status'' then (ReplyStatus (status_of D C w), None, False, w)
         else if a = ''flows'' then (ReplyFlows (flow_entries (co_flow C) (dv_nows D) w), None, False, w)
         else if a = ''uid-add'' then done (uid_action T ''add'' (rq_uid q) w)
         else if a = ''uid-del'' then done (uid_action T ''del'' (rq_uid q) w)
         else if a = ''uid-clear'' then done (uid_action T ''clear'' 0 w)
         else if a = ''uid-list'' then (ReplyUids (uid_list T w), None, False, w)
         else if a = ''stop'' then (ReplyOk, None, True, w)
         else (ReplyOk, Some (Err ''unknown command''), False, w))"

text \<open>The handler: HTTP status, reply, stop request, world.\<close>

definition handle_command :: "daemon_view \<Rightarrow> 'w collection \<Rightarrow> bool \<Rightarrow> bool \<Rightarrow> string \<Rightarrow> 'w \<Rightarrow> int \<times> reply \<times> bool \<times> 'w" where
  "handle_command D C stopping post body w =
     (if stopping then (503, ReplyText ''daemon stopping'', False, w)
      else case (if post then decode_request body else None) of
             None \<Rightarrow> (400, ReplyText ''invalid command'', False, w)
           | Some q \<Rightarrow>
               (case run_action D C q w of
                  (r, None, stop, w1) \<Rightarrow> (200, r, stop, w1)
                | (r, Some e, stop, w1) \<Rightarrow> (400, ReplyError e, stop, w1)))"

text \<open>The client's side of the control socket.\<close>

definition control_client :: "gerr option \<Rightarrow> gerr option \<Rightarrow> int \<Rightarrow> string \<Rightarrow> gerr + string" where
  "control_client dial_error read_error status body =
     (if dial_error \<noteq> None then Inl (Err ''daemon control socket unavailable'')
      else if read_error \<noteq> None then Inl (the read_error)
      else if status \<noteq> 200 then Inl (Err (''daemon command failed: '' @ take 2097152 body))
      else Inr (take 2097152 body))"

text \<open>Only a well-formed request on an open daemon has an effect, and only \<open>stop\<close> stops it.\<close>

lemma handle_command_stop:
  assumes "handle_command D C stopping post body w = (status, r, True, w')"
  shows "\<not> stopping \<and> post \<and> status = 200 \<and> r = ReplyOk \<and> w' = w \<and>
    (\<exists>q. decode_request body = Some q \<and> rq_action q = ''stop'')"
  using assms
  by (auto simp: handle_command_def run_action_def Let_def split: if_splits option.splits prod.splits)

lemma handle_command_refused:
  assumes "handle_command D C stopping post body w = (status, r, stop, w')" and "stopping \<or> \<not> post \<or> decode_request body = None"
  shows "w' = w \<and> status \<noteq> 200 \<and> \<not> stop"
  using assms by (auto simp: handle_command_def split: if_splits option.splits)

text \<open>A command that succeeds changes the target table as its action says, and nothing otherwise.\<close>

lemma handle_command_uids:
  assumes "uid_table (co_target C) view"
    and "handle_command D C stopping post body w = (200, r, stop, w')"
  shows "(\<exists>q. decode_request body = Some q \<and>
    (rq_action q = ''uid-add'' \<longrightarrow> view w' = (view w)(rq_uid q \<mapsto> 1)) \<and>
    (rq_action q = ''uid-del'' \<longrightarrow> view w' = (view w)(rq_uid q := None)) \<and>
    (rq_action q = ''uid-clear'' \<longrightarrow> view w' = (\<lambda>k. if k \<in> set (uid_list (co_target C) w) then None else view w k)) \<and>
    (rq_action q \<notin> {''uid-add'', ''uid-del'', ''uid-clear''} \<longrightarrow> w' = w))"
proof -
  obtain q where q: "decode_request body = Some q" and run: "run_action D C q w = (r, None, stop, w')"
    using assms(2) by (auto simp: handle_command_def split: if_splits option.splits prod.splits)
  have "view w' = (view w)(rq_uid q \<mapsto> 1)" if "rq_action q = ''uid-add''"
    using run that uid_table.uid_add [OF assms(1), of "rq_uid q" w w'] by (auto simp: run_action_def split: prod.splits)
  moreover have "view w' = (view w)(rq_uid q := None)" if "rq_action q = ''uid-del''"
    using run that uid_table.uid_del [OF assms(1), of "rq_uid q" w w'] by (auto simp: run_action_def split: prod.splits)
  moreover have "view w' = (\<lambda>k. if k \<in> set (uid_list (co_target C) w) then None else view w k)" if "rq_action q = ''uid-clear''"
    using run that uid_table.uid_clear(1) [OF assms(1), of 0 w w'] by (auto simp: run_action_def split: prod.splits)
  moreover have "w' = w" if "rq_action q \<notin> {''uid-add'', ''uid-del'', ''uid-clear''}"
    using run that by (auto simp: run_action_def Let_def split: if_splits)
  ultimately show ?thesis using q by blast
qed

section \<open>Starting\<close>

datatype daemon_event =
    CgroupChecked | LockTaken | Listening | Listening6 | UpstreamProbed | RedirectLoaded | ControlPathFree
  | ControlBound | ControlProtected | ServesStarted | RedirectEnabled | Ready | RedirectDisabled | NotReady
  | ControlStopped | HooksDetached | ListenersClosed | Drained | Cancelled | ServesEnded | ControlRemoved
  | RedirectClosed | LockReleased

text \<open>A step: its failure, what it does itself when it fails, its event, and the deferred calls it registers.\<close>

type_synonym start_step = "gerr option \<times> daemon_event list \<times> daemon_event \<times> daemon_event list"

fun run_steps :: "start_step list \<Rightarrow> daemon_event list \<Rightarrow> daemon_event list \<Rightarrow> gerr option \<times> daemon_event list \<times> daemon_event list" where
  "run_steps [] tr df = (None, tr, df)"
| "run_steps ((failure, on_failure, ev, defers) # ss) tr df =
     (case failure of
        Some e \<Rightarrow> (Some e, tr @ on_failure, df)
      | None \<Rightarrow> run_steps ss (tr @ [ev]) (defers @ df))"

record daemon_env =
  dn_cgroup :: cgroup_env
  dn_runtime :: runtime_env
  dn_listen :: "gerr option"
  dn_listen6 :: "gerr option"
  dn_upstream :: "gerr + conn"
  dn_load :: "gerr option"
  dn_stale :: "(gerr + bool) \<times> gerr option"
  dn_control :: "gerr option"
  dn_chmod :: "gerr option"
  dn_enable :: "gerr option"

text \<open>What stands at the control path: nothing, a socket that is removed, or something else.\<close>

definition stale_control :: "(gerr + bool) \<times> gerr option \<Rightarrow> gerr option" where
  "stale_control s =
     (case s of
        (Inl _, _) \<Rightarrow> None
      | (Inr is_socket, removed) \<Rightarrow> if \<not> is_socket then Some (Err ''control path is not a socket'') else removed)"

definition start_steps :: "config \<Rightarrow> daemon_env \<Rightarrow> start_step list" where
  "start_steps c D =
     [(check_cgroup (dn_cgroup D) (cf_ipv6 c), [], CgroupChecked, []),
      (secure_runtime (cf_runtime_dir c) (dn_runtime D), [], LockTaken, [Cancelled, LockReleased]),
      (dn_listen D, [], Listening, [ListenersClosed])] @
     (if cf_ipv6 c then [(dn_listen6 D, [], Listening6, [])] else []) @
     [(socks_probe (upstream_connector c) (dn_upstream D), [], UpstreamProbed, []),
      (dn_load D, [], RedirectLoaded, [RedirectClosed]),
      (stale_control (dn_stale D), [], ControlPathFree, []),
      (dn_control D, [], ControlBound, [ControlRemoved]),
      (dn_chmod D, [ControlStopped], ControlProtected, []),
      (None, [], ServesStarted, [ControlStopped])]"

section \<open>Running and stopping\<close>

text \<open>What the main loop can receive; a tick carries the outcomes of its stat and of its heartbeat.\<close>

datatype loop_event =
    SignalSeen | StopSeen | ServeEnded "gerr option" | ControlEnded "gerr option" | Tick "gerr option" "gerr option"

text \<open>The loop: cause, ended listeners, ticks and sweeps; \<open>None\<close> while it runs.\<close>

fun run_loop :: "loop_event list \<Rightarrow> nat \<Rightarrow> nat \<Rightarrow> (gerr option \<times> nat \<times> nat \<times> nat) option" where
  "run_loop [] ticks sweeps = None"
| "run_loop (ev # evs) ticks sweeps =
     (case ev of
        SignalSeen \<Rightarrow> Some (None, 0, ticks, sweeps)
      | StopSeen \<Rightarrow> Some (None, 0, ticks, sweeps)
      | ServeEnded e \<Rightarrow> Some (e, 1, ticks, sweeps)
      | ControlEnded e \<Rightarrow> Some (e, 0, ticks, sweeps)
      | Tick st hb \<Rightarrow>
          if st \<noteq> None then Some (Some (Err ''private control socket disappeared''), 0, ticks, sweeps)
          else if hb \<noteq> None then Some (hb, 0, ticks, sweeps)
          else run_loop evs (ticks + 1) (if (ticks + 1) mod 20 = 0 then sweeps + 1 else sweeps))"

text \<open>The drain: readings of the active counter and of the three-second deadline, until one of them ends it.\<close>

fun drain :: "(int \<times> bool) list \<Rightarrow> nat option" where
  "drain [] = None"
| "drain ((active, in_time) # rs) = (if active > 0 \<and> in_time then map_option Suc (drain rs) else Some 0)"

definition shutdown_trace :: "daemon_event list" where
  "shutdown_trace =
     [RedirectDisabled, NotReady, ControlStopped, HooksDetached, ListenersClosed, Drained, Cancelled, ServesEnded]"

text \<open>
  The whole run: cause and trace, or \<open>None\<close> while the loop or the drain has not ended or a listener still serves
  (\<open>served\<close> counts the listeners that end after the cancellation).
\<close>

definition daemon_run :: "config \<Rightarrow> daemon_env \<Rightarrow> loop_event list \<Rightarrow> (int \<times> bool) list \<Rightarrow> nat
    \<Rightarrow> (gerr option \<times> daemon_event list) option" where
  "daemon_run c D evs readings served =
     (case run_steps (start_steps c D) [] [] of
        (Some e, tr, df) \<Rightarrow> Some (Some e, tr @ df)
      | (None, tr, df) \<Rightarrow>
          let listeners = (if cf_ipv6 c then 2 else 1)
          in if dn_enable D \<noteq> None
             then (if served < listeners then None
                   else Some (dn_enable D, tr @ [Cancelled, ListenersClosed, ServesEnded] @ df))
             else (case run_loop evs 0 0 of
                     None \<Rightarrow> None
                   | Some (cause, completed, _, _) \<Rightarrow>
                       if drain readings = None \<or> completed + served < listeners then None
                       else Some (cause, tr @ [RedirectEnabled, Ready] @ shutdown_trace @ df)))"

lemma run_loop_sweeps:
  "run_loop evs ticks sweeps = Some (cause, completed, t, s) \<Longrightarrow>
     sweeps = ticks div 20 \<Longrightarrow> s = t div 20 \<and> ticks \<le> t \<and> t \<le> ticks + length evs \<and> completed \<le> 1"
proof (induction evs arbitrary: ticks sweeps)
  case (Cons ev evs)
  have step: "(if (ticks + 1) mod 20 = 0 then ticks div 20 + 1 else ticks div 20) = (ticks + 1) div 20"
    by (simp add: div_Suc mod_Suc)
  show ?case
  proof (cases "\<exists>st hb. ev = Tick st hb \<and> st = None \<and> hb = None")
    case True
    then have "run_loop evs (ticks + 1) ((ticks + 1) div 20) = Some (cause, completed, t, s)"
      using Cons.prems step by simp
    from Cons.IH [OF this refl] show ?thesis by simp
  next
    case False
    then show ?thesis using Cons.prems by (cases ev) (auto split: if_splits)
  qed
qed simp

text \<open>\<open>precedes a b\<close>: \<open>b\<close> happens only after \<open>a\<close>.\<close>

definition precedes :: "'a \<Rightarrow> 'a \<Rightarrow> 'a list \<Rightarrow> bool" where
  "precedes a b tr \<longleftrightarrow> b \<in> set tr \<longrightarrow> a \<in> set (takeWhile (\<lambda>x. x \<noteq> b) tr)"

text \<open>The traces a run can have.\<close>

definition start_trace :: "bool \<Rightarrow> daemon_event list" where
  "start_trace ipv6 =
     [CgroupChecked, LockTaken, Listening] @ (if ipv6 then [Listening6] else []) @
     [UpstreamProbed, RedirectLoaded, ControlPathFree, ControlBound, ControlProtected, ServesStarted]"

definition final_defers :: "daemon_event list" where
  "final_defers = [ControlStopped, ControlRemoved, RedirectClosed, ListenersClosed, Cancelled, LockReleased]"

lemma run_steps_all:
  "run_steps ss tr df = (None, tr', df') \<Longrightarrow>
     tr' = tr @ map (\<lambda>(f, h, ev, d). ev) ss \<and> df' = concat (rev (map (\<lambda>(f, h, ev, d). d) ss)) @ df"
proof (induction ss arbitrary: tr df)
  case (Cons x ss)
  obtain f h ev d where x: "x = (f, h, ev, d)" by (cases x) auto
  then have "run_steps ss (tr @ [ev]) (d @ df) = (None, tr', df')" using Cons.prems by (simp split: option.splits)
  from Cons.IH [OF this] show ?case using x by simp
qed simp

lemma start_complete:
  assumes "run_steps (start_steps c D) [] [] = (None, tr, df)"
  shows "tr = start_trace (cf_ipv6 c) \<and> df = final_defers"
  using run_steps_all [OF assms] by (auto simp: start_steps_def start_trace_def final_defers_def)

text \<open>A failed start ran its deferred calls: whatever it acquired is given back, the lock last.\<close>

lemma start_failed:
  assumes "run_steps (start_steps c D) [] [] = (Some e, tr, df)"
  shows "(LockTaken \<in> set (tr @ df) \<longrightarrow> last (tr @ df) = LockReleased) \<and>
    (RedirectLoaded \<in> set (tr @ df) \<longrightarrow> precedes RedirectClosed ListenersClosed (tr @ df) \<and> RedirectClosed \<in> set (tr @ df)) \<and>
    (ControlBound \<in> set (tr @ df) \<longrightarrow> ControlRemoved \<in> set (tr @ df)) \<and>
    RedirectEnabled \<notin> set (tr @ df)"
  using assms
  by (simp add: start_steps_def precedes_def split: option.splits if_splits) auto

definition orderly :: "daemon_event list \<Rightarrow> bool" where
  "orderly tr \<longleftrightarrow>
     list_all (\<lambda>(a, b). precedes a b tr)
       [(LockTaken, RedirectEnabled), (Listening, RedirectEnabled), (UpstreamProbed, RedirectEnabled),
        (RedirectLoaded, RedirectEnabled), (ControlProtected, RedirectEnabled), (ServesStarted, RedirectEnabled),
        (RedirectDisabled, HooksDetached), (HooksDetached, ListenersClosed), (ListenersClosed, ServesEnded),
        (ServesEnded, RedirectClosed), (RedirectClosed, LockReleased)]"

lemma orderly_traces:
  "orderly (start_trace b @ [RedirectEnabled, Ready] @ shutdown_trace @ final_defers)"
  "RedirectDisabled \<in> set (start_trace b @ [RedirectEnabled, Ready] @ shutdown_trace @ final_defers)"
  by (cases b; simp add: orderly_def precedes_def start_trace_def shutdown_trace_def final_defers_def)+

text \<open>
  Every finished run gives back what it took. A run that enabled the redirect had everything in place before,
  and stops it in order: disabled, hooks detached, listeners closed, connections drained, tables closed, lock
  released.
\<close>

lemma daemon_run_order:
  assumes "daemon_run c D evs readings served = Some (cause, tr)"
  shows "(LockTaken \<in> set tr \<longrightarrow> last tr = LockReleased) \<and> (RedirectLoaded \<in> set tr \<longrightarrow> RedirectClosed \<in> set tr) \<and>
    (ControlBound \<in> set tr \<longrightarrow> ControlRemoved \<in> set tr) \<and>
    (RedirectEnabled \<in> set tr \<longrightarrow> orderly tr \<and> RedirectDisabled \<in> set tr)"
proof (cases "run_steps (start_steps c D) [] []")
  case (fields failure tr0 df)
  show ?thesis
  proof (cases failure)
    case (Some e)
    then have "tr = tr0 @ df" using assms fields by (simp add: daemon_run_def)
    then show ?thesis using start_failed [of c D e tr0 df] fields Some by blast
  next
    case None
    then have "run_steps (start_steps c D) [] [] = (None, tr0, df)" using fields by simp
    from start_complete [OF this] have t: "tr0 = start_trace (cf_ipv6 c)" "df = final_defers" by auto
    show ?thesis
    proof (cases "dn_enable D")
      case (Some e)
      then have 1: "tr = start_trace (cf_ipv6 c) @ [Cancelled, ListenersClosed, ServesEnded] @ final_defers"
        using assms None fields t by (simp add: daemon_run_def Let_def split: if_splits)
      show ?thesis unfolding 1 by (simp add: start_trace_def final_defers_def)
    next
      case en: None
      then have 2: "tr = start_trace (cf_ipv6 c) @ [RedirectEnabled, Ready] @ shutdown_trace @ final_defers"
        using assms None fields t
        by (cases "run_loop evs 0 0") (auto simp: daemon_run_def Let_def simp del: run_loop.simps drain.simps split: if_splits)
      have "last tr = LockReleased" "RedirectClosed \<in> set tr" "ControlRemoved \<in> set tr"
        unfolding 2 by (simp_all add: final_defers_def)
      then show ?thesis using orderly_traces 2 by blast
    qed
  qed
qed

end
