(* ===== verification/Unmarshal.thy ===== *)
theory Unmarshal
  imports JsonText
begin

text \<open>
  \<open>json.Unmarshal\<close> and \<open>json.MarshalIndent\<close>. \<open>Unmarshal\<close> goes on after a member of the wrong
  type and reports it at the end, so its result is a value and whether an error was seen; a text
  that is not one JSON value changes nothing. The indented printer is read back like the
  compact one.
\<close>

section \<open>Lenient decoding\<close>

type_synonym 'a lenient = "json \<Rightarrow> 'a \<Rightarrow> 'a \<times> bool"

definition len_string :: "string lenient" where
  "len_string v old = (case v of JNull \<Rightarrow> (old, False) | JStr s \<Rightarrow> (s, False) | _ \<Rightarrow> (old, True))"

definition len_bool :: "bool lenient" where
  "len_bool v old = (case v of JNull \<Rightarrow> (old, False) | JBool b \<Rightarrow> (b, False) | _ \<Rightarrow> (old, True))"

definition len_int :: "int lenient" where
  "len_int v old =
     (case v of JNull \<Rightarrow> (old, False)
      | JInt i \<Rightarrow> if int64_range i then (i, False) else (old, True)
      | _ \<Rightarrow> (old, True))"

text \<open>A slice: an element is decoded over the old one at its place, or over a zero value.\<close>

fun len_elems :: "'a lenient \<Rightarrow> 'a \<Rightarrow> json list \<Rightarrow> 'a list \<Rightarrow> 'a list \<times> bool" where
  "len_elems dec zero [] old = ([], False)"
| "len_elems dec zero (v # vs) old =
     (case dec v (case old of [] \<Rightarrow> zero | x # _ \<Rightarrow> x) of (y, e) \<Rightarrow>
      (case len_elems dec zero vs (tl old) of (ys, e') \<Rightarrow> (y # ys, e \<or> e')))"

definition len_slice :: "'a lenient \<Rightarrow> 'a \<Rightarrow> 'a list lenient" where
  "len_slice dec zero v old =
     (case v of JNull \<Rightarrow> ([], False) | JArr vs \<Rightarrow> len_elems dec zero vs old | _ \<Rightarrow> (old, True))"

text \<open>A struct: unknown members are skipped by the field function.\<close>

fun len_members :: "(string \<Rightarrow> 'a lenient) \<Rightarrow> (string \<times> json) list \<Rightarrow> 'a \<Rightarrow> 'a \<times> bool" where
  "len_members field [] r = (r, False)"
| "len_members field ((k, v) # ms) r =
     (case field k v r of (r1, e) \<Rightarrow> (case len_members field ms r1 of (r2, e') \<Rightarrow> (r2, e \<or> e')))"

definition len_struct :: "(string \<Rightarrow> 'a lenient) \<Rightarrow> 'a lenient" where
  "len_struct field v r =
     (case v of JNull \<Rightarrow> (r, False) | JObj ms \<Rightarrow> len_members field ms r | _ \<Rightarrow> (r, True))"

text \<open>A map with string keys; each value is decoded over a zero value, and a bad one is stored all the same.\<close>

fun len_entries :: "'a lenient \<Rightarrow> 'a \<Rightarrow> (string \<times> json) list \<Rightarrow> (string \<rightharpoonup> 'a) \<Rightarrow> (string \<rightharpoonup> 'a) \<times> bool" where
  "len_entries dec zero [] m = (m, False)"
| "len_entries dec zero ((k, v) # ms) m =
     (case dec v zero of (x, e) \<Rightarrow> (case len_entries dec zero ms (m(k \<mapsto> x)) of (m', e') \<Rightarrow> (m', e \<or> e')))"

definition update_by :: "('b \<Rightarrow> 'a \<Rightarrow> 'a) \<Rightarrow> 'b \<times> bool \<Rightarrow> 'a \<Rightarrow> 'a \<times> bool" where
  "update_by upd r s = (upd (fst r) s, snd r)"

definition unmarshal :: "'a lenient \<Rightarrow> string \<Rightarrow> 'a \<Rightarrow> 'a \<times> bool" where
  "unmarshal dec b old =
     (case json_read b of
        TokVal v rest \<Rightarrow> if skip_space rest = [] then dec v old else (old, True)
      | _ \<Rightarrow> (old, True))"

text \<open>\<open>json.NewDecoder(r).Decode(&x)\<close>: one value, whatever follows it.\<close>

definition decode_first :: "'a lenient \<Rightarrow> string \<Rightarrow> 'a \<Rightarrow> 'a \<times> bool" where
  "decode_first dec b old =
     (case json_read b of TokVal v rest \<Rightarrow> dec v old | _ \<Rightarrow> (old, True))"

lemma len_simps [simp]:
  "len_string (JStr s) t = (s, False)" "len_bool (JBool b) c = (b, False)"
  "int64_range i \<Longrightarrow> len_int (JInt i) j = (i, False)"
  by (simp_all add: len_string_def len_bool_def len_int_def)

text \<open>Lower-case names are told apart by equality.\<close>

lemma fold_eq_lower: "to_lower a = a \<Longrightarrow> to_lower b = b \<Longrightarrow> fold_eq a b \<longleftrightarrow> a = b"
  by (simp add: fold_eq_def)

lemma update_by_simps [simp]: "update_by upd (x, e) s = (upd x s, e)"
  by (simp add: update_by_def)

lemma len_elems_map:
  "(\<And>x old. x \<in> set xs \<Longrightarrow> dec (enc x) old = (x, False)) \<Longrightarrow> len_elems dec zero (map enc xs) old = (xs, False)"
  by (induction xs arbitrary: old) auto

lemma len_slice_map:
  "(\<And>x old. x \<in> set xs \<Longrightarrow> dec (enc x) old = (x, False)) \<Longrightarrow> len_slice dec zero (JArr (map enc xs)) old = (xs, False)"
  by (simp add: len_slice_def len_elems_map)

lemma unmarshal_text:
  "printable v \<Longrightarrow> unmarshal dec (json_text v) old = dec v old"
  using json_read_text [of v "[]"] by (simp add: unmarshal_def skip_space_def)

section \<open>The indented printer\<close>

definition json_line :: "nat \<Rightarrow> string" where
  "json_line d = CHR 0x0A # replicate (2 * d) (CHR '' '')"

fun json_pretty :: "nat \<Rightarrow> json \<Rightarrow> string" where
  "json_pretty d (JArr vs) =
     (if vs = [] then [CHR 0x5B, CHR 0x5D]
      else [CHR 0x5B] @ join '','' (map (\<lambda>v. json_line (Suc d) @ json_pretty (Suc d) v) vs) @ json_line d @ [CHR 0x5D])"
| "json_pretty d (JObj ms) =
     (if ms = [] then [CHR 0x7B, CHR 0x7D]
      else [CHR 0x7B] @
        join '','' (map (\<lambda>m. json_line (Suc d) @ json_string (fst m) @ '': '' @ json_pretty (Suc d) (snd m)) ms) @
        json_line d @ [CHR 0x7D])"
| "json_pretty d v = json_text v"

definition spaces :: "string \<Rightarrow> bool" where
  "spaces w \<longleftrightarrow> list_all json_space w"

definition reads_pretty :: "json \<Rightarrow> bool" where
  "reads_pretty v \<longleftrightarrow>
     (\<forall>d n w r. length (json_pretty d v) \<le> n \<longrightarrow> spaces w \<longrightarrow> ends_number r \<longrightarrow>
        json_value n (w @ json_pretty d v @ r) = Some (v, r))"

lemma spaces_simps [simp]: "spaces []" "spaces (json_line d)" "spaces [CHR '' '']"
  by (simp_all add: spaces_def json_line_def json_space_def list_all_iff)

lemma ends_number_line [simp]: "ends_number (json_line d @ r)"
  by (simp add: json_line_def ends_number_def is_digit_def)

lemma skip_spaces: "spaces w \<Longrightarrow> skip_space (w @ s) = skip_space s"
  by (induction w) (auto simp: spaces_def skip_space_def)

lemma json_value_spaces: "spaces w \<Longrightarrow> json_value (Suc n) (w @ s) = json_value (Suc n) s"
  by (simp add: skip_spaces)

lemma expect_spaces: "spaces w \<Longrightarrow> expect c (w @ s) = expect c s"
  by (simp add: expect_def skip_spaces)

lemma reads_pretty_flat:
  assumes "reads_back v" and "\<And>d. json_pretty d v = json_text v"
  shows "reads_pretty v"
proof -
  have "json_value n (w @ json_text v @ r) = Some (v, r)"
    if len: "length (json_text v) \<le> n" and w: "spaces w" and en: "ends_number r" for n w r
  proof -
    obtain m where "n = Suc m" using len json_text_hd [of v] by (cases n) auto
    then show ?thesis
      using assms(1) len en json_value_spaces [OF w] unfolding reads_back_def by (simp del: json_value.simps)
  qed
  then show ?thesis by (simp add: reads_pretty_def assms(2))
qed

definition member_pretty :: "nat \<Rightarrow> string \<times> json \<Rightarrow> string" where
  "member_pretty d m = json_line d @ json_string (fst m) @ '': '' @ json_pretty d (snd m)"

lemma expect_line: "expect c (json_line d @ s) = expect c s"
  by (rule expect_spaces) simp

lemma json_members_pretty:
  assumes "ms \<noteq> []" and "\<forall>m \<in> set ms. reads_pretty (snd m)"
    and "length (join '','' (map (member_pretty d) ms)) < n"
  shows "json_members n (join '','' (map (member_pretty d) ms) @ json_line d' @ CHR 0x7D # r) = Some (ms, r)"
  using assms
proof (induction ms arbitrary: n)
  case (Cons m ms)
  obtain k v where m: "m = (k, v)" by (cases m)
  obtain n' where n: "n = Suc n'" using Cons.prems(3) by (cases n) auto
  let ?rest = "if ms = [] then [] else '','' @ join '','' (map (member_pretty d) ms)"
  let ?tail = "?rest @ json_line d' @ CHR 0x7D # r"
  have eqt: "join '','' (map (member_pretty d) (m # ms)) @ json_line d' @ CHR 0x7D # r =
      json_line d @ CHR 0x22 # concat (map json_char k) @ CHR 0x22 # CHR '':'' # [CHR '' ''] @ json_pretty d v @ ?tail"
    by (simp add: join_Cons_if member_pretty_def m json_string_def)
  have "length (member_pretty d m) = length (json_line d) + length (json_string k) + 2 + length (json_pretty d v)"
    by (simp add: member_pretty_def m)
  then have len: "length (json_string k) + 1 + length (json_pretty d v) + length ?rest \<le> n'"
    using Cons.prems(3) by (simp add: join_Cons_if n)
  have "length k < n'" and lv: "length (json_pretty d v) \<le> n'"
    using len length_json_string(1) [of k] by linarith+
  then have key: "json_chars n' (concat (map json_char k) @ CHR 0x22 # u) = Some (k, u)" for u
    by (simp add: json_chars_body)
  have "ends_number ?tail" by simp
  then have val: "json_value n' ([CHR '' ''] @ json_pretty d v @ ?tail) = Some (v, ?tail)"
    using Cons.prems(2) lv by (simp add: m reads_pretty_def del: append_Cons)
  show ?case
  proof (cases "ms = []")
    case True
    then show ?thesis unfolding eqt n using key val by (simp add: m expect_line)
  next
    case False
    have "json_members n' (join '','' (map (member_pretty d) ms) @ json_line d' @ CHR 0x7D # r) = Some (ms, r)"
      using False Cons.prems(2) len by (intro Cons.IH) auto
    then show ?thesis unfolding eqt n using key val False by (simp add: m expect_line)
  qed
qed simp

definition elem_pretty :: "nat \<Rightarrow> json \<Rightarrow> string" where
  "elem_pretty d v = json_line d @ json_pretty d v"

lemma json_elems_pretty:
  assumes "vs \<noteq> []" and "\<forall>v \<in> set vs. reads_pretty v"
    and "length (join '','' (map (elem_pretty d) vs)) < n"
  shows "json_elems n (join '','' (map (elem_pretty d) vs) @ json_line d' @ CHR 0x5D # r) = Some (vs, r)"
  using assms
proof (induction vs arbitrary: n)
  case (Cons v vs)
  obtain n' where n: "n = Suc n'" using Cons.prems(3) by (cases n) auto
  let ?rest = "if vs = [] then [] else '','' @ join '','' (map (elem_pretty d) vs)"
  let ?tail = "?rest @ json_line d' @ CHR 0x5D # r"
  have eqt: "join '','' (map (elem_pretty d) (v # vs)) @ json_line d' @ CHR 0x5D # r = json_line d @ json_pretty d v @ ?tail"
    by (simp add: join_Cons_if elem_pretty_def)
  have "length (elem_pretty d v) = length (json_line d) + length (json_pretty d v)" by (simp add: elem_pretty_def)
  then have len: "length (json_pretty d v) + length ?rest \<le> n'"
    using Cons.prems(3) by (simp add: join_Cons_if n)
  then have val: "json_value n' (json_line d @ json_pretty d v @ ?tail) = Some (v, ?tail)"
    using Cons.prems(2) by (simp add: reads_pretty_def)
  show ?case
  proof (cases "vs = []")
    case True
    then show ?thesis unfolding eqt n using val by (simp add: expect_line)
  next
    case False
    have "json_elems n' (join '','' (map (elem_pretty d) vs) @ json_line d' @ CHR 0x5D # r) = Some (vs, r)"
      using False Cons.prems(2) len by (intro Cons.IH) auto
    then show ?thesis unfolding eqt n using val False by simp
  qed
qed simp

lemma json_pretty_hd: "\<exists>c s. json_pretty d v = c # s \<and> c \<noteq> CHR 0x5D \<and> \<not> json_space c"
proof (cases "\<exists>vs. v = JArr vs \<or> (\<exists>ms. v = JObj ms)")
  case True
  then show ?thesis by auto
next
  case False
  then show ?thesis using json_text_hd [of v] by (cases v) auto
qed

lemma expect_member_close:
  "ms \<noteq> [] \<Longrightarrow> expect (CHR 0x7D) (join '','' (map (member_pretty d) ms) @ r) = None"
  by (cases ms) (auto simp: join_Cons_if member_pretty_def expect_line json_string_def)

lemma expect_elem_close:
  "vs \<noteq> [] \<Longrightarrow> expect (CHR 0x5D) (join '','' (map (elem_pretty d) vs) @ r) = None"
  using json_pretty_hd [of d "hd vs"] by (cases vs) (auto simp: join_Cons_if elem_pretty_def expect_line)

lemma reads_pretty: "printable v \<Longrightarrow> reads_pretty v"
proof (induction v)
  case (JArr vs)
  have mt: "(\<lambda>v. json_line (Suc d) @ json_pretty (Suc d) v) = elem_pretty (Suc d)" for d
    by (simp add: elem_pretty_def fun_eq_iff)
  have "json_value n (w @ json_pretty d (JArr vs) @ r) = Some (JArr vs, r)"
    if len: "length (json_pretty d (JArr vs)) \<le> n" and w: "spaces w" for d n w r
  proof -
    obtain m where m: "n = Suc m" using len by (cases n) (auto split: if_splits)
    show ?thesis
    proof (cases "vs = []")
      case True
      then show ?thesis by (simp add: m skip_spaces w)
    next
      case False
      have "json_elems m (join '','' (map (elem_pretty (Suc d)) vs) @ json_line d @ CHR 0x5D # r) = Some (vs, r)"
        using False JArr len by (intro json_elems_pretty) (auto simp: m mt list_all_iff)
      then show ?thesis using False by (simp add: m mt skip_spaces w expect_elem_close)
    qed
  qed
  then show ?case by (simp add: reads_pretty_def)
next
  case (JObj ms)
  have mt: "(\<lambda>m. json_line (Suc d) @ json_string (fst m) @ '': '' @ json_pretty (Suc d) (snd m)) = member_pretty (Suc d)" for d
    by (simp add: member_pretty_def fun_eq_iff)
  have "json_value n (w @ json_pretty d (JObj ms) @ r) = Some (JObj ms, r)"
    if len: "length (json_pretty d (JObj ms)) \<le> n" and w: "spaces w" for d n w r
  proof -
    obtain m where m: "n = Suc m" using len by (cases n) (auto split: if_splits)
    show ?thesis
    proof (cases "ms = []")
      case True
      then show ?thesis by (simp add: m skip_spaces w)
    next
      case False
      have eqt: "json_pretty d (JObj ms) = CHR 0x7B # join '','' (map (member_pretty (Suc d)) ms) @ json_line d @ [CHR 0x7D]"
        using False mt by simp
      have "json_members m (join '','' (map (member_pretty (Suc d)) ms) @ json_line d @ CHR 0x7D # r) = Some (ms, r)"
      proof (rule json_members_pretty [OF False])
        show "\<forall>x \<in> set ms. reads_pretty (snd x)" using JObj by (force simp: list_all_iff)
        show "length (join '','' (map (member_pretty (Suc d)) ms)) < m" using len unfolding eqt by (simp add: m)
      qed
      then show ?thesis unfolding eqt using False by (simp add: m skip_spaces w expect_member_close)
    qed
  qed
  then show ?case by (simp add: reads_pretty_def)
qed (auto intro!: reads_pretty_flat reads_back_text)

lemma json_read_pretty:
  assumes "printable v"
  shows "json_read (json_pretty d v) = TokVal v []"
proof -
  obtain c s where c: "json_pretty d v = c # s" "\<not> json_space c" using json_pretty_hd [of d v] by auto
  have "json_value (Suc (length (json_pretty d v))) ([] @ json_pretty d v @ []) = Some (v, [])"
    using reads_pretty [OF assms] unfolding reads_pretty_def
    by (metis ends_number_simps(1) le_SucI order_refl spaces_simps(1))
  then show ?thesis using c unfolding json_read_def by (simp del: json_value.simps)
qed

lemma unmarshal_pretty: "printable v \<Longrightarrow> unmarshal dec (json_pretty d v) old = dec v old"
  by (simp add: unmarshal_def json_read_pretty skip_space_def)

end
