(* ===== verification/Url.thy ===== *)
theory Url
  imports Net
begin

text \<open>
  \<open>net/url\<close> as the web control panel uses it: \<open>Parse\<close>, \<open>Hostname\<close> and \<open>Port\<close>. A host with
  several colons outside brackets is refused (the strict rule of Go 1.26; its exemption for
  database schemes is not modelled, no caller accepts such a scheme).
\<close>

section \<open>Unescaping\<close>

datatype url_part = InHost | InZone | InUser | InPath

definition is_alpha :: "char \<Rightarrow> bool" where
  "is_alpha c \<longleftrightarrow> (let n = (of_char c :: nat) in 65 \<le> n \<and> n \<le> 90 \<or> 97 \<le> n \<and> n \<le> 122)"

definition is_alnum :: "char \<Rightarrow> bool" where
  "is_alnum c \<longleftrightarrow> is_alpha c \<or> is_digit c"

text \<open>The ASCII characters a host may hold literally.\<close>

definition host_char :: "char \<Rightarrow> bool" where
  "host_char c \<longleftrightarrow> is_alnum c \<or> c \<in> set ''!$&()*+,;=:[]<>-_.~'' \<or> c = CHR 0x27 \<or> c = CHR 0x22"

definition hex_pair :: "char \<Rightarrow> char \<Rightarrow> nat option" where
  "hex_pair a b =
     (case (digit_value a, digit_value b) of
        (Some x, Some y) \<Rightarrow> if x < 16 \<and> y < 16 then Some (16 * x + y) else None
      | _ \<Rightarrow> None)"

definition escape_ok :: "url_part \<Rightarrow> nat \<Rightarrow> bool" where
  "escape_ok part n \<longleftrightarrow>
     (case part of
        InHost \<Rightarrow> n \<ge> 128 \<or> n = 37
      | InZone \<Rightarrow> n = 37 \<or> n = 32 \<or> host_char (char_of n)
      | _ \<Rightarrow> True)"

definition literal_ok :: "url_part \<Rightarrow> char \<Rightarrow> bool" where
  "literal_ok part c \<longleftrightarrow> (part = InHost \<or> part = InZone) \<longrightarrow> (of_char c :: nat) \<ge> 128 \<or> host_char c"

fun url_unescape :: "url_part \<Rightarrow> string \<Rightarrow> string option" where
  "url_unescape part [] = Some []"
| "url_unescape part (c # s) =
     (if c = CHR 0x25 then
        (case s of
           a # b # t \<Rightarrow>
             (case hex_pair a b of
                None \<Rightarrow> None
              | Some n \<Rightarrow> if escape_ok part n then map_option ((#) (char_of n)) (url_unescape part t) else None)
         | _ \<Rightarrow> None)
      else if literal_ok part c then map_option ((#) c) (url_unescape part s)
      else None)"

section \<open>The parts of a URL\<close>

record url =
  ur_scheme :: string
  ur_user :: "(string \<times> string option) option"
  ur_host :: string
  ur_path :: string
  ur_query :: string
  ur_fragment :: string

text \<open>Cutting at the first occurrence of a character: before, after, and whether it occurs.\<close>

definition cut_at :: "char \<Rightarrow> string \<Rightarrow> string \<times> string \<times> bool" where
  "cut_at c s =
     (let a = takeWhile (\<lambda>d. d \<noteq> c) s in (a, drop (Suc (length a)) s, c \<in> set s))"

text \<open>\<open>getScheme\<close>: \<open>None\<close> is the missing-scheme error.\<close>

definition url_scheme :: "string \<Rightarrow> (string \<times> string) option" where
  "url_scheme s =
     (let w = takeWhile (\<lambda>c. is_alnum c \<or> c \<in> set ''+-.'') s; r = drop (length w) s
      in if w \<noteq> [] \<and> \<not> is_alpha (hd w) then Some ([], s)
         else if r \<noteq> [] \<and> hd r = CHR '':'' then (if w = [] then None else Some (w, tl r))
         else Some ([], s))"

definition valid_optional_port :: "string \<Rightarrow> bool" where
  "valid_optional_port s \<longleftrightarrow> s = [] \<or> (hd s = CHR '':'' \<and> list_all is_digit (tl s))"

definition valid_userinfo :: "string \<Rightarrow> bool" where
  "valid_userinfo s \<longleftrightarrow> list_all (\<lambda>c. is_alnum c \<or> c \<in> set ''-._:~!$&()*+,;=%@'' \<or> c = CHR 0x27) s"

fun first_index :: "string \<Rightarrow> string \<Rightarrow> nat option" where
  "first_index sub [] = (if sub = [] then Some 0 else None)"
| "first_index sub (c # s) = (if has_prefix (c # s) sub then Some 0 else map_option Suc (first_index sub s))"

text \<open>An address in brackets is IPv6, with an optional non-empty zone.\<close>

definition bracket_address_ok :: "string \<Rightarrow> bool" where
  "bracket_address_ok h \<longleftrightarrow>
     (case cut_at (CHR 0x25) h of
        (a, z, zoned) \<Rightarrow> parse_ip6 a \<noteq> None \<and> (zoned \<longrightarrow> z \<noteq> []))"

definition url_host :: "string \<Rightarrow> string option" where
  "url_host h =
     (case last_index (CHR 0x5B) h of
        Some (Suc _) \<Rightarrow> None
      | Some 0 \<Rightarrow>
          (case last_index (CHR 0x5D) h of
             None \<Rightarrow> None
           | Some j \<Rightarrow>
               let port = drop (Suc j) h; name = take (j - 1) (tl h);
                   z = first_index ''%25'' name
               in if \<not> valid_optional_port port then None
                  else case (case z of
                               None \<Rightarrow> url_unescape InHost name
                             | Some k \<Rightarrow>
                                 (case (url_unescape InHost (take k name), url_unescape InZone (drop k name)) of
                                    (Some a, Some b) \<Rightarrow> Some (a @ b)
                                  | _ \<Rightarrow> None)) of
                         None \<Rightarrow> None
                       | Some u \<Rightarrow>
                           if bracket_address_ok u then Some ([CHR 0x5B] @ u @ [CHR 0x5D] @ port) else None)
      | None \<Rightarrow>
          (case cut_at (CHR '':'') h of
             (a, b, colon) \<Rightarrow>
               if colon \<and> (CHR '':'' \<in> set b \<or> \<not> list_all is_digit b) then None
               else url_unescape InHost h))"

definition url_authority :: "string \<Rightarrow> ((string \<times> string option) option \<times> string) option" where
  "url_authority s =
     (case last_index (CHR ''@'') s of
        None \<Rightarrow> map_option (\<lambda>h. (None, h)) (url_host s)
      | Some i \<Rightarrow>
          (case url_host (drop (Suc i) s) of
             None \<Rightarrow> None
           | Some h \<Rightarrow>
               let info = take i s
               in if \<not> valid_userinfo info then None
                  else (case cut_at (CHR '':'') info of
                          (a, b, colon) \<Rightarrow>
                            (case (url_unescape InUser a, url_unescape InUser b) of
                               (Some name, Some pw) \<Rightarrow> Some (Some (name, if colon then Some pw else None), h)
                             | _ \<Rightarrow> None))))"

definition is_control :: "char \<Rightarrow> bool" where
  "is_control c \<longleftrightarrow> (of_char c :: nat) < 32 \<or> (of_char c :: nat) = 127"

text \<open>What follows the scheme, the fragment and the query cut off.\<close>

definition url_rest :: "string \<Rightarrow> string \<Rightarrow> ((string \<times> string option) option \<times> string \<times> string) option" where
  "url_rest scheme r =
     (if \<not> has_prefix r ''/'' then
        (if scheme \<noteq> [] then Some (None, [], [])
         else if CHR '':'' \<in> set (takeWhile (\<lambda>c. c \<noteq> CHR ''/'') r) then None
         else map_option (\<lambda>p. (None, [], p)) (url_unescape InPath r))
      else if has_prefix r ''//'' \<and> (scheme \<noteq> [] \<or> \<not> has_prefix r ''///'') then
        (let a = takeWhile (\<lambda>c. c \<noteq> CHR ''/'') (drop 2 r); p = drop (length a) (drop 2 r)
         in case (url_authority a, url_unescape InPath p) of
              (Some (u, h), Some q) \<Rightarrow> Some (u, h, q)
            | _ \<Rightarrow> None)
      else map_option (\<lambda>p. (None, [], p)) (url_unescape InPath r))"

definition url_parse :: "string \<Rightarrow> url option" where
  "url_parse raw =
     (case cut_at (CHR ''#'') raw of (body, frag, _) \<Rightarrow>
      if list_ex is_control body then None
      else case url_scheme body of None \<Rightarrow> None | Some (scheme, r) \<Rightarrow>
      (case cut_at (CHR ''?'') r of (path, query, _) \<Rightarrow>
      (case (url_rest scheme path, url_unescape InPath frag) of
         (Some (u, h, p), Some f) \<Rightarrow>
           Some \<lparr>ur_scheme = to_lower scheme, ur_user = u, ur_host = h, ur_path = p, ur_query = query, ur_fragment = f\<rparr>
       | _ \<Rightarrow> None)))"

section \<open>Host name and port\<close>

definition split_url_host :: "string \<Rightarrow> string \<times> string" where
  "split_url_host h =
     (case last_index (CHR '':'') h of
        Some i \<Rightarrow> if valid_optional_port (drop i h) then (take i h, drop (Suc i) h) else (h, [])
      | None \<Rightarrow> (h, []))"

definition url_hostname :: "url \<Rightarrow> string" where
  "url_hostname u =
     (let h = fst (split_url_host (ur_host u))
      in if has_prefix h [CHR 0x5B] \<and> has_suffix h [CHR 0x5D] then butlast (tl h) else h)"

definition url_port :: "url \<Rightarrow> string" where
  "url_port u = snd (split_url_host (ur_host u))"

section \<open>What a parsed URL looks like\<close>

lemma split_url_host_port: "split_url_host h = (a, p) \<Longrightarrow> list_all is_digit p"
  by (auto simp: split_url_host_def valid_optional_port_def drop_Suc tl_drop[symmetric] split: option.splits if_splits)

lemma url_port_digits: "list_all is_digit (url_port u)"
  unfolding url_port_def by (rule split_url_host_port) (rule surjective_pairing)

text \<open>A port that \<open>Atoi\<close> reads is not negative.\<close>

lemma url_port_not_negative:
  assumes "atoi (url_port u) = Some i"
  shows "0 \<le> i"
proof -
  have d: "list_all is_digit (url_port u)" by (rule url_port_digits)
  show ?thesis
  proof (cases "url_port u")
    case (Cons c r)
    then have "c \<noteq> CHR ''-''" using d by (auto simp: is_digit_def)
    then show ?thesis
      using assms Cons by (auto simp: atoi_def Let_def split: option.splits if_splits)
  qed (use assms in \<open>simp add: atoi_def\<close>)
qed

lemma url_scheme_lower: "url_parse raw = Some u \<Longrightarrow> to_lower (ur_scheme u) = ur_scheme u"
  by (auto simp: url_parse_def to_lower_def lower_char_def Let_def split: prod.splits option.splits if_splits)

end
