(* ===== verification/Webconf.thy ===== *)
theory Webconf
  imports Unmarshal Url
begin

text \<open>
  The configuration of the web control panel, its file, and the validation of the chosen backend:
  the \<open>Config\<close> part of \<open>cmd/tun2proxy-web/main.go\<close> and the first functions of \<open>backend.go\<close>.
  A Go slice is \<open>None\<close> when it is nil (printed as \<open>null\<close>).
\<close>

section \<open>Slices and results of system calls\<close>

type_synonym 'a slice = "'a list option"

definition items :: "'a slice \<Rightarrow> 'a list" where
  "items s = (case s of None \<Rightarrow> [] | Some xs \<Rightarrow> xs)"

definition len_nslice :: "'a lenient \<Rightarrow> 'a \<Rightarrow> 'a slice lenient" where
  "len_nslice dec zero v old =
     (case v of
        JNull \<Rightarrow> (None, False)
      | JArr vs \<Rightarrow> (case len_elems dec zero vs (items old) of (xs, e) \<Rightarrow> (Some xs, e))
      | _ \<Rightarrow> (old, True))"

definition slice_json :: "('a \<Rightarrow> json) \<Rightarrow> 'a slice \<Rightarrow> json" where
  "slice_json enc s = (case s of None \<Rightarrow> JNull | Some xs \<Rightarrow> JArr (map enc xs))"

lemma items_simps [simp]: "items None = []" "items (Some xs) = xs"
  by (simp_all add: items_def)

lemma len_nslice_json:
  "(\<And>x old. x \<in> set (items s) \<Longrightarrow> dec (enc x) old = (x, False)) \<Longrightarrow> len_nslice dec zero (slice_json enc s) old = (s, False)"
  by (cases s) (auto simp: len_nslice_def slice_json_def len_elems_map)

lemma printable_slice [simp]:
  "printable (slice_json enc s) \<longleftrightarrow> (\<forall>x \<in> set (items s). printable (enc x))"
  by (cases s) (auto simp: slice_json_def list_all_iff)

text \<open>The first failure of a sequence of calls, each made only if the ones before succeeded.\<close>

fun first_error :: "gerr option list \<Rightarrow> gerr option" where
  "first_error [] = None"
| "first_error (e # es) = (if e \<noteq> None then e else first_error es)"

lemma first_error_None: "first_error es = None \<longleftrightarrow> (\<forall>e \<in> set es. e = None)"
  by (induction es) auto

section \<open>The configuration\<close>

record web_config =
  wc_backend :: string
  wc_ebpf_port :: int
  wc_route_mode :: string
  wc_app_packages :: "string slice"
  wc_version :: string
  wc_enabled :: bool
  wc_tun_name :: string
  wc_proxy_url :: string
  wc_dns_mode :: string
  wc_bypass_ips :: "string slice"
  wc_tcp_timeout :: int
  wc_udp_timeout :: int
  wc_udpgw :: string

definition zero_web_config :: web_config where
  "zero_web_config =
     \<lparr>wc_backend = [], wc_ebpf_port = 0, wc_route_mode = [], wc_app_packages = None, wc_version = [],
      wc_enabled = False, wc_tun_name = [], wc_proxy_url = [], wc_dns_mode = [], wc_bypass_ips = None,
      wc_tcp_timeout = 0, wc_udp_timeout = 0, wc_udpgw = []\<rparr>"

definition default_web_config :: web_config where
  "default_web_config =
     zero_web_config\<lparr>wc_version := ''1.0'', wc_tun_name := ''tun0'', wc_dns_mode := ''virtual'',
       wc_tcp_timeout := 30, wc_udp_timeout := 30\<rparr>"

definition omit_text :: "string \<Rightarrow> string \<Rightarrow> (string \<times> json) list" where
  "omit_text k s = (if s = [] then [] else [(k, JStr s)])"

definition web_config_json :: "web_config \<Rightarrow> json" where
  "web_config_json c = JObj
     (omit_text ''backend'' (wc_backend c) @
      (if wc_ebpf_port c = 0 then [] else [(''ebpf_port'', JInt (wc_ebpf_port c))]) @
      [(''route_mode'', JStr (wc_route_mode c)),
       (''app_packages'', slice_json JStr (wc_app_packages c)),
       (''version'', JStr (wc_version c)), (''enabled'', JBool (wc_enabled c)),
       (''tun_name'', JStr (wc_tun_name c)), (''proxy_url'', JStr (wc_proxy_url c)),
       (''dns_mode'', JStr (wc_dns_mode c)), (''bypass_ips'', slice_json JStr (wc_bypass_ips c)),
       (''tcp_timeout'', JInt (wc_tcp_timeout c)), (''udp_timeout'', JInt (wc_udp_timeout c)),
       (''udpgw_server'', JStr (wc_udpgw c))])"

definition len_strings :: "string slice lenient" where
  "len_strings = len_nslice len_string []"

definition web_field :: "string \<Rightarrow> web_config lenient" where
  "web_field k v c =
     (if fold_eq k ''backend'' then update_by (\<lambda>s. wc_backend_update (\<lambda>_. s)) (len_string v (wc_backend c)) c
      else if fold_eq k ''ebpf_port'' then update_by (\<lambda>i. wc_ebpf_port_update (\<lambda>_. i)) (len_int v (wc_ebpf_port c)) c
      else if fold_eq k ''route_mode'' then update_by (\<lambda>s. wc_route_mode_update (\<lambda>_. s)) (len_string v (wc_route_mode c)) c
      else if fold_eq k ''app_packages'' then update_by (\<lambda>s. wc_app_packages_update (\<lambda>_. s)) (len_strings v (wc_app_packages c)) c
      else if fold_eq k ''version'' then update_by (\<lambda>s. wc_version_update (\<lambda>_. s)) (len_string v (wc_version c)) c
      else if fold_eq k ''enabled'' then update_by (\<lambda>b. wc_enabled_update (\<lambda>_. b)) (len_bool v (wc_enabled c)) c
      else if fold_eq k ''tun_name'' then update_by (\<lambda>s. wc_tun_name_update (\<lambda>_. s)) (len_string v (wc_tun_name c)) c
      else if fold_eq k ''proxy_url'' then update_by (\<lambda>s. wc_proxy_url_update (\<lambda>_. s)) (len_string v (wc_proxy_url c)) c
      else if fold_eq k ''dns_mode'' then update_by (\<lambda>s. wc_dns_mode_update (\<lambda>_. s)) (len_string v (wc_dns_mode c)) c
      else if fold_eq k ''bypass_ips'' then update_by (\<lambda>s. wc_bypass_ips_update (\<lambda>_. s)) (len_strings v (wc_bypass_ips c)) c
      else if fold_eq k ''tcp_timeout'' then update_by (\<lambda>i. wc_tcp_timeout_update (\<lambda>_. i)) (len_int v (wc_tcp_timeout c)) c
      else if fold_eq k ''udp_timeout'' then update_by (\<lambda>i. wc_udp_timeout_update (\<lambda>_. i)) (len_int v (wc_udp_timeout c)) c
      else if fold_eq k ''udpgw_server'' then update_by (\<lambda>s. wc_udpgw_update (\<lambda>_. s)) (len_string v (wc_udpgw c)) c
      else (c, False))"

definition len_web_config :: "web_config lenient" where
  "len_web_config = len_struct web_field"

section \<open>Loading and saving\<close>

text \<open>
  \<open>loadConfig\<close>: the configuration and the error. An unreadable file leaves a zero configuration, a bad
  text what had been decoded of it.
\<close>

definition load_web_config :: "gerr + string \<Rightarrow> web_config \<times> gerr option" where
  "load_web_config file =
     (case file of
        Inl NotExist \<Rightarrow> (default_web_config, None)
      | Inl e \<Rightarrow> (zero_web_config, Some e)
      | Inr b \<Rightarrow>
          (case unmarshal len_web_config b zero_web_config of
             (c, bad) \<Rightarrow> (c, if bad then Some (Wrap ''invalid config JSON'' (Err ''json'')) else None)))"

definition backend_name :: "web_config \<Rightarrow> string" where
  "backend_name c = (if wc_backend c = ''ebpf'' then ''ebpf'' else ''tun'')"

definition socks_scheme :: "string \<Rightarrow> bool" where
  "socks_scheme s \<longleftrightarrow> s = ''socks5'' \<or> s = ''socks5h''"

definition validate_backend :: "web_config \<Rightarrow> gerr option" where
  "validate_backend c =
     (if wc_backend c \<noteq> [] \<and> wc_backend c \<noteq> ''tun'' \<and> wc_backend c \<noteq> ''ebpf'' then Some (Err ''unknown proxy backend'')
      else if wc_ebpf_port c < 0 \<or> wc_ebpf_port c > 65535 then Some (Err ''invalid eBPF listener port'')
      else if backend_name c = ''ebpf'' \<and>
        (case url_parse (wc_proxy_url c) of None \<Rightarrow> True | Some u \<Rightarrow> \<not> socks_scheme (ur_scheme u))
      then Some (Err ''eBPF requires a real SOCKS5 upstream; HTTP CONNECT is not converted automatically'')
      else None)"

definition config_text :: "web_config \<Rightarrow> string" where
  "config_text c = json_pretty 0 (web_config_json c)"

text \<open>
  \<open>saveRuntimeConfig\<close>: \<open>stage\<close> holds the results of create, chmod, write, sync, close and rename; only a
  completed rename changes the file, and a staged file that is left is removed.
\<close>

definition save_runtime_config :: "gerr option list \<Rightarrow> web_config \<Rightarrow> string option \<Rightarrow> gerr option \<times> string option" where
  "save_runtime_config stage c file =
     (case validate_backend c of
        Some e \<Rightarrow> (Some e, file)
      | None \<Rightarrow> (case first_error stage of Some e \<Rightarrow> (Some e, file) | None \<Rightarrow> (None, Some (config_text c))))"

section \<open>Round trip\<close>

definition web_ints_ok :: "web_config \<Rightarrow> bool" where
  "web_ints_ok c \<longleftrightarrow> int64_range (wc_ebpf_port c) \<and> int64_range (wc_tcp_timeout c) \<and> int64_range (wc_udp_timeout c)"

lemma printable_web_config [simp]: "printable (web_config_json c)"
  by (simp add: web_config_json_def omit_text_def list_all_iff)

lemma len_strings_json [simp]: "len_strings (slice_json JStr s) old = (s, False)"
  unfolding len_strings_def by (rule len_nslice_json) simp

lemma len_members_append:
  "len_members field (as @ bs) r =
     (case len_members field as r of (r1, e) \<Rightarrow> (case len_members field bs r1 of (r2, e') \<Rightarrow> (r2, e \<or> e')))"
  by (induction as arbitrary: r) (auto split: prod.splits)

definition web_names :: "string list" where
  "web_names =
     [''backend'', ''ebpf_port'', ''route_mode'', ''app_packages'', ''version'', ''enabled'', ''tun_name'',
      ''proxy_url'', ''dns_mode'', ''bypass_ips'', ''tcp_timeout'', ''udp_timeout'', ''udpgw_server'']"

lemma web_names_lower: "list_all (\<lambda>n. to_lower n = n) web_names"
  by code_simp

lemma fold_eq_web_name: "a \<in> set web_names \<Longrightarrow> b \<in> set web_names \<Longrightarrow> fold_eq a b \<longleftrightarrow> a = b"
  using web_names_lower by (intro fold_eq_lower) (simp_all add: list_all_iff)

lemma len_web_config_json:
  assumes "web_ints_ok c"
  shows "len_web_config (web_config_json c) zero_web_config = (c, False)"
  using assms
  by (simp add: len_web_config_def len_struct_def web_config_json_def omit_text_def len_members_append web_field_def
      fold_eq_web_name [unfolded web_names_def] zero_web_config_def web_ints_ok_def)

lemma load_saved_config:
  assumes "web_ints_ok c"
  shows "load_web_config (Inr (config_text c)) = (c, None)"
  using assms by (simp add: load_web_config_def config_text_def unmarshal_pretty len_web_config_json)

end
