(* ===== verification/Routes.thy ===== *)
theory Routes
  imports Webconf Address "HOL-Library.Multiset"
begin

text \<open>
  The journaled routing transaction of the web control panel: \<open>cmd/tun2proxy-web/routes.go\<close>.
  \<open>routes.json\<close> holds the commands that undo what was installed, each written before the command it
  undoes. The kernel tools are the parameter \<open>run\<close>; every function runs under the lock on
  \<open>routes.lock\<close>, so its steps are not interleaved with another of them.
\<close>

section \<open>Commands\<close>

text \<open>\<open>CombinedOutput\<close>: the output, and the error text of a command that failed.\<close>

type_synonym 'k shell = "argv \<Rightarrow> 'k \<Rightarrow> (string \<times> string option) \<times> 'k"

definition route_error :: "argv \<Rightarrow> string \<Rightarrow> string \<Rightarrow> string" where
  "route_error args e out = join '' '' args @ '': '' @ e @ '': '' @ out"

definition route_table :: string where "route_table = ''38765''"
definition route_priority :: string where "route_priority = ''9000''"
definition route_chain :: string where "route_chain = ''T2P_CAPTURE''"

text \<open>What the journal undoes, with its command lines.\<close>

datatype route_undo =
    DropChain string
  | FlushChain string
  | DropRoute "string list"
  | DropJump string string
  | DropRule string

fun undo_argv :: "route_undo \<Rightarrow> argv" where
  "undo_argv (DropChain tool) = [tool, ''-w'', ''5'', ''-X'', route_chain]"
| "undo_argv (FlushChain tool) = [tool, ''-w'', ''5'', ''-F'', route_chain]"
| "undo_argv (DropRoute spec) = [''ip'', ''route'', ''del''] @ spec @ [''table'', route_table]"
| "undo_argv (DropJump tool owner) =
     [tool, ''-w'', ''5'', ''-D'', ''OUTPUT'', ''-m'', ''owner'', ''--uid-owner'', owner, ''-j'', route_chain]"
| "undo_argv (DropRule r) =
     [''ip'', ''rule'', ''del'', ''priority'', route_priority, ''uidrange'', r, ''lookup'', route_table]"

text \<open>What is installed.\<close>

datatype route_do =
    NewChain string
  | ChainRule string "string list"
  | AddRoute "string list"
  | AddJump string string
  | AddRule string

fun do_argv :: "route_do \<Rightarrow> argv" where
  "do_argv (NewChain tool) = [tool, ''-w'', ''5'', ''-N'', route_chain]"
| "do_argv (ChainRule tool args) = [tool, ''-w'', ''5''] @ args"
| "do_argv (AddRoute spec) = [''ip'', ''route'', ''add''] @ spec @ [''table'', route_table]"
| "do_argv (AddJump tool owner) =
     [tool, ''-w'', ''5'', ''-I'', ''OUTPUT'', ''1'', ''-m'', ''owner'', ''--uid-owner'', owner, ''-j'', route_chain]"
| "do_argv (AddRule r) =
     [''ip'', ''rule'', ''add'', ''priority'', route_priority, ''uidrange'', r, ''lookup'', route_table]"

section \<open>The transaction as a list of steps\<close>

text \<open>A step notes an undo command in the journal, runs a command, or finds a bad setting.\<close>

datatype route_op = Note route_undo | Do route_do | Refuse gerr

definition iptables :: string where "iptables = ''iptables''"
definition ip6tables :: string where "ip6tables = ''ip6tables''"

definition chain_ops :: "string \<Rightarrow> route_op list" where
  "chain_ops tool =
     [Note (DropChain tool), Do (NewChain tool), Note (FlushChain tool)] @
     (if tool = iptables
      then [Do (ChainRule tool [''-A'', route_chain, ''-p'', ''udp'', ''!'', ''--dport'', ''53'', ''-j'', ''REJECT'',
              ''--reject-with'', ''icmp-port-unreachable''])]
      else [Do (ChainRule tool [''-A'', route_chain, ''-d'', ''::1/128'', ''-j'', ''RETURN'']),
            Do (ChainRule tool [''-A'', route_chain, ''-j'', ''REJECT'', ''--reject-with'', ''icmp6-adm-prohibited''])])"

text \<open>\<open>net.ParseCIDR\<close> of an IPv4 network and \<open>IPNet.String\<close>; an IPv4-mapped text is printed in dotted form.\<close>

definition ipv4_network :: "string \<Rightarrow> string option" where
  "ipv4_network s =
     (let addr = takeWhile (\<lambda>c. c \<noteq> CHR ''/'') s; bits = drop (Suc (length addr)) s
      in case (valid_cidr s, parse_ip addr, digits_value 10 0 bits) of
           (True, Some a, Some n) \<Rightarrow>
             if to4 a = None then None
             else
               let m = mask_bytes n (ip_bytes a)
               in Some (ip_text m @ ''/'' @
                        utoa (if length m = 16 \<and> take 12 m = replicate 10 0 @ [0xFF, 0xFF] then n - 96 else n))
         | _ \<Rightarrow> None)"

fun bypass_ops :: "string list \<Rightarrow> string list \<Rightarrow> route_op list" where
  "bypass_ops seen [] = []"
| "bypass_ops seen (c # cs) =
     (let cidr = (if CHR ''/'' \<in> set c then c else c @ ''/32'')
      in case ipv4_network cidr of
           None \<Rightarrow> [Refuse (Err (''invalid IPv4 bypass: '' @ cidr))]
         | Some n \<Rightarrow>
             if n \<in> set seen then bypass_ops seen cs
             else [Do (ChainRule iptables [''-I'', route_chain, ''1'', ''-d'', n, ''-j'', ''RETURN'']),
                   Note (DropRoute [''throw'', n]), Do (AddRoute [''throw'', n])] @ bypass_ops (n # seen) cs)"

definition range_ops :: "string \<Rightarrow> route_op list" where
  "range_ops r =
     (let owner = replace_char (CHR ''-'') '':'' r
      in [Note (DropJump iptables owner), Do (AddJump iptables owner),
          Note (DropJump ip6tables owner), Do (AddJump ip6tables owner),
          Note (DropRule r), Do (AddRule r)])"

definition uid_ranges :: "string \<Rightarrow> int list \<Rightarrow> string list" where
  "uid_ranges mode uids =
     (if mode = ''all'' then [''1-4294967294''] else map (\<lambda>u. itoa u @ ''-'' @ itoa u) uids)"

definition fixed_bypass :: "u8 list \<Rightarrow> string list" where
  "fixed_bypass proxy = [ip_text proxy @ ''/32'', ''127.0.0.0/8'', ''224.0.0.0/4'', ''255.255.255.255/32'']"

definition route_plan :: "string \<Rightarrow> u8 list \<Rightarrow> string list \<Rightarrow> string \<Rightarrow> int list \<Rightarrow> route_op list" where
  "route_plan tun proxy bypass mode uids =
     chain_ops iptables @ chain_ops ip6tables @
     [Note (DropRoute [''default'', ''dev'', tun]), Do (AddRoute [''default'', ''dev'', tun])] @
     bypass_ops [] (fixed_bypass proxy @ bypass) @ concat (map range_ops (uid_ranges mode uids))"

section \<open>The state file\<close>

record route_state =
  rs_boot :: string
  rs_mode :: string
  rs_uids :: "int slice"
  rs_pid :: int
  rs_identity :: string
  rs_undo :: "argv slice"

definition zero_routes :: route_state where
  "zero_routes = \<lparr>rs_boot = [], rs_mode = [], rs_uids = None, rs_pid = 0, rs_identity = [], rs_undo = None\<rparr>"

definition route_json :: "route_state \<Rightarrow> json" where
  "route_json s = JObj
     (omit_text ''boot'' (rs_boot s) @
      [(''mode'', JStr (rs_mode s)), (''uids'', slice_json JInt (rs_uids s)), (''pid'', JInt (rs_pid s)),
       (''identity'', JStr (rs_identity s)),
       (''undo'', slice_json (\<lambda>args. JArr (map JStr args)) (rs_undo s))])"

definition route_text :: "route_state \<Rightarrow> string" where
  "route_text s = json_text (route_json s)"

definition route_field :: "string \<Rightarrow> route_state lenient" where
  "route_field k v s =
     (if fold_eq k ''boot'' then update_by (\<lambda>x. rs_boot_update (\<lambda>_. x)) (len_string v (rs_boot s)) s
      else if fold_eq k ''mode'' then update_by (\<lambda>x. rs_mode_update (\<lambda>_. x)) (len_string v (rs_mode s)) s
      else if fold_eq k ''uids'' then update_by (\<lambda>x. rs_uids_update (\<lambda>_. x)) (len_nslice len_int 0 v (rs_uids s)) s
      else if fold_eq k ''pid'' then update_by (\<lambda>x. rs_pid_update (\<lambda>_. x)) (len_int v (rs_pid s)) s
      else if fold_eq k ''identity'' then update_by (\<lambda>x. rs_identity_update (\<lambda>_. x)) (len_string v (rs_identity s)) s
      else if fold_eq k ''undo'' then
        update_by (\<lambda>x. rs_undo_update (\<lambda>_. x)) (len_nslice (len_slice len_string []) [] v (rs_undo s)) s
      else (s, False))"

definition parse_routes :: "string \<Rightarrow> route_state" where
  "parse_routes b = fst (unmarshal (len_struct route_field) b zero_routes)"

text \<open>
  The world: the kernel, the file, whether it can be read, the text of the boot identifier (empty when it cannot
  be read), and how the coming writes and removals of the file end.
\<close>

record 'k route_world =
  rw_kernel :: 'k
  rw_file :: "string option"
  rw_readable :: bool
  rw_boot :: string
  rw_disk :: "gerr option list"

definition read_routes :: "'k route_world \<Rightarrow> route_state" where
  "read_routes w =
     (case rw_file w of None \<Rightarrow> zero_routes | Some b \<Rightarrow> if rw_readable w then parse_routes b else zero_routes)"

definition disk_result :: "'k route_world \<Rightarrow> gerr option \<times> 'k route_world" where
  "disk_result w = (case rw_disk w of [] \<Rightarrow> (None, w) | e # es \<Rightarrow> (e, w\<lparr>rw_disk := es\<rparr>))"

text \<open>A temporary file and a rename: either call may fail, and then the file is as before.\<close>

definition write_routes :: "route_state \<Rightarrow> 'k route_world \<Rightarrow> gerr option \<times> 'k route_world" where
  "write_routes s w =
     (case disk_result w of (Some e, w1) \<Rightarrow> (Some e, w1) | (None, w1) \<Rightarrow> (None, w1\<lparr>rw_file := Some (route_text s)\<rparr>))"

definition remove_routes :: "'k route_world \<Rightarrow> gerr option \<times> 'k route_world" where
  "remove_routes w =
     (if rw_file w = None then (Some NotExist, w)
      else case disk_result w of (Some e, w1) \<Rightarrow> (Some e, w1) | (None, w1) \<Rightarrow> (None, w1\<lparr>rw_file := None\<rparr>))"

section \<open>Cleaning up\<close>

definition absent_messages :: "string list" where
  "absent_messages =
     [''No such'', ''Bad rule'', ''Cannot find device'', ''does not exist'', ''No chain/target/match'',
      ''Couldn'' @ [CHR 0x27] @ ''t find target `'' @ route_chain @ [CHR 0x27]]"

definition already_absent :: "string \<Rightarrow> bool" where
  "already_absent out \<longleftrightarrow> list_ex (str_contains out) absent_messages"

text \<open>The undo commands, last first; the failures, or \<open>None\<close> for the panic on an empty command.\<close>

definition undo_failure :: "argv \<Rightarrow> string \<Rightarrow> string option \<Rightarrow> string list" where
  "undo_failure args out e =
     (case e of Some x \<Rightarrow> if already_absent out then [] else [route_error args x out] | None \<Rightarrow> [])"

lemma undo_failure_Nil: "undo_failure args out e = [] \<longleftrightarrow> e = None \<or> already_absent out"
  by (cases e) (auto simp: undo_failure_def)

fun undo_loop :: "'k shell \<Rightarrow> argv list \<Rightarrow> 'k \<Rightarrow> string list option \<times> 'k" where
  "undo_loop run [] k = (Some [], k)"
| "undo_loop run (args # rest) k =
     (if args = [] then (None, k)
      else case run args k of
        ((out, e), k1) \<Rightarrow>
          (case undo_loop run rest k1 of
             (None, k2) \<Rightarrow> (None, k2)
           | (Some fs, k2) \<Rightarrow> (Some (undo_failure args out e @ fs), k2)))"

definition cleanup_error :: "string list \<Rightarrow> gerr" where
  "cleanup_error fs = Err (''routing cleanup incomplete (journal retained): '' @ join ''; '' fs)"

definition cleanup_panic :: gerr where
  "cleanup_panic = Err ''panic: index out of range''"

lemma cleanup_error_exists [simp]: "cleanup_error fs \<noteq> NotExist" "cleanup_panic \<noteq> NotExist"
  by (simp_all add: cleanup_error_def cleanup_panic_def)

definition cleanup_routes :: "'k shell \<Rightarrow> 'k route_world \<Rightarrow> gerr option \<times> 'k route_world" where
  "cleanup_routes run w =
     (let s = read_routes w
      in if rs_boot s \<noteq> [] \<and> rs_boot s \<noteq> rw_boot w then remove_routes w
         else case undo_loop run (rev (items (rs_undo s))) (rw_kernel w) of
                (None, k) \<Rightarrow> (Some cleanup_panic, w\<lparr>rw_kernel := k\<rparr>)
              | (Some fs, k) \<Rightarrow>
                  if fs \<noteq> [] then (Some (cleanup_error fs), w\<lparr>rw_kernel := k\<rparr>) else remove_routes (w\<lparr>rw_kernel := k\<rparr>))"

section \<open>Applications and the engine\<close>

record app_entry =
  ap_package :: string
  ap_uid :: int

text \<open>The order of Go strings: by bytes.\<close>

fun string_less :: "string \<Rightarrow> string \<Rightarrow> bool" where
  "string_less s [] = False"
| "string_less [] (d # t) = True"
| "string_less (c # s) (d # t) =
     ((of_char c :: nat) < of_char d \<or> (c = d \<and> string_less s t))"

fun insert_app :: "app_entry \<Rightarrow> app_entry list \<Rightarrow> app_entry list" where
  "insert_app a [] = [a]"
| "insert_app a (b # bs) = (if string_less (ap_package b) (ap_package a) then b # insert_app a bs else a # b # bs)"

definition app_line :: "string \<Rightarrow> app_entry option" where
  "app_line line =
     (case str_fields line of
        [name, uid] \<Rightarrow>
          (case atoi (trim_prefix uid ''uid:'') of
             Some u \<Rightarrow>
               if 10000 \<le> u \<and> u < 100000 then Some \<lparr>ap_package = trim_prefix name ''package:'', ap_uid = u\<rparr> else None
           | None \<Rightarrow> None)
      | _ \<Rightarrow> None)"

text \<open>\<open>appsList\<close> on what \<open>pm list packages\<close> printed, or on its failure.\<close>

definition apps_list :: "string \<times> string option \<Rightarrow> gerr + app_entry list" where
  "apps_list r =
     (case r of
        (out, Some e) \<Rightarrow> Inl (Err (''list apps: '' @ e @ '': '' @ out))
      | (out, None) \<Rightarrow> Inr (foldr insert_app (List.map_filter app_line (split_on (CHR 0x0A) out)) []))"

text \<open>The labels shown in the panel: one tab-separated pair per line, the last one counts.\<close>

definition trim_returns :: "string \<Rightarrow> string" where
  "trim_returns s = rev (dropWhile (\<lambda>c. c = CHR 0x0D) (rev s))"

definition label_line :: "string \<Rightarrow> (string \<times> string) option" where
  "label_line line =
     (case cut_at (CHR 0x09) (trim_returns line) of
        (p, l, tab) \<Rightarrow> if \<not> tab \<or> p = [] \<or> trim_space l = [] then None else Some (p, trim_space l))"

definition parse_app_labels :: "string \<Rightarrow> (string \<rightharpoonup> string)" where
  "parse_app_labels out = map_of (rev (List.map_filter label_line (split_on (CHR 0x0A) out)))"

text \<open>
  The identity of a process: the start time in its \<open>stat\<close> line, if its executable is the engine.
  The \<open>/proc\<close> entries are those of the process, when they can be read.
\<close>

definition engine_identity :: "string \<Rightarrow> string option \<Rightarrow> string option \<Rightarrow> string" where
  "engine_identity binary exe stat =
     (case (exe, stat) of
        (Some x, Some b) \<Rightarrow>
          if x \<noteq> binary then [] else let parts = str_fields b in if length parts < 22 then [] else parts ! 21
      | _ \<Rightarrow> [])"

section \<open>Starting\<close>

record route_env =
  st_config :: "web_config \<times> gerr option"
  st_iface_up :: "string \<Rightarrow> bool"
  st_running :: bool
  st_pid :: int
  st_identity :: string
  st_apps :: "string \<times> string option"
  st_log :: "gerr option"
  st_watch :: "gerr option"

text \<open>The uids of the selected packages, each once; a later line of the list counts for a package named twice.\<close>

fun select_uids :: "(string \<rightharpoonup> int) \<Rightarrow> string list \<Rightarrow> int list \<Rightarrow> gerr + int list" where
  "select_uids known [] uids = Inr uids"
| "select_uids known (p # ps) uids =
     (case known p of
        None \<Rightarrow> Inl (Err (''app unavailable in primary user: '' @ p))
      | Some u \<Rightarrow> select_uids known ps (append_once uids u))"

definition known_apps :: "app_entry list \<Rightarrow> (string \<rightharpoonup> int)" where
  "known_apps apps = map_of (rev (map (\<lambda>a. (ap_package a, ap_uid a)) apps))"

definition unspecified_addr :: "ip_addr \<Rightarrow> bool" where
  "unspecified_addr a \<longleftrightarrow>
     (case to4 a of Some b \<Rightarrow> b = Ip4 0 0 0 0 | None \<Rightarrow> (case a of Ip6 gs _ \<Rightarrow> gs = replicate 8 0 | _ \<Rightarrow> False))"

definition proxy_address :: "web_config \<Rightarrow> gerr + u8 list" where
  "proxy_address c =
     (case url_parse (wc_proxy_url c) of
        None \<Rightarrow> Inl (Err ''parse'')
      | Some u \<Rightarrow>
          (case parse_ip (url_hostname u) of
             Some a \<Rightarrow>
               if to4 a = None \<or> unspecified_addr a
               then Inl (Err ''routing requires a valid IPv4 proxy address'') else Inr (ip_bytes a)
           | None \<Rightarrow> Inl (Err ''routing requires a valid IPv4 proxy address'')))"

definition chosen_uids :: "web_config \<Rightarrow> app_entry list \<Rightarrow> gerr + int list" where
  "chosen_uids c apps =
     (if wc_route_mode c \<noteq> ''selected'' then Inr []
      else case select_uids (known_apps apps) (items (wc_app_packages c)) [] of
             Inl e \<Rightarrow> Inl e
           | Inr [] \<Rightarrow> Inl (Err ''select at least one app'')
           | Inr (u # us) \<Rightarrow> Inr (sort (u # us)))"

text \<open>
  Everything before the kernel is asked: \<open>None\<close> when routing is off, otherwise the first state of the journal
  (without its boot) and the steps.
\<close>

definition start_plan :: "route_env \<Rightarrow> gerr + (route_state \<times> route_op list) option" where
  "start_plan E =
     (case st_config E of
        (_, Some e) \<Rightarrow> Inl e
      | (c, None) \<Rightarrow>
          let mode = wc_route_mode c; tun = (if wc_tun_name c = [] then ''tun0'' else wc_tun_name c)
          in if mode = [] \<or> mode = ''off'' then Inr None
             else if mode \<noteq> ''selected'' \<and> mode \<noteq> ''all'' then Inl (Err ''invalid route mode'')
             else case proxy_address c of Inl e \<Rightarrow> Inl e | Inr proxy \<Rightarrow>
               if wc_dns_mode c \<noteq> ''virtual'' then Inl (Err ''capture mode requires virtual DNS'')
               else if \<not> st_iface_up E tun then Inl (Err ''TUN interface not ready'')
               else if \<not> st_running E \<or> st_identity E = [] then Inl (Err ''engine is not running'')
               else case apps_list (st_apps E) of Inl e \<Rightarrow> Inl e | Inr apps \<Rightarrow>
               (case chosen_uids c apps of
                  Inl e \<Rightarrow> Inl e
                | Inr uids \<Rightarrow>
                    Inr (Some (\<lparr>rs_boot = [], rs_mode = mode, rs_uids = Some uids, rs_pid = st_pid E,
                                rs_identity = st_identity E, rs_undo = None\<rparr>,
                               route_plan tun proxy (items (wc_bypass_ips c)) mode uids))))"

text \<open>The table must be empty and the chain unknown to both tools.\<close>

definition table_query :: argv where
  "table_query = [''ip'', ''route'', ''show'', ''table'', route_table]"

definition chain_query :: "string \<Rightarrow> argv" where
  "chain_query tool = [tool, ''-w'', ''5'', ''-S'', route_chain]"

definition check_free :: "'k shell \<Rightarrow> 'k \<Rightarrow> gerr option \<times> 'k" where
  "check_free run k =
     (case run table_query k of ((out, _), k1) \<Rightarrow>
      if trim_space out \<noteq> [] then (Some (Err (''routing table '' @ route_table @ '' is already in use'')), k1)
      else case run (chain_query iptables) k1 of ((_, e4), k2) \<Rightarrow>
      if e4 = None then (Some (Err (iptables @ '' chain already exists'')), k2)
      else case run (chain_query ip6tables) k2 of ((_, e6), k3) \<Rightarrow>
      if e6 = None then (Some (Err (ip6tables @ '' chain already exists'')), k3)
      else (None, k3))"

text \<open>The steps: error, journal as held in memory, world.\<close>

definition note_undo :: "argv \<Rightarrow> route_state \<Rightarrow> route_state" where
  "note_undo args s = s\<lparr>rs_undo := Some (items (rs_undo s) @ [args])\<rparr>"

fun run_ops :: "'k shell \<Rightarrow> route_op list \<Rightarrow> route_state \<Rightarrow> 'k route_world \<Rightarrow> gerr option \<times> route_state \<times> 'k route_world" where
  "run_ops run [] s w = (None, s, w)"
| "run_ops run (Note u # ops) s w =
     (let s1 = note_undo (undo_argv u) s
      in case write_routes s1 w of (Some e, w1) \<Rightarrow> (Some e, s1, w1) | (None, w1) \<Rightarrow> run_ops run ops s1 w1)"
| "run_ops run (Do d # ops) s w =
     (case run (do_argv d) (rw_kernel w) of
        ((out, Some x), k) \<Rightarrow> (Some (Err (route_error (do_argv d) x out)), s, w\<lparr>rw_kernel := k\<rparr>)
      | ((_, None), k) \<Rightarrow> run_ops run ops s (w\<lparr>rw_kernel := k\<rparr>))"
| "run_ops run (Refuse e # ops) s w = (Some e, s, w)"

text \<open>From the first write on, a failure cleans up what the journal in the file names.\<close>

definition install_routes :: "'k shell \<Rightarrow> route_env \<Rightarrow> route_state \<Rightarrow> route_op list \<Rightarrow> 'k route_world \<Rightarrow> gerr option \<times> 'k route_world" where
  "install_routes run E s ops w =
     (case write_routes s w of
        (Some e, w1) \<Rightarrow> (Some e, w1)
      | (None, w1) \<Rightarrow>
          (case run_ops run ops s w1 of
             (Some e, _, w2) \<Rightarrow> (Some e, snd (cleanup_routes run w2))
           | (None, _, w2) \<Rightarrow>
               (case first_error [st_log E, st_watch E] of
                  Some e \<Rightarrow> (Some e, snd (cleanup_routes run w2))
                | None \<Rightarrow> (None, w2))))"

definition start_routes :: "'k shell \<Rightarrow> route_env \<Rightarrow> 'k route_world \<Rightarrow> gerr option \<times> 'k route_world" where
  "start_routes run E w =
     (case cleanup_routes run w of (e, w1) \<Rightarrow>
      if e \<noteq> None \<and> e \<noteq> Some NotExist then (e, w1)
      else case start_plan E of
             Inl x \<Rightarrow> (Some x, w1)
           | Inr None \<Rightarrow> (None, w1)
           | Inr (Some (s, ops)) \<Rightarrow>
               (case check_free run (rw_kernel w1) of
                  (Some x, k) \<Rightarrow> (Some x, w1\<lparr>rw_kernel := k\<rparr>)
                | (None, k) \<Rightarrow> install_routes run E (s\<lparr>rs_boot := rw_boot w1\<rparr>) ops (w1\<lparr>rw_kernel := k\<rparr>)))"

section \<open>Stopping and watching\<close>

definition stop_routes :: "'k shell \<Rightarrow> 'k route_world \<Rightarrow> gerr option \<times> 'k route_world" where
  "stop_routes run w =
     (case cleanup_routes run w of (e, w1) \<Rightarrow> (if e = Some NotExist then None else e, w1))"

text \<open>One round of the watchdog: whether it is finished, the error, the world.\<close>

definition watch_turn :: "'k shell \<Rightarrow> int \<Rightarrow> string \<Rightarrow> string \<Rightarrow> 'k route_world \<Rightarrow> bool \<times> gerr option \<times> 'k route_world" where
  "watch_turn run pid identity seen w =
     (let s = read_routes w
      in if rs_pid s \<noteq> pid \<or> rs_identity s \<noteq> identity then (True, None, w)
         else if seen \<noteq> identity then (True, cleanup_routes run w)
         else (False, None, w))"

text \<open>
  The watchdog on a list of rounds: what the process identity reads as, and what others did to the world before.
  \<open>None\<close> while it still watches.
\<close>

fun watch_routes :: "'k shell \<Rightarrow> int \<Rightarrow> string \<Rightarrow> (string \<times> ('k route_world \<Rightarrow> 'k route_world)) list \<Rightarrow> 'k route_world
    \<Rightarrow> (gerr option \<times> 'k route_world) option" where
  "watch_routes run pid identity [] w = None"
| "watch_routes run pid identity ((seen, meanwhile) # rounds) w =
     (case watch_turn run pid identity seen (meanwhile w) of
        (finished, e, w1) \<Rightarrow> if finished \<or> e \<noteq> None then Some (e, w1) else watch_routes run pid identity rounds w1)"

section \<open>Reading the journal back\<close>

definition route_ints_ok :: "route_state \<Rightarrow> bool" where
  "route_ints_ok s \<longleftrightarrow> int64_range (rs_pid s) \<and> (\<forall>u \<in> set (items (rs_uids s)). int64_range u)"

definition route_names :: "string list" where
  "route_names = [''boot'', ''mode'', ''uids'', ''pid'', ''identity'', ''undo'']"

lemma route_names_lower: "list_all (\<lambda>n. to_lower n = n) route_names"
  by code_simp

lemma fold_eq_route_name: "a \<in> set route_names \<Longrightarrow> b \<in> set route_names \<Longrightarrow> fold_eq a b \<longleftrightarrow> a = b"
  using route_names_lower by (intro fold_eq_lower) (simp_all add: list_all_iff)

lemma len_undo_json:
  "len_nslice (len_slice len_string []) [] (slice_json (\<lambda>args. JArr (map JStr args)) s) old = (s, False)"
  by (intro len_nslice_json len_slice_map) simp

lemma len_uids_json: "\<forall>u \<in> set (items s). int64_range u \<Longrightarrow> len_nslice len_int 0 (slice_json JInt s) old = (s, False)"
  by (intro len_nslice_json) simp

lemma parse_route_text:
  assumes "route_ints_ok s"
  shows "parse_routes (route_text s) = s"
proof -
  have "printable (route_json s)" by (simp add: route_json_def omit_text_def list_all_iff)
  then have "unmarshal (len_struct route_field) (route_text s) zero_routes = len_struct route_field (route_json s) zero_routes"
    by (simp add: route_text_def unmarshal_text)
  also have "\<dots> = (s, False)"
    using assms
    by (simp add: len_struct_def route_json_def omit_text_def len_members_append route_field_def len_undo_json len_uids_json
        fold_eq_route_name [unfolded route_names_def] zero_routes_def route_ints_ok_def)
  finally show ?thesis by (simp add: parse_routes_def)
qed

section \<open>The uids of a start\<close>

lemma apps_list_uids:
  assumes "apps_list r = Inr apps" and "a \<in> set apps"
  shows "10000 \<le> ap_uid a \<and> ap_uid a < 100000"
proof -
  have ins: "set (insert_app x xs) = insert x (set xs)" for x xs
    by (induction xs) auto
  have "set (foldr insert_app xs []) = set xs" for xs
    by (induction xs) (simp_all add: ins)
  then obtain line where "app_line line = Some a"
    using assms by (auto simp: apps_list_def map_filter_def split: prod.splits option.splits)
  then show ?thesis by (auto simp: app_line_def split: list.splits option.splits if_splits)
qed

lemma select_uids_known:
  "select_uids known ps uids = Inr us \<Longrightarrow> distinct uids \<Longrightarrow> set uids \<subseteq> ran known \<Longrightarrow> distinct us \<and> set us \<subseteq> ran known"
  by (induction ps arbitrary: uids) (auto simp: ranI split: option.splits)

lemma chosen_uids_ok:
  assumes "chosen_uids c apps = Inr uids" and "\<forall>a \<in> set apps. 10000 \<le> ap_uid a \<and> ap_uid a < 100000"
  shows "distinct uids \<and> (\<forall>u \<in> set uids. 10000 \<le> u \<and> u < 100000)"
proof (cases "wc_route_mode c \<noteq> ''selected''")
  case False
  then obtain us where us: "select_uids (known_apps apps) (items (wc_app_packages c)) [] = Inr us" "uids = sort us"
    using assms(1) by (auto simp: chosen_uids_def split: sum.splits list.splits)
  then have "distinct us" "set us \<subseteq> ran (known_apps apps)" using select_uids_known by fastforce+
  moreover have "ran (known_apps apps) \<subseteq> ap_uid ` set apps"
    by (auto simp: known_apps_def ran_def dest!: map_of_SomeD)
  ultimately show ?thesis using us(2) assms(2) by fastforce
qed (use assms(1) in \<open>simp add: chosen_uids_def\<close>)

text \<open>What a plan starts from.\<close>

lemma start_plan_ok:
  assumes "start_plan E = Inr (Some (s, ops))" and "int64_range (st_pid E)"
  shows "\<exists>tun proxy bypass. ops = route_plan tun proxy bypass (rs_mode s) (items (rs_uids s)) \<and>
    distinct (items (rs_uids s)) \<and> (\<forall>u \<in> set (items (rs_uids s)). 10000 \<le> u \<and> u < 100000) \<and>
    rs_undo s = None \<and> rs_mode s \<in> {''selected'', ''all''} \<and> rs_pid s = st_pid E \<and>
    rs_identity s = st_identity E \<and> st_identity E \<noteq> [] \<and> route_ints_ok s"
proof -
  obtain c where c: "st_config E = (c, None)"
    using assms(1) by (auto simp: start_plan_def split: prod.splits option.splits)
  obtain proxy where proxy: "proxy_address c = Inr proxy"
    using assms(1) by (auto simp: start_plan_def c Let_def split: if_splits sum.splits)
  obtain apps where apps: "apps_list (st_apps E) = Inr apps"
    using assms(1) by (auto simp: start_plan_def c Let_def split: if_splits sum.splits)
  obtain uids where uids: "chosen_uids c apps = Inr uids"
    using assms(1) by (auto simp: start_plan_def c proxy apps Let_def split: if_splits sum.splits)
  have ok: "distinct uids \<and> (\<forall>u \<in> set uids. 10000 \<le> u \<and> u < 100000)"
    using chosen_uids_ok [OF uids] apps_list_uids [OF apps] by blast
  then have "\<forall>u \<in> set uids. int64_range u" by (auto simp: int64_range_def)
  moreover have "s = \<lparr>rs_boot = [], rs_mode = wc_route_mode c, rs_uids = Some uids, rs_pid = st_pid E,
      rs_identity = st_identity E, rs_undo = None\<rparr>"
    "ops = route_plan (if wc_tun_name c = [] then ''tun0'' else wc_tun_name c) proxy (items (wc_bypass_ips c)) (wc_route_mode c) uids"
    "wc_route_mode c \<in> {''selected'', ''all''}" "st_identity E \<noteq> []"
    using assms(1) by (auto simp: start_plan_def c proxy apps uids Let_def split: if_splits)
  ultimately show ?thesis using ok assms(2) by (auto simp: route_ints_ok_def)
qed

section \<open>What a plan captures\<close>

text \<open>The proxy address is printed in dotted form and its own network is bypassed first.\<close>

lemma mapped_text:
  assumes "to4 a = Some b"
  shows "\<exists>p q r s. ip_text (ip_bytes a) = join ''.'' (map (\<lambda>b :: u8. utoa (unat b)) [p, q, r, s])"
proof (cases a)
  case (Ip4 p q r s)
  then have "ip_text (ip_bytes a) = join ''.'' (map (\<lambda>b :: u8. utoa (unat b)) [p, q, r, s])" by (simp add: ip_text_def)
  then show ?thesis by blast
next
  case (Ip6 gs z)
  then have gs: "length gs = 8" "take 5 gs = replicate 5 0" "gs ! 5 = 0xFFFF" using assms by (auto split: if_splits)
  then obtain g h where "gs = [0, 0, 0, 0, 0, 0xFFFF, g, h]"
    by (auto simp: numeral_eq_Suc length_Suc_conv)
  let ?t = "[word_of_nat (unat g div 256), word_of_nat (unat g mod 256), word_of_nat (unat h div 256), word_of_nat (unat h mod 256)] :: u8 list"
  have "ip_bytes a = [0, 0, 0, 0, 0, 0, 0, 0, 0, 0, 0xFF, 0xFF] @ ?t"
    using \<open>gs = _\<close> Ip6 by simp
  moreover have "replicate 10 0 @ [0xFF, 0xFF] = [0, 0, 0, 0, 0, 0, 0, 0, 0, 0, 0xFF, 0xFF :: u8]" by code_simp
  ultimately have "ip_text (ip_bytes a) = join ''.'' (map (\<lambda>b :: u8. utoa (unat b)) ?t)"
    by (simp only: ip_text_def Let_def) simp
  then show ?thesis by blast
qed (use assms in simp)

lemma dotted_no_slash: "CHR ''/'' \<notin> set (join ''.'' (map (\<lambda>b :: u8. utoa (unat b)) bs))"
proof -
  have "CHR ''/'' \<notin> set (utoa n)" for n
    using utoa_all_digits [of n] by (auto simp: list_all_iff is_digit_def)
  then show ?thesis by (induction bs rule: induct_list012) auto
qed

lemma dotted_network:
  assumes "t = join ''.'' (map (\<lambda>b :: u8. utoa (unat b)) [p, q, r, s])"
  shows "ipv4_network (t @ ''/32'') = Some (t @ ''/32'')"
proof -
  have t: "CHR ''/'' \<notin> set t" unfolding assms by (rule dotted_no_slash)
  then have addr: "takeWhile (\<lambda>c. c \<noteq> CHR ''/'') (t @ ''/32'') = t" by (subst takeWhile_append2) auto
  have p: "parse_ip t = Some (Ip4 p q r s)" unfolding assms by (rule parse_ip_text4)
  have d: "digits_value 10 0 ''32'' = Some 32" "list_all is_digit ''32''" by code_simp+
  have "valid_cidr (t @ ''/32'')" using addr p d by (simp add: valid_cidr_def)
  moreover have "mask_bytes 32 [p, q, r, s] = [p, q, r, s]" by (simp add: mask_bytes_def numeral_eq_Suc)
  moreover have "utoa 32 = ''32''" by code_simp
  moreover have "ip_text [p, q, r, s] = t" by (simp add: ip_text_def assms)
  moreover have "drop (Suc (length t)) (t @ ''/32'') = ''32''" by simp
  ultimately show ?thesis using p d by (simp add: ipv4_network_def Let_def addr del: drop_append)
qed
fun captures :: "route_op \<Rightarrow> bool" where
  "captures (Do (AddJump tool owner)) = True"
| "captures (Do (AddRule r)) = True"
| "captures _ = False"

lemma bypass_no_capture: "\<forall>op \<in> set (bypass_ops seen cs). \<not> captures op"
  by (induction seen cs rule: bypass_ops.induct) (simp_all add: Let_def split: option.split)

lemma proxy_bypassed:
  assumes "proxy_address c = Inr proxy"
  shows "Do (AddRoute [''throw'', ip_text proxy @ ''/32'']) \<in> set (bypass_ops [] (fixed_bypass proxy @ bypass))"
proof -
  obtain a where a: "proxy = ip_bytes a" "to4 a \<noteq> None"
    using assms by (auto simp: proxy_address_def split: option.splits if_splits)
  then obtain b where "to4 a = Some b" by blast
  then obtain p q r s where t: "ip_text proxy = join ''.'' (map (\<lambda>b :: u8. utoa (unat b)) [p, q, r, s])"
    using mapped_text a(1) by blast
  have n: "ipv4_network (ip_text proxy @ ''/32'') = Some (ip_text proxy @ ''/32'')" by (rule dotted_network [OF t])
  have head: "fixed_bypass proxy @ bypass =
      (ip_text proxy @ ''/32'') # ''127.0.0.0/8'' # ''224.0.0.0/4'' # ''255.255.255.255/32'' # bypass"
    by (simp add: fixed_bypass_def)
  show ?thesis unfolding head by (subst bypass_ops.simps(2)) (simp add: n Let_def del: bypass_ops.simps)
qed

lemma select_uids_from:
  "select_uids known ps uids = Inr us \<Longrightarrow> u \<in> set us \<Longrightarrow> u \<in> set uids \<or> (\<exists>p \<in> set ps. known p = Some u)"
  by (induction ps arbitrary: uids) (force simp: append_once_def split: option.splits if_splits)+

end
