(* ===== verification/RouteSafety.thy ===== *)
theory RouteSafety
  imports Routes
begin

text \<open>
  What the journaled routing transaction promises. The kernel is a locale: a view of the module's own
  resources and the laws of the commands on them, any of which may fail or, having failed, may still
  have had its effect. The journal covers what is installed at every point, a clean-up that reports
  success leaves nothing, and one that meets no further failure succeeds.
\<close>

section \<open>Resources\<close>

datatype route_res =
    Chain string
  | Filled string
  | Routed "string list"
  | Jump string string
  | Ruled string

fun do_res :: "route_do \<Rightarrow> route_res" where
  "do_res (NewChain t) = Chain t"
| "do_res (ChainRule t args) = Filled t"
| "do_res (AddRoute s) = Routed s"
| "do_res (AddJump t own) = Jump t own"
| "do_res (AddRule r) = Ruled r"

fun undo_for :: "route_res \<Rightarrow> route_undo" where
  "undo_for (Chain t) = DropChain t"
| "undo_for (Filled t) = FlushChain t"
| "undo_for (Routed s) = DropRoute s"
| "undo_for (Jump t own) = DropJump t own"
| "undo_for (Ruled r) = DropRule r"

fun undo_res :: "route_undo \<Rightarrow> route_res" where
  "undo_res (DropChain t) = Chain t"
| "undo_res (FlushChain t) = Filled t"
| "undo_res (DropRoute s) = Routed s"
| "undo_res (DropJump t own) = Jump t own"
| "undo_res (DropRule r) = Ruled r"

fun is_fill :: "route_res \<Rightarrow> bool" where
  "is_fill (Filled t) = True"
| "is_fill _ = False"

text \<open>Removing: all rules of a chain at once, one copy of anything else.\<close>

definition undo_effect :: "route_undo \<Rightarrow> route_res multiset \<Rightarrow> route_res multiset" where
  "undo_effect u V =
     (if is_fill (undo_res u) then filter_mset (\<lambda>r. r \<noteq> undo_res u) V else V - {#undo_res u#})"

text \<open>A chain can be deleted when it is empty and nothing jumps to it.\<close>

definition can_undo :: "route_undo \<Rightarrow> route_res multiset \<Rightarrow> bool" where
  "can_undo u V \<longleftrightarrow>
     (case u of
        DropChain t \<Rightarrow> Chain t \<in># V \<and> Filled t \<notin># V \<and> (\<forall>own. Jump t own \<notin># V)
      | FlushChain t \<Rightarrow> Chain t \<in># V
      | _ \<Rightarrow> undo_res u \<in># V)"

definition undo_gone :: "route_undo \<Rightarrow> route_res multiset \<Rightarrow> bool" where
  "undo_gone u V \<longleftrightarrow> (case u of FlushChain t \<Rightarrow> Chain t \<notin># V | _ \<Rightarrow> undo_res u \<notin># V)"

lemma undo_for_res [simp]: "undo_for (undo_res u) = u" "undo_res (undo_for r) = r"
  by (cases u; simp) (cases r; simp)

lemma undo_for_inject [simp]: "undo_for r = undo_for r' \<longleftrightarrow> r = r'"
  by (metis undo_for_res(2))

lemma undo_effect_subset: "undo_effect u V \<subseteq># V"
  by (simp add: undo_effect_def)

lemma can_undo_not_gone: "can_undo u V \<Longrightarrow> \<not> undo_gone u V"
  by (cases u) (auto simp: can_undo_def undo_gone_def)

text \<open>The commands the laws are about: the two tools, and rules added to the module's own chain.\<close>

definition known_tool :: "string \<Rightarrow> bool" where
  "known_tool t \<longleftrightarrow> t = iptables \<or> t = ip6tables"

fun undo_known :: "route_undo \<Rightarrow> bool" where
  "undo_known (DropChain t) = known_tool t"
| "undo_known (FlushChain t) = known_tool t"
| "undo_known (DropJump t own) = known_tool t"
| "undo_known _ = True"

fun do_known :: "route_do \<Rightarrow> bool" where
  "do_known (NewChain t) = known_tool t"
| "do_known (ChainRule t args) =
     (known_tool t \<and> (case args of a # c # _ \<Rightarrow> (a = ''-A'' \<or> a = ''-I'') \<and> c = route_chain | _ \<Rightarrow> False))"
| "do_known (AddJump t own) = known_tool t"
| "do_known _ = True"

section \<open>A journal that covers a kernel\<close>

text \<open>A chain's deletion comes before, and is undone after, its flush and the jumps to it.\<close>

fun needs_chain :: "route_undo \<Rightarrow> string option" where
  "needs_chain (FlushChain t) = Some t"
| "needs_chain (DropJump t own) = Some t"
| "needs_chain _ = None"

fun ordered_undo :: "route_undo list \<Rightarrow> bool" where
  "ordered_undo [] = True"
| "ordered_undo (u # us) =
     (ordered_undo us \<and> u \<notin> set us \<and> undo_known u \<and>
      (case u of DropChain t \<Rightarrow> True | _ \<Rightarrow> (\<forall>t. needs_chain u = Some t \<longrightarrow> DropChain t \<in> set us)))"

text \<open>\<open>us\<close> is the journal, last entry first.\<close>

definition covers :: "route_undo list \<Rightarrow> route_res multiset \<Rightarrow> bool" where
  "covers us V \<longleftrightarrow>
     ordered_undo us \<and> (\<forall>r \<in># V. undo_for r \<in> set us) \<and> (\<forall>r. \<not> is_fill r \<longrightarrow> count V r \<le> 1)"

lemma covers_subset: "covers us V \<Longrightarrow> W \<subseteq># V \<Longrightarrow> covers us W"
  unfolding covers_def by (meson mset_subset_eqD mset_subset_eq_count order_trans)

lemma covers_Nil: "covers [] V \<longleftrightarrow> V = {#}"
  by (auto simp: covers_def)

lemma ordered_undo_chain:
  "ordered_undo us \<Longrightarrow> u \<in> set us \<Longrightarrow> needs_chain u = Some t \<Longrightarrow> DropChain t \<in> set us"
  by (induction us) (auto split: route_undo.splits)

lemma ordered_undo_known: "ordered_undo us \<Longrightarrow> u \<in> set us \<Longrightarrow> undo_known u"
  by (induction us) auto

text \<open>Under a covering journal the last entry is undone or there is nothing left to undo.\<close>

lemma covers_last:
  assumes "covers (u # us) V" and wf: "\<And>t own. Filled t \<in># V \<or> Jump t own \<in># V \<Longrightarrow> Chain t \<in># V"
  shows "can_undo u V \<or> undo_gone u V"
proof (cases u)
  case (DropChain t)
  have "v \<notin> set us" if "needs_chain v = Some t" for v
  proof
    assume "v \<in> set us"
    then have "DropChain t \<in> set us" using assms(1) that by (auto simp: covers_def intro: ordered_undo_chain)
    then show False using assms(1) DropChain by (simp add: covers_def)
  qed
  then have "FlushChain t \<notin> set us" "DropJump t own \<notin> set us" for own by simp_all
  then have "Filled t \<notin># V" "Jump t own \<notin># V" for own
    using assms(1) DropChain unfolding covers_def by (metis list.set_intros route_undo.distinct set_ConsD undo_for.simps(2,4))+
  then show ?thesis using DropChain by (auto simp: can_undo_def undo_gone_def)
next
  case (FlushChain t)
  then show ?thesis by (auto simp: can_undo_def undo_gone_def)
qed (auto simp: can_undo_def undo_gone_def)

lemma covers_tail:
  assumes "covers (u # us) V" and "undo_res u \<notin># W" and "W \<subseteq># V"
  shows "covers us W"
proof -
  have c: "covers (u # us) W" using assms(1,3) by (rule covers_subset)
  have "undo_for r \<in> set us" if "r \<in># W" for r
  proof -
    have "undo_for r \<noteq> u" using that assms(2) by (metis undo_for_res(2))
    then show ?thesis using c that by (auto simp: covers_def)
  qed
  then show ?thesis using c by (simp add: covers_def)
qed

lemma undo_effect_gone:
  assumes "covers (u # us) V"
  shows "undo_res u \<notin># undo_effect u V"
proof (cases "is_fill (undo_res u)")
  case False
  then have "count V (undo_res u) \<le> 1" using assms by (simp add: covers_def)
  then have "count (V - {#undo_res u#}) (undo_res u) = 0" by simp
  then show ?thesis using False by (simp add: undo_effect_def not_in_iff)
qed (simp add: undo_effect_def)

lemma undo_gone_res:
  assumes "undo_gone u V" and wf: "\<And>t own. Filled t \<in># V \<or> Jump t own \<in># V \<Longrightarrow> Chain t \<in># V"
  shows "undo_res u \<notin># V"
  using assms by (cases u) (auto simp: undo_gone_def)

text \<open>A new entry, and a new resource.\<close>

definition note_ok :: "route_undo list \<Rightarrow> route_undo \<Rightarrow> bool" where
  "note_ok us u \<longleftrightarrow> u \<notin> set us \<and> undo_known u \<and> (case needs_chain u of None \<Rightarrow> True | Some t \<Rightarrow> DropChain t \<in> set us)"

lemma covers_note: "covers us V \<Longrightarrow> note_ok us u \<Longrightarrow> covers (u # us) V"
  by (cases u) (auto simp: covers_def note_ok_def)

lemma covers_do:
  assumes "covers us V" and "undo_for r \<in> set us" and "is_fill r \<or> r \<notin># V"
  shows "covers us (add_mset r V)"
  using assms by (auto simp: covers_def not_in_iff)

section \<open>The steps of the code keep the order\<close>

text \<open>\<open>us\<close>: what is noted, last first; \<open>rs\<close>: what was installed.\<close>

fun ops_ok :: "route_undo list \<Rightarrow> route_res list \<Rightarrow> route_op list \<Rightarrow> bool" where
  "ops_ok us rs [] = True"
| "ops_ok us rs (Note u # ops) = (note_ok us u \<and> ops_ok (u # us) rs ops)"
| "ops_ok us rs (Do d # ops) =
     (do_known d \<and> undo_for (do_res d) \<in> set us \<and> (is_fill (do_res d) \<or> do_res d \<notin> set rs) \<and>
      ops_ok us (do_res d # rs) ops)"
| "ops_ok us rs (Refuse e # ops) = True"

fun noted :: "route_op list \<Rightarrow> route_undo list" where
  "noted [] = []"
| "noted (Note u # ops) = u # noted ops"
| "noted (_ # ops) = noted ops"

fun placed :: "route_op list \<Rightarrow> route_res list" where
  "placed [] = []"
| "placed (Do d # ops) = do_res d # placed ops"
| "placed (_ # ops) = placed ops"

lemma ops_ok_append:
  "ops_ok us rs as \<Longrightarrow> ops_ok (rev (noted as) @ us) (rev (placed as) @ rs) bs \<Longrightarrow> ops_ok us rs (as @ bs)"
  by (induction us rs as rule: ops_ok.induct) auto

lemma ops_ok_take: "ops_ok us rs ops \<Longrightarrow> ops_ok us rs (take n ops)"
proof (induction us rs ops arbitrary: n rule: ops_ok.induct)
  case (2 us rs u ops)
  then show ?case by (cases n) auto
next
  case (3 us rs d ops)
  then show ?case by (cases n) auto
next
  case (4 us rs e ops)
  then show ?case by (cases n) auto
qed simp

lemma noted_append [simp]: "noted (as @ bs) = noted as @ noted bs"
  by (induction as rule: noted.induct) auto

lemma installed_append [simp]: "placed (as @ bs) = placed as @ placed bs"
  by (induction as rule: placed.induct) auto

lemma tools_differ [simp]: "iptables \<noteq> ip6tables" "ip6tables \<noteq> iptables" "known_tool iptables" "known_tool ip6tables"
  by (simp_all add: iptables_def ip6tables_def known_tool_def)

lemma bypass_noted:
  "u \<in> set (noted (bypass_ops seen cs)) \<Longrightarrow> \<exists>n. u = DropRoute [''throw'', n] \<and> n \<notin> set seen"
  by (induction seen cs rule: bypass_ops.induct) (fastforce simp: Let_def split: option.splits if_splits)+

lemma bypass_installed:
  "r \<in> set (placed (bypass_ops seen cs)) \<Longrightarrow> r = Filled iptables \<or> (\<exists>n. r = Routed [''throw'', n] \<and> n \<notin> set seen)"
  by (induction seen cs rule: bypass_ops.induct) (fastforce simp: Let_def split: option.splits if_splits)+

lemma bypass_ok:
  "FlushChain iptables \<in> set us \<Longrightarrow> \<forall>n. DropRoute [''throw'', n] \<in> set us \<longrightarrow> n \<in> set seen \<Longrightarrow>
     \<forall>n. Routed [''throw'', n] \<in> set rs \<longrightarrow> n \<in> set seen \<Longrightarrow> ops_ok us rs (bypass_ops seen cs)"
proof (induction seen cs arbitrary: us rs rule: bypass_ops.induct)
  case (2 seen c cs)
  show ?case
  proof (cases "ipv4_network (if CHR ''/'' \<in> set c then c else c @ ''/32'')")
    case None
    then show ?thesis by (simp add: Let_def)
  next
    case (Some n)
    show ?thesis
    proof (cases "n \<in> set seen")
      case True
      have "ops_ok us rs (bypass_ops seen cs)" by (rule "2.IH"(1) [OF refl Some True]) (use "2.prems" in auto)
      then show ?thesis using Some True by (simp add: Let_def)
    next
      case False
      have "ops_ok (DropRoute [''throw'', n] # us) (Routed [''throw'', n] # Filled iptables # rs) (bypass_ops (n # seen) cs)"
        by (rule "2.IH"(2) [OF refl Some False]) (use "2.prems" in auto)
      then show ?thesis using Some False "2.prems" by (auto simp: Let_def note_ok_def)
    qed
  qed
qed simp

text \<open>The ranges of different uids, and their owner forms, differ.\<close>

definition owner_of :: "string \<Rightarrow> string" where
  "owner_of r = replace_char (CHR ''-'') '':'' r"

lemma middle_inject: "a @ c # a = b @ c # b \<Longrightarrow> a = b"
proof -
  assume eq: "a @ c # a = b @ c # b"
  then have "length (a @ c # a) = length (b @ c # b)" by simp
  then have "length a = length b" by simp
  then show "a = b" using eq by simp
qed

lemma range_ops_ok:
  assumes "DropChain iptables \<in> set us" "DropChain ip6tables \<in> set us"
    and "distinct (map owner_of ranges)"
    and "\<forall>r \<in> set ranges. DropRule r \<notin> set us \<and> Ruled r \<notin> set rs \<and>
      (\<forall>t. DropJump t (owner_of r) \<notin> set us \<and> Jump t (owner_of r) \<notin> set rs)"
  shows "ops_ok us rs (concat (map range_ops ranges))"
  using assms
proof (induction ranges arbitrary: us rs)
  case (Cons r ranges)
  let ?us = "rev (noted (range_ops r)) @ us" and ?rs = "rev (placed (range_ops r)) @ rs"
  have parts: "noted (range_ops r) = [DropJump iptables (owner_of r), DropJump ip6tables (owner_of r), DropRule r]"
    "placed (range_ops r) = [Jump iptables (owner_of r), Jump ip6tables (owner_of r), Ruled r]"
    by (simp_all add: range_ops_def owner_of_def Let_def)
  have first: "ops_ok us rs (range_ops r)"
    using Cons.prems by (simp add: range_ops_def Let_def note_ok_def owner_of_def)
  have apart: "owner_of x \<noteq> owner_of r" if "x \<in> set ranges" for x using Cons.prems(3) that by (metis distinct.simps(2) imageI list.set_map list.simps(9))
  have "ops_ok ?us ?rs (concat (map range_ops ranges))"
  proof (rule Cons.IH)
    show "\<forall>x \<in> set ranges. DropRule x \<notin> set ?us \<and> Ruled x \<notin> set ?rs \<and>
      (\<forall>t. DropJump t (owner_of x) \<notin> set ?us \<and> Jump t (owner_of x) \<notin> set ?rs)"
      using Cons.prems(4) apart unfolding parts by fastforce
  qed (use Cons.prems in auto)
  then show ?case using ops_ok_append [OF first] by simp
qed simp

lemma utoa_no_dash: "CHR ''-'' \<notin> set (utoa n)"
proof
  assume "CHR ''-'' \<in> set (utoa n)"
  then obtain d where "d < 10" "CHR ''-'' = digit_char d" using utoa_digits by blast
  then have "(of_char (CHR ''-'') :: nat) = 48 + d" by (simp add: of_char_digit_char)
  then show False by simp
qed

lemma owner_of_uid:
  assumes "0 \<le> u"
  shows "owner_of (itoa u @ ''-'' @ itoa u) = itoa u @ '':'' @ itoa u"
proof -
  have plain: "replace_char (CHR ''-'') '':'' s = s" if "CHR ''-'' \<notin> set s" for s
    using that by (induction s) (auto simp: replace_char_def)
  have app: "replace_char c r (s @ t) = replace_char c r s @ replace_char c r t" for c r s t
    by (simp add: replace_char_def)
  have "CHR ''-'' \<notin> set (itoa u)" using assms by (simp add: itoa_def utoa_no_dash)
  then show ?thesis unfolding owner_of_def app using plain by (simp add: replace_char_def)
qed

lemma uid_ranges_distinct:
  assumes "distinct uids" and "\<forall>u \<in> set uids. 0 \<le> u"
  shows "distinct (map owner_of (uid_ranges mode uids))"
proof (cases "mode = ''all''")
  case False
  have inj: "u = v" if "u \<in> set uids" "v \<in> set uids" "owner_of (itoa u @ ''-'' @ itoa u) = owner_of (itoa v @ ''-'' @ itoa v)" for u v
  proof -
    have "itoa u @ CHR '':'' # itoa u = itoa v @ CHR '':'' # itoa v"
      using that assms(2) owner_of_uid by simp
    then have "itoa u = itoa v" by (rule middle_inject)
    moreover have "0 \<le> u" "0 \<le> v" using assms(2) that by auto
    ultimately show ?thesis by (simp add: itoa_def eq_nat_nat_iff)
  qed
  then have "inj_on (\<lambda>u. owner_of (itoa u @ ''-'' @ itoa u)) (set uids)" by (intro inj_onI) auto
  then show ?thesis using False assms(1) by (simp add: uid_ranges_def distinct_map comp_def)
qed (simp add: uid_ranges_def)

lemma chain_ops_parts [simp]:
  "noted (chain_ops t) = [DropChain t, FlushChain t]"
  "placed (chain_ops t) = Chain t # (if t = iptables then [Filled t] else [Filled t, Filled t])"
  by (simp_all add: chain_ops_def)

lemma chain_ops_ok:
  "known_tool t \<Longrightarrow> DropChain t \<notin> set us \<Longrightarrow> FlushChain t \<notin> set us \<Longrightarrow> Chain t \<notin> set rs \<Longrightarrow> ops_ok us rs (chain_ops t)"
  by (simp add: chain_ops_def note_ok_def)

theorem route_plan_ok:
  assumes "distinct uids" and "\<forall>u \<in> set uids. 0 \<le> u"
  shows "ops_ok [] [] (route_plan tun proxy bypass mode uids)"
  unfolding route_plan_def
proof (intro ops_ok_append)
  let ?cs = "fixed_bypass proxy @ bypass"
  show "ops_ok [] [] (chain_ops iptables)" by (simp add: chain_ops_ok)
  show "ops_ok (rev (noted (chain_ops iptables)) @ []) (rev (placed (chain_ops iptables)) @ []) (chain_ops ip6tables)"
    by (simp add: chain_ops_ok)
  let ?us = "rev (noted (chain_ops ip6tables)) @ rev (noted (chain_ops iptables)) @ []"
    and ?rs = "rev (placed (chain_ops ip6tables)) @ rev (placed (chain_ops iptables)) @ []"
    and ?d = "[Note (DropRoute [''default'', ''dev'', tun]), Do (AddRoute [''default'', ''dev'', tun])]"
  show "ops_ok ?us ?rs ?d" by (simp add: note_ok_def)
  show "ops_ok (rev (noted ?d) @ ?us) (rev (placed ?d) @ ?rs) (bypass_ops [] ?cs)" by (rule bypass_ok) auto
  show "ops_ok (rev (noted (bypass_ops [] ?cs)) @ rev (noted ?d) @ ?us)
      (rev (placed (bypass_ops [] ?cs)) @ rev (placed ?d) @ ?rs) (concat (map range_ops (uid_ranges mode uids)))"
    by (rule range_ops_ok)
      (auto simp: uid_ranges_distinct [OF assms] dest!: bypass_noted bypass_installed)
qed

section \<open>The kernel\<close>

locale route_kernel =
  fixes run :: "'k shell" and view :: "'k \<Rightarrow> route_res multiset" and calm :: "'k \<Rightarrow> bool"
  assumes needs: "Filled t \<in># view k \<or> Jump t own \<in># view k \<Longrightarrow> Chain t \<in># view k"
    and do_law: "do_known d \<Longrightarrow> run (do_argv d) k = ((out, e), k') \<Longrightarrow>
      view k' = add_mset (do_res d) (view k) \<or> (e \<noteq> None \<and> view k' = view k)"
    and undo_law: "undo_known u \<Longrightarrow> run (undo_argv u) k = ((out, e), k') \<Longrightarrow>
      (can_undo u (view k) \<and> view k' = undo_effect u (view k)) \<or> (e \<noteq> None \<and> view k' = view k)"
    and absent_law: "undo_known u \<Longrightarrow> run (undo_argv u) k = ((out, Some x), k') \<Longrightarrow> already_absent out \<Longrightarrow>
      undo_gone u (view k)"
    and calm_law: "undo_known u \<Longrightarrow> run (undo_argv u) k = ((out, e), k') \<Longrightarrow> calm k \<Longrightarrow>
      calm k' \<and> (can_undo u (view k) \<longrightarrow> e = None) \<and> (undo_gone u (view k) \<longrightarrow> e \<noteq> None \<longrightarrow> already_absent out)"
    and query_law: "args = table_query \<or> args = chain_query iptables \<or> args = chain_query ip6tables \<Longrightarrow>
      run args k = (r, k') \<Longrightarrow> view k' = view k"
begin

lemma undo_argv_not_Nil [simp]: "undo_argv u \<noteq> []"
  by (cases u) auto

text \<open>Whatever a clean-up meets, the journal still covers what is left.\<close>

lemma undo_loop_covers:
  "covers us (view k) \<Longrightarrow> set vs \<subseteq> set us \<Longrightarrow> undo_loop run (map undo_argv vs) k = (r, k') \<Longrightarrow>
     covers us (view k') \<and> r \<noteq> None"
proof (induction vs arbitrary: k k' r)
  case (Cons v vs)
  obtain out e k1 where step: "run (undo_argv v) k = ((out, e), k1)" by (metis surj_pair)
  have known: "undo_known v" using Cons.prems ordered_undo_known by (auto simp: covers_def)
  have "view k1 \<subseteq># view k" using undo_law [OF known step] undo_effect_subset by auto
  then have "covers us (view k1)" using Cons.prems(1) covers_subset by blast
  moreover obtain r2 k2 where rest: "undo_loop run (map undo_argv vs) k1 = (r2, k2)" by (metis surj_pair)
  ultimately have "covers us (view k2)" "r2 \<noteq> None" using Cons.IH Cons.prems(2) by auto
  then show ?case using Cons.prems(3) step rest by (auto split: option.splits)
qed simp

lemma undo_loop_subset:
  "\<forall>v \<in> set vs. undo_known v \<Longrightarrow> undo_loop run (map undo_argv vs) k = (r, k') \<Longrightarrow> view k' \<subseteq># view k"
proof (induction vs arbitrary: k r)
  case (Cons v vs)
  obtain out e k1 where step: "run (undo_argv v) k = ((out, e), k1)" by (metis surj_pair)
  have "view k1 \<subseteq># view k" using undo_law [OF _ step] undo_effect_subset Cons.prems(1) by auto
  moreover obtain r2 k2 where rest: "undo_loop run (map undo_argv vs) k1 = (r2, k2)" by (metis surj_pair)
  moreover have "k2 = k'" using Cons.prems(2) step rest by (auto split: option.splits)
  ultimately show ?case using Cons.IH [of k1 r2] Cons.prems(1) by (meson list.set_intros(2) subset_mset.trans)
qed simp

text \<open>A clean-up without failures leaves nothing.\<close>

lemma undo_step_tail:
  assumes "covers (u # us) (view k)" and "run (undo_argv u) k = ((out, e), k')" and "e = None \<or> already_absent out"
  shows "covers us (view k')"
proof -
  have known: "undo_known u" using assms(1) by (simp add: covers_def)
  from undo_law [OF known assms(2)] show ?thesis
  proof
    assume "can_undo u (view k) \<and> view k' = undo_effect u (view k)"
    then show ?thesis using covers_tail [OF assms(1) undo_effect_gone [OF assms(1)] undo_effect_subset] by simp
  next
    assume same: "e \<noteq> None \<and> view k' = view k"
    then have "undo_gone u (view k)" using absent_law [OF known] assms(2,3) by blast
    then have "undo_res u \<notin># view k" using undo_gone_res needs by blast
    then show ?thesis using covers_tail [OF assms(1)] same by simp
  qed
qed

lemma undo_loop_clean:
  "covers us (view k) \<Longrightarrow> undo_loop run (map undo_argv us) k = (Some [], k') \<Longrightarrow> view k' = {#}"
proof (induction us arbitrary: k)
  case (Cons u us)
  obtain out e k1 where step: "run (undo_argv u) k = ((out, e), k1)" by (metis surj_pair)
  then have "undo_loop run (map undo_argv us) k1 = (Some [], k')" "e = None \<or> already_absent out"
    using Cons.prems(2) by (auto simp: undo_failure_Nil split: prod.splits option.splits)
  then show ?case using Cons.IH undo_step_tail [OF Cons.prems(1) step] by blast
qed (simp add: covers_Nil)

text \<open>On a calm kernel there are no failures.\<close>

lemma undo_loop_calm:
  "covers us (view k) \<Longrightarrow> calm k \<Longrightarrow> \<exists>k'. undo_loop run (map undo_argv us) k = (Some [], k')"
proof (induction us arbitrary: k)
  case (Cons u us)
  obtain out e k1 where step: "run (undo_argv u) k = ((out, e), k1)" by (metis surj_pair)
  have known: "undo_known u" using Cons.prems(1) by (simp add: covers_def)
  have "can_undo u (view k) \<or> undo_gone u (view k)" using covers_last [OF Cons.prems(1) needs] .
  then have ok: "calm k1" "e = None \<or> already_absent out" using calm_law [OF known step Cons.prems(2)] by auto
  then have "\<exists>k'. undo_loop run (map undo_argv us) k1 = (Some [], k')"
    using Cons.IH undo_step_tail [OF Cons.prems(1) step] by blast
  then show ?case using step ok(2) undo_failure_Nil [of "undo_argv u" out e] by auto
qed simp

end

section \<open>The journal file and the kernel\<close>

text \<open>
  The state is sound: without a file nothing is installed; a file of this boot covers what is; after a
  reboot nothing is. The disk never reports a file missing that is there.
\<close>

definition sound_file :: "route_res multiset \<Rightarrow> string \<Rightarrow> string option \<Rightarrow> bool" where
  "sound_file V boot file \<longleftrightarrow>
     (case file of
        None \<Rightarrow> V = {#}
      | Some b \<Rightarrow>
          (\<exists>s us. b = route_text s \<and> route_ints_ok s \<and> items (rs_undo s) = map undo_argv (rev us) \<and> rs_boot s \<noteq> [] \<and>
             (if rs_boot s = boot then covers us V else V = {#})))"

definition sound_disk :: "'k route_world \<Rightarrow> bool" where
  "sound_disk w \<longleftrightarrow> rw_readable w \<and> rw_boot w \<noteq> [] \<and> Some NotExist \<notin> set (rw_disk w)"

definition sound_routes :: "('k \<Rightarrow> route_res multiset) \<Rightarrow> 'k route_world \<Rightarrow> bool" where
  "sound_routes view w \<longleftrightarrow> sound_disk w \<and> sound_file (view (rw_kernel w)) (rw_boot w) (rw_file w)"

lemma disk_result_simps:
  assumes "disk_result w = (e, w')"
  shows "rw_kernel w' = rw_kernel w \<and> rw_file w' = rw_file w \<and> rw_boot w' = rw_boot w \<and>
    (sound_disk w \<longrightarrow> sound_disk w' \<and> e \<noteq> Some NotExist) \<and> (rw_disk w = [] \<longrightarrow> e = None \<and> w' = w)"
  using assms by (auto simp: disk_result_def sound_disk_def split: list.splits)

lemma remove_routes_simps:
  assumes "remove_routes w = (e, w')" and "sound_disk w"
  shows "rw_kernel w' = rw_kernel w \<and> rw_boot w' = rw_boot w \<and> sound_disk w' \<and>
    (rw_file w = None \<longrightarrow> e = Some NotExist \<and> w' = w) \<and>
    (rw_file w \<noteq> None \<longrightarrow> e \<noteq> Some NotExist \<and> (e = None \<longrightarrow> rw_file w' = None) \<and> (e \<noteq> None \<longrightarrow> rw_file w' = rw_file w) \<and>
      (rw_disk w = [] \<longrightarrow> e = None))"
proof (cases "rw_file w = None")
  case False
  obtain x w1 where d: "disk_result w = (x, w1)" by (metis surj_pair)
  show ?thesis
    using assms False disk_result_simps [OF d] by (auto simp: remove_routes_def d sound_disk_def split: option.splits)
qed (use assms in \<open>auto simp: remove_routes_def\<close>)

lemma write_routes_simps:
  assumes "write_routes s w = (e, w')" and "sound_disk w"
  shows "rw_kernel w' = rw_kernel w \<and> rw_boot w' = rw_boot w \<and> sound_disk w' \<and> e \<noteq> Some NotExist \<and>
    rw_file w' = (if e = None then Some (route_text s) else rw_file w) \<and> (rw_disk w = [] \<longrightarrow> e = None \<and> rw_disk w' = [])"
proof -
  obtain x w1 where d: "disk_result w = (x, w1)" by (metis surj_pair)
  show ?thesis
    using assms disk_result_simps [OF d] by (auto simp: write_routes_def d sound_disk_def split: option.splits)
qed

text \<open>What is read from a sound state.\<close>

lemma sound_read:
  assumes "sound_routes view w"
  obtains "rw_file w = None" "read_routes w = zero_routes" "view (rw_kernel w) = {#}"
  | us where "rw_file w = Some (route_text (read_routes w))" "route_ints_ok (read_routes w)"
      "items (rs_undo (read_routes w)) = map undo_argv (rev us)" "rs_boot (read_routes w) \<noteq> []"
      "if rs_boot (read_routes w) = rw_boot w then covers us (view (rw_kernel w)) else view (rw_kernel w) = {#}"
proof (cases "rw_file w")
  case (Some b)
  have "rw_readable w" using assms by (simp add: sound_routes_def sound_disk_def)
  then have "read_routes w = parse_routes b" by (simp add: read_routes_def Some)
  then show thesis
    using that(2) assms Some by (auto simp: sound_routes_def sound_file_def parse_route_text)
qed (use that(1) assms in \<open>simp add: sound_routes_def sound_file_def read_routes_def\<close>)

text \<open>The journal after notes.\<close>

fun journal_of :: "route_state \<Rightarrow> route_undo list \<Rightarrow> route_state" where
  "journal_of s [] = s"
| "journal_of s (u # us) = journal_of (note_undo (undo_argv u) s) us"

lemma journal_of_ints: "route_ints_ok (journal_of t us) = route_ints_ok t"
  by (induction us arbitrary: t) (simp_all add: note_undo_def route_ints_ok_def)

lemma journal_of_fields:
  "rs_boot (journal_of s us) = rs_boot s \<and> rs_mode (journal_of s us) = rs_mode s \<and> rs_uids (journal_of s us) = rs_uids s \<and>
   rs_pid (journal_of s us) = rs_pid s \<and> rs_identity (journal_of s us) = rs_identity s \<and>
   items (rs_undo (journal_of s us)) = items (rs_undo s) @ map undo_argv us"
  by (induction us arbitrary: s) (simp_all add: note_undo_def)

context route_kernel
begin

text \<open>A clean-up keeps the state sound; a success leaves nothing behind; without new failures it succeeds.\<close>

lemma cleanup_sound:
  assumes "sound_routes view w" and "cleanup_routes run w = (e, w')"
  shows "sound_routes view w' \<and> rw_boot w' = rw_boot w \<and> view (rw_kernel w') \<subseteq># view (rw_kernel w) \<and>
    (e = None \<or> e = Some NotExist \<longrightarrow> rw_file w' = None \<and> view (rw_kernel w') = {#}) \<and>
    (e \<noteq> None \<and> e \<noteq> Some NotExist \<longrightarrow> rw_file w' = rw_file w) \<and>
    (calm (rw_kernel w) \<and> rw_disk w = [] \<longrightarrow> e = None \<or> e = Some NotExist)"
  using assms(1)
proof (cases rule: sound_read)
  case 1
  then have "cleanup_routes run w = (Some NotExist, w)"
    by (simp add: cleanup_routes_def zero_routes_def remove_routes_def)
  then show ?thesis using assms 1 by simp
next
  case (2 us)
  let ?s = "read_routes w"
  have disk: "sound_disk w" using assms(1) by (simp add: sound_routes_def)
  have sound_none: "sound_file {#} b None" for b by (simp add: sound_file_def)
  show ?thesis
  proof (cases "rs_boot ?s \<noteq> [] \<and> rs_boot ?s \<noteq> rw_boot w")
    case True
    then have "remove_routes w = (e, w')" using assms(2) by (simp add: cleanup_routes_def)
    from remove_routes_simps [OF this disk] show ?thesis
      using assms(1) 2 True sound_none by (auto simp: sound_routes_def)
  next
    case False
    then have cov: "rs_boot ?s = rw_boot w" "covers us (view (rw_kernel w))" using 2 by auto
    obtain r k where loop: "undo_loop run (map undo_argv us) (rw_kernel w) = (r, k)" by (metis surj_pair)
    have left: "covers us (view k)" "r \<noteq> None" using undo_loop_covers [OF cov(2) order_refl loop] by auto
    then obtain fs where r: "r = Some fs" by auto
    have run_is: "cleanup_routes run w =
        (if fs \<noteq> [] then (Some (cleanup_error fs), w\<lparr>rw_kernel := k\<rparr>) else remove_routes (w\<lparr>rw_kernel := k\<rparr>))"
      using cov(1) 2(3) loop r by (simp add: cleanup_routes_def rev_map Let_def)
    have kept: "sound_file (view k) (rw_boot w) (rw_file w)"
      using 2 left(1) cov by (auto simp: sound_file_def)
    have "\<forall>v \<in> set us. undo_known v" using cov(2) by (auto simp: covers_def dest: ordered_undo_known)
    then have sub: "view k \<subseteq># view (rw_kernel w)" using undo_loop_subset loop by blast
    show ?thesis
    proof (cases "fs = []")
      case True
      have "view k = {#}" using undo_loop_clean [OF cov(2)] loop r True by simp
      moreover have "remove_routes (w\<lparr>rw_kernel := k\<rparr>) = (e, w')" using assms(2) run_is True by simp
      moreover have "sound_disk (w\<lparr>rw_kernel := k\<rparr>)" using disk by (simp add: sound_disk_def)
      ultimately show ?thesis
        using remove_routes_simps [of "w\<lparr>rw_kernel := k\<rparr>" e w'] 2(1) kept sound_none sub by (auto simp: sound_routes_def)
    next
      case False
      then have "e = Some (cleanup_error fs)" "w' = w\<lparr>rw_kernel := k\<rparr>" using assms(2) run_is by simp_all
      moreover have "\<not> calm (rw_kernel w)" using undo_loop_calm [OF cov(2)] loop r False by auto
      ultimately show ?thesis using kept disk sub by (auto simp: sound_routes_def sound_disk_def)
    qed
  qed
qed

text \<open>
  The steps keep the file covering the kernel; when they all work, exactly the planned resources were added
  and every undo command is in the file.
\<close>

lemma run_ops_sound:
  assumes "ops_ok us rs ops" and "covers us (view (rw_kernel w))" and "set_mset (view (rw_kernel w)) \<subseteq> set rs"
    and "sound_disk w" and "rw_file w = Some (route_text s)" and "route_ints_ok s" and "rs_boot s = rw_boot w"
    and "items (rs_undo s) = map undo_argv (rev us)" and "run_ops run ops s w = (e, s', w')"
  shows "sound_routes view w' \<and> rw_boot w' = rw_boot w \<and>
    (\<exists>j. rw_file w' = Some (route_text (journal_of s (take j (noted ops))))) \<and>
    view (rw_kernel w') \<subseteq># view (rw_kernel w) + mset (placed ops) \<and>
    (e = None \<longrightarrow> rw_file w' = Some (route_text s') \<and> s' = journal_of s (noted ops) \<and>
      view (rw_kernel w') = view (rw_kernel w) + mset (placed ops))"
  using assms
proof (induction ops arbitrary: us rs s w)
  case Nil
  moreover have "rs_boot s \<noteq> []" using Nil by (simp add: sound_disk_def)
  ultimately show ?case by (auto simp: sound_routes_def sound_file_def)
next
  case (Cons op ops)
  have boot: "rs_boot s \<noteq> []" using Cons.prems(4,7) by (simp add: sound_disk_def)
  have here: "sound_routes view w"
    using Cons.prems boot by (auto simp: sound_routes_def sound_file_def)
  have "rw_file w = Some (route_text (journal_of s (take 0 xs)))" for xs using Cons.prems(5) by simp
  then have start: "\<exists>j. rw_file w = Some (route_text (journal_of s (take j xs)))" for xs by blast
  show ?case
  proof (cases op)
    case (Note u)
    let ?s = "note_undo (undo_argv u) s"
    obtain x w1 where wr: "write_routes ?s w = (x, w1)" by (metis surj_pair)
    have w1: "rw_kernel w1 = rw_kernel w" "rw_boot w1 = rw_boot w" "sound_disk w1"
      "rw_file w1 = (if x = None then Some (route_text ?s) else rw_file w)"
      using write_routes_simps [OF wr Cons.prems(4)] by simp_all
    show ?thesis
    proof (cases x)
      case None
      have ok: "ops_ok (u # us) rs ops" "covers (u # us) (view (rw_kernel w1))"
        using Cons.prems(1) Note covers_note [OF Cons.prems(2)] w1(1) by simp_all
      have s1: "rw_file w1 = Some (route_text ?s)" "route_ints_ok ?s" "rs_boot ?s = rw_boot w1"
        "items (rs_undo ?s) = map undo_argv (rev (u # us))"
        using w1 None Cons.prems(6-8) by (simp_all add: note_undo_def route_ints_ok_def)
      have "run_ops run ops ?s w1 = (e, s', w')" using Cons.prems(9) wr None Note by (simp add: Let_def)
      moreover have "set_mset (view (rw_kernel w1)) \<subseteq> set rs" using Cons.prems(3) w1(1) by simp
      ultimately have ih: "sound_routes view w'" "rw_boot w' = rw_boot w1"
        "\<exists>j. rw_file w' = Some (route_text (journal_of ?s (take j (noted ops))))"
        "view (rw_kernel w') \<subseteq># view (rw_kernel w1) + mset (placed ops)"
        "e = None \<longrightarrow> rw_file w' = Some (route_text s') \<and> s' = journal_of ?s (noted ops) \<and>
          view (rw_kernel w') = view (rw_kernel w1) + mset (placed ops)"
        using Cons.IH [OF ok _ w1(3) s1] by simp_all
      obtain j where "rw_file w' = Some (route_text (journal_of ?s (take j (noted ops))))" using ih(3) by blast
      then have "rw_file w' = Some (route_text (journal_of s (take (Suc j) (noted (op # ops)))))" using Note by simp
      then have ex: "\<exists>j. rw_file w' = Some (route_text (journal_of s (take j (noted (op # ops)))))" by blast
      show ?thesis by (intro conjI ex) (use ih(1,2,4,5) w1(1,2) Note in simp_all)
    next
      case (Some y)
      then have "e = Some y" "w' = w1" using Cons.prems(9) wr Note by (simp_all add: Let_def)
      moreover have "rw_file w1 = rw_file w" using w1 Some by simp
      ultimately show ?thesis using here w1(1-3) start [of "noted (op # ops)"] by (simp add: sound_routes_def)
    qed
  next
    case (Do d)
    obtain out x k where st: "run (do_argv d) (rw_kernel w) = ((out, x), k)" by (metis surj_pair)
    have d: "do_known d" "undo_for (do_res d) \<in> set us" "is_fill (do_res d) \<or> do_res d \<notin># view (rw_kernel w)"
      "ops_ok us (do_res d # rs) ops"
      using Cons.prems(1,3) Do by auto
    have after: "covers us (view k)" "set_mset (view k) \<subseteq> set (do_res d # rs)"
      using do_law [OF d(1) st] covers_do [OF Cons.prems(2) d(2,3)] Cons.prems(2,3) by auto
    show ?thesis
    proof (cases x)
      case None
      let ?w = "w\<lparr>rw_kernel := k\<rparr>"
      have "view k = add_mset (do_res d) (view (rw_kernel w))" using do_law [OF d(1) st] None by simp
      moreover have "sound_disk ?w" using Cons.prems(4) by (simp add: sound_disk_def)
      moreover have "run_ops run ops s ?w = (e, s', w')" using Cons.prems(9) st None Do by simp
      ultimately show ?thesis
        using Cons.IH [OF d(4), of ?w s] after Cons.prems(5-8) Do by simp
    next
      case (Some y)
      then have "w' = w\<lparr>rw_kernel := k\<rparr>" "e = Some (Err (route_error (do_argv d) y out))"
        using Cons.prems(9) st Do by auto
      moreover have "view k \<subseteq># view (rw_kernel w) + mset (placed (op # ops))"
        using do_law [OF d(1) st] Do by (auto simp: subset_mset.add_increasing2)
      moreover have "sound_routes view (w\<lparr>rw_kernel := k\<rparr>)"
        using here after(1) Cons.prems(4-8) boot by (auto simp: sound_routes_def sound_disk_def sound_file_def)
      ultimately show ?thesis using start [of "noted (op # ops)"] by simp
    qed
  next
    case (Refuse y)
    then have "w' = w" "e = Some y" using Cons.prems(9) by auto
    then show ?thesis using here start [of "noted (op # ops)"] Refuse by simp
  qed
qed

end

section \<open>Every history\<close>

text \<open>Killed in the middle: of a clean-up after some undo commands, of a start after some of its steps.\<close>

definition killed_cleanup :: "'k shell \<Rightarrow> nat \<Rightarrow> 'k route_world \<Rightarrow> 'k route_world" where
  "killed_cleanup run n w =
     (let s = read_routes w
      in if rs_boot s \<noteq> [] \<and> rs_boot s \<noteq> rw_boot w then w
         else w\<lparr>rw_kernel := snd (undo_loop run (take n (rev (items (rs_undo s)))) (rw_kernel w))\<rparr>)"

definition killed_start :: "'k shell \<Rightarrow> route_env \<Rightarrow> nat \<Rightarrow> 'k route_world \<Rightarrow> 'k route_world" where
  "killed_start run E n w =
     (case cleanup_routes run w of (e, w1) \<Rightarrow>
      if e \<noteq> None \<and> e \<noteq> Some NotExist then w1
      else case start_plan E of
             Inr (Some (s, ops)) \<Rightarrow>
               (case check_free run (rw_kernel w1) of
                  (None, k) \<Rightarrow>
                    (case write_routes (s\<lparr>rs_boot := rw_boot w1\<rparr>) (w1\<lparr>rw_kernel := k\<rparr>) of
                       (None, w2) \<Rightarrow> (case run_ops run (take n ops) (s\<lparr>rs_boot := rw_boot w1\<rparr>) w2 of (_, _, w3) \<Rightarrow> w3)
                     | (Some _, w2) \<Rightarrow> w2)
                | (Some _, k) \<Rightarrow> w1\<lparr>rw_kernel := k\<rparr>)
           | _ \<Rightarrow> w1)"

text \<open>What can happen to the routing state; a reboot clears the kernel and gives a boot identifier never seen.\<close>

inductive routes_step :: "'k shell \<Rightarrow> ('k \<Rightarrow> route_res multiset) \<Rightarrow> 'k route_world \<Rightarrow> 'k route_world \<Rightarrow> bool" for run view where
  started: "int64_range (st_pid E) \<Longrightarrow> routes_step run view w (snd (start_routes run E w))"
| start_killed: "int64_range (st_pid E) \<Longrightarrow> routes_step run view w (killed_start run E n w)"
| stopped: "routes_step run view w (snd (stop_routes run w))"
| stop_killed: "routes_step run view w (killed_cleanup run n w)"
| watched: "routes_step run view w (snd (snd (watch_turn run pid identity seen w)))"
| rebooted: "view k = {#} \<Longrightarrow> boot \<noteq> [] \<Longrightarrow> boot \<noteq> rs_boot (read_routes w) \<Longrightarrow>
    routes_step run view w (w\<lparr>rw_kernel := k, rw_boot := boot\<rparr>)"

inductive routes_reach :: "'k shell \<Rightarrow> ('k \<Rightarrow> route_res multiset) \<Rightarrow> 'k route_world \<Rightarrow> 'k route_world \<Rightarrow> bool" for run view w0 where
  start: "routes_reach run view w0 w0"
| step: "routes_reach run view w0 w \<Longrightarrow> routes_step run view w w' \<Longrightarrow> routes_reach run view w0 w'"

text \<open>
  The specification of the two commands, on a ledger: the recorded state and the resources held. A success is
  exact; a failure leaves nothing, or the record as it was and no more than was held, or a record of the new
  start that has a prefix of its undo commands and no more than its resources.
\<close>

type_synonym ledger = "route_state option \<times> route_res multiset"

datatype route_request = Start route_env string | Stop

inductive ledger_step :: "route_request \<Rightarrow> gerr option \<Rightarrow> ledger \<Rightarrow> ledger \<Rightarrow> bool" where
  released: "ledger_step Stop None L (None, {#})"
| stop_kept: "W \<subseteq># V \<Longrightarrow> ledger_step Stop (Some e) (f, V) (f, W)"
| off: "start_plan E = Inr None \<Longrightarrow> ledger_step (Start E boot) None L (None, {#})"
| active: "start_plan E = Inr (Some (s, ops)) \<Longrightarrow>
    ledger_step (Start E boot) None L (Some (journal_of (s\<lparr>rs_boot := boot\<rparr>) (noted ops)), mset (placed ops))"
| failed: "ledger_step (Start E boot) (Some e) L (None, {#})"
| failed_kept: "W \<subseteq># V \<Longrightarrow> ledger_step (Start E boot) (Some e) (f, V) (f, W)"
| failed_left: "start_plan E = Inr (Some (s, ops)) \<Longrightarrow> W \<subseteq># mset (placed ops) \<Longrightarrow>
    ledger_step (Start E boot) (Some e) L (Some (journal_of (s\<lparr>rs_boot := boot\<rparr>) (take j (noted ops))), W)"

definition ledger_of :: "('k \<Rightarrow> route_res multiset) \<Rightarrow> 'k route_world \<Rightarrow> ledger" where
  "ledger_of view w = (map_option (\<lambda>_. read_routes w) (rw_file w), view (rw_kernel w))"

lemma read_routes_kernel [simp]: "read_routes (w\<lparr>rw_kernel := k\<rparr>) = read_routes w"
  by (simp add: read_routes_def split: option.split)

lemma sound_same_file:
  assumes "sound_disk w'" "rw_file w' = rw_file w" "sound_disk w"
  shows "read_routes w' = read_routes w"
  using assms by (simp add: read_routes_def sound_disk_def split: option.split)

context route_kernel
begin

lemma killed_cleanup_sound:
  assumes "sound_routes view w"
  shows "sound_routes view (killed_cleanup run n w)"
  using assms
proof (cases rule: sound_read)
  case 1
  then show ?thesis using assms by (simp add: killed_cleanup_def zero_routes_def)
next
  case (2 us)
  show ?thesis
  proof (cases "rs_boot (read_routes w) \<noteq> rw_boot w")
    case True
    then show ?thesis using assms 2(4,5) by (simp add: killed_cleanup_def Let_def)
  next
    case False
    then have cov: "covers us (view (rw_kernel w))" using 2 by simp
    obtain r k where loop: "undo_loop run (map undo_argv (take n us)) (rw_kernel w) = (r, k)" by (metis surj_pair)
    have "covers us (view k)" using undo_loop_covers [OF cov set_take_subset loop] by simp
    moreover have is_k: "killed_cleanup run n w = w\<lparr>rw_kernel := k\<rparr>"
      using False 2(3) loop by (simp add: killed_cleanup_def Let_def rev_map take_map)
    ultimately show ?thesis
      using assms 2 False by (auto simp: sound_routes_def sound_disk_def sound_file_def)
  qed
qed

lemma check_free_view: "check_free run k = (e, k') \<Longrightarrow> view k' = view k"
  unfolding check_free_def by (auto split: prod.splits if_splits dest!: query_law [rotated])

text \<open>Installing, from a state in which nothing is held.\<close>

lemma install_prefix:
  assumes "sound_disk w" and "rw_file w = None" and "view (rw_kernel w) = {#}"
    and "start_plan E = Inr (Some (s, ops))" and "int64_range (st_pid E)"
    and "write_routes (s\<lparr>rs_boot := rw_boot w\<rparr>) w = (None, w1)"
    and "run_ops run (take n ops) (s\<lparr>rs_boot := rw_boot w\<rparr>) w1 = (e, s', w')"
  shows "sound_routes view w' \<and> rw_file w' \<noteq> None \<and> rw_boot w' = rw_boot w \<and>
    (\<exists>j. rw_file w' = Some (route_text (journal_of (s\<lparr>rs_boot := rw_boot w\<rparr>) (take j (noted (take n ops)))))) \<and>
    view (rw_kernel w') \<subseteq># mset (placed (take n ops)) \<and>
    (e = None \<longrightarrow> rw_file w' = Some (route_text s') \<and> view (rw_kernel w') = mset (placed (take n ops)) \<and>
      s' = journal_of (s\<lparr>rs_boot := rw_boot w\<rparr>) (noted (take n ops)))"
proof -
  obtain tun proxy bypass where plan: "ops = route_plan tun proxy bypass (rs_mode s) (items (rs_uids s))"
    "distinct (items (rs_uids s))" "\<forall>u \<in> set (items (rs_uids s)). 10000 \<le> u \<and> u < 100000"
    "rs_undo s = None" "route_ints_ok s"
    using start_plan_ok [OF assms(4,5)] by blast
  have "\<forall>u \<in> set (items (rs_uids s)). 0 \<le> u" using plan(3) by auto
  then have ok: "ops_ok [] [] (take n ops)" using ops_ok_take [OF route_plan_ok [OF plan(2)]] plan(1) by simp
  note w1 = write_routes_simps [OF assms(6,1)]
  have file1: "rw_file w1 = Some (route_text (s\<lparr>rs_boot := rw_boot w\<rparr>))" using w1 by simp
  have disk1: "sound_disk w1" "rw_kernel w1 = rw_kernel w" "rw_boot w1 = rw_boot w" using w1 by simp_all
  have ints: "route_ints_ok (s\<lparr>rs_boot := rw_boot w\<rparr>)" using plan(5) by (simp add: route_ints_ok_def)
  have "covers [] (view (rw_kernel w1))" using disk1 assms(3) by (simp add: covers_Nil)
  then show ?thesis
    using run_ops_sound [OF ok _ _ disk1(1) file1 ints _ _ assms(7)] disk1 assms(3) plan(4) by auto
qed

text \<open>The state after the first part of a start: the clean-up, the plan and the queries succeeded.\<close>

lemma start_prepared:
  assumes "sound_routes view w" and "cleanup_routes run w = (e0, w1)" and "e0 = None \<or> e0 = Some NotExist"
    and "check_free run (rw_kernel w1) = (x, k)"
  shows "sound_disk (w1\<lparr>rw_kernel := k\<rparr>) \<and> rw_file w1 = None \<and> view k = {#} \<and> rw_boot w1 = rw_boot w \<and>
    ledger_of view (w1\<lparr>rw_kernel := k\<rparr>) = (None, {#})"
  using cleanup_sound [OF assms(1,2)] assms(3) check_free_view [OF assms(4)]
  by (auto simp: sound_routes_def sound_disk_def ledger_of_def)

lemma empty_sound:
  "sound_disk w \<Longrightarrow> rw_file w = None \<Longrightarrow> view (rw_kernel w) = {#} \<Longrightarrow>
     sound_routes view w \<and> ledger_of view w = (None, {#})"
  by (simp add: sound_routes_def sound_file_def ledger_of_def)

lemma killed_start_sound:
  assumes sound: "sound_routes view w" and pid: "int64_range (st_pid E)"
  shows "sound_routes view (killed_start run E n w)"
proof -
  obtain e0 w1 where clean: "cleanup_routes run w = (e0, w1)" by (metis surj_pair)
  note c = cleanup_sound [OF sound clean]
  show ?thesis
  proof (cases "(e0 = None \<or> e0 = Some NotExist) \<and> (\<exists>s ops. start_plan E = Inr (Some (s, ops)))")
    case True
    then obtain s ops where plan: "start_plan E = Inr (Some (s, ops))" by blast
    obtain x k where free: "check_free run (rw_kernel w1) = (x, k)" by (metis surj_pair)
    have e0: "e0 = None \<or> e0 = Some NotExist" using True by blast
    note w1k = start_prepared [OF sound clean e0 free]
    obtain y w2 where wr: "write_routes (s\<lparr>rs_boot := rw_boot w1\<rparr>) (w1\<lparr>rw_kernel := k\<rparr>) = (y, w2)" by (metis surj_pair)
    obtain e s' w3 where ops: "run_ops run (take n ops) (s\<lparr>rs_boot := rw_boot w1\<rparr>) w2 = (e, s', w3)" by (metis prod_cases3)
    have "killed_start run E n w = (if x \<noteq> None then w1\<lparr>rw_kernel := k\<rparr> else if y \<noteq> None then w2 else w3)"
      using e0 by (auto simp: killed_start_def clean plan free wr ops split: option.split)
    moreover have "sound_routes view (w1\<lparr>rw_kernel := k\<rparr>)" using w1k empty_sound by simp
    moreover have "sound_routes view w2" if "y \<noteq> None"
      using write_routes_simps [OF wr] w1k that empty_sound [of w2] by simp
    moreover have "sound_routes view w3" if "y = None"
      using install_prefix [of "w1\<lparr>rw_kernel := k\<rparr>" E s ops w2 n e s' w3] w1k plan pid wr that ops by simp
    ultimately show ?thesis by simp
  next
    case False
    then have "killed_start run E n w = w1"
      by (auto simp: killed_start_def clean split: sum.splits option.splits)
    then show ?thesis using c by simp
  qed
qed

text \<open>The end of a start, once it writes: success, or a failure with or without leftovers.\<close>

lemma install_ledger:
  assumes "sound_disk w" and "rw_file w = None" and "view (rw_kernel w) = {#}"
    and "start_plan E = Inr (Some (s, ops))" and "int64_range (st_pid E)"
    and "install_routes run E (s\<lparr>rs_boot := rw_boot w\<rparr>) ops w = (e, w')"
  shows "sound_routes view w' \<and> ledger_step (Start E (rw_boot w)) e L (ledger_of view w')"
proof -
  let ?s = "s\<lparr>rs_boot := rw_boot w\<rparr>"
  obtain x w1 where wr: "write_routes ?s w = (x, w1)" by (metis surj_pair)
  show ?thesis
  proof (cases x)
    case (Some y)
    then have "e = Some y" "w' = w1" using assms(6) by (simp_all add: install_routes_def wr)
    then show ?thesis using write_routes_simps [OF wr assms(1)] Some assms(2,3) empty_sound [of w1] ledger_step.failed by simp
  next
    case None
    obtain e1 s' w2 where ops: "run_ops run ops ?s w1 = (e1, s', w2)" by (metis prod_cases3)
    obtain j where ins: "sound_routes view w2"
        "rw_file w2 = Some (route_text (journal_of ?s (take j (noted ops))))" "view (rw_kernel w2) \<subseteq># mset (placed ops)"
        "rw_boot w2 = rw_boot w"
        "e1 = None \<longrightarrow> rw_file w2 = Some (route_text s') \<and> view (rw_kernel w2) = mset (placed ops) \<and>
           s' = journal_of ?s (noted ops)"
      using install_prefix [OF assms(1-5), of w1 "length ops" e1 s' w2] wr None ops by auto
    have ints: "route_ints_ok (journal_of ?s us)" for us
      using start_plan_ok [OF assms(4,5)] unfolding journal_of_ints by (auto simp: route_ints_ok_def)
    have readable: "rw_readable w2" using ins(1) by (simp add: sound_routes_def sound_disk_def)
    show ?thesis
    proof (cases "e1 = None \<and> first_error [st_log E, st_watch E] = None")
      case True
      then have w': "w' = w2" "e = None"
        using assms(6) by (simp_all add: install_routes_def wr None ops del: first_error.simps)
      have "rw_file w2 = Some (route_text (journal_of ?s (noted ops)))" using ins(5) True by simp
      then have "read_routes w2 = journal_of ?s (noted ops)" using readable ints by (simp add: read_routes_def parse_route_text)
      then show ?thesis
        using w' ins True ledger_step.active [OF assms(4)] by (auto simp: ledger_of_def)
    next
      case False
      obtain y w3 where c: "cleanup_routes run w2 = (y, w3)" by (metis surj_pair)
      have "w' = w3 \<and> e \<noteq> None"
        using assms(6) False
        by (cases e1; cases "first_error [st_log E, st_watch E]")
          (simp_all add: install_routes_def wr None ops c del: first_error.simps, auto)
      then obtain z where w': "w' = w3" "e = Some z" by auto
      note clean = cleanup_sound [OF ins(1) c]
      show ?thesis
      proof (cases "y = None \<or> y = Some NotExist")
        case True
        then show ?thesis using w' clean ledger_step.failed by (simp add: ledger_of_def)
      next
        case False
        have "rw_file w3 = Some (route_text (journal_of ?s (take j (noted ops))))" using False clean ins(2) by simp
        moreover have "rw_readable w3" using clean by (simp add: sound_routes_def sound_disk_def)
        ultimately have "ledger_of view w3 = (Some (journal_of ?s (take j (noted ops))), view (rw_kernel w3))"
          using ints by (simp add: ledger_of_def read_routes_def parse_route_text)
        moreover have "view (rw_kernel w3) \<subseteq># mset (placed ops)" using clean ins(3) subset_mset.trans by blast
        ultimately show ?thesis using w' clean ledger_step.failed_left [OF assms(4)] by simp
      qed
    qed
  qed
qed

lemma cleanup_ledger:
  assumes "sound_routes view w" and "cleanup_routes run w = (e, w')"
  shows "if e = None \<or> e = Some NotExist then ledger_of view w' = (None, {#})
    else fst (ledger_of view w') = fst (ledger_of view w) \<and> snd (ledger_of view w') \<subseteq># snd (ledger_of view w)"
  using cleanup_sound [OF assms] assms(1) sound_same_file [of w' w] by (auto simp: ledger_of_def sound_routes_def)

text \<open>The two commands implement the specification.\<close>

lemma start_ledger:
  assumes "sound_routes view w" and "int64_range (st_pid E)" and "start_routes run E w = (e, w')"
  shows "sound_routes view w' \<and> ledger_step (Start E (rw_boot w)) e (ledger_of view w) (ledger_of view w')"
proof -
  obtain e0 w1 where clean: "cleanup_routes run w = (e0, w1)" by (metis surj_pair)
  note c = cleanup_sound [OF assms(1) clean]
  show ?thesis
  proof (cases "e0 = None \<or> e0 = Some NotExist")
    case False
    then obtain z where "w' = w1" "e = Some z" using assms(3) by (auto simp: start_routes_def clean)
    then show ?thesis
      using c cleanup_ledger [OF assms(1) clean] False ledger_step.failed_kept [of "snd (ledger_of view w1)" "snd (ledger_of view w)" E "rw_boot w" z "fst (ledger_of view w)"]
      by (metis prod.collapse)
  next
    case True
    have empty: "ledger_of view w1 = (None, {#})" using cleanup_ledger [OF assms(1) clean] True by simp
    consider x where "start_plan E = Inl x" | "start_plan E = Inr None"
      | s ops where "start_plan E = Inr (Some (s, ops))" by (metis not_Some_eq surj_pair sum.exhaust)
    then show ?thesis
    proof cases
      case 1
      then have "e = Some x" "w' = w1" using assms(3) True by (auto simp: start_routes_def clean)
      then show ?thesis using c empty ledger_step.failed by simp
    next
      case 2
      then have "e = None" "w' = w1" using assms(3) True by (auto simp: start_routes_def clean)
      then show ?thesis using c empty ledger_step.off [OF 2] by simp
    next
      case (3 s ops)
      obtain x k where free: "check_free run (rw_kernel w1) = (x, k)" by (metis surj_pair)
      note w1k = start_prepared [OF assms(1) clean True free]
      show ?thesis
      proof (cases x)
        case (Some y)
        then have "e = Some y" "w' = w1\<lparr>rw_kernel := k\<rparr>" using assms(3) True by (auto simp: start_routes_def clean 3 free)
        then show ?thesis using w1k empty_sound ledger_step.failed by simp
      next
        case None
        then have "install_routes run E (s\<lparr>rs_boot := rw_boot w1\<rparr>) ops (w1\<lparr>rw_kernel := k\<rparr>) = (e, w')"
          using assms(3) True by (auto simp: start_routes_def clean 3 free)
        then show ?thesis using install_ledger [of "w1\<lparr>rw_kernel := k\<rparr>" E s ops e w'] w1k 3 assms(2) by simp
      qed
    qed
  qed
qed

lemma stop_ledger:
  assumes "sound_routes view w" and "stop_routes run w = (e, w')"
  shows "sound_routes view w' \<and> ledger_step Stop e (ledger_of view w) (ledger_of view w')"
proof -
  obtain e0 w1 where clean: "cleanup_routes run w = (e0, w1)" by (metis surj_pair)
  then have w': "w' = w1" "e = (if e0 = Some NotExist then None else e0)" using assms(2) by (simp_all add: stop_routes_def)
  show ?thesis
  proof (cases "e0 = None \<or> e0 = Some NotExist")
    case True
    then show ?thesis
      using w' cleanup_sound [OF assms(1) clean] cleanup_ledger [OF assms(1) clean] ledger_step.released [of "ledger_of view w"] by auto
  next
    case False
    then obtain z where z: "e0 = Some z" "z \<noteq> NotExist" by (cases e0) auto
    then show ?thesis
      using w' cleanup_sound [OF assms(1) clean] cleanup_ledger [OF assms(1) clean]
        ledger_step.stop_kept [of "snd (ledger_of view w1)" "snd (ledger_of view w)" z "fst (ledger_of view w)"]
      by (metis option.inject prod.collapse option.distinct(1))
  qed
qed

text \<open>Every step keeps the state sound.\<close>

lemma stop_is_cleanup: "snd (stop_routes run w) = snd (cleanup_routes run w)"
  by (simp add: stop_routes_def split: prod.split)

lemma watch_cases: "snd (snd (watch_turn run pid identity seen w)) = w \<or>
    snd (snd (watch_turn run pid identity seen w)) = snd (cleanup_routes run w)"
  by (simp add: watch_turn_def Let_def)

lemma routes_step_sound:
  assumes "routes_step run view w w'" and "sound_routes view w"
  shows "sound_routes view w'"
proof -
  have clean: "sound_routes view (snd (cleanup_routes run w))"
    using cleanup_sound [OF assms(2)] by (metis prod.collapse)
  from assms(1) show ?thesis
  proof cases
    case (started E)
    then show ?thesis using start_ledger [OF assms(2)] by (metis prod.collapse)
  next
    case (watched pid identity seen)
    then show ?thesis using watch_cases [of pid identity seen w] clean assms(2) by auto
  next
    case (rebooted k boot)
    show ?thesis
      using assms(2)
    proof (cases rule: sound_read)
      case 1
      then show ?thesis using rebooted assms(2) by (simp add: sound_routes_def sound_disk_def sound_file_def)
    next
      case (2 us)
      then show ?thesis using rebooted assms(2) by (auto simp: sound_routes_def sound_disk_def sound_file_def)
    qed
  qed (use killed_start_sound [OF assms(2)] killed_cleanup_sound [OF assms(2)] clean stop_is_cleanup in auto)
qed

lemma routes_reach_sound: "routes_reach run view w0 w \<Longrightarrow> sound_routes view w0 \<Longrightarrow> sound_routes view w"
  by (induction rule: routes_reach.induct) (auto intro: routes_step_sound)

text \<open>From any of them, a stop that meets no failure leaves nothing.\<close>

lemma reach_stop_clean:
  assumes "routes_reach run view w0 w" and "sound_routes view w0" and "calm (rw_kernel w)" and "rw_disk w = []"
  shows "\<exists>w'. stop_routes run w = (None, w') \<and> view (rw_kernel w') = {#} \<and> rw_file w' = None"
proof -
  obtain e w' where c: "cleanup_routes run w = (e, w')" by (metis surj_pair)
  show ?thesis using cleanup_sound [OF routes_reach_sound [OF assms(1,2)] c] assms(3,4)
    by (auto simp: stop_routes_def c)
qed

end

end
