(* ===== verification/RouteNet.thy ===== *)
theory RouteNet
  imports RouteSafety
begin

text \<open>
  A network stack that reads the command lines of \<open>Routes\<close>: the module's resources as a list and a
  script of how the coming commands end. It satisfies the laws of \<open>RouteSafety\<close>.
\<close>

section \<open>Reading the command lines\<close>

definition read_undo :: "argv \<Rightarrow> route_undo option" where
  "read_undo args =
     (case args of
        a # b # c # rest \<Rightarrow>
          if a = ''ip'' then
            (if b = ''route'' \<and> c = ''del'' then Some (DropRoute (take (length rest - 2) rest))
             else if b = ''rule'' \<and> c = ''del'' then
               (case rest of [_, _, _, r, _, _] \<Rightarrow> Some (DropRule r) | _ \<Rightarrow> None)
             else None)
          else
            (case rest of
               [x, _] \<Rightarrow> if x = ''-X'' then Some (DropChain a) else if x = ''-F'' then Some (FlushChain a) else None
             | x # _ # _ # _ # _ # own # _ \<Rightarrow> if x = ''-D'' then Some (DropJump a own) else None
             | _ \<Rightarrow> None)
      | _ \<Rightarrow> None)"

definition read_do :: "argv \<Rightarrow> route_do option" where
  "read_do args =
     (case args of
        a # b # c # rest \<Rightarrow>
          if a = ''ip'' then
            (if b = ''route'' \<and> c = ''add'' then Some (AddRoute (take (length rest - 2) rest))
             else if b = ''rule'' \<and> c = ''add'' then
               (case rest of [_, _, _, r, _, _] \<Rightarrow> Some (AddRule r) | _ \<Rightarrow> None)
             else None)
          else
            (case rest of
               x # y # tail \<Rightarrow>
                 if x = ''-N'' then Some (NewChain a)
                 else if x = ''-I'' \<and> y = ''OUTPUT'' then
                   (case tail of _ # _ # _ # _ # own # _ \<Rightarrow> Some (AddJump a own) | _ \<Rightarrow> None)
                 else if (x = ''-A'' \<or> x = ''-I'') \<and> y = route_chain then Some (ChainRule a rest)
                 else None
             | _ \<Rightarrow> None)
      | _ \<Rightarrow> None)"

lemma known_tool_not_ip [simp]: "known_tool t \<Longrightarrow> t \<noteq> ''ip''"
  by (auto simp: known_tool_def iptables_def ip6tables_def)

lemma chain_not_output: "route_chain \<noteq> ''OUTPUT''" "''OUTPUT'' \<noteq> route_chain"
  by (simp_all add: route_chain_def)

lemma read_undo_argv: "undo_known u \<Longrightarrow> read_undo (undo_argv u) = Some u"
  by (cases u) (auto simp: read_undo_def)

lemma read_do_argv: "do_known d \<Longrightarrow> read_do (do_argv d) = Some d"
  by (cases d) (auto simp: read_do_def chain_not_output split: list.splits)

lemma read_undo_do: "do_known d \<Longrightarrow> read_undo (do_argv d) = None"
  by (cases d) (auto simp: read_undo_def split: list.splits)

section \<open>The stack\<close>

datatype answer = Obeys | Denies | Dies

type_synonym route_net = "route_res list \<times> answer list"

fun on_chain :: "string \<Rightarrow> route_res \<Rightarrow> bool" where
  "on_chain t (Filled u) = (u = t)"
| "on_chain t (Jump u own) = (u = t)"
| "on_chain t _ = False"

text \<open>Rules and jumps stand on chains that exist; a state that is not of this form holds nothing.\<close>

definition net_ok :: "route_res list \<Rightarrow> bool" where
  "net_ok V \<longleftrightarrow>
     list_all (\<lambda>r. case r of Filled t \<Rightarrow> Chain t \<in> set V | Jump t own \<Rightarrow> Chain t \<in> set V | _ \<Rightarrow> True) V"

definition net_view :: "route_net \<Rightarrow> route_res multiset" where
  "net_view k = (if net_ok (fst k) then mset (fst k) else {#})"

definition net_calm :: "route_net \<Rightarrow> bool" where
  "net_calm k \<longleftrightarrow> snd k = []"

definition net_refusal :: "string \<Rightarrow> string \<times> string option" where
  "net_refusal out = (out, Some ''exit status 1'')"

text \<open>A command that would change the resources to \<open>V'\<close>; a script entry may stop it before or after.\<close>

definition net_change :: "route_res list \<Rightarrow> route_net \<Rightarrow> (string \<times> string option) \<times> route_net" where
  "net_change V' k =
     (case snd k of
        [] \<Rightarrow> (([], None), (V', []))
      | Obeys # fs \<Rightarrow> (([], None), (V', fs))
      | Denies # fs \<Rightarrow> (net_refusal ''Resource busy'', (fst k, fs))
      | Dies # fs \<Rightarrow> (net_refusal ''Resource busy'', (V', fs)))"

definition net_do :: "route_do \<Rightarrow> route_net \<Rightarrow> (string \<times> string option) \<times> route_net" where
  "net_do d k =
     (let V = fst k; refuse = (net_refusal ''refused'', k); accept = net_change (do_res d # V) k
      in case d of
           ChainRule t args \<Rightarrow> if Chain t \<in> set V then accept else refuse
         | AddJump t own \<Rightarrow> if Chain t \<in> set V then accept else refuse
         | _ \<Rightarrow> if do_res d \<in> set V then refuse else accept)"

definition net_undo :: "route_undo \<Rightarrow> route_net \<Rightarrow> (string \<times> string option) \<times> route_net" where
  "net_undo u k =
     (let V = fst k; absent = (net_refusal ''No such file or directory'', k)
      in case u of
           DropChain t \<Rightarrow>
             if Chain t \<notin> set V then absent
             else if list_ex (on_chain t) V then (net_refusal ''Too many links'', k)
             else net_change (remove1 (Chain t) V) k
         | FlushChain t \<Rightarrow> if Chain t \<notin> set V then absent else net_change (filter (\<lambda>r. r \<noteq> Filled t) V) k
         | _ \<Rightarrow> if undo_res u \<notin> set V then absent else net_change (remove1 (undo_res u) V) k)"

definition net_run :: "route_net shell" where
  "net_run args k =
     (if \<not> net_ok (fst k) then (net_refusal ''No such file or directory'', k)
      else if args = table_query then
        ((if list_ex (\<lambda>r. case r of Routed s \<Rightarrow> True | _ \<Rightarrow> False) (fst k) then ''default'' else [], None), k)
      else if args = chain_query iptables then
        (if Chain iptables \<in> set (fst k) then ([], None) else net_refusal ''No chain/target/match'', k)
      else if args = chain_query ip6tables then
        (if Chain ip6tables \<in> set (fst k) then ([], None) else net_refusal ''No chain/target/match'', k)
      else case (read_undo args, read_do args) of
             (Some u, _) \<Rightarrow> net_undo u k
           | (None, Some d) \<Rightarrow> net_do d k
           | (None, None) \<Rightarrow> (net_refusal ''usage'', k))"

section \<open>It satisfies the laws\<close>

lemma absent_texts: "already_absent ''No such file or directory''" "\<not> already_absent ''Resource busy''"
  "\<not> already_absent ''Too many links''" "\<not> already_absent ''refused''"
  by code_simp+

lemma query_not_undo: "undo_argv u \<noteq> table_query" "undo_argv u \<noteq> chain_query t"
  by (cases u; simp add: table_query_def chain_query_def)+

lemma query_not_do: "do_known d \<Longrightarrow> do_argv d \<noteq> table_query" "do_known d \<Longrightarrow> do_argv d \<noteq> chain_query t"
  by (cases d; auto simp: table_query_def chain_query_def split: list.splits)+

lemmas query_argv = query_not_undo query_not_do

lemma net_ok_on_chain: "net_ok V \<Longrightarrow> r \<in> set V \<Longrightarrow> on_chain t r \<Longrightarrow> Chain t \<in> set V"
  by (cases r) (auto simp: net_ok_def list_all_iff)

lemma net_ok_iff: "net_ok V \<longleftrightarrow> (\<forall>t r. r \<in> set V \<and> on_chain t r \<longrightarrow> Chain t \<in> set V)"
proof
  assume "\<forall>t r. r \<in> set V \<and> on_chain t r \<longrightarrow> Chain t \<in> set V"
  then show "net_ok V" by (fastforce simp: net_ok_def list_all_iff split: route_res.splits)
qed (use net_ok_on_chain in blast)

lemma net_run_undo: "undo_known u \<Longrightarrow> net_run (undo_argv u) k =
    (if net_ok (fst k) then net_undo u k else (net_refusal ''No such file or directory'', k))"
  by (simp add: net_run_def query_argv read_undo_argv)

lemma net_run_do: "do_known d \<Longrightarrow> net_run (do_argv d) k =
    (if net_ok (fst k) then net_do d k else (net_refusal ''No such file or directory'', k))"
  by (simp add: net_run_def query_argv read_undo_do read_do_argv)

lemma net_change_cases:
  assumes "net_change V' k = ((out, e), k')"
  shows "(fst k' = V' \<or> (e \<noteq> None \<and> fst k' = fst k)) \<and> (e \<noteq> None \<longrightarrow> out = ''Resource busy'') \<and>
    (snd k = [] \<longrightarrow> e = None \<and> snd k' = [])"
  using assms by (auto simp: net_change_def net_refusal_def split: list.splits answer.splits)

lemma net_do_law:
  assumes "net_ok V" and "net_do d (V, fs) = ((out, e), k')"
  shows "net_view k' = add_mset (do_res d) (mset V) \<or> (e \<noteq> None \<and> net_view k' = mset V)"
proof -
  have ok: "net_ok (do_res d # V)"
    if "case d of ChainRule t args \<Rightarrow> Chain t \<in> set V | AddJump t own \<Rightarrow> Chain t \<in> set V | _ \<Rightarrow> True"
    using assms(1) that by (cases d) (auto simp: net_ok_iff)
  show ?thesis
  proof (cases "net_do d (V, fs) = (net_refusal ''refused'', (V, fs))")
    case True
    then show ?thesis using assms by (auto simp: net_refusal_def net_view_def)
  next
    case False
    then have "net_change (do_res d # V) (V, fs) = ((out, e), k')" "net_ok (do_res d # V)"
      using assms(2) ok by (cases d; force simp: net_do_def Let_def split: if_splits)+
    then show ?thesis using net_change_cases [of "do_res d # V" "(V, fs)" out e k'] assms(1) by (auto simp: net_view_def)
  qed
qed

lemma on_chain_free: "\<not> list_ex (on_chain t) V \<longleftrightarrow> Filled t \<notin> set V \<and> (\<forall>own. Jump t own \<notin> set V)"
proof
  assume a: "Filled t \<notin> set V \<and> (\<forall>own. Jump t own \<notin> set V)"
  have "\<not> on_chain t r" if "r \<in> set V" for r using a that by (cases r) auto
  then show "\<not> list_ex (on_chain t) V" by (auto simp: list_ex_iff)
qed (auto simp: list_ex_iff)

text \<open>An undo command: refused as absent, refused as in use, or a change.\<close>

definition undo_list :: "route_undo \<Rightarrow> route_res list \<Rightarrow> route_res list" where
  "undo_list u V = (if is_fill (undo_res u) then filter (\<lambda>r. r \<noteq> undo_res u) V else remove1 (undo_res u) V)"

lemma net_undo_cases:
  "(undo_gone u (mset (fst k)) \<and> net_undo u k = (net_refusal ''No such file or directory'', k)) \<or>
   (\<not> undo_gone u (mset (fst k)) \<and> \<not> can_undo u (mset (fst k)) \<and> net_undo u k = (net_refusal ''Too many links'', k)) \<or>
   (can_undo u (mset (fst k)) \<and> net_undo u k = net_change (undo_list u (fst k)) k)"
  using on_chain_free [of _ "fst k"]
  by (cases u) (auto simp: net_undo_def undo_gone_def can_undo_def undo_list_def Let_def)

lemma mset_undo_list: "mset (undo_list u V) = undo_effect u (mset V)"
  by (simp add: undo_list_def undo_effect_def mset_filter)

lemma undo_list_ok: "net_ok V \<Longrightarrow> can_undo u (mset V) \<Longrightarrow> net_ok (undo_list u V)"
proof -
  assume ok: "net_ok V" and can: "can_undo u (mset V)"
  have keep: "Chain t \<in> set (undo_list u V)" if "r \<in> set (undo_list u V)" "on_chain t r" for t r
  proof -
    have "r \<in> set V" using that(1) by (auto simp: undo_list_def split: if_splits dest: notin_set_remove1 in_set_remove1 [THEN iffD1, rotated])
    then have "Chain t \<in> set V" using ok that(2) by (auto simp: net_ok_iff)
    moreover have "Chain t \<noteq> undo_res u"
    proof
      assume "Chain t = undo_res u"
      then have "u = DropChain t" by (cases u) auto
      then have "\<not> list_ex (on_chain t) V" using can by (simp add: can_undo_def on_chain_free)
      then show False using \<open>r \<in> set V\<close> that(2) by (auto simp: list_ex_iff)
    qed
    ultimately show ?thesis by (auto simp: undo_list_def)
  qed
  then show ?thesis by (auto simp: net_ok_iff)
qed

lemma net_undo_law:
  assumes ok: "net_ok V" and step: "net_undo u (V, fs) = ((out, e), k')"
  shows "((can_undo u (mset V) \<and> net_view k' = undo_effect u (mset V)) \<or> (e \<noteq> None \<and> net_view k' = mset V)) \<and>
    (e \<noteq> None \<and> already_absent out \<longrightarrow> undo_gone u (mset V)) \<and>
    (fs = [] \<longrightarrow> snd k' = [] \<and> (can_undo u (mset V) \<longrightarrow> e = None) \<and>
       (undo_gone u (mset V) \<longrightarrow> e \<noteq> None \<longrightarrow> already_absent out))"
  using net_undo_cases [of u "(V, fs)"]
proof (elim disjE conjE)
  assume "undo_gone u (mset (fst (V, fs)))" "net_undo u (V, fs) = (net_refusal ''No such file or directory'', (V, fs))"
  then show ?thesis
    using step ok can_undo_not_gone by (auto simp: net_refusal_def net_view_def absent_texts)
next
  assume "\<not> undo_gone u (mset (fst (V, fs)))" "\<not> can_undo u (mset (fst (V, fs)))"
    "net_undo u (V, fs) = (net_refusal ''Too many links'', (V, fs))"
  then show ?thesis using step ok by (auto simp: net_refusal_def net_view_def absent_texts)
next
  assume can: "can_undo u (mset (fst (V, fs)))" and "net_undo u (V, fs) = net_change (undo_list u (fst (V, fs))) (V, fs)"
  then have "net_change (undo_list u V) (V, fs) = ((out, e), k')" using step by simp
  from net_change_cases [OF this] show ?thesis
    using can ok undo_list_ok [OF ok] can_undo_not_gone [of u "mset V"]
    by (auto simp: net_view_def mset_undo_list absent_texts)
qed

lemma undo_gone_empty: "undo_gone u {#}" "\<not> can_undo u {#}"
  by (cases u; simp add: undo_gone_def can_undo_def)+

interpretation net: route_kernel net_run net_view net_calm
proof
  fix t k own
  show "Filled t \<in># net_view k \<or> Jump t own \<in># net_view k \<Longrightarrow> Chain t \<in># net_view k"
    using net_ok_on_chain [of "fst k"] by (auto simp: net_view_def split: if_splits)
next
  fix d k out e k'
  assume "do_known d" "net_run (do_argv d) k = ((out, e), k')"
  then show "net_view k' = add_mset (do_res d) (net_view k) \<or> (e \<noteq> None \<and> net_view k' = net_view k)"
    using net_do_law [of "fst k" d "snd k" out e k']
    by (cases "net_ok (fst k)") (auto simp: net_run_do net_refusal_def net_view_def)
next
  fix u k out e k'
  assume "undo_known u" "net_run (undo_argv u) k = ((out, e), k')"
  then show "can_undo u (net_view k) \<and> net_view k' = undo_effect u (net_view k) \<or> e \<noteq> None \<and> net_view k' = net_view k"
    using net_undo_law [of "fst k" u "snd k" out e k']
    by (cases "net_ok (fst k)") (auto simp: net_run_undo net_refusal_def net_view_def)
next
  fix u k out x k'
  assume "undo_known u" "net_run (undo_argv u) k = ((out, Some x), k')" "already_absent out"
  then show "undo_gone u (net_view k)"
    using net_undo_law [of "fst k" u "snd k" out "Some x" k']
    by (cases "net_ok (fst k)") (auto simp: net_run_undo net_refusal_def net_view_def undo_gone_empty)
next
  fix u k out e k'
  assume "undo_known u" "net_run (undo_argv u) k = ((out, e), k')" "net_calm k"
  then show "net_calm k' \<and> (can_undo u (net_view k) \<longrightarrow> e = None) \<and>
      (undo_gone u (net_view k) \<longrightarrow> e \<noteq> None \<longrightarrow> already_absent out)"
    using net_undo_law [of "fst k" u "snd k" out e k']
    by (cases k; cases "net_ok (fst k)") (auto simp: net_run_undo net_refusal_def net_view_def net_calm_def undo_gone_empty absent_texts)
next
  fix args k r k'
  assume "args = table_query \<or> args = chain_query iptables \<or> args = chain_query ip6tables" "net_run args k = (r, k')"
  then show "net_view k' = net_view k" by (auto simp: net_run_def split: if_splits)
qed

end
