(* ===== verification/Backend.thy ===== *)
theory Backend
  imports Routes Config
begin

text \<open>
  The choice between the two proxy back ends: \<open>cmd/tun2proxy-web/backend.go\<close>. The panel writes the daemon's
  configuration from its own, runs the daemon's commands and the control script, and starts one of the two.
\<close>

section \<open>Paths\<close>

text \<open>The directories are clean absolute paths, so that joining is appending.\<close>

record panel_paths =
  pp_module :: string
  pp_run :: string

definition ebpf_binary :: "panel_paths \<Rightarrow> string" where
  "ebpf_binary P = pp_module P @ ''/system/bin/ebpf-proxy''"

definition ebpf_runtime :: "panel_paths \<Rightarrow> string" where
  "ebpf_runtime P = pp_run P @ ''/ebpf''"

definition bpf_object :: "panel_paths \<Rightarrow> string" where
  "bpf_object P = pp_module P @ ''/system/bpf/redirect.bpf.o''"

section \<open>The daemon's configuration\<close>

text \<open>The uids of the selected packages, each once.\<close>

fun pick_uids :: "(string \<rightharpoonup> int) \<Rightarrow> string list \<Rightarrow> int list \<Rightarrow> gerr + int list" where
  "pick_uids known [] uids = Inr uids"
| "pick_uids known (p # ps) uids =
     (case known p of
        None \<Rightarrow> Inl (Err (''app unavailable: '' @ p))
      | Some u \<Rightarrow>
          if u < 10000 then Inl (Err (''app unavailable: '' @ p)) else pick_uids known ps (append_once uids u))"

text \<open>Mode and uids of the policy.\<close>

definition ebpf_policy :: "web_config \<Rightarrow> app_entry list \<Rightarrow> gerr + string \<times> int list" where
  "ebpf_policy c apps =
     (if wc_route_mode c = [] \<or> wc_route_mode c = ''off'' then Inr (''uid_allowlist'', [])
      else if wc_route_mode c = ''all'' then Inr (''all_non_bypass'', [])
      else if wc_route_mode c = ''selected'' then
        (case pick_uids (known_apps apps) (items (wc_app_packages c)) [] of
           Inl e \<Rightarrow> Inl e
         | Inr uids \<Rightarrow> if uids = [] then Inl (Err ''select at least one app'') else Inr (''uid_allowlist'', uids))
      else Inl (Err ''invalid route mode''))"

definition bypass_cidr :: "string \<Rightarrow> string" where
  "bypass_cidr v =
     (case parse_ip v of None \<Rightarrow> v | Some a \<Rightarrow> v @ (if to4 a \<noteq> None then ''/32'' else ''/128''))"

definition bypass_cidrs :: "string list \<Rightarrow> gerr + string list" where
  "bypass_cidrs vs =
     (let cs = map bypass_cidr vs
      in if list_all valid_cidr cs then Inr cs else Inl (Err ''invalid bypass IP/CIDR''))"

definition upstream_port :: "url \<Rightarrow> int option" where
  "upstream_port u =
     (case atoi (url_port u) of Some p \<Rightarrow> if p < 1 \<or> p > 65535 then None else Some p | None \<Rightarrow> None)"

definition listener_port :: "web_config \<Rightarrow> int" where
  "listener_port c = (if wc_ebpf_port c = 0 then 18080 else wc_ebpf_port c)"

text \<open>The maps as they are printed, with the keys in order.\<close>

definition upstream_json :: "url \<Rightarrow> int \<Rightarrow> json" where
  "upstream_json u port =
     (case ur_user u of
        None \<Rightarrow> JObj [(''host'', JStr (url_hostname u)), (''port'', JInt port), (''type'', JStr ''socks5'')]
      | Some (name, pass) \<Rightarrow>
          JObj [(''host'', JStr (url_hostname u)), (''password'', JStr (case pass of None \<Rightarrow> [] | Some p \<Rightarrow> p)),
                (''port'', JInt port), (''type'', JStr ''socks5''), (''username'', JStr name)])"

definition policy_json :: "string \<Rightarrow> int list \<Rightarrow> string list \<Rightarrow> json" where
  "policy_json mode uids cidrs = JObj
     [(''bypass_cidrs'', JArr (map JStr cidrs)), (''bypass_uids'', JArr [JInt 0]), (''mode'', JStr mode),
      (''uids'', JArr (map (\<lambda>u. JInt (uint (word_of_int u :: u32))) uids))]"

definition core_json :: "panel_paths \<Rightarrow> web_config \<Rightarrow> url \<Rightarrow> int \<Rightarrow> string \<times> int list \<Rightarrow> string list \<Rightarrow> json" where
  "core_json P c u port policy cidrs = JObj
     [(''bpf'', JObj [(''cgroup'', JStr ''/sys/fs/cgroup''), (''object'', JStr (bpf_object P))]),
      (''connect_timeout_seconds'', JInt 5), (''idle_timeout_seconds'', JInt 300), (''ipv6'', JBool True),
      (''listener'', JObj [(''address'', JStr ''127.0.0.1''), (''port'', JInt (listener_port c))]),
      (''logging'', JObj [(''level'', JStr ''info'')]), (''max_connections'', JInt 4096),
      (''policy'', policy_json (fst policy) (snd policy) cidrs), (''runtime_dir'', JStr (ebpf_runtime P)),
      (''udp'', JObj [(''mode'', JStr ''pass'')]), (''upstream'', upstream_json u port), (''version'', JInt 1)]"

definition ebpf_config :: "panel_paths \<Rightarrow> web_config \<Rightarrow> app_entry list \<Rightarrow> gerr + json" where
  "ebpf_config P c apps =
     (case validate_backend c of Some e \<Rightarrow> Inl e | None \<Rightarrow>
      (case url_parse (wc_proxy_url c) of
         None \<Rightarrow> Inl (Err ''invalid upstream'')
       | Some u \<Rightarrow>
           if url_hostname u = [] then Inl (Err ''invalid upstream'')
           else if \<not> socks_scheme (ur_scheme u) then Inl (Err ''choose SOCKS5 before testing eBPF upstream'')
           else case upstream_port u of None \<Rightarrow> Inl (Err ''invalid upstream port'') | Some port \<Rightarrow>
             (case ebpf_policy c apps of Inl e \<Rightarrow> Inl e | Inr policy \<Rightarrow>
              (case bypass_cidrs (items (wc_bypass_ips c)) of Inl e \<Rightarrow> Inl e | Inr cidrs \<Rightarrow>
               Inr (core_json P c u port policy cidrs)))))"

section \<open>The daemon reads what the panel writes\<close>

text \<open>What the daemon asks of the upstream beyond what the panel has checked.\<close>

definition upstream_plain :: "url \<Rightarrow> bool" where
  "upstream_plain u \<longleftrightarrow>
     \<not> contains_any (url_hostname u) forbidden_host_chars \<and>
     (case ur_user u of
        None \<Rightarrow> True
      | Some (name, pass) \<Rightarrow>
          let p = (case pass of None \<Rightarrow> [] | Some p \<Rightarrow> p)
          in length name \<le> 255 \<and> length p \<le> 255 \<and> (p \<noteq> [] \<longrightarrow> name \<noteq> []))"

definition core_config :: "panel_paths \<Rightarrow> web_config \<Rightarrow> url \<Rightarrow> int \<Rightarrow> string \<times> int list \<Rightarrow> string list \<Rightarrow> config" where
  "core_config P c u port policy cidrs =
     \<lparr>cf_version = 1, cf_listener = \<lparr>ep_address = ''127.0.0.1'', ep_port = listener_port c\<rparr>, cf_ipv6 = True,
      cf_upstream = \<lparr>up_type = ''socks5'', up_host = url_hostname u, up_port = port,
        up_username = (case ur_user u of None \<Rightarrow> [] | Some (name, pass) \<Rightarrow> name),
        up_password = (case ur_user u of Some (name, Some p) \<Rightarrow> p | _ \<Rightarrow> [])\<rparr>,
      cf_policy = \<lparr>po_mode = fst policy, po_uids = map word_of_int (snd policy), po_bypass_uids = [0], po_bypass_cidrs = cidrs\<rparr>,
      cf_udp_mode = ''pass'', cf_bpf_object = bpf_object P, cf_bpf_cgroup = ''/sys/fs/cgroup'',
      cf_runtime_dir = ebpf_runtime P, cf_log_level = ''info'', cf_connect_timeout = 5, cf_idle_timeout = 300,
      cf_max_connections = 4096\<rparr>"

definition core_names :: "string list" where
  "core_names =
     [''version'', ''listener'', ''ipv6'', ''upstream'', ''policy'', ''udp'', ''bpf'', ''runtime_dir'', ''logging'',
      ''connect_timeout_seconds'', ''idle_timeout_seconds'', ''max_connections'', ''address'', ''port'', ''type'', ''host'',
      ''username'', ''password'', ''mode'', ''uids'', ''bypass_uids'', ''bypass_cidrs'', ''object'', ''cgroup'', ''level'']"

lemma core_names_lower: "list_all (\<lambda>n. to_lower n = n) core_names"
  by code_simp

lemma fold_eq_core_name: "a \<in> set core_names \<Longrightarrow> b \<in> set core_names \<Longrightarrow> fold_eq a b \<longleftrightarrow> a = b"
  using core_names_lower by (intro fold_eq_lower) (simp_all add: list_all_iff)

lemmas core_name_simps = fold_eq_core_name [unfolded core_names_def]

lemma dec_simps:
  "dec_string (JStr s) t = Some s" "dec_bool (JBool b) b' = Some b" "int64_range i \<Longrightarrow> dec_int (JInt i) j = Some i"
  by (simp_all add: dec_string_def dec_bool_def dec_int_def)

lemma dec_slice_uids:
  "dec_slice dec_u32 (JArr (map (\<lambda>u. JInt (uint (word_of_int u :: u32))) us)) old = Some (map word_of_int us)"
proof -
  have "dec_u32 (JInt (uint (w :: u32))) = Some w" for w
    using uint_range_size [of w] by (simp add: dec_u32_def dec_uint_def word_size)
  then show ?thesis by (simp add: dec_slice_def list_all_iff comp_def)
qed

lemma dec_slice_strings: "dec_slice (\<lambda>x. dec_string x []) (JArr (map JStr ss)) old = Some ss"
  by (simp add: dec_slice_def dec_simps list_all_iff comp_def)

lemma printable_core: "printable (core_json P c u port policy cidrs)"
  by (simp add: core_json_def upstream_json_def policy_json_def list_all_iff split: option.split prod.split)

text \<open>Each part of the configuration as the daemon's decoder reads it.\<close>

lemma dec_core_upstream:
  assumes "int64_range port"
  shows "dec_struct upstream_field (upstream_json u port) (cf_upstream zero_config) =
    Some (cf_upstream (core_config P c u port policy cidrs))"
  using assms
  by (simp add: upstream_json_def core_config_def zero_config_def dec_struct_def upstream_field_def core_name_simps
      dec_simps split: option.split prod.split)

lemma dec_core_policy:
  "dec_struct policy_field (policy_json mode uids cidrs) (cf_policy zero_config) =
    Some \<lparr>po_mode = mode, po_uids = map word_of_int uids, po_bypass_uids = [0], po_bypass_cidrs = cidrs\<rparr>"
proof -
  have "dec_slice dec_u32 (JArr [JInt 0]) old = Some [0]" for old
    using dec_slice_uids [of "[0]" old] by simp
  then show ?thesis
    by (simp add: policy_json_def zero_config_def dec_struct_def policy_field_def core_name_simps dec_slice_uids
        dec_slice_strings dec_simps)
qed

lemma dec_core:
  assumes "int64_range port" and "int64_range (listener_port c)"
  shows "dec_config (core_json P c u port policy cidrs) = Some (core_config P c u port policy cidrs)"
proof -
  have up: "dec_struct upstream_field (upstream_json u port)
      \<lparr>up_type = [], up_host = [], up_port = 0, up_username = [], up_password = []\<rparr> =
    Some (cf_upstream (core_config P c u port policy cidrs))"
    using dec_core_upstream [OF assms(1), of u P c policy cidrs] by (simp add: zero_config_def)
  have po: "dec_struct policy_field (policy_json mode uids cidrs)
      \<lparr>po_mode = [], po_uids = [], po_bypass_uids = [], po_bypass_cidrs = []\<rparr> =
    Some \<lparr>po_mode = mode, po_uids = map word_of_int uids, po_bypass_uids = [0], po_bypass_cidrs = cidrs\<rparr>" for mode uids
    using dec_core_policy [of mode uids cidrs] by (simp add: zero_config_def)
  have small: "int64_range 1" "int64_range 5" "int64_range 300" "int64_range 4096" by (simp_all add: int64_range_def)
  have parts:
    "dec_struct endpoint_field (JObj [(''address'', JStr ''127.0.0.1''), (''port'', JInt (listener_port c))]) e =
      Some \<lparr>ep_address = ''127.0.0.1'', ep_port = listener_port c\<rparr>"
    "dec_struct bpf_field (JObj [(''cgroup'', JStr g), (''object'', JStr ob)]) q = Some (ob, g)"
    for e g ob q
    using assms(2) by (simp_all add: dec_struct_def endpoint_field_def bpf_field_def core_name_simps dec_simps)
  have single: "dec_struct (string_field n) (JObj [(n, JStr v)]) t = Some v" for n v t
    by (simp add: dec_struct_def string_field_def dec_simps fold_eq_def)
  show ?thesis
    by (simp add: dec_config_def core_json_def zero_config_def dec_struct_def [of config_field] config_field_def core_name_simps
        up po parts single dec_simps small) (simp add: core_config_def)
qed

lemma loopback_listener: "listener_ok ''127.0.0.1''"
  by code_simp

lemma validate_core:
  assumes "url_hostname u \<noteq> []" and "upstream_plain u" and "1 \<le> port" and "port \<le> 65535"
    and "1 \<le> listener_port c" and "listener_port c \<le> 65535"
    and "fst policy \<in> {''uid_allowlist'', ''all_non_bypass''}" and "list_all valid_cidr cidrs"
  shows "validate_config (core_config P c u port policy cidrs) = Inr (core_config P c u port policy cidrs)"
proof (rule validate_config_idem)
  show "config_ok (core_config P c u port policy cidrs)"
    using assms loopback_listener
    by (auto simp: config_ok_def core_config_def upstream_plain_def Let_def split: option.splits)
qed

lemma ebpf_config_parts:
  assumes "ebpf_config P c apps = Inr j"
  obtains u port policy cidrs where "url_parse (wc_proxy_url c) = Some u" "url_hostname u \<noteq> []" "socks_scheme (ur_scheme u)"
    "upstream_port u = Some port" "ebpf_policy c apps = Inr policy" "bypass_cidrs (items (wc_bypass_ips c)) = Inr cidrs"
    "j = core_json P c u port policy cidrs" "validate_backend c = None"
  using assms by (auto simp: ebpf_config_def split: option.splits if_splits sum.splits)

lemma ebpf_config_ranges:
  assumes "validate_backend c = None" and "upstream_port u = Some port" and "ebpf_policy c apps = Inr policy"
    and "bypass_cidrs vs = Inr cidrs"
  shows "1 \<le> port \<and> port \<le> 65535 \<and> 1 \<le> listener_port c \<and> listener_port c \<le> 65535 \<and>
    fst policy \<in> {''uid_allowlist'', ''all_non_bypass''} \<and> list_all valid_cidr cidrs \<and> cidrs = map bypass_cidr vs"
  using assms
  by (auto simp: validate_backend_def listener_port_def upstream_port_def ebpf_policy_def bypass_cidrs_def Let_def
      split: if_splits option.splits sum.splits)

text \<open>The daemon decodes and validates the file to exactly the configuration the panel meant.\<close>

lemma daemon_reads_config:
  assumes "ebpf_config P c apps = Inr j" and "url_parse (wc_proxy_url c) = Some u" and "upstream_plain u"
    and "length (json_pretty 0 j) \<le> 2 ^ 20"
  shows "\<exists>port policy cidrs. upstream_port u = Some port \<and> ebpf_policy c apps = Inr policy \<and>
    bypass_cidrs (items (wc_bypass_ips c)) = Inr cidrs \<and>
    decode_config (Inr (json_pretty 0 j)) = Inr (core_config P c u port policy cidrs)"
proof -
  obtain port policy cidrs where j: "url_hostname u \<noteq> []" "upstream_port u = Some port" "ebpf_policy c apps = Inr policy"
    "bypass_cidrs (items (wc_bypass_ips c)) = Inr cidrs" "j = core_json P c u port policy cidrs" "validate_backend c = None"
    using ebpf_config_parts [OF assms(1)] assms(2) by (metis option.inject)
  note r = ebpf_config_ranges [OF j(6,2,3,4)]
  then have "int64_range port" "int64_range (listener_port c)" by (auto simp: int64_range_def)
  then have "dec_config j = Some (core_config P c u port policy cidrs)" using dec_core by (simp add: j(5))
  moreover have "take (2 ^ 20 + 1) (json_pretty 0 j) = json_pretty 0 j" using assms(4) by simp
  moreover have "json_read (json_pretty 0 j) = TokVal j []" unfolding j(5) by (rule json_read_pretty [OF printable_core])
  ultimately have "decode_config (Inr (json_pretty 0 j)) = validate_config (core_config P c u port policy cidrs)"
    using assms(4) by (simp only: decode_config_def Let_def sum.case) (simp add: decode_single_def)
  also have "\<dots> = Inr (core_config P c u port policy cidrs)" using validate_core j(1) assms(3) r by blast
  finally show ?thesis using j(2,3,4) by blast
qed

section \<open>The state of the two back ends\<close>

record process_status =
  pr_running :: bool
  pr_pid :: int
  pr_crashed :: bool
  pr_uptime :: string

definition stopped_status :: process_status where
  "stopped_status = \<lparr>pr_running = False, pr_pid = 0, pr_crashed = False, pr_uptime = []\<rparr>"

text \<open>\<open>fmt.Sscanf\<close> with \<open>%d\<close>: blanks but no line end before the number, and whatever follows it.\<close>

definition scan_int :: "string \<Rightarrow> int option" where
  "scan_int s =
     (let t = dropWhile (\<lambda>c. is_space c \<and> c \<noteq> CHR 0x0A) s;
          neg = has_prefix t ''-'';
          ds = takeWhile is_digit (if neg \<or> has_prefix t ''+'' then tl t else t)
      in case digits_value 10 0 ds of
           None \<Rightarrow> None
         | Some n \<Rightarrow>
             let i = (if neg then - int n else int n) in if ds = [] \<or> \<not> int64_range i then None else Some i)"

text \<open>
  What \<open>/proc\<close> says: the pid file, whether the \<open>stat\<close> file of a pid can be read, its command line, and the whole
  seconds it has run, when that is a positive time.
\<close>

record proc_view =
  pv_pid_file :: "string option"
  pv_stat :: "int \<Rightarrow> bool"
  pv_cmdline :: "int \<Rightarrow> string option"
  pv_runtime :: "int \<Rightarrow> int option"

definition uptime_text :: "int option \<Rightarrow> string" where
  "uptime_text r =
     (case r of
        None \<Rightarrow> []
      | Some n \<Rightarrow>
          if 0 < n div 60 then itoa (n div 60) @ ''m '' @ itoa (n mod 60) @ ''s'' else itoa (n mod 60) @ ''s'')"

text \<open>The status, and whether a stale pid file is removed.\<close>

definition tun_status :: "proc_view \<Rightarrow> process_status \<times> bool" where
  "tun_status V =
     (case pv_pid_file V of
        None \<Rightarrow> (stopped_status, False)
      | Some data \<Rightarrow>
          let pid = (case scan_int data of None \<Rightarrow> 0 | Some i \<Rightarrow> i)
          in if pid \<le> 0 then (stopped_status, False)
             else if \<not> pv_stat V pid then (stopped_status\<lparr>pr_crashed := True, pr_pid := pid\<rparr>, False)
             else case pv_cmdline V pid of
                    None \<Rightarrow> (stopped_status, True)
                  | Some line \<Rightarrow>
                      if \<not> str_contains (map (\<lambda>c. if c = CHR 0x00 then CHR '' '' else c) line) ''tun2proxy --tun-fd''
                      then (stopped_status, True)
                      else (stopped_status\<lparr>pr_running := True, pr_pid := pid, pr_uptime := uptime_text (pv_runtime V pid)\<rparr>, False))"

text \<open>
  The daemon's status is a map of JSON values: the two false entries, overwritten by what its answer holds.
  A pid is a whole number.
\<close>

type_synonym status_map = "string \<rightharpoonup> json"

definition no_status :: status_map where
  "no_status = [''running'' \<mapsto> JBool False, ''programs_loaded'' \<mapsto> JBool False]"

definition len_status :: "status_map lenient" where
  "len_status v m =
     (case v of JNull \<Rightarrow> (\<lambda>_. None, False) | JObj ms \<Rightarrow> (m ++ map_of (rev ms), False) | _ \<Rightarrow> (m, True))"

definition status_flag :: "string \<Rightarrow> status_map \<Rightarrow> bool" where
  "status_flag k m \<longleftrightarrow> m k = Some (JBool True)"

definition status_pid :: "status_map \<Rightarrow> int" where
  "status_pid m = (case m ''pid'' of Some (JInt i) \<Rightarrow> i | _ \<Rightarrow> 0)"

definition process_status_of :: "process_status \<Rightarrow> status_map \<Rightarrow> process_status" where
  "process_status_of tun m =
     (if pr_running tun then tun
      else if status_flag ''running'' m then stopped_status\<lparr>pr_running := True, pr_pid := status_pid m\<rparr>
      else tun)"

section \<open>What the panel does to the system\<close>

text \<open>
  The system the panel runs on: the results of the preparations (directory, lock file, lock), the configuration,
  the status of the TUN engine, the control socket, the daemon's commands and the control script, the routing
  journal, the application list, storing a text in the runtime directory, the log directory and file, the
  daemon's process (started, its command line, its end, killed, its log) and a pause. The looks before the two
  deadlines are counted.
\<close>

type_synonym panel_outcome = "string \<times> gerr option"

record 'w panel_ops =
  op_prepare :: "gerr option list"
  op_config :: "'w \<Rightarrow> web_config \<times> gerr option"
  op_tun :: "'w \<Rightarrow> process_status \<times> 'w"
  op_socket :: "'w \<Rightarrow> bool"
  op_ebpf :: "argv \<Rightarrow> 'w \<Rightarrow> panel_outcome \<times> 'w"
  op_pipe :: "argv \<Rightarrow> string \<Rightarrow> 'w \<Rightarrow> panel_outcome \<times> 'w"
  op_ctl :: "string \<Rightarrow> 'w \<Rightarrow> panel_outcome \<times> 'w"
  op_undo :: "'w \<Rightarrow> argv list"
  op_apps :: "'w \<Rightarrow> string \<times> string option"
  op_store :: "string \<Rightarrow> 'w \<Rightarrow> gerr option \<times> 'w"
  op_log_open :: "gerr option list"
  op_launch :: "'w \<Rightarrow> gerr option \<times> 'w"
  op_exited :: "'w \<Rightarrow> gerr option option"
  op_kill :: "'w \<Rightarrow> 'w"
  op_log :: "'w \<Rightarrow> string"
  op_cmdline :: "int \<Rightarrow> 'w \<Rightarrow> string"
  op_pause :: "'w \<Rightarrow> 'w"
  op_stop_looks :: nat
  op_ready_looks :: nat

text \<open>What was seen and done, in order.\<close>

datatype panel_event =
    SawTun process_status
  | SawStatus status_map
  | SawUndo "argv list"
  | RanEbpf argv panel_outcome
  | RanCtl string panel_outcome
  | Stored string "gerr option"
  | Launched "gerr option"
  | SawExit
  | Killed

type_synonym 'w panel_state = "'w \<times> panel_event list"

definition note_event :: "panel_event \<Rightarrow> 'w panel_state \<Rightarrow> 'w panel_state" where
  "note_event e s = (fst s, snd s @ [e])"

definition ebpf_command :: "'w panel_ops \<Rightarrow> argv \<Rightarrow> 'w panel_state \<Rightarrow> panel_outcome \<times> 'w panel_state" where
  "ebpf_command K args s = (case op_ebpf K args (fst s) of (r, w) \<Rightarrow> (r, (w, snd s @ [RanEbpf args r])))"

definition legacy_ctl :: "'w panel_ops \<Rightarrow> string \<Rightarrow> 'w panel_state \<Rightarrow> panel_outcome \<times> 'w panel_state" where
  "legacy_ctl K action s = (case op_ctl K action (fst s) of (r, w) \<Rightarrow> (r, (w, snd s @ [RanCtl action r])))"

definition runtime_args :: "panel_paths \<Rightarrow> string \<Rightarrow> argv" where
  "runtime_args P command = [command, ''--runtime-dir'', ebpf_runtime P]"

definition ebpf_status :: "'w panel_ops \<Rightarrow> panel_paths \<Rightarrow> 'w panel_state \<Rightarrow> status_map \<times> 'w panel_state" where
  "ebpf_status K P s =
     (if \<not> op_socket K (fst s) then (no_status, note_event (SawStatus no_status) s)
      else case ebpf_command K (runtime_args P ''status'') s of
             ((out, None), s1) \<Rightarrow>
               let m = fst (unmarshal len_status out no_status) in (m, note_event (SawStatus m) s1)
           | ((_, Some e), s1) \<Rightarrow> (no_status, note_event (SawStatus no_status) s1))"

definition see_tun :: "'w panel_ops \<Rightarrow> 'w panel_state \<Rightarrow> process_status \<times> 'w panel_state" where
  "see_tun K s = (case op_tun K (fst s) of (ps, w) \<Rightarrow> (ps, (w, snd s @ [SawTun ps])))"

definition get_process_status :: "'w panel_ops \<Rightarrow> panel_paths \<Rightarrow> 'w panel_state \<Rightarrow> process_status \<times> 'w panel_state" where
  "get_process_status K P s =
     (case see_tun K s of (tun, s1) \<Rightarrow>
      if pr_running tun then (tun, s1)
      else case ebpf_status K P s1 of (m, s2) \<Rightarrow> (process_status_of tun m, s2))"

section \<open>Stopping\<close>

definition daemon_gone :: "'w panel_ops \<Rightarrow> panel_paths \<Rightarrow> int \<Rightarrow> 'w panel_state \<Rightarrow> bool" where
  "daemon_gone K P pid s \<longleftrightarrow> \<not> has_prefix (op_cmdline K pid (fst s)) (ebpf_binary P @ [CHR 0x00])"

fun await_gone :: "'w panel_ops \<Rightarrow> panel_paths \<Rightarrow> int \<Rightarrow> nat \<Rightarrow> 'w panel_state \<Rightarrow> 'w panel_state" where
  "await_gone K P pid 0 s = s"
| "await_gone K P pid (Suc n) s =
     (if daemon_gone K P pid s then s else await_gone K P pid n (op_pause K (fst s), snd s))"

definition backend_stop :: "'w panel_ops \<Rightarrow> panel_paths \<Rightarrow> 'w panel_state \<Rightarrow> panel_outcome \<times> 'w panel_state" where
  "backend_stop K P s =
     (case ebpf_status K P s of (m, s1) \<Rightarrow>
      if \<not> status_flag ''programs_loaded'' m then legacy_ctl K ''stop'' s1
      else case ebpf_command K (runtime_args P ''stop'') s1 of
             ((out, Some e), s2) \<Rightarrow> ((out, Some e), s2)
           | ((_, None), s2) \<Rightarrow>
               let s3 = await_gone K P (status_pid m) (op_stop_looks K) s2
               in if \<not> daemon_gone K P (status_pid m) s3
                  then (([], Some (Err ''eBPF daemon has not finished stopping'')), s3)
                  else legacy_ctl K ''stop'' s3)"

section \<open>Starting\<close>

text \<open>The configuration file of the daemon: its path, or the error.\<close>

definition core_path :: "panel_paths \<Rightarrow> string" where
  "core_path P = ebpf_runtime P @ ''/config.json''"

definition selected_apps :: "'w panel_ops \<Rightarrow> web_config \<Rightarrow> 'w panel_state \<Rightarrow> gerr + app_entry list" where
  "selected_apps K c s = (if wc_route_mode c = ''selected'' then apps_list (op_apps K (fst s)) else Inr [])"

definition write_ebpf_config :: "'w panel_ops \<Rightarrow> panel_paths \<Rightarrow> web_config \<Rightarrow> 'w panel_state \<Rightarrow> (gerr + string) \<times> 'w panel_state" where
  "write_ebpf_config K P c s =
     (case selected_apps K c s of Inl e \<Rightarrow> (Inl e, s) | Inr apps \<Rightarrow>
      (case ebpf_config P c apps of Inl e \<Rightarrow> (Inl e, s) | Inr j \<Rightarrow>
       (case op_store K (json_pretty 0 j) (fst s) of (r, w) \<Rightarrow>
         let s1 = (w, snd s @ [Stored (json_pretty 0 j) r])
         in case r of Some e \<Rightarrow> (Inl e, s1) | None \<Rightarrow> (Inr (core_path P), s1))))"

text \<open>Waiting for the launched daemon: its end, its readiness, or the deadline.\<close>

definition last_bytes :: "nat \<Rightarrow> string \<Rightarrow> string" where
  "last_bytes n s = drop (length s - n) s"

fun await_launched :: "'w panel_ops \<Rightarrow> panel_paths \<Rightarrow> nat \<Rightarrow> 'w panel_state \<Rightarrow> panel_outcome \<times> 'w panel_state" where
  "await_launched K P 0 s =
     (([], Some (Err ''eBPF readiness timeout; native links detached'')), note_event Killed (op_kill K (fst s), snd s))"
| "await_launched K P (Suc n) s =
     (if op_exited K (fst s) \<noteq> None
      then ((last_bytes 4096 (op_log K (fst s)), Some (Err ''eBPF exited before ready'')), note_event SawExit s)
      else case ebpf_status K P s of (m, s1) \<Rightarrow>
             if status_flag ''running'' m then ((''eBPF backend ready'', None), s1)
             else await_launched K P n (op_pause K (fst s1), snd s1))"

definition launch_ebpf :: "'w panel_ops \<Rightarrow> panel_paths \<Rightarrow> 'w panel_state \<Rightarrow> panel_outcome \<times> 'w panel_state" where
  "launch_ebpf K P s =
     (case ebpf_command K [''check'', ''--config'', core_path P] s of
        ((out, Some e), s1) \<Rightarrow> ((out, Some (Err (''eBPF preflight failed: '' @ out))), s1)
      | ((_, None), s1) \<Rightarrow>
          (case first_error (op_log_open K) of
             Some e \<Rightarrow> (([], Some e), s1)
           | None \<Rightarrow>
               (case op_launch K (fst s1) of (r, w) \<Rightarrow>
                 let s2 = (w, snd s1 @ [Launched r])
                 in case r of Some e \<Rightarrow> (([], Some e), s2) | None \<Rightarrow> await_launched K P (op_ready_looks K) s2)))"

definition backend_start :: "'w panel_ops \<Rightarrow> panel_paths \<Rightarrow> web_config \<Rightarrow> 'w panel_state \<Rightarrow> panel_outcome \<times> 'w panel_state" where
  "backend_start K P c s =
     (case validate_backend c of Some e \<Rightarrow> (([], Some e), s) | None \<Rightarrow>
      (case get_process_status K P s of (ps, s1) \<Rightarrow>
       if pr_running ps then
         (case ebpf_status K P s1 of (m, s2) \<Rightarrow>
           if status_flag ''running'' m \<longleftrightarrow> backend_name c = ''ebpf'' then ((''proxy already running'', None), s2)
           else (([], Some (Err ''stop running backend before switching'')), s2))
       else if backend_name c = ''tun'' then legacy_ctl K ''start'' s1
       else
         let u = op_undo K (fst s1); s2 = note_event (SawUndo u) s1
         in if u \<noteq> [] then (([], Some (Err ''stop TUN routing before eBPF start'')), s2)
            else case write_ebpf_config K P c s2 of
                   (Inl e, s3) \<Rightarrow> (([], Some e), s3)
                 | (Inr path, s3) \<Rightarrow> launch_ebpf K P s3))"

section \<open>Actions\<close>

definition json_valid :: "string \<Rightarrow> bool" where
  "json_valid b \<longleftrightarrow> (case json_read b of TokVal v rest \<Rightarrow> skip_space rest = [] | _ \<Rightarrow> False)"

definition mismatch_json :: "url \<Rightarrow> json" where
  "mismatch_json u = JObj
     [(''automatic_setup_allowed'', JBool False), (''blocking_reasons'', JArr [JStr ''SAVED_UPSTREAM_IS_NOT_SOCKS5'']),
      (''network_rules_read_only'', JBool True), (''status'', JStr ''blocked''),
      (''upstream'', JStr (join_host_port (url_hostname u) (url_port u))), (''upstream_type'', JStr (ur_scheme u)),
      (''version'', JInt 1)]"

definition tproxy_preflight_action :: "'w panel_ops \<Rightarrow> panel_paths \<Rightarrow> 'w panel_state \<Rightarrow> panel_outcome \<times> 'w panel_state" where
  "tproxy_preflight_action K P s =
     (case op_config K (fst s) of
        (_, Some e) \<Rightarrow> (([], Some e), s)
      | (c, None) \<Rightarrow>
          (case url_parse (wc_proxy_url c) of
             None \<Rightarrow> (([], Some (Err ''invalid saved upstream'')), s)
           | Some u \<Rightarrow>
               if url_hostname u = [] then (([], Some (Err ''invalid saved upstream'')), s)
               else if \<not> socks_scheme (ur_scheme u) then
                 ((json_pretty 0 (mismatch_json u), Some (Err ''TPROXY requires an explicitly saved SOCKS5 upstream; existing connection configuration was not changed'')), s)
               else case selected_apps K c s of Inl e \<Rightarrow> (([], Some e), s) | Inr apps \<Rightarrow>
                 (case ebpf_config P c apps of Inl e \<Rightarrow> (([], Some e), s) | Inr j \<Rightarrow>
                  let args = [''tproxy'', ''preflight'', ''--config'', ''-'', ''--probe-upstream'']
                  in case op_pipe K args (json_text j) (fst s) of ((out, e), w) \<Rightarrow>
                     let s1 = (w, snd s @ [RanEbpf args (out, e)])
                     in if \<not> json_valid out then (([], Some (Err ''TPROXY preflight did not return a valid report'')), s1)
                        else if e \<noteq> None then
                          ((out, Some (Err ''TPROXY_PREFLIGHT_BLOCKED: inspect the read-only report; no setup performed'')), s1)
                        else ((out, None), s1))))"

definition backend_action :: "'w panel_ops \<Rightarrow> panel_paths \<Rightarrow> string \<Rightarrow> 'w panel_state \<Rightarrow> panel_outcome \<times> 'w panel_state" where
  "backend_action K P action s =
     (if action = ''tproxy-preflight'' then tproxy_preflight_action K P s
      else case first_error (op_prepare K) of Some e \<Rightarrow> (([], Some e), s) | None \<Rightarrow>
      (case op_config K (fst s) of (_, Some e) \<Rightarrow> (([], Some e), s) | (c, None) \<Rightarrow>
       if action = ''stop'' then backend_stop K P s
       else if action = ''restart'' then
         (case backend_stop K P s of
            ((_, Some e), s1) \<Rightarrow> (([], Some e), s1)
          | ((_, None), s1) \<Rightarrow> backend_start K P c s1)
       else if action = ''auto-start'' then
         (if \<not> wc_enabled c then ((''auto-start disabled'', None), s) else backend_start K P c s)
       else if action = ''start'' then backend_start K P c s
       else (([], Some (Err ''unsupported backend action'')), s)))"

section \<open>What a history of the panel shows\<close>

text \<open>The events that start a back end, and the history before the first of them.\<close>

fun starts :: "panel_event \<Rightarrow> bool" where
  "starts (Launched r) = True"
| "starts (RanCtl a r) = (a = ''start'')"
| "starts _ = False"

definition before_start :: "panel_event list \<Rightarrow> panel_event list" where
  "before_start t = takeWhile (\<lambda>e. \<not> starts e) t"

definition quiet :: "panel_event list \<Rightarrow> bool" where
  "quiet t \<longleftrightarrow> (\<forall>e \<in> set t. \<not> starts e)"

lemma quiet_simps [simp]:
  "quiet []" "quiet (e # t) \<longleftrightarrow> \<not> starts e \<and> quiet t" "quiet (t @ u) \<longleftrightarrow> quiet t \<and> quiet u"
  by (auto simp: quiet_def)

lemma quiet_filter: "quiet t \<Longrightarrow> filter starts t = []"
  by (auto simp: quiet_def)

lemma split_at_start:
  assumes "quiet A" and "starts e" and "quiet B"
  shows "filter starts (A @ e # B) = [e]" and "before_start (A @ e # B) = A"
  using assms by (auto simp: quiet_def before_start_def)

text \<open>An extension of the history by quiet events.\<close>

definition quietly :: "'w panel_state \<Rightarrow> 'w panel_state \<Rightarrow> bool" where
  "quietly s s' \<longleftrightarrow> (\<exists>B. snd s' = snd s @ B \<and> quiet B)"

lemma quietly_refl [simp]: "quietly s s"
  by (simp add: quietly_def)

lemma quietly_trans: "quietly s s1 \<Longrightarrow> quietly s1 s2 \<Longrightarrow> quietly s s2"
  by (auto simp: quietly_def)

lemma quietly_note: "\<not> starts e \<Longrightarrow> quietly s (note_event e s)"
  by (simp add: quietly_def note_event_def)

lemma quietly_ebpf: "ebpf_command K args s = (r, s1) \<Longrightarrow> snd s1 = snd s @ [RanEbpf args r]"
  by (auto simp: ebpf_command_def split: prod.splits)

lemma ebpf_status_sees:
  assumes "ebpf_status K P s = (m, s1)"
  shows "quietly s s1 \<and> snd s1 \<noteq> [] \<and> last (snd s1) = SawStatus m"
proof (cases "op_socket K (fst s)")
  case True
  obtain r s2 where r: "ebpf_command K (runtime_args P ''status'') s = (r, s2)" by (metis surj_pair)
  then show ?thesis
    using assms True quietly_ebpf [OF r]
    by (cases r; cases "snd r") (auto simp: ebpf_status_def Let_def quietly_def note_event_def)
qed (use assms in \<open>auto simp: ebpf_status_def quietly_def note_event_def\<close>)

lemma seen_status: "quietly s s1 \<Longrightarrow> snd s1 \<noteq> [] \<Longrightarrow> last (snd s1) = SawStatus m \<Longrightarrow> SawStatus m \<in> set (snd s1)"
  using last_in_set by fastforce

lemma process_status_sees:
  assumes "get_process_status K P s = (ps, s1)"
  shows "quietly s s1 \<and>
    (\<not> pr_running ps \<longrightarrow> (\<exists>tun m. SawTun tun \<in> set (snd s1) \<and> \<not> pr_running tun \<and> SawStatus m \<in> set (snd s1) \<and>
       \<not> status_flag ''running'' m))"
proof -
  obtain tun w where tun: "op_tun K (fst s) = (tun, w)" by (metis surj_pair)
  let ?s1 = "(w, snd s @ [SawTun tun])"
  have q: "quietly s ?s1" by (simp add: quietly_def)
  show ?thesis
  proof (cases "pr_running tun")
    case True
    then show ?thesis using assms q by (auto simp: get_process_status_def see_tun_def tun)
  next
    case False
    obtain m s2 where m: "ebpf_status K P ?s1 = (m, s2)" by (metis surj_pair)
    note seen = ebpf_status_sees [OF m]
    have ps: "ps = process_status_of tun m" "s1 = s2"
      using assms False m by (simp_all add: get_process_status_def see_tun_def tun)
    have "SawTun tun \<in> set (snd s2)" "SawStatus m \<in> set (snd s2)"
      using seen seen_status [of ?s1 s2 m] by (auto simp: quietly_def)
    moreover have "\<not> pr_running ps \<Longrightarrow> \<not> status_flag ''running'' m"
      using False by (auto simp: ps process_status_of_def)
    ultimately show ?thesis using quietly_trans [OF q] seen False ps(2) by blast
  qed
qed

lemma await_gone_trace: "snd (await_gone K P pid n s) = snd s"
  by (induction n arbitrary: s) auto

lemma legacy_ctl_trace: "legacy_ctl K a s = (r, s1) \<Longrightarrow> snd s1 = snd s @ [RanCtl a r]"
  by (auto simp: legacy_ctl_def split: prod.splits)

lemma backend_stop_trace:
  assumes "backend_stop K P s = ((out, e), s1)"
  shows "quietly s s1 \<and> (e = None \<longrightarrow> RanCtl ''stop'' (out, None) \<in> set (snd s1))"
proof -
  obtain m s2 where m: "ebpf_status K P s = (m, s2)" by (metis surj_pair)
  have q: "quietly s s2" using ebpf_status_sees [OF m] by blast
  have ctl: "quietly s s1 \<and> (e = None \<longrightarrow> RanCtl ''stop'' (out, None) \<in> set (snd s1))"
    if "legacy_ctl K ''stop'' s3 = ((out, e), s1)" "quietly s s3" for s3
    using legacy_ctl_trace [OF that(1)] that(2) by (auto simp: quietly_def)
  show ?thesis
  proof (cases "status_flag ''programs_loaded'' m")
    case False
    then show ?thesis using assms ctl [of s2] q by (simp add: backend_stop_def m)
  next
    case True
    obtain o1 e1 s3 where r: "ebpf_command K (runtime_args P ''stop'') s2 = ((o1, e1), s3)" by (metis surj_pair)
    have q3: "quietly s s3" using q quietly_ebpf [OF r] by (auto simp: quietly_def)
    show ?thesis
    proof (cases e1)
      case (Some x)
      then show ?thesis using assms True q3 by (auto simp: backend_stop_def m r)
    next
      case None
      let ?s4 = "await_gone K P (status_pid m) (op_stop_looks K) s3"
      have "quietly s ?s4" using q3 by (simp add: quietly_def await_gone_trace)
      then show ?thesis using assms True None ctl [of ?s4] by (auto simp: backend_stop_def m r Let_def split: if_splits)
    qed
  qed
qed

text \<open>A launched daemon is reported ready, or has ended, or is killed.\<close>

definition attended :: "gerr option \<Rightarrow> panel_event list \<Rightarrow> bool" where
  "attended e t \<longleftrightarrow>
     t \<noteq> [] \<and> (if e = None then (\<exists>m. last t = SawStatus m \<and> status_flag ''running'' m) else last t = SawExit \<or> last t = Killed)"

lemma await_ready_trace:
  assumes "await_launched K P n s = ((out, e), s1)"
  shows "\<exists>B. snd s1 = snd s @ B \<and> quiet B \<and> attended e B"
  using assms
proof (induction n arbitrary: s)
  case 0
  then show ?case by (auto simp: note_event_def attended_def)
next
  case (Suc n)
  show ?case
  proof (cases "op_exited K (fst s) = None")
    case False
    then show ?thesis using Suc.prems by (auto simp: note_event_def attended_def)
  next
    case True
    obtain m s2 where m: "ebpf_status K P s = (m, s2)" by (metis surj_pair)
    obtain B where B: "snd s2 = snd s @ B" "quiet B" using ebpf_status_sees [OF m] by (auto simp: quietly_def)
    show ?thesis
    proof (cases "status_flag ''running'' m")
      case True
      then have "s1 = s2" "e = None" using Suc.prems \<open>op_exited K (fst s) = None\<close> by (simp_all add: m)
      moreover have "B \<noteq> []"
        using m B(1) by (auto simp: ebpf_status_def note_event_def Let_def split: if_splits prod.splits option.splits dest!: quietly_ebpf)
      ultimately show ?thesis using B True ebpf_status_sees [OF m] by (auto simp: attended_def)
    next
      case False
      then have "await_launched K P n (op_pause K (fst s2), snd s2) = ((out, e), s1)"
        using Suc.prems \<open>op_exited K (fst s) = None\<close> by (simp add: m)
      from Suc.IH [OF this] obtain B' where "snd s1 = snd s2 @ B'" "quiet B'" "attended e B'" by auto
      then show ?thesis using B by (intro exI [of _ "B @ B'"]) (auto simp: attended_def)
    qed
  qed
qed

text \<open>
  A history that starts a back end at most once, after having seen neither running. The daemon is launched for
  the eBPF back end only, with no routing journal, the stored configuration and a check that passed.
\<close>

definition cleared :: "panel_event list \<Rightarrow> bool" where
  "cleared B \<longleftrightarrow>
     (\<exists>tun m. SawTun tun \<in> set B \<and> \<not> pr_running tun \<and> SawStatus m \<in> set B \<and> \<not> status_flag ''running'' m)"

definition launch_ready :: "panel_paths \<Rightarrow> web_config \<Rightarrow> panel_event list \<Rightarrow> bool" where
  "launch_ready P c B \<longleftrightarrow>
     backend_name c = ''ebpf'' \<and> SawUndo [] \<in> set B \<and>
     (\<exists>j apps. ebpf_config P c apps = Inr j \<and> Stored (json_pretty 0 j) None \<in> set B) \<and>
     (\<exists>out. RanEbpf [''check'', ''--config'', core_path P] (out, None) \<in> set B)"

definition start_once :: "panel_paths \<Rightarrow> web_config \<Rightarrow> gerr option \<Rightarrow> panel_event list \<Rightarrow> bool" where
  "start_once P c e t \<longleftrightarrow>
     quiet t \<or>
     (\<exists>B ev C. t = B @ ev # C \<and> quiet B \<and> starts ev \<and> quiet C \<and> cleared B \<and>
        (case ev of
           Launched None \<Rightarrow> launch_ready P c B \<and> attended e C
         | Launched (Some x) \<Rightarrow> launch_ready P c B \<and> e \<noteq> None
         | _ \<Rightarrow> backend_name c = ''tun''))"

lemma start_once_quietly: "quietly s s1 \<Longrightarrow> quiet (snd s) \<Longrightarrow> start_once P c e (snd s1)"
  by (auto simp: start_once_def quietly_def)

lemma cleared_mono: "cleared B \<Longrightarrow> set B \<subseteq> set B' \<Longrightarrow> cleared B'"
  by (fastforce simp: cleared_def)

lemma launch_trace:
  assumes run: "launch_ebpf K P s = ((out, e), s1)" and q: "quiet (snd s)" "cleared (snd s)"
    and ready: "backend_name c = ''ebpf''" "SawUndo [] \<in> set (snd s)" "ebpf_config P c apps = Inr j"
      "Stored (json_pretty 0 j) None \<in> set (snd s)"
  shows "start_once P c e (snd s1)"
proof -
  let ?check = "[''check'', ''--config'', core_path P]"
  obtain o1 e1 s2 where r: "ebpf_command K ?check s = ((o1, e1), s2)" by (metis surj_pair)
  note t2 = quietly_ebpf [OF r]
  have q2: "quietly s s2" by (simp add: t2 quietly_def)
  show ?thesis
  proof (cases "e1 = None \<and> first_error (op_log_open K) = None")
    case False
    then have "s1 = s2" using run by (auto simp: launch_ebpf_def r split: option.splits)
    then show ?thesis using start_once_quietly [OF q2 q(1)] by simp
  next
    case True
    obtain r2 w where l: "op_launch K (fst s2) = (r2, w)" by (metis surj_pair)
    let ?s3 = "(w, snd s2 @ [Launched r2])"
    have lr: "launch_ready P c (snd s2)" "cleared (snd s2)" "quiet (snd s2)"
      using ready q True cleared_mono [of "snd s" "snd s2"] by (auto simp: launch_ready_def t2)
    show ?thesis
    proof (cases r2)
      case (Some x)
      then have "s1 = ?s3" "e \<noteq> None" using run True by (auto simp: launch_ebpf_def r l)
      then show ?thesis
        unfolding start_once_def using lr Some by (intro disjI2 exI [of _ "snd s2"] exI [of _ "Launched r2"] exI [of _ "[]"]) simp
    next
      case None
      then have "await_launched K P (op_ready_looks K) ?s3 = ((out, e), s1)" using run True by (simp add: launch_ebpf_def r l)
      from await_ready_trace [OF this] obtain C where "snd s1 = (snd s2 @ [Launched None]) @ C" "quiet C" "attended e C"
        using None by auto
      then show ?thesis
        unfolding start_once_def using lr by (intro disjI2 exI [of _ "snd s2"] exI [of _ "Launched None"] exI [of _ C]) simp
    qed
  qed
qed

lemma backend_start_trace:
  assumes run: "backend_start K P c s = ((out, e), s1)" and q: "quiet (snd s)"
  shows "start_once P c e (snd s1) \<and> (\<exists>B. snd s1 = snd s @ B)"
proof (cases "validate_backend c")
  case (Some x)
  then show ?thesis using run start_once_quietly [of s s P c e] q by (auto simp: backend_start_def)
next
  case None
  obtain ps s2 where ps: "get_process_status K P s = (ps, s2)" by (metis surj_pair)
  note seen = process_status_sees [OF ps]
  have q2: "quietly s s2" using seen by blast
  then have quiet2: "quiet (snd s2)" using q by (auto simp: quietly_def)
  have grows: "\<exists>B. snd s2 = snd s @ B" using q2 by (auto simp: quietly_def)
  show ?thesis
  proof (cases "pr_running ps")
    case True
    obtain m s3 where m: "ebpf_status K P s2 = (m, s3)" by (metis surj_pair)
    have "s1 = s3" using run None True by (auto simp: backend_start_def ps m split: if_splits)
    moreover have "quietly s s3" using ebpf_status_sees [OF m] quietly_trans [OF q2] by blast
    ultimately show ?thesis using start_once_quietly [of s s1 P c e] q by (auto simp: quietly_def)
  next
    case False
    have clear: "cleared (snd s2)" using seen False by (auto simp: cleared_def)
    show ?thesis
    proof (cases "backend_name c = ''tun''")
      case True
      then have "legacy_ctl K ''start'' s2 = ((out, e), s1)" using run None False by (simp add: backend_start_def ps)
      note t1 = legacy_ctl_trace [OF this]
      have "start_once P c e (snd s1)"
        unfolding start_once_def t1 using quiet2 clear True
        by (intro disjI2 exI [of _ "snd s2"] exI [of _ "RanCtl ''start'' (out, e)"] exI [of _ "[]"]) simp
      then show ?thesis using grows t1 by auto
    next
      case other: False
      then have ebpf: "backend_name c = ''ebpf''" by (auto simp: backend_name_def split: if_splits)
      let ?u = "op_undo K (fst s2)"
      let ?s3 = "note_event (SawUndo ?u) s2"
      have q3: "quietly s2 ?s3" by (simp add: quietly_note)
      show ?thesis
      proof (cases "?u = []")
        case False
        then have "s1 = ?s3" using run None other \<open>\<not> pr_running ps\<close> by (simp add: backend_start_def ps Let_def)
        then show ?thesis using start_once_quietly [OF q3 quiet2] grows by (auto simp: note_event_def)
      next
        case True
        obtain w4 s4 where w: "write_ebpf_config K P c ?s3 = (w4, s4)" by (metis surj_pair)
        note w' = w [unfolded True]
        have q4: "quietly ?s3 s4"
          using w by (auto simp: write_ebpf_config_def Let_def quietly_def split: sum.splits prod.splits option.splits)
        show ?thesis
        proof (cases w4)
          case (Inl x)
          then have "s1 = s4" using run None other True \<open>\<not> pr_running ps\<close> by (simp add: backend_start_def ps Let_def w')
          then show ?thesis
            using start_once_quietly [OF quietly_trans [OF q3 q4] quiet2] grows q3 q4 by (auto simp: quietly_def note_event_def)
        next
          case (Inr path)
          then have l: "launch_ebpf K P s4 = ((out, e), s1)"
            using run None other True \<open>\<not> pr_running ps\<close> by (simp add: backend_start_def ps Let_def w')
          obtain j apps where st: "ebpf_config P c apps = Inr j" "Stored (json_pretty 0 j) None \<in> set (snd s4)"
            using w Inr by (auto simp: write_ebpf_config_def Let_def split: sum.splits prod.splits option.splits)
          obtain D where D: "snd s4 = snd s2 @ SawUndo ?u # D" "quiet D"
            using q4 by (auto simp: quietly_def note_event_def)
          have "start_once P c e (snd s1)"
            by (rule launch_trace [OF l _ _ ebpf _ st])
              (use D quiet2 True cleared_mono [OF clear, of "snd s4"] in auto)
          moreover have "\<exists>B. snd s1 = snd s4 @ B"
            using l by (auto simp: launch_ebpf_def Let_def split: prod.splits option.splits dest!: quietly_ebpf await_ready_trace)
          ultimately show ?thesis using D grows by auto
        qed
      qed
    qed
  qed
qed

lemma preflight_quiet: "tproxy_preflight_action K P s = (r, s1) \<Longrightarrow> quietly s s1"
  by (auto simp: tproxy_preflight_action_def Let_def quietly_def split: prod.splits option.splits sum.splits if_splits)

theorem backend_action_trace:
  assumes run: "backend_action K P action (w, []) = ((out, e), s1)"
  shows "start_once P (fst (op_config K w)) e (snd s1) \<and>
    (action = ''restart'' \<longrightarrow> \<not> quiet (snd s1) \<longrightarrow> (\<exists>o1. RanCtl ''stop'' (o1, None) \<in> set (before_start (snd s1))))"
proof -
  let ?c = "fst (op_config K w)"
  have silent: ?thesis if "quietly (w, [] :: panel_event list) s1"
    using that by (auto simp: start_once_def quietly_def)
  consider "action = ''tproxy-preflight''" | (early) "s1 = (w, [])" | (stop) "backend_stop K P (w, []) = ((out, e), s1)"
    | (restart) "action = ''restart''" "action \<noteq> ''tproxy-preflight''" "first_error (op_prepare K) = None" "snd (op_config K w) = None"
    | (start) "action \<noteq> ''restart''" "backend_start K P ?c (w, []) = ((out, e), s1)"
    using run by (auto simp: backend_action_def split: if_splits option.splits prod.splits)
  then show ?thesis
  proof cases
    case 1
    then have "quietly (w, []) s1" using run preflight_quiet by (simp add: backend_action_def)
    then show ?thesis by (rule silent)
  next
    case early
    then show ?thesis using silent by simp
  next
    case stop
    then show ?thesis using backend_stop_trace silent by blast
  next
    case start
    then show ?thesis using backend_start_trace [OF start(2)] by simp
  next
    case restart
    obtain c where c: "op_config K w = (c, None)" using restart(4) by (cases "op_config K w") auto
    obtain o2 e2 s2 where st: "backend_stop K P (w, []) = ((o2, e2), s2)" by (metis surj_pair)
    note stopped = backend_stop_trace [OF st]
    show ?thesis
    proof (cases e2)
      case (Some x)
      then have "s1 = s2" using run restart st by (simp add: backend_action_def c)
      then show ?thesis using stopped silent by blast
    next
      case None
      then have "backend_start K P ?c s2 = ((out, e), s1)"
        using run restart st by (simp add: backend_action_def c)
      moreover have q2: "quiet (snd s2)" using stopped by (auto simp: quietly_def)
      ultimately have *: "start_once P ?c e (snd s1)" "\<exists>B. snd s1 = snd s2 @ B" using backend_start_trace by blast+
      moreover have "RanCtl ''stop'' (o2, None) \<in> set (before_start (snd s1))" if "\<not> quiet (snd s1)"
      proof -
        obtain B where "snd s1 = snd s2 @ B" using *(2) by blast
        then show ?thesis using stopped None q2 by (auto simp: before_start_def quiet_def takeWhile_append)
      qed
      ultimately show ?thesis by blast
    qed
  qed
qed

end
