(* ===== verification/Profiles.thy ===== *)
theory Profiles
  imports Backend
begin

text \<open>
  The connection profiles of the web control panel: \<open>cmd/tun2proxy-web/profiles.go\<close> and \<open>saveConfig\<close> of
  \<open>main.go\<close>. \<open>config.json\<close> is what the engines read; \<open>profiles.json\<close> is an index of named copies, one of
  them active. The invariant is that the active copy is the configuration in use.
\<close>

section \<open>Profiles\<close>

record profile =
  pf_id :: string
  pf_name :: string
  pf_config :: web_config

record profile_set =
  ps_version :: int
  ps_active :: string
  ps_profiles :: "profile slice"

definition zero_profile :: profile where
  "zero_profile = \<lparr>pf_id = [], pf_name = [], pf_config = zero_web_config\<rparr>"

definition zero_profiles :: profile_set where
  "zero_profiles = \<lparr>ps_version = 0, ps_active = [], ps_profiles = None\<rparr>"

definition profile_json :: "profile \<Rightarrow> json" where
  "profile_json p = JObj [(''id'', JStr (pf_id p)), (''name'', JStr (pf_name p)), (''config'', web_config_json (pf_config p))]"

definition profiles_json :: "profile_set \<Rightarrow> json" where
  "profiles_json p = JObj
     [(''version'', JInt (ps_version p)), (''activeId'', JStr (ps_active p)),
      (''profiles'', slice_json profile_json (ps_profiles p))]"

definition profile_field :: "string \<Rightarrow> profile lenient" where
  "profile_field k v p =
     (if fold_eq k ''id'' then update_by (\<lambda>x. pf_id_update (\<lambda>_. x)) (len_string v (pf_id p)) p
      else if fold_eq k ''name'' then update_by (\<lambda>x. pf_name_update (\<lambda>_. x)) (len_string v (pf_name p)) p
      else if fold_eq k ''config'' then update_by (\<lambda>x. pf_config_update (\<lambda>_. x)) (len_web_config v (pf_config p)) p
      else (p, False))"

definition profiles_field :: "string \<Rightarrow> profile_set lenient" where
  "profiles_field k v p =
     (if fold_eq k ''version'' then update_by (\<lambda>x. ps_version_update (\<lambda>_. x)) (len_int v (ps_version p)) p
      else if fold_eq k ''activeId'' then update_by (\<lambda>x. ps_active_update (\<lambda>_. x)) (len_string v (ps_active p)) p
      else if fold_eq k ''profiles'' then
        update_by (\<lambda>x. ps_profiles_update (\<lambda>_. x)) (len_nslice (len_struct profile_field) zero_profile v (ps_profiles p)) p
      else (p, False))"

definition profiles_text :: "profile_set \<Rightarrow> string" where
  "profiles_text p = json_pretty 0 (profiles_json p)"

definition profile_by_id :: "profile_set \<Rightarrow> string \<Rightarrow> profile option" where
  "profile_by_id p i = find (\<lambda>v. pf_id v = i) (items (ps_profiles p))"

section \<open>The two files\<close>

text \<open>
  The files, and how the coming calls on them end: each read, and each write from the temporary file to the
  rename, takes one entry. A failing write leaves the file as it was.
\<close>

record panel_disk =
  pd_config :: "string option"
  pd_profiles :: "string option"
  pd_faults :: "gerr option list"

definition next_fault :: "panel_disk \<Rightarrow> gerr option \<times> panel_disk" where
  "next_fault d = (case pd_faults d of [] \<Rightarrow> (None, d) | e # es \<Rightarrow> (e, d\<lparr>pd_faults := es\<rparr>))"

definition read_file :: "string option \<Rightarrow> gerr option \<Rightarrow> gerr + string" where
  "read_file f e = (case e of Some x \<Rightarrow> Inl x | None \<Rightarrow> (case f of None \<Rightarrow> Inl NotExist | Some b \<Rightarrow> Inr b))"

definition load_config_file :: "panel_disk \<Rightarrow> (web_config \<times> gerr option) \<times> panel_disk" where
  "load_config_file d = (case next_fault d of (e, d1) \<Rightarrow> (load_web_config (read_file (pd_config d) e), d1))"

definition save_config_file :: "web_config \<Rightarrow> panel_disk \<Rightarrow> gerr option \<times> panel_disk" where
  "save_config_file c d =
     (case validate_backend c of
        Some e \<Rightarrow> (Some e, d)
      | None \<Rightarrow>
          (case next_fault d of (e, d1) \<Rightarrow>
           (case save_runtime_config [e] c (pd_config d1) of (r, f) \<Rightarrow> (r, d1\<lparr>pd_config := f\<rparr>))))"

text \<open>The default profile is named \<open>default computer\<close> in Chinese.\<close>

definition default_name :: string where
  "default_name =
     [CHR 0xE9, CHR 0xBB, CHR 0x98, CHR 0xE8, CHR 0xAE, CHR 0xA4, CHR 0xE7, CHR 0x94, CHR 0xB5, CHR 0xE8, CHR 0x84, CHR 0x91]"

definition default_profiles :: "web_config \<Rightarrow> profile_set" where
  "default_profiles c =
     \<lparr>ps_version = 1, ps_active = ''default'',
      ps_profiles = Some [\<lparr>pf_id = ''default'', pf_name = default_name, pf_config = c\<rparr>]\<rparr>"

fun ids_ok :: "string set \<Rightarrow> profile list \<Rightarrow> bool" where
  "ids_ok seen [] = True"
| "ids_ok seen (v # vs) = (pf_id v \<noteq> [] \<and> pf_id v \<notin> seen \<and> pf_name v \<noteq> [] \<and> ids_ok (insert (pf_id v) seen) vs)"

definition check_profiles :: "profile_set \<Rightarrow> gerr option" where
  "check_profiles p =
     (let vs = items (ps_profiles p)
      in if ps_version p \<noteq> 1 \<or> vs = [] then Some (Err ''invalid profiles index'')
         else if \<not> ids_ok {} vs then Some (Err ''invalid profile'')
         else if profile_by_id p (ps_active p) = None then Some (Err ''active profile missing'')
         else None)"

definition read_profiles :: "panel_disk \<Rightarrow> (gerr + profile_set) \<times> panel_disk" where
  "read_profiles d =
     (case next_fault d of (e, d1) \<Rightarrow>
      (case read_file (pd_profiles d) e of
         Inl NotExist \<Rightarrow>
           (case load_config_file d1 of
              ((_, Some x), d2) \<Rightarrow> (Inl x, d2)
            | ((c, None), d2) \<Rightarrow> (Inr (default_profiles c), d2))
       | Inl x \<Rightarrow> (Inl x, d1)
       | Inr b \<Rightarrow>
           (case unmarshal (len_struct profiles_field) b zero_profiles of
              (p, bad) \<Rightarrow>
                if bad then (Inl (Err ''json''), d1)
                else case check_profiles p of Some x \<Rightarrow> (Inl x, d1) | None \<Rightarrow> (Inr p, d1))))"

definition write_profiles :: "profile_set \<Rightarrow> panel_disk \<Rightarrow> gerr option \<times> panel_disk" where
  "write_profiles p d =
     (case next_fault d of
        (Some e, d1) \<Rightarrow> (Some e, d1)
      | (None, d1) \<Rightarrow> (None, d1\<lparr>pd_profiles := Some (profiles_text p)\<rparr>))"

section \<open>Saving the configuration\<close>

definition set_active_config :: "web_config \<Rightarrow> profile_set \<Rightarrow> profile_set" where
  "set_active_config c p =
     p\<lparr>ps_profiles := map_option (map (\<lambda>v. if pf_id v = ps_active p then v\<lparr>pf_config := c\<rparr> else v)) (ps_profiles p)\<rparr>"

text \<open>The new configuration is written first; if the index cannot follow, the old one is written back.\<close>

definition commit_both :: "web_config \<Rightarrow> web_config \<Rightarrow> profile_set \<Rightarrow> panel_disk \<Rightarrow> gerr option \<times> panel_disk" where
  "commit_both old c p d =
     (case save_config_file c d of
        (Some e, d1) \<Rightarrow> (Some e, d1)
      | (None, d1) \<Rightarrow>
          (case write_profiles p d1 of
             (None, d2) \<Rightarrow> (None, d2)
           | (Some e, d2) \<Rightarrow> (Some e, snd (save_config_file old d2))))"

definition save_config :: "web_config \<Rightarrow> panel_disk \<Rightarrow> gerr option \<times> panel_disk" where
  "save_config c d =
     (case read_profiles d of
        (Inl e, d1) \<Rightarrow> (Some e, d1)
      | (Inr p, d1) \<Rightarrow>
          (case load_config_file d1 of
             ((_, Some e), d2) \<Rightarrow> (Some e, d2)
           | ((old, None), d2) \<Rightarrow> commit_both old c (set_active_config c p) d2))"

section \<open>Names\<close>

text \<open>\<open>strings.TrimSpace\<close>: the white space of Unicode, in UTF-8. A character begins at a byte that continues none.\<close>

definition wide_spaces :: "string list" where
  "wide_spaces =
     [[CHR 0xC2, CHR 0x85], [CHR 0xC2, CHR 0xA0], [CHR 0xE1, CHR 0x9A, CHR 0x80]] @
     map (\<lambda>b. [CHR 0xE2, CHR 0x80, char_of b]) ([0x80 ..< 0x8B] @ [0xA8, 0xA9, 0xAF :: nat]) @
     [[CHR 0xE2, CHR 0x81, CHR 0x9F], [CHR 0xE3, CHR 0x80, CHR 0x80]]"

definition leading_space :: "string list \<Rightarrow> string \<Rightarrow> nat" where
  "leading_space wide s =
     (case s of
        [] \<Rightarrow> 0
      | c # _ \<Rightarrow> if is_space c then 1 else case find (has_prefix s) wide of None \<Rightarrow> 0 | Some w \<Rightarrow> length w)"

fun trim_front :: "nat \<Rightarrow> string list \<Rightarrow> string \<Rightarrow> string" where
  "trim_front 0 wide s = s"
| "trim_front (Suc n) wide s =
     (let k = leading_space wide s in if k = 0 then s else trim_front n wide (drop k s))"

definition trim_unicode :: "string \<Rightarrow> string" where
  "trim_unicode s =
     (let t = trim_front (length s) wide_spaces s
      in rev (trim_front (length t) (map rev wide_spaces) (rev t)))"

definition rune_count :: "string \<Rightarrow> nat" where
  "rune_count s = length (filter (\<lambda>c. \<not> (0x80 \<le> (of_char c :: nat) \<and> (of_char c :: nat) < 0xC0)) s)"

definition name_ok :: "string \<Rightarrow> bool" where
  "name_ok n \<longleftrightarrow> n \<noteq> [] \<and> rune_count n \<le> 64"

section \<open>The profile requests\<close>

definition validate_profile :: "web_config \<Rightarrow> gerr option" where
  "validate_profile c =
     (case validate_backend c of Some e \<Rightarrow> Some e | None \<Rightarrow>
      (case url_parse (wc_proxy_url c) of
         None \<Rightarrow> Some (Err ''invalid proxy URL'')
       | Some u \<Rightarrow>
           if url_hostname u = [] \<or> url_port u = [] then Some (Err ''invalid proxy URL'')
           else if ur_scheme u \<noteq> ''http'' \<and> \<not> socks_scheme (ur_scheme u) then Some (Err ''unsupported proxy type'')
           else None))"

record profile_request =
  pq_action :: string
  pq_id :: string
  pq_name :: string

definition profile_request_field :: "string \<Rightarrow> profile_request lenient" where
  "profile_request_field k v q =
     (if fold_eq k ''action'' then update_by (\<lambda>x. pq_action_update (\<lambda>_. x)) (len_string v (pq_action q)) q
      else if fold_eq k ''id'' then update_by (\<lambda>x. pq_id_update (\<lambda>_. x)) (len_string v (pq_id q)) q
      else if fold_eq k ''name'' then update_by (\<lambda>x. pq_name_update (\<lambda>_. x)) (len_string v (pq_name q)) q
      else (q, False))"

text \<open>A response: its status and its JSON value.\<close>

type_synonym web_reply = "int \<times> json"

definition error_reply :: "int \<Rightarrow> string \<Rightarrow> web_reply" where
  "error_reply status msg = (status, JObj [(''error'', JStr msg)])"

text \<open>\<open>error.Error\<close> of the errors the panel shows.\<close>

fun error_text :: "gerr \<Rightarrow> string" where
  "error_text (Err s) = s"
| "error_text (Wrap s e) = s @ '': '' @ error_text e"
| "error_text e = ''error''"

text \<open>The index after an action that only edits it, or the refusal.\<close>

definition add_profile :: "string \<Rightarrow> string \<Rightarrow> web_config \<Rightarrow> profile_set \<Rightarrow> profile_set" where
  "add_profile i n c p =
     p\<lparr>ps_profiles := Some (items (ps_profiles p) @ [\<lparr>pf_id = i, pf_name = n, pf_config = c\<rparr>])\<rparr>"

definition active_config :: "profile_set \<Rightarrow> web_config" where
  "active_config p = (case profile_by_id p (ps_active p) of None \<Rightarrow> zero_web_config | Some v \<Rightarrow> pf_config v)"

definition rename_profile :: "string \<Rightarrow> string \<Rightarrow> profile_set \<Rightarrow> profile_set" where
  "rename_profile i n p =
     p\<lparr>ps_profiles := map_option (map (\<lambda>v. if pf_id v = i then v\<lparr>pf_name := n\<rparr> else v)) (ps_profiles p)\<rparr>"

definition delete_profile :: "string \<Rightarrow> profile_set \<Rightarrow> profile_set" where
  "delete_profile i p = p\<lparr>ps_profiles := Some (filter (\<lambda>v. pf_id v \<noteq> i) (items (ps_profiles p)))\<rparr>"

definition edit_profiles :: "string \<Rightarrow> profile_request \<Rightarrow> profile_set \<Rightarrow> web_reply + profile_set" where
  "edit_profiles new_id q p =
     (let name_error = Inl (error_reply 400 ''Name must contain 1-64 characters'')
      in if pq_action q = ''create'' then
           (if \<not> name_ok (pq_name q) then name_error
            else Inr (add_profile new_id (pq_name q)
                   ((active_config p)\<lparr>wc_proxy_url := ''http://127.0.0.1:8083'', wc_backend := ''tun''\<rparr>) p))
         else if pq_action q = ''clone'' then
           (if \<not> name_ok (pq_name q) then name_error
            else Inr (add_profile new_id (pq_name q) (active_config p) p))
         else if pq_action q = ''rename'' then
           (if \<not> name_ok (pq_name q) then name_error
            else if profile_by_id p (pq_id q) = None then Inl (error_reply 404 ''Profile not found'')
            else Inr (rename_profile (pq_id q) (pq_name q) p))
         else if pq_action q = ''delete'' then
           (if pq_id q = ps_active p then Inl (error_reply 409 ''Switch before deleting the active profile'')
            else if length (items (ps_profiles p)) = 1 then Inl (error_reply 409 ''Cannot delete the last profile'')
            else if profile_by_id p (pq_id q) = None then Inl (error_reply 404 ''Profile not found'')
            else Inr (delete_profile (pq_id q) p))
         else Inl (error_reply 400 ''Unknown profile action''))"

text \<open>Switching: refused while a back end runs; the chosen configuration becomes the one in use.\<close>

definition select_profile :: "bool \<Rightarrow> string \<Rightarrow> profile_set \<Rightarrow> panel_disk \<Rightarrow> web_reply \<times> panel_disk" where
  "select_profile running i p d =
     (case profile_by_id p i of
        None \<Rightarrow> (error_reply 404 ''Profile not found'', d)
      | Some v \<Rightarrow>
          (case validate_profile (pf_config v) of
             Some e \<Rightarrow> (error_reply 400 (error_text e), d)
           | None \<Rightarrow>
               if i = ps_active p then ((200, profiles_json p), d)
               else if running then (error_reply 409 ''Stop the running proxy before switching computers'', d)
               else case load_config_file d of
                      ((_, Some e), d1) \<Rightarrow> (error_reply 500 (error_text e), d1)
                    | ((old, None), d1) \<Rightarrow>
                        (case commit_both old (pf_config v) (p\<lparr>ps_active := i\<rparr>) d1 of
                           (Some e, d2) \<Rightarrow> (error_reply 500 (error_text e), d2)
                         | (None, d2) \<Rightarrow> ((200, profiles_json (p\<lparr>ps_active := i\<rparr>)), d2))))"

definition api_profiles :: "string \<Rightarrow> bool \<Rightarrow> string \<Rightarrow> string \<Rightarrow> panel_disk \<Rightarrow> web_reply \<times> panel_disk" where
  "api_profiles new_id running meth body d =
     (case read_profiles d of
        (Inl e, d1) \<Rightarrow> (error_reply 500 (error_text e), d1)
      | (Inr p, d1) \<Rightarrow>
          if meth = ''GET'' then ((200, profiles_json p), d1)
          else if meth \<noteq> ''POST'' then (error_reply 405 ''Use GET or POST'', d1)
          else case decode_first (len_struct profile_request_field) (take 4096 body)
                      \<lparr>pq_action = [], pq_id = [], pq_name = []\<rparr> of
                 (_, True) \<Rightarrow> (error_reply 400 ''Invalid request'', d1)
               | (q0, False) \<Rightarrow>
                   let q = q0\<lparr>pq_name := trim_unicode (pq_name q0)\<rparr>
                   in if pq_action q = ''select'' then select_profile running (pq_id q) p d1
                      else case edit_profiles new_id q p of
                             Inl r \<Rightarrow> (r, d1)
                           | Inr p1 \<Rightarrow>
                               (case write_profiles p1 d1 of
                                  (Some e, d2) \<Rightarrow> (error_reply 500 (error_text e), d2)
                                | (None, d2) \<Rightarrow> ((200, profiles_json p1), d2)))"

section \<open>Reading the index back\<close>

definition profile_names :: "string list" where
  "profile_names = [''id'', ''name'', ''config'', ''version'', ''activeId'', ''profiles'']"

lemma fold_eq_profile_name:
  "a \<in> set profile_names \<Longrightarrow> b \<in> set profile_names \<Longrightarrow> fold_eq a b \<longleftrightarrow> a = b"
proof -
  have "list_all (\<lambda>a. list_all (\<lambda>b. fold_eq a b = (a = b)) profile_names) profile_names" by code_simp
  then show "a \<in> set profile_names \<Longrightarrow> b \<in> set profile_names \<Longrightarrow> fold_eq a b \<longleftrightarrow> a = b" by (simp add: list_all_iff)
qed

lemma len_elems_zero:
  "\<forall>x \<in> set xs. dec (enc x) zero = (x, False) \<Longrightarrow> len_elems dec zero (map enc xs) [] = (xs, False)"
  by (induction xs) auto

definition profiles_ok :: "profile_set \<Rightarrow> bool" where
  "profiles_ok p \<longleftrightarrow> check_profiles p = None \<and> (\<forall>v \<in> set (items (ps_profiles p)). web_ints_ok (pf_config v))"

lemma len_profile_json:
  "web_ints_ok (pf_config v) \<Longrightarrow> len_struct profile_field (profile_json v) zero_profile = (v, False)"
  by (simp add: len_struct_def profile_json_def profile_field_def fold_eq_profile_name [unfolded profile_names_def]
      zero_profile_def len_web_config_json)

lemma len_profiles_json:
  assumes "\<forall>v \<in> set (items (ps_profiles p)). web_ints_ok (pf_config v)" and "int64_range (ps_version p)"
  shows "len_struct profiles_field (profiles_json p) zero_profiles = (p, False)"
proof -
  have "len_nslice (len_struct profile_field) zero_profile (slice_json profile_json (ps_profiles p)) None = (ps_profiles p, False)"
    using assms(1)
    by (cases "ps_profiles p") (auto simp: len_nslice_def slice_json_def len_elems_zero len_profile_json)
  then show ?thesis
    using assms(2)
    by (simp add: len_struct_def profiles_json_def profiles_field_def fold_eq_profile_name [unfolded profile_names_def]
        zero_profiles_def)
qed

lemma printable_profiles: "printable (profiles_json p)"
  by (simp add: profiles_json_def profile_json_def list_all_iff)

lemma profiles_read_back:
  assumes "profiles_ok p"
  shows "unmarshal (len_struct profiles_field) (profiles_text p) zero_profiles = (p, False)"
proof -
  have "int64_range (ps_version p)" using assms
    by (auto simp: profiles_ok_def check_profiles_def Let_def int64_range_def split: if_splits)
  then show ?thesis
    using assms len_profiles_json by (simp add: profiles_text_def unmarshal_pretty printable_profiles profiles_ok_def)
qed

section \<open>The active profile is the configuration in use\<close>

definition sound_panel :: "web_config \<Rightarrow> panel_disk \<Rightarrow> bool" where
  "sound_panel c d \<longleftrightarrow>
     (pd_config d = Some (config_text c) \<or> (pd_config d = None \<and> c = default_web_config)) \<and>
     web_ints_ok c \<and> validate_backend c = None \<and>
     (case pd_profiles d of
        None \<Rightarrow> True
      | Some b \<Rightarrow> \<exists>p. b = profiles_text p \<and> profiles_ok p \<and> active_config p = c)"

text \<open>At most one of the coming file operations fails, and none reports a missing file that is there.\<close>

definition one_failure :: "panel_disk \<Rightarrow> bool" where
  "one_failure d \<longleftrightarrow> length (filter (\<lambda>e. e \<noteq> None) (pd_faults d)) \<le> 1 \<and> Some NotExist \<notin> set (pd_faults d)"

definition no_failure :: "panel_disk \<Rightarrow> bool" where
  "no_failure d \<longleftrightarrow> (\<forall>e \<in> set (pd_faults d). e = None)"

lemma no_failure_one: "no_failure d \<Longrightarrow> one_failure d"
  by (auto simp: no_failure_def one_failure_def filter_empty_conv [THEN iffD2])

lemma failures_update [simp]:
  "one_failure (d\<lparr>pd_config := f\<rparr>) = one_failure d" "one_failure (d\<lparr>pd_profiles := f\<rparr>) = one_failure d"
  "no_failure (d\<lparr>pd_config := f\<rparr>) = no_failure d" "no_failure (d\<lparr>pd_profiles := f\<rparr>) = no_failure d"
  by (simp_all add: one_failure_def no_failure_def)

lemma next_fault_cases:
  assumes "next_fault d = (e, d1)" and "one_failure d"
  shows "pd_config d1 = pd_config d \<and> pd_profiles d1 = pd_profiles d \<and> one_failure d1 \<and> e \<noteq> Some NotExist \<and>
    (e \<noteq> None \<longrightarrow> no_failure d1) \<and> (no_failure d \<longrightarrow> e = None \<and> no_failure d1)"
proof (cases "pd_faults d")
  case (Cons x xs)
  have d1: "e = x" "d1 = d\<lparr>pd_faults := xs\<rparr>" using assms(1) Cons by (simp_all add: next_fault_def)
  have "no_failure d1" if "e \<noteq> None"
  proof -
    have "length (filter (\<lambda>e. e \<noteq> None) xs) = 0" using assms(2) that by (simp add: one_failure_def Cons d1(1))
    then show ?thesis unfolding no_failure_def d1(2) length_0_conv filter_empty_conv by simp
  qed
  then show ?thesis
    using assms(2) by (auto simp: one_failure_def no_failure_def d1 Cons split: if_splits)
qed (use assms in \<open>simp add: next_fault_def no_failure_def\<close>)

lemma sound_panel_cong:
  "sound_panel c d \<Longrightarrow> pd_config d1 = pd_config d \<Longrightarrow> pd_profiles d1 = pd_profiles d \<Longrightarrow> sound_panel c d1"
  by (simp add: sound_panel_def)

lemma default_config_sound: "web_ints_ok default_web_config" "validate_backend default_web_config = None"
  by (simp_all add: web_ints_ok_def default_web_config_def zero_web_config_def int64_range_def validate_backend_def backend_name_def)

lemma load_config_sound:
  assumes "load_config_file d = ((c', e), d1)" and "sound_panel c d" and "one_failure d"
  shows "sound_panel c d1 \<and> pd_config d1 = pd_config d \<and> pd_profiles d1 = pd_profiles d \<and> one_failure d1 \<and>
    (e = None \<longrightarrow> c' = c) \<and> (e \<noteq> None \<longrightarrow> no_failure d1) \<and> (no_failure d \<longrightarrow> no_failure d1)"
proof -
  obtain x d2 where x: "next_fault d = (x, d2)" by (metis surj_pair)
  note f = next_fault_cases [OF x assms(3)]
  have r: "d1 = d2" "load_web_config (read_file (pd_config d) x) = (c', e)" using assms(1) by (simp_all add: load_config_file_def x)
  have "(e = None \<longrightarrow> c' = c) \<and> (e \<noteq> None \<longrightarrow> no_failure d2)"
  proof (cases x)
    case None
    then show ?thesis using r(2) assms(2) load_saved_config [of c]
      by (auto simp: read_file_def sound_panel_def load_web_config_def split: option.splits)
  next
    case (Some y)
    then show ?thesis using r(2) f by (cases y) (auto simp: read_file_def load_web_config_def)
  qed
  then show ?thesis using f sound_panel_cong [OF assms(2)] r(1) by auto
qed

lemma check_default: "profiles_ok (default_profiles c) \<longleftrightarrow> web_ints_ok c"
  by (simp add: profiles_ok_def default_profiles_def check_profiles_def profile_by_id_def default_name_def)

lemma active_default [simp]: "active_config (default_profiles c) = c"
  by (simp add: active_config_def profile_by_id_def default_profiles_def)

lemma read_profiles_sound:
  assumes "read_profiles d = (r, d1)" and "sound_panel c d" and "one_failure d"
  shows "sound_panel c d1 \<and> pd_config d1 = pd_config d \<and> pd_profiles d1 = pd_profiles d \<and> one_failure d1 \<and>
    (case r of
       Inl e \<Rightarrow> no_failure d1
     | Inr p \<Rightarrow> profiles_ok p \<and> active_config p = c \<and> (no_failure d \<longrightarrow> no_failure d1) \<and>
         (case pd_profiles d of None \<Rightarrow> p = default_profiles c | Some b \<Rightarrow> b = profiles_text p))"
proof -
  obtain x d2 where x: "next_fault d = (x, d2)" by (metis surj_pair)
  note f = next_fault_cases [OF x assms(3)]
  have s2: "sound_panel c d2" using f sound_panel_cong [OF assms(2)] by blast
  show ?thesis
  proof (cases x)
    case (Some y)
    then have "r = Inl y" "d1 = d2"
      using assms(1) f by (cases y; simp add: read_profiles_def x read_file_def)+
    then show ?thesis using f s2 Some by simp
  next
    case None
    show ?thesis
    proof (cases "pd_profiles d")
      case None
      obtain c' e d3 where l: "load_config_file d2 = ((c', e), d3)" by (metis surj_pair)
      note ls = load_config_sound [OF l s2]
      have "(r, d1) = (case e of Some z \<Rightarrow> (Inl z, d3) | None \<Rightarrow> (Inr (default_profiles c'), d3))"
        using assms(1) \<open>x = None\<close> None f by (simp add: read_profiles_def x read_file_def l split: option.split)
      then show ?thesis
        using ls f None assms(2) by (cases e) (auto simp: check_default sound_panel_def)
    next
      case (Some b)
      then obtain p where p: "b = profiles_text p" "profiles_ok p" "active_config p = c"
        using assms(2) by (auto simp: sound_panel_def)
      then have "r = Inr p" "d1 = d2"
        using assms(1) \<open>x = None\<close> Some f profiles_read_back [OF p(2)]
        by (simp_all add: read_profiles_def x read_file_def profiles_ok_def)
      then show ?thesis using f s2 p Some by simp
    qed
  qed
qed

text \<open>The write of both files: together, or neither when one operation fails.\<close>

lemma save_config_file_cases:
  assumes "save_config_file c d = (e, d1)" and "one_failure d"
  shows "pd_profiles d1 = pd_profiles d \<and> one_failure d1 \<and> (no_failure d \<longrightarrow> no_failure d1) \<and>
    (case e of
       None \<Rightarrow> validate_backend c = None \<and> pd_config d1 = Some (config_text c)
     | Some x \<Rightarrow> pd_config d1 = pd_config d \<and> (validate_backend c = None \<longrightarrow> \<not> no_failure d))"
proof (cases "validate_backend c")
  case (Some y)
  then have "e = Some y" "d1 = d" using assms by (simp_all add: save_config_file_def)
  then show ?thesis using Some assms(2) by simp
next
  case None
  obtain x d2 where x: "next_fault d = (x, d2)" by (metis surj_pair)
  note f = next_fault_cases [OF x assms(2)]
  show ?thesis
  proof (cases x)
    case (Some y)
    then have "e = Some y" "d1 = d2" using assms(1) None by (simp_all add: save_config_file_def x save_runtime_config_def)
    then show ?thesis using f None Some by auto
  next
    case none: None
    then have "e = None" "d1 = d2\<lparr>pd_config := Some (config_text c)\<rparr>"
      using assms(1) None by (simp_all add: save_config_file_def x save_runtime_config_def)
    then show ?thesis using f None by simp
  qed
qed

lemma write_profiles_cases:
  assumes "write_profiles p d = (e, d1)" and "one_failure d"
  shows "pd_config d1 = pd_config d \<and> one_failure d1 \<and>
    (case e of None \<Rightarrow> pd_profiles d1 = Some (profiles_text p) | Some x \<Rightarrow> pd_profiles d1 = pd_profiles d \<and> no_failure d1)"
proof -
  obtain x d2 where x: "next_fault d = (x, d2)" by (metis surj_pair)
  note f = next_fault_cases [OF x assms(2)]
  show ?thesis
    using assms(1) f by (cases x) (auto simp: write_profiles_def x)
qed

lemma commit_both_sound:
  assumes run: "commit_both c cn p d = (e, d1)" and sound: "sound_panel c d" "one_failure d"
    and new: "web_ints_ok cn" "profiles_ok p" "active_config p = cn"
  shows "(e = None \<longrightarrow> sound_panel cn d1) \<and>
    (e \<noteq> None \<longrightarrow> sound_panel c d1 \<and> pd_profiles d1 = pd_profiles d)"
proof -
  obtain x d2 where x: "save_config_file cn d = (x, d2)" by (metis surj_pair)
  note s = save_config_file_cases [OF x sound(2)]
  show ?thesis
  proof (cases x)
    case (Some y)
    then show ?thesis using run s sound_panel_cong [OF sound(1), of d2] by (auto simp: commit_both_def x)
  next
    case None
    obtain y d3 where y: "write_profiles p d2 = (y, d3)" by (metis surj_pair)
    have one: "one_failure d2" using s by blast
    note w = write_profiles_cases [OF y one]
    show ?thesis
    proof (cases y)
      case None
      then show ?thesis
        using run \<open>x = None\<close> s w new by (auto simp: commit_both_def x y sound_panel_def)
    next
      case (Some z)
      obtain v d4 where v: "save_config_file c d3 = (v, d4)" by (metis surj_pair)
      have three: "one_failure d3" "no_failure d3" using w Some by auto
      note b = save_config_file_cases [OF v three(1)]
      have "validate_backend c = None" using sound(1) by (simp add: sound_panel_def)
      then have "v = None" using b three(2) by (cases v) auto
      moreover have "e = Some z" "d1 = d4" using run \<open>x = None\<close> Some v by (simp_all add: commit_both_def x y)
      ultimately show ?thesis using b w s sound(1) Some \<open>x = None\<close> by (auto simp: sound_panel_def)
    qed
  qed
qed

text \<open>The edits keep the index well formed and its active configuration.\<close>

lemma ids_ok_iff:
  "ids_ok seen vs \<longleftrightarrow> distinct (map pf_id vs) \<and> (\<forall>v \<in> set vs. pf_id v \<noteq> [] \<and> pf_id v \<notin> seen \<and> pf_name v \<noteq> [])"
  by (induction vs arbitrary: seen) (auto simp: image_iff)

lemma profiles_ok_iff:
  "profiles_ok p \<longleftrightarrow> ps_version p = 1 \<and> ids_ok {} (items (ps_profiles p)) \<and>
     (\<exists>v \<in> set (items (ps_profiles p)). pf_id v = ps_active p) \<and> (\<forall>v \<in> set (items (ps_profiles p)). web_ints_ok (pf_config v))"
  by (auto simp: profiles_ok_def check_profiles_def Let_def profile_by_id_def find_None_iff split: if_splits)

lemma profile_by_id_iff:
  "ids_ok {} (items (ps_profiles p)) \<Longrightarrow>
     profile_by_id p i = Some v \<longleftrightarrow> v \<in> set (items (ps_profiles p)) \<and> pf_id v = i"
proof -
  have "distinct (map pf_id vs) \<Longrightarrow> find (\<lambda>v. pf_id v = i) vs = Some v \<longleftrightarrow> v \<in> set vs \<and> pf_id v = i" for vs
    by (induction vs) (auto simp: rev_image_eqI)
  then show "ids_ok {} (items (ps_profiles p)) \<Longrightarrow> ?thesis" by (simp add: profile_by_id_def ids_ok_iff)
qed

lemma active_config_eq:
  assumes "profiles_ok p" and "v \<in> set (items (ps_profiles p))" and "pf_id v = ps_active p"
  shows "active_config p = pf_config v"
  using assms profile_by_id_iff [of p "ps_active p" v] by (simp add: profiles_ok_iff active_config_def)

lemma active_profile:
  assumes "profiles_ok p"
  obtains v where "v \<in> set (items (ps_profiles p))" "pf_id v = ps_active p" "active_config p = pf_config v" "web_ints_ok (pf_config v)"
  using assms active_config_eq [OF assms] unfolding profiles_ok_iff by blast

lemma add_profile_sound:
  assumes "profiles_ok p" and "web_ints_ok c" and "n \<noteq> []" and "i \<noteq> []" and "i \<notin> pf_id ` set (items (ps_profiles p))"
  shows "profiles_ok (add_profile i n c p) \<and> active_config (add_profile i n c p) = active_config p"
proof -
  obtain v where v: "v \<in> set (items (ps_profiles p))" "pf_id v = ps_active p" "active_config p = pf_config v"
    using active_profile [OF assms(1)] by blast
  have "profiles_ok (add_profile i n c p)"
    using assms v by (auto simp: profiles_ok_iff ids_ok_iff add_profile_def)
  then show ?thesis using active_config_eq [of "add_profile i n c p" v] v by (simp add: add_profile_def)
qed

lemma rename_profile_sound:
  assumes "profiles_ok p" and "n \<noteq> []"
  shows "profiles_ok (rename_profile j n p) \<and> active_config (rename_profile j n p) = active_config p"
proof -
  let ?f = "\<lambda>v. if pf_id v = j then v\<lparr>pf_name := n\<rparr> else v"
  obtain v where v: "v \<in> set (items (ps_profiles p))" "pf_id v = ps_active p" "active_config p = pf_config v"
    using active_profile [OF assms(1)] by blast
  have m: "items (ps_profiles (rename_profile j n p)) = map ?f (items (ps_profiles p))"
    by (cases "ps_profiles p") (simp_all add: rename_profile_def)
  have f: "pf_id (?f u) = pf_id u" "pf_config (?f u) = pf_config u" "pf_name u \<noteq> [] \<Longrightarrow> pf_name (?f u) \<noteq> []" for u
    using assms(2) by simp_all
  have ids: "map pf_id (map ?f vs) = map pf_id vs" for vs
    by (induction vs) simp_all
  have d: "distinct (map pf_id (map ?f (items (ps_profiles p))))"
    unfolding ids using assms(1) by (simp add: profiles_ok_iff ids_ok_iff)
  have a: "\<forall>u \<in> set (map ?f (items (ps_profiles p))). pf_id u \<noteq> [] \<and> pf_name u \<noteq> [] \<and> web_ints_ok (pf_config u)"
    using assms by (auto simp: profiles_ok_iff ids_ok_iff)
  have mem: "?f v \<in> set (map ?f (items (ps_profiles p)))" using v(1) by simp
  have hd: "ps_version (rename_profile j n p) = 1" "ps_active (rename_profile j n p) = ps_active p"
    using assms(1) by (simp_all add: rename_profile_def profiles_ok_iff)
  have "\<exists>u \<in> set (map ?f (items (ps_profiles p))). pf_id u = ps_active (rename_profile j n p)"
    by (rule bexI [OF _ mem]) (simp add: v(2) hd(2))
  then have "profiles_ok (rename_profile j n p)"
    unfolding profiles_ok_iff ids_ok_iff m using d a hd(1) by blast
  then show ?thesis
    using mem [folded m] active_config_eq [of "rename_profile j n p" "?f v"] f [of v] v(2,3) by (simp add: rename_profile_def)
qed

lemma delete_profile_sound:
  assumes "profiles_ok p" and "j \<noteq> ps_active p"
  shows "profiles_ok (delete_profile j p) \<and> active_config (delete_profile j p) = active_config p"
proof -
  obtain v where v: "v \<in> set (items (ps_profiles p))" "pf_id v = ps_active p" "active_config p = pf_config v"
    using active_profile [OF assms(1)] by blast
  have "profiles_ok (delete_profile j p)"
    using assms v by (auto simp: profiles_ok_iff ids_ok_iff delete_profile_def distinct_map_filter)
  then show ?thesis using active_config_eq [of "delete_profile j p" v] v assms(2) by (simp add: delete_profile_def)
qed

lemma edit_profiles_sound:
  assumes edit: "edit_profiles i q p = Inr p1" and ok: "profiles_ok p"
    and fresh: "i \<noteq> []" "i \<notin> pf_id ` set (items (ps_profiles p))"
  shows "profiles_ok p1 \<and> active_config p1 = active_config p \<and> ps_active p1 = ps_active p"
proof -
  let ?new = "(active_config p)\<lparr>wc_proxy_url := ''http://127.0.0.1:8083'', wc_backend := ''tun''\<rparr>"
  have "web_ints_ok (active_config p)" by (rule active_profile [OF ok]) simp
  then have ints: "web_ints_ok (active_config p)" "web_ints_ok ?new" by (simp_all add: web_ints_ok_def)
  consider n c where "p1 = add_profile i n c p" "web_ints_ok c" "n \<noteq> []"
    | j n where "p1 = rename_profile j n p" "n \<noteq> []" | j where "p1 = delete_profile j p" "j \<noteq> ps_active p"
    using edit ints unfolding edit_profiles_def Let_def name_ok_def by (metis sum.distinct(1) sum.inject(2))
  then show ?thesis
  proof cases
    case (1 n c)
    then show ?thesis using add_profile_sound [OF ok _ _ fresh] by (simp add: add_profile_def)
  next
    case (2 j n)
    then show ?thesis using rename_profile_sound [OF ok] by (simp add: rename_profile_def)
  next
    case (3 j)
    then show ?thesis using delete_profile_sound [OF ok] by (simp add: delete_profile_def)
  qed
qed

section \<open>Every request\<close>

text \<open>What an identifier drawn for a new profile must not be.\<close>

definition fresh_id :: "string \<Rightarrow> panel_disk \<Rightarrow> bool" where
  "fresh_id i d \<longleftrightarrow>
     i \<noteq> [] \<and> i \<noteq> ''default'' \<and>
     (\<forall>p. pd_profiles d = Some (profiles_text p) \<longrightarrow> profiles_ok p \<longrightarrow> i \<notin> pf_id ` set (items (ps_profiles p)))"

lemma set_active_config_sound:
  assumes "profiles_ok p" and "web_ints_ok c"
  shows "profiles_ok (set_active_config c p) \<and> active_config (set_active_config c p) = c"
proof -
  let ?f = "\<lambda>v. if pf_id v = ps_active p then v\<lparr>pf_config := c\<rparr> else v"
  obtain v where v: "v \<in> set (items (ps_profiles p))" "pf_id v = ps_active p"
    using active_profile [OF assms(1)] by blast
  have m: "items (ps_profiles (set_active_config c p)) = map ?f (items (ps_profiles p))"
    by (cases "ps_profiles p") (simp_all add: set_active_config_def)
  have ids: "map pf_id (map ?f vs) = map pf_id vs" for vs
    by (induction vs) simp_all
  have d: "distinct (map pf_id (map ?f (items (ps_profiles p))))"
    unfolding ids using assms(1) by (simp add: profiles_ok_iff ids_ok_iff)
  have a: "\<forall>u \<in> set (map ?f (items (ps_profiles p))). pf_id u \<noteq> [] \<and> pf_name u \<noteq> [] \<and> web_ints_ok (pf_config u)"
    using assms by (auto simp: profiles_ok_iff ids_ok_iff)
  have hd: "ps_version (set_active_config c p) = 1" "ps_active (set_active_config c p) = ps_active p"
    using assms(1) by (simp_all add: set_active_config_def profiles_ok_iff)
  have mem: "v\<lparr>pf_config := c\<rparr> \<in> set (map ?f (items (ps_profiles p)))" using v by force
  have "\<exists>u \<in> set (map ?f (items (ps_profiles p))). pf_id u = ps_active (set_active_config c p)"
    by (rule bexI [OF _ mem]) (simp add: v(2) hd(2))
  then have "profiles_ok (set_active_config c p)"
    unfolding profiles_ok_iff ids_ok_iff m using d a hd(1) by blast
  then show ?thesis
    using mem [folded m] active_config_eq [of "set_active_config c p" "v\<lparr>pf_config := c\<rparr>"] v(2) hd(2) by simp
qed

lemma save_config_sound:
  assumes run: "save_config cn d = (e, d1)" and sound: "sound_panel c d" "one_failure d" and ints: "web_ints_ok cn"
  shows "(e = None \<longrightarrow> sound_panel cn d1) \<and> (e \<noteq> None \<longrightarrow> sound_panel c d1 \<and> pd_profiles d1 = pd_profiles d)"
proof -
  obtain r d2 where r: "read_profiles d = (r, d2)" by (metis surj_pair)
  note rs = read_profiles_sound [OF r sound]
  show ?thesis
  proof (cases r)
    case (Inl x)
    then show ?thesis using run rs by (auto simp: save_config_def r)
  next
    case (Inr p)
    obtain old x d3 where l: "load_config_file d2 = ((old, x), d3)" by (metis surj_pair)
    have s2: "sound_panel c d2" "one_failure d2" using rs by auto
    note ls = load_config_sound [OF l s2]
    show ?thesis
    proof (cases x)
      case (Some y)
      then show ?thesis using run Inr rs ls by (auto simp: save_config_def r l)
    next
      case None
      then have "commit_both c cn (set_active_config cn p) d3 = (e, d1)" using run Inr ls by (simp add: save_config_def r l)
      from commit_both_sound [OF this _ _ ints] show ?thesis
        using ls rs Inr set_active_config_sound [OF _ ints, of p] by simp
    qed
  qed
qed

lemma commit_both_failures:
  assumes "commit_both c cn p d = (e, d1)" and "one_failure d"
  shows "one_failure d1"
proof -
  obtain x d2 where x: "save_config_file cn d = (x, d2)" by (metis surj_pair)
  have one: "one_failure d2" using save_config_file_cases [OF x assms(2)] by blast
  obtain y d3 where y: "write_profiles p d2 = (y, d3)" by (metis surj_pair)
  have three: "one_failure d3" using write_profiles_cases [OF y one] by blast
  obtain v d4 where v: "save_config_file c d3 = (v, d4)" by (metis surj_pair)
  have "one_failure d4" using save_config_file_cases [OF v three] by blast
  then show ?thesis using assms(1) one three by (cases x; cases y) (auto simp: commit_both_def x y v)
qed

lemma save_config_failures:
  assumes run: "save_config cn d = (e, d1)" and sound: "sound_panel c d" "one_failure d"
  shows "one_failure d1"
proof -
  obtain r d2 where r: "read_profiles d = (r, d2)" by (metis surj_pair)
  have s2: "sound_panel c d2" "one_failure d2" using read_profiles_sound [OF r sound] by auto
  obtain old x d3 where l: "load_config_file d2 = ((old, x), d3)" by (metis surj_pair)
  have "one_failure d3" using load_config_sound [OF l s2] by blast
  then show ?thesis
    using run s2 commit_both_failures by (cases r; cases x) (auto simp: save_config_def r l)
qed

lemma select_profile_sound:
  assumes run: "select_profile running i p d = ((status, j), d1)" and sound: "sound_panel c d" "one_failure d"
    and ok: "profiles_ok p" "active_config p = c"
  shows "(\<exists>cn. sound_panel cn d1 \<and>
      (if status = 200 then (\<exists>v. profile_by_id p i = Some v \<and> cn = pf_config v) else cn = c \<and> pd_profiles d1 = pd_profiles d)) \<and>
    (status = 200 \<longrightarrow> i \<noteq> ps_active p \<longrightarrow> \<not> running)"
proof (cases "profile_by_id p i")
  case None
  then show ?thesis using run sound by (auto simp: select_profile_def error_reply_def)
next
  case (Some v)
  have v: "v \<in> set (items (ps_profiles p))" "pf_id v = i"
    using Some profile_by_id_iff ok(1) by (simp_all add: profiles_ok_iff)
  show ?thesis
  proof (cases "validate_profile (pf_config v) = None \<and> i \<noteq> ps_active p \<and> \<not> running")
    case False
    then consider (no) "status \<noteq> 200" "d1 = d" | (same) "i = ps_active p" "status = 200" "d1 = d"
      using run Some by (auto simp: select_profile_def error_reply_def split: option.splits if_splits)
    then show ?thesis
    proof cases
      case same
      then have "active_config p = pf_config v" using active_config_eq [OF ok(1) v(1)] v(2) by simp
      then show ?thesis using same sound ok(2) Some by auto
    qed (use sound in auto)
  next
    case True
    obtain old x d2 where l: "load_config_file d = ((old, x), d2)" by (metis surj_pair)
    note ls = load_config_sound [OF l sound]
    show ?thesis
    proof (cases x)
      case (Some y)
      then have "status = 500" "d1 = d2" using run True \<open>profile_by_id p i = Some v\<close>
        by (simp_all add: select_profile_def l error_reply_def)
      then show ?thesis using ls by auto
    next
      case None
      let ?p = "p\<lparr>ps_active := i\<rparr>"
      obtain e d3 where c: "commit_both c (pf_config v) ?p d2 = (e, d3)" by (metis surj_pair)
      have ok': "profiles_ok ?p" using ok(1) v by (auto simp: profiles_ok_iff)
      moreover have "active_config ?p = pf_config v" using active_config_eq [OF ok', of v] v by simp
      ultimately have "(e = None \<longrightarrow> sound_panel (pf_config v) d3) \<and>
          (e \<noteq> None \<longrightarrow> sound_panel c d3 \<and> pd_profiles d3 = pd_profiles d2)"
        using commit_both_sound [OF c] ls v(1) ok(1) by (simp add: profiles_ok_iff)
      moreover have "d1 = d3 \<and> status = (if e = None then 200 else 500)"
        using run True \<open>profile_by_id p i = Some v\<close> None ls c
        by (cases e) (simp_all add: select_profile_def l error_reply_def)
      ultimately show ?thesis using True \<open>profile_by_id p i = Some v\<close> ls by (cases e) auto
    qed
  qed
qed

theorem api_profiles_sound:
  assumes run: "api_profiles i running meth body d = ((status, j), d1)" and sound: "sound_panel c d" "one_failure d"
    and fresh: "fresh_id i d"
  shows "\<exists>cn. sound_panel cn d1 \<and> (status \<noteq> 200 \<longrightarrow> cn = c \<and> pd_profiles d1 = pd_profiles d) \<and> (running \<longrightarrow> cn = c)"
proof -
  obtain r d2 where r: "read_profiles d = (r, d2)" by (metis surj_pair)
  note rs = read_profiles_sound [OF r sound]
  show ?thesis
  proof (cases r)
    case (Inl x)
    then have "status = 500" "d1 = d2" using run by (simp_all add: api_profiles_def r error_reply_def)
    then show ?thesis using rs by auto
  next
    case (Inr p)
    have p: "profiles_ok p" "active_config p = c" "sound_panel c d2" "one_failure d2" "pd_profiles d2 = pd_profiles d"
      using rs Inr by auto
    obtain q0 bad where q0: "decode_first (len_struct profile_request_field) (take 4096 body)
        \<lparr>pq_action = [], pq_id = [], pq_name = []\<rparr> = (q0, bad)" by (metis surj_pair)
    let ?q = "q0\<lparr>pq_name := trim_unicode (pq_name q0)\<rparr>"
    consider (plain) "d1 = d2"
      | (select) "select_profile running (pq_id ?q) p d2 = ((status, j), d1)"
      | (edit) p1 e where "edit_profiles i ?q p = Inr p1" "write_profiles p1 d2 = (e, d1)" "status = (if e = None then 200 else 500)"
    proof -
      have "d1 = d2 \<or> select_profile running (pq_id ?q) p d2 = ((status, j), d1) \<or>
          (\<exists>p1 e. edit_profiles i ?q p = Inr p1 \<and> write_profiles p1 d2 = (e, d1) \<and> status = (if e = None then 200 else 500))"
        using run Inr q0 unfolding api_profiles_def r
        by (cases bad; cases "edit_profiles i ?q p"; cases "write_profiles (projr (edit_profiles i ?q p)) d2";
            cases "fst (write_profiles (projr (edit_profiles i ?q p)) d2)")
          (auto simp: error_reply_def Let_def split: if_splits)
      then show thesis using plain select edit by blast
    qed
    then show ?thesis
    proof cases
      case plain
      then show ?thesis using p by auto
    next
      case select
      obtain cn where cn: "sound_panel cn d1"
        "if status = 200 then (\<exists>v. profile_by_id p (pq_id ?q) = Some v \<and> cn = pf_config v) else cn = c \<and> pd_profiles d1 = pd_profiles d2"
        "status = 200 \<longrightarrow> pq_id ?q \<noteq> ps_active p \<longrightarrow> \<not> running"
        using select_profile_sound [OF select p(3,4,1,2)] by blast
      have "cn = c" if "running"
      proof (cases "status = 200")
        case True
        then have "pq_id ?q = ps_active p" using cn(3) that by blast
        then show ?thesis using cn(2) True p(2) by (auto simp: active_config_def)
      qed (use cn(2) in simp)
      then show ?thesis using cn p(5) by (cases "status = 200") auto
    next
      case (edit p1 e)
      have "i \<notin> pf_id ` set (items (ps_profiles p))" "i \<noteq> []"
        using rs Inr fresh p(1) by (auto simp: fresh_id_def default_profiles_def split: option.splits)
      from edit_profiles_sound [OF edit(1) p(1) this(2,1)]
      have p1: "profiles_ok p1" "active_config p1 = c" using p(2) by simp_all
      note w = write_profiles_cases [OF edit(2) p(4)]
      show ?thesis
        using w p1 p(3,5) edit(3) by (cases e) (auto simp: sound_panel_def split: option.splits)
    qed
  qed
qed

end
