(* ===== verification/Panel.thy ===== *)
theory Panel
  imports Profiles
begin

text \<open>
  The requests of the web control panel that change its configuration or its engines: the handlers of
  \<open>cmd/tun2proxy-web/main.go\<close> and \<open>apiEBPF\<close>. A request body is the text of the request; a reply is its status and
  its JSON value. The messages of JSON errors are not spelled out.
\<close>

section \<open>The configuration\<close>

definition normalise_config :: "web_config \<Rightarrow> web_config" where
  "normalise_config c =
     c\<lparr>wc_dns_mode := (if wc_dns_mode c = [] then ''virtual'' else wc_dns_mode c),
       wc_tun_name := (if wc_tun_name c = [] then ''tun0'' else wc_tun_name c),
       wc_tcp_timeout := (if wc_tcp_timeout c \<le> 0 then 30 else wc_tcp_timeout c),
       wc_udp_timeout := (if wc_udp_timeout c \<le> 0 then 30 else wc_udp_timeout c),
       wc_version := ''1.0''\<rparr>"

definition api_config_get :: "panel_disk \<Rightarrow> web_reply \<times> panel_disk" where
  "api_config_get d =
     (case load_config_file d of
        ((_, Some e), d1) \<Rightarrow> (error_reply 500 (error_text e), d1)
      | ((c, None), d1) \<Rightarrow> ((200, web_config_json c), d1))"

definition api_config_put :: "string \<Rightarrow> panel_disk \<Rightarrow> web_reply \<times> panel_disk" where
  "api_config_put body d =
     (case decode_first len_web_config body zero_web_config of
        (_, True) \<Rightarrow> (error_reply 400 ''Invalid JSON'', d)
      | (c0, False) \<Rightarrow>
          if wc_proxy_url c0 = [] then (error_reply 400 ''proxy_url is required'', d)
          else let c = normalise_config c0
               in case save_config c d of
                    (Some e, d1) \<Rightarrow> (error_reply 500 (''Failed to save config: '' @ error_text e), d1)
                  | (None, d1) \<Rightarrow> ((200, JObj [(''config'', web_config_json c), (''ok'', JBool True)]), d1))"

definition api_config :: "string \<Rightarrow> string \<Rightarrow> panel_disk \<Rightarrow> web_reply \<times> panel_disk" where
  "api_config meth body d =
     (if meth = ''GET'' then api_config_get d
      else if meth = ''PUT'' then api_config_put body d
      else (error_reply 405 ''Method not allowed'', d))"

section \<open>Starting and stopping\<close>

text \<open>
  What a request meets: whether the TUN engine's binary is missing, the answer of the control script, and the
  process status read afterwards. The result lists the script's actions that were run.
\<close>

record request_env =
  re_binary_missing :: bool
  re_ctl :: "string \<Rightarrow> panel_outcome"
  re_status :: process_status

definition started_reply :: "process_status \<Rightarrow> string \<Rightarrow> web_reply" where
  "started_reply ps out =
     (200, JObj [(''ok'', JBool (pr_running ps)), (''output'', JStr out), (''pid'', JInt (pr_pid ps)),
       (''running'', JBool (pr_running ps))])"

definition failed_reply :: "string \<Rightarrow> string \<Rightarrow> web_reply" where
  "failed_reply msg out = (500, JObj [(''error'', JStr msg), (''ok'', JBool False), (''output'', JStr out)])"

definition control_reply :: "request_env \<Rightarrow> string \<Rightarrow> string \<Rightarrow> web_reply" where
  "control_reply R action msg =
     (case re_ctl R action of (out, Some e) \<Rightarrow> failed_reply msg out | (out, None) \<Rightarrow> started_reply (re_status R) out)"

definition api_start :: "request_env \<Rightarrow> string \<Rightarrow> panel_disk \<Rightarrow> (web_reply \<times> string list) \<times> panel_disk" where
  "api_start R body d =
     (let run = (\<lambda>d.
        case load_config_file d of
          ((c, _), d1) \<Rightarrow>
            if backend_name c = ''tun'' \<and> re_binary_missing R
            then ((error_reply 500 ''tun2proxy binary not found. Build it from the tun2proxy/ submodule.'', []), d1)
            else ((control_reply R ''start'' ''Failed to start proxy backend'', [''start'']), d1))
      in if body = [] then run d
         else case decode_first len_web_config body zero_web_config of
                (c, bad) \<Rightarrow>
                  if bad \<or> wc_proxy_url c = [] then ((error_reply 400 ''Invalid proxy configuration'', []), d)
                  else case save_config c d of
                         (Some e, d1) \<Rightarrow> ((error_reply 500 (''Cannot save configuration: '' @ error_text e), []), d1)
                       | (None, d1) \<Rightarrow> run d1)"

definition api_stop :: "request_env \<Rightarrow> web_reply \<times> string list" where
  "api_stop R =
     ((case re_ctl R ''stop'' of
         (out, Some e) \<Rightarrow> failed_reply ''Failed to stop proxy backend'' out
       | (out, None) \<Rightarrow> (200, JObj [(''ok'', JBool True), (''output'', JStr out)])), [''stop''])"

definition api_restart :: "request_env \<Rightarrow> web_reply \<times> string list" where
  "api_restart R = (control_reply R ''restart'' ''Failed to restart proxy backend'', [''restart''])"

section \<open>The daemon's checks\<close>

definition action_field :: "string \<Rightarrow> string lenient" where
  "action_field k v a = (if fold_eq k ''action'' then len_string v a else (a, False))"

definition checked_reply :: "string \<Rightarrow> panel_outcome \<Rightarrow> web_reply" where
  "checked_reply fallback r =
     (case r of
        (out, Some e) \<Rightarrow> error_reply 400 (if trim_space out = [] then fallback else trim_space out)
      | (out, None) \<Rightarrow> (200, JObj [(''ok'', JBool True), (''output'', JStr (trim_space out))]))"

text \<open>The status is left to the caller, who prints the map.\<close>

definition api_ebpf :: "'w panel_ops \<Rightarrow> panel_paths \<Rightarrow> string \<Rightarrow> string \<Rightarrow> 'w panel_state \<Rightarrow> (status_map + web_reply) \<times> 'w panel_state" where
  "api_ebpf K P meth body s =
     (if meth = ''GET'' then (case ebpf_status K P s of (m, s1) \<Rightarrow> (Inl m, s1))
      else if meth \<noteq> ''POST'' then (Inr (error_reply 405 ''Use GET/POST''), s)
      else case decode_first (len_struct action_field) (take 1024 body) [] of
             (_, True) \<Rightarrow> (Inr (error_reply 400 ''invalid request''), s)
           | (action, False) \<Rightarrow>
               if action = ''check'' then
                 (case ebpf_command K [''check-cgroup'', ''--object'', bpf_object P, ''--cgroup'', ''/sys/fs/cgroup''] s of
                    (r, s1) \<Rightarrow> (Inr (checked_reply ''eBPF binary unavailable or preflight timed out'' r), s1))
               else case op_config K (fst s) of
                      (_, Some e) \<Rightarrow> (Inr (error_reply 500 (error_text e)), s)
                    | (c, None) \<Rightarrow>
                        (case write_ebpf_config K P c s of
                           (Inl e, s1) \<Rightarrow> (Inr (error_reply 400 (error_text e)), s1)
                         | (Inr path, s1) \<Rightarrow>
                             if action \<noteq> ''upstream'' then (Inr (error_reply 400 ''unknown action''), s1)
                             else case ebpf_command K [''probe-upstream'', ''--config'', path] s1 of
                                    (r, s2) \<Rightarrow> (Inr (checked_reply ''eBPF binary unavailable or check timed out'' r), s2)))"

section \<open>The configuration in use\<close>

text \<open>Decoded numbers are in range.\<close>

lemma len_int_range: "int64_range j \<Longrightarrow> int64_range (fst (len_int v j))"
  by (cases v) (auto simp: len_int_def)

lemma web_field_ints: "web_ints_ok c \<Longrightarrow> web_ints_ok (fst (web_field k v c))"
  using len_int_range [of _ v] by (auto simp: web_field_def update_by_def web_ints_ok_def)

lemma len_members_invariant:
  "(\<And>k v r. I r \<Longrightarrow> I (fst (field k v r))) \<Longrightarrow> I r \<Longrightarrow> I (fst (len_members field ms r))"
  by (induction ms arbitrary: r) (auto split: prod.splits, metis fst_conv)

lemma decoded_config_ints:
  assumes "decode_first len_web_config body zero_web_config = (c, bad)"
  shows "web_ints_ok c"
proof -
  have z: "web_ints_ok zero_web_config" by (simp add: web_ints_ok_def zero_web_config_def int64_range_def)
  have "web_ints_ok (fst (len_web_config v zero_web_config))" for v
    using z len_members_invariant [where I = web_ints_ok and field = web_field] web_field_ints
    by (cases v) (auto simp: len_web_config_def len_struct_def)
  then show ?thesis using assms z by (auto simp: decode_first_def split: json_token.splits) (metis fst_conv)
qed

lemma normalise_ints: "web_ints_ok c \<Longrightarrow> web_ints_ok (normalise_config c)"
  by (simp add: web_ints_ok_def normalise_config_def int64_range_def)

lemma api_config_put_sound:
  assumes run: "api_config_put body d = ((status, j), d1)" and sound: "sound_panel c d" "one_failure d"
  shows "(status = 200 \<longrightarrow> (\<exists>c0. decode_first len_web_config body zero_web_config = (c0, False) \<and> wc_proxy_url c0 \<noteq> [] \<and>
      sound_panel (normalise_config c0) d1)) \<and> (status \<noteq> 200 \<longrightarrow> sound_panel c d1 \<and> pd_profiles d1 = pd_profiles d)"
proof -
  obtain c0 bad where dec: "decode_first len_web_config body zero_web_config = (c0, bad)" by (metis surj_pair)
  show ?thesis
  proof (cases "bad \<or> wc_proxy_url c0 = []")
    case True
    then show ?thesis using run sound by (cases bad) (auto simp: api_config_put_def dec error_reply_def)
  next
    case False
    obtain e d2 where s: "save_config (normalise_config c0) d = (e, d2)" by (metis surj_pair)
    note saved = save_config_sound [OF s sound normalise_ints [OF decoded_config_ints [OF dec]]]
    show ?thesis
      using run saved False dec by (cases e) (auto simp: api_config_put_def s Let_def error_reply_def)
  qed
qed

lemma api_start_sound:
  assumes run: "api_start R body d = ((r, acts), d1)" and sound: "sound_panel c d" "one_failure d"
  shows "\<exists>cn. sound_panel cn d1 \<and>
    (cn = c \<or> (\<exists>c0. body \<noteq> [] \<and> decode_first len_web_config body zero_web_config = (c0, False) \<and> wc_proxy_url c0 \<noteq> [] \<and> cn = c0)) \<and>
    (acts \<noteq> [] \<longrightarrow> acts = [''start''] \<and> (body = [] \<or> cn = fst (decode_first len_web_config body zero_web_config)))"
proof -
  have load: "sound_panel cn d3" if "sound_panel cn d2" "one_failure d2" "load_config_file d2 = (x, d3)" for cn d2 x d3
    using load_config_sound [OF _ that(1,2)] that(3) by (metis surj_pair)
  obtain c0 bad where dec: "decode_first len_web_config body zero_web_config = (c0, bad)" by (metis surj_pair)
  consider (empty) "body = []" | (bad) "body \<noteq> []" "bad \<or> wc_proxy_url c0 = []" | (good) "body \<noteq> []" "\<not> bad" "wc_proxy_url c0 \<noteq> []"
    by blast
  then show ?thesis
  proof cases
    case empty
    obtain x d3 where l: "load_config_file d = (x, d3)" by (metis surj_pair)
    then have "d1 = d3" "acts = [] \<or> acts = [''start'']" using run empty by (cases x; auto simp: api_start_def split: if_splits)+
    then show ?thesis using load [OF sound l] empty by auto
  next
    case bad
    then have "d1 = d" "acts = []" using run by (auto simp: api_start_def dec)
    then show ?thesis using sound by auto
  next
    case good
    obtain e d2 where s: "save_config c0 d = (e, d2)" by (metis surj_pair)
    note saved = save_config_sound [OF s sound decoded_config_ints [OF dec]]
    show ?thesis
    proof (cases e)
      case (Some x)
      then have "d1 = d2" "acts = []" using run good by (auto simp: api_start_def dec s)
      then show ?thesis using saved Some by auto
    next
      case None
      obtain x d3 where l: "load_config_file d2 = (x, d3)" by (metis surj_pair)
      have "one_failure d2" using save_config_failures [OF s sound] by blast
      then have "sound_panel c0 d3" using load [OF _ _ l] saved None by blast
      moreover have "d1 = d3" "acts = [] \<or> acts = [''start'']"
        using run good None by (cases x; auto simp: api_start_def dec s l split: if_splits)+
      ultimately show ?thesis using good dec by auto
    qed
  qed
qed

section \<open>Histories of requests\<close>

text \<open>Any request, with at most one failing file operation during it.\<close>

inductive panel_request :: "panel_disk \<Rightarrow> panel_disk \<Rightarrow> bool" where
  profiles: "one_failure (d\<lparr>pd_faults := fs\<rparr>) \<Longrightarrow> fresh_id i d \<Longrightarrow>
    panel_request d (snd (api_profiles i running meth body (d\<lparr>pd_faults := fs\<rparr>)))"
| config: "one_failure (d\<lparr>pd_faults := fs\<rparr>) \<Longrightarrow> panel_request d (snd (api_config meth body (d\<lparr>pd_faults := fs\<rparr>)))"
| begin_engine: "one_failure (d\<lparr>pd_faults := fs\<rparr>) \<Longrightarrow> panel_request d (snd (api_start R body (d\<lparr>pd_faults := fs\<rparr>)))"

inductive panel_reach :: "panel_disk \<Rightarrow> panel_disk \<Rightarrow> bool" for d0 where
  start: "panel_reach d0 d0"
| step: "panel_reach d0 d \<Longrightarrow> panel_request d d' \<Longrightarrow> panel_reach d0 d'"

lemma panel_request_sound:
  assumes "panel_request d d'" and "sound_panel c d"
  shows "\<exists>c'. sound_panel c' d'"
  using assms
proof (induction rule: panel_request.induct)
  case (profiles fs d i running meth body)
  have "sound_panel c (d\<lparr>pd_faults := fs\<rparr>)" using sound_panel_cong [OF profiles(3)] by simp
  moreover have "fresh_id i (d\<lparr>pd_faults := fs\<rparr>)" using profiles(2) by (simp add: fresh_id_def)
  ultimately show ?case
    using api_profiles_sound [OF _ _ profiles(1)] by (metis prod.collapse)
next
  case (config fs d meth body)
  have s: "sound_panel c (d\<lparr>pd_faults := fs\<rparr>)" using sound_panel_cong [OF config(2)] by simp
  obtain x e d2 where l: "load_config_file (d\<lparr>pd_faults := fs\<rparr>) = ((x, e), d2)" by (metis surj_pair)
  have "sound_panel c d2" using load_config_sound [OF l s config(1)] by blast
  then have "sound_panel c (snd (api_config_get (d\<lparr>pd_faults := fs\<rparr>)))"
    by (simp add: api_config_get_def l split: option.split)
  moreover obtain st j d3 where "api_config_put body (d\<lparr>pd_faults := fs\<rparr>) = ((st, j), d3)" by (metis surj_pair)
  ultimately show ?case
    using api_config_put_sound [OF _ s config(1)] s by (fastforce simp: api_config_def)
next
  case (begin_engine fs d R body)
  have s: "sound_panel c (d\<lparr>pd_faults := fs\<rparr>)" using sound_panel_cong [OF begin_engine(2)] by simp
  obtain r acts d3 where "api_start R body (d\<lparr>pd_faults := fs\<rparr>) = ((r, acts), d3)" by (metis surj_pair)
  then show ?case using api_start_sound [OF _ s begin_engine(1)] by fastforce
qed

lemma panel_reach_sound: "panel_reach d0 d \<Longrightarrow> sound_panel c d0 \<Longrightarrow> \<exists>c'. sound_panel c' d"
  by (induction rule: panel_reach.induct) (use panel_request_sound in blast)+

end
