(* ===== verification/Locks.thy ===== *)
theory Locks
  imports Main
begin

text \<open>
  The mutexes of the web control panel: which request handlers take \<open>profileMu\<close>, \<open>lifecycleMu\<close> and \<open>configMu\<close>,
  and in which order. A Go mutex is not reentrant. Handlers run concurrently, so a state is what each of them
  holds and what it has still to do; handlers that follow one order of the mutexes never block each other for good.
\<close>

section \<open>Mutexes and handlers\<close>

datatype mutex = ProfileMu | LifecycleMu | ConfigMu

datatype mutex_op = Acquire mutex | Release mutex

text \<open>\<open>loadConfig\<close> and \<open>saveRuntimeConfig\<close>, a number of times.\<close>

definition config_uses :: "nat \<Rightarrow> mutex_op list" where
  "config_uses n = concat (replicate n [Acquire ConfigMu, Release ConfigMu])"

definition save_config_locks :: "nat \<Rightarrow> mutex_op list" where
  "save_config_locks n = [Acquire ProfileMu] @ config_uses n @ [Release ProfileMu]"

definition profiles_locks :: "nat \<Rightarrow> mutex_op list" where
  "profiles_locks n = [Acquire ProfileMu] @ config_uses n @ [Release ProfileMu]"

definition switch_locks :: "nat \<Rightarrow> nat \<Rightarrow> mutex_op list" where
  "switch_locks n m =
     [Acquire ProfileMu] @ config_uses n @ [Acquire LifecycleMu] @ config_uses m @ [Release LifecycleMu, Release ProfileMu]"

definition lifecycle_locks :: "nat \<Rightarrow> mutex_op list" where
  "lifecycle_locks n = [Acquire LifecycleMu] @ config_uses n @ [Release LifecycleMu]"

definition start_save_locks :: "nat \<Rightarrow> nat \<Rightarrow> mutex_op list" where
  "start_save_locks n m = [Acquire LifecycleMu] @ save_config_locks n @ config_uses m @ [Release LifecycleMu]"

text \<open>The handlers, but for a start request that carries a configuration.\<close>

inductive plain_handler :: "mutex_op list \<Rightarrow> bool" where
  config_read: "plain_handler (config_uses n)"
| config_write: "plain_handler (save_config_locks n)"
| profile_request: "plain_handler (profiles_locks n)"
| profile_switch: "plain_handler (switch_locks n m)"
| lifecycle_request: "plain_handler (lifecycle_locks n)"

section \<open>Running handlers\<close>

text \<open>What each handler holds, and its operations to come.\<close>

type_synonym handlers = "(mutex list \<times> mutex_op list) list"

definition fresh_handlers :: "mutex_op list list \<Rightarrow> handlers" where
  "fresh_handlers ps = map (\<lambda>p. ([], p)) ps"

definition all_done :: "handlers \<Rightarrow> bool" where
  "all_done ts \<longleftrightarrow> list_all (\<lambda>t. snd t = []) ts"

inductive mutex_step :: "handlers \<Rightarrow> handlers \<Rightarrow> bool" where
  acquire: "i < length ts \<Longrightarrow> ts ! i = (H, Acquire l # ops) \<Longrightarrow> \<forall>t \<in> set ts. l \<notin> set (fst t) \<Longrightarrow>
    mutex_step ts (ts[i := (l # H, ops)])"
| release: "i < length ts \<Longrightarrow> ts ! i = (H, Release l # ops) \<Longrightarrow> mutex_step ts (ts[i := (removeAll l H, ops)])"

inductive mutex_reach :: "handlers \<Rightarrow> handlers \<Rightarrow> bool" for ts0 where
  start: "mutex_reach ts0 ts0"
| step: "mutex_reach ts0 ts \<Longrightarrow> mutex_step ts ts' \<Longrightarrow> mutex_reach ts0 ts'"

section \<open>One order of the mutexes\<close>

fun mutex_rank :: "mutex \<Rightarrow> nat" where
  "mutex_rank ProfileMu = 0"
| "mutex_rank LifecycleMu = 1"
| "mutex_rank ConfigMu = 2"

text \<open>Every mutex is taken above those held, and all are given back.\<close>

fun in_order :: "mutex list \<Rightarrow> mutex_op list \<Rightarrow> bool" where
  "in_order H [] \<longleftrightarrow> H = []"
| "in_order H (Acquire l # ops) \<longleftrightarrow> (\<forall>h \<in> set H. mutex_rank h < mutex_rank l) \<and> in_order (l # H) ops"
| "in_order H (Release l # ops) \<longleftrightarrow> l \<in> set H \<and> in_order (removeAll l H) ops"

lemma in_order_config:
  "ConfigMu \<notin> set H \<Longrightarrow> in_order H (config_uses n @ ops) \<longleftrightarrow> in_order H ops"
proof -
  assume c: "ConfigMu \<notin> set H"
  have "mutex_rank h < 2" if "h \<in> set H" for h using c that by (cases h) auto
  then show ?thesis using c by (induction n) (auto simp: config_uses_def)
qed

lemma in_order_handler: "plain_handler p \<Longrightarrow> in_order [] p"
proof (induction rule: plain_handler.induct)
  case (config_read n)
  then show ?case using in_order_config [of "[]" n "[]"] by simp
qed (simp_all add: save_config_locks_def profiles_locks_def switch_locks_def lifecycle_locks_def in_order_config)

lemma mutex_step_order:
  "mutex_step ts ts' \<Longrightarrow> \<forall>t \<in> set ts. in_order (fst t) (snd t) \<Longrightarrow> \<forall>t \<in> set ts'. in_order (fst t) (snd t)"
proof (induction rule: mutex_step.induct)
  case (acquire i ts H l ops)
  then have "in_order H (Acquire l # ops)" using nth_mem [of i ts] by fastforce
  then show ?case using acquire(4) by (auto dest!: set_update_subset_insert [THEN subsetD])
next
  case (release i ts H l ops)
  then have "in_order H (Release l # ops)" using nth_mem [of i ts] by fastforce
  then show ?case using release(3) by (auto dest!: set_update_subset_insert [THEN subsetD])
qed

text \<open>The mutex a handler waits for.\<close>

fun wanted :: "mutex_op list \<Rightarrow> mutex option" where
  "wanted (Acquire l # ops) = Some l"
| "wanted _ = None"

lemma ordered_progress:
  assumes order: "\<forall>t \<in> set ts. in_order (fst t) (snd t)" and busy: "\<not> all_done ts"
  shows "\<exists>ts'. mutex_step ts ts'"
proof (rule ccontr)
  assume stuck: "\<nexists>ts'. mutex_step ts ts'"
  let ?W = "{l. \<exists>t \<in> set ts. wanted (snd t) = Some l}"
  have waits: "\<exists>l. wanted (snd t) = Some l \<and> (\<exists>u \<in> set ts. l \<in> set (fst u))" if t: "t \<in> set ts" "snd t \<noteq> []" for t
  proof -
    obtain i where i: "i < length ts" "ts ! i = t" using t(1) by (metis in_set_conv_nth)
    obtain H x ops where h: "t = (H, x # ops)" using t(2) by (cases t; cases "snd t") auto
    show ?thesis
    proof (cases x)
      case (Acquire l)
      then show ?thesis using stuck mutex_step.acquire [of i ts H l ops] i h by auto
    next
      case (Release l)
      then show ?thesis using stuck mutex_step.release [of i ts H l ops] i h by auto
    qed
  qed
  have "finite ?W" by (rule finite_subset [of _ "{ProfileMu, LifecycleMu, ConfigMu}"]) (auto intro: mutex.exhaust)
  moreover have "?W \<noteq> {}"
  proof -
    obtain t where t: "t \<in> set ts" "snd t \<noteq> []" using busy by (auto simp: all_done_def list_all_iff)
    then show ?thesis using waits [OF t] by blast
  qed
  ultimately obtain l where l: "l \<in> ?W" "\<forall>l' \<in> ?W. mutex_rank l' \<le> mutex_rank l"
    using Max_in [of "mutex_rank ` ?W"] Max_ge [of "mutex_rank ` ?W"] by fastforce
  then obtain t where t: "t \<in> set ts" "wanted (snd t) = Some l" by blast
  then obtain u where u: "u \<in> set ts" "l \<in> set (fst u)" using waits [OF t(1)] by fastforce
  have ou: "in_order (fst u) (snd u)" using order u(1) by blast
  then have "snd u \<noteq> []" using u(2) by (cases "snd u") auto
  then obtain l' where l': "wanted (snd u) = Some l'" using waits [OF u(1)] by blast
  then obtain ops where "snd u = Acquire l' # ops" by (cases "snd u" rule: wanted.cases) auto
  then have "mutex_rank l < mutex_rank l'" using ou u(2) by simp
  moreover have "l' \<in> ?W" using u(1) l' by blast
  ultimately show False using l(2) by fastforce
qed

lemma reach_order:
  assumes "mutex_reach (fresh_handlers ps) ts" and "\<forall>p \<in> set ps. plain_handler p"
  shows "\<forall>t \<in> set ts. in_order (fst t) (snd t)"
  using assms(1)
proof (induction rule: mutex_reach.induct)
  case start
  then show ?case using assms(2) in_order_handler by (auto simp: fresh_handlers_def)
qed (use mutex_step_order in blast)

section \<open>A start request that carries a configuration\<close>

text \<open>Each of the two holds what the other waits for.\<close>

lemma start_save_blocks:
  "mutex_reach (fresh_handlers [switch_locks 0 m, start_save_locks n k])
     [([ProfileMu], drop 1 (switch_locks 0 m)), ([LifecycleMu], drop 1 (start_save_locks n k))]"
proof -
  let ?p = "switch_locks 0 m" and ?q = "start_save_locks n k"
  have p: "?p = Acquire ProfileMu # drop 1 ?p" and q: "?q = Acquire LifecycleMu # drop 1 ?q"
    by (simp_all add: switch_locks_def start_save_locks_def config_uses_def)
  have "mutex_step (fresh_handlers [?p, ?q]) ((fresh_handlers [?p, ?q])[0 := ([ProfileMu], drop 1 ?p)])"
    using p by (intro mutex_step.acquire) (auto simp: fresh_handlers_def)
  then have 1: "mutex_reach (fresh_handlers [?p, ?q]) [([ProfileMu], drop 1 ?p), ([], ?q)]"
    using mutex_reach.step [OF mutex_reach.start] by (simp add: fresh_handlers_def)
  have "mutex_step [([ProfileMu], drop 1 ?p), ([], ?q)] ([([ProfileMu], drop 1 ?p), ([], ?q)][1 := ([LifecycleMu], drop 1 ?q)])"
    using q by (intro mutex_step.acquire) auto
  then show ?thesis using mutex_reach.step [OF 1] by simp
qed

lemma crossed_stuck:
  "\<not> mutex_step [([ProfileMu], Acquire LifecycleMu # p), ([LifecycleMu], Acquire ProfileMu # q)] ts"
proof
  assume "mutex_step [([ProfileMu], Acquire LifecycleMu # p), ([LifecycleMu], Acquire ProfileMu # q)] ts"
  then show False by cases (auto simp: less_Suc_eq nth_Cons split: nat.splits)
qed

end
