(* ===== verification/CertStore.thy ===== *)
theory CertStore
  imports Webconf "HOL-Library.AList"
begin

text \<open>
  The store of CA certificates of the web panel: \<open>cmd/tun2proxy-web/certificate/store.go\<close> and the identifiers and
  file names of \<open>certificate.go\<close>. Decoding a certificate (X.509, SM2) is the parameter \<open>parse\<close>; a map is an
  association list in the order in which Go happens to visit it; times are seconds.
\<close>

section \<open>Certificates\<close>

record certificate =
  ct_id :: string
  ct_subject :: string
  ct_type :: string
  ct_hash :: string
  ct_before :: int
  ct_after :: int
  ct_pem :: string

definition valid_id :: "string \<Rightarrow> bool" where
  "valid_id s \<longleftrightarrow> length s = 64 \<and> list_all (\<lambda>c. is_digit c \<or> c \<in> set ''abcdef'') s"

definition max_certificate :: nat where
  "max_certificate = 256 * 1024"

text \<open>
  The name of a certificate file is its subject hash and the first free number, unless the certificate has a
  file already. \<open>existing\<close> maps names to identifiers. The search stops within one more step than there are names.
\<close>

fun free_name :: "nat \<Rightarrow> nat \<Rightarrow> certificate \<Rightarrow> (string \<times> string) list \<Rightarrow> (string \<times> bool) option" where
  "free_name 0 i c existing = None"
| "free_name (Suc n) i c existing =
     (let name = ct_hash c @ ''.'' @ utoa i
      in case map_of existing name of
           None \<Rightarrow> Some (name, False)
         | Some j \<Rightarrow> if j = ct_id c then Some (name, True) else free_name n (Suc i) c existing)"

definition allocate_name :: "certificate \<Rightarrow> (string \<times> string) list \<Rightarrow> (string \<times> bool) option" where
  "allocate_name c existing =
     (case find (\<lambda>(name, j). j = ct_id c) existing of
        Some (name, _) \<Rightarrow> Some (name, True)
      | None \<Rightarrow> free_name (Suc (length existing)) 0 c existing)"

section \<open>The inventory\<close>

record cert_entry =
  en_cert :: certificate
  en_source :: string
  en_managed :: bool
  en_created :: int
  en_updated :: int

record remote =
  rm_local :: string
  rm_remote :: string
  rm_endpoint :: string
  rm_checked :: int
  rm_history :: "string list"

record inventory =
  iv_version :: int
  iv_entries :: "(string \<times> cert_entry) list"
  iv_yakit :: "(string \<times> remote) list"

definition empty_inventory :: inventory where
  "empty_inventory = \<lparr>iv_version = 1, iv_entries = [], iv_yakit = []\<rparr>"

text \<open>The text of the inventory file: not decodable, decodable with a missing map, or an inventory.\<close>

datatype inventory_text = Damaged | NullMaps | Stored inventory

text \<open>
  The store: the inventory file, the object files with their bytes, objects that are no regular files, and how
  the coming reads, replacements and removals end.
\<close>

record store_disk =
  sd_inventory :: "inventory_text option"
  sd_objects :: "string \<rightharpoonup> string"
  sd_odd :: "string \<Rightarrow> bool"
  sd_faults :: "gerr option list"

definition store_fault :: "store_disk \<Rightarrow> gerr option \<times> store_disk" where
  "store_fault d = (case sd_faults d of [] \<Rightarrow> (None, d) | e # es \<Rightarrow> (e, d\<lparr>sd_faults := es\<rparr>))"

definition check_inventory :: "inventory \<Rightarrow> gerr + inventory" where
  "check_inventory v =
     (if iv_version v \<noteq> 1 then Inl (Err ''invalid certificate inventory'')
      else if \<not> list_all (\<lambda>(i, e). valid_id i \<and> ct_id (en_cert e) = i) (iv_entries v) then Inl (Err ''invalid inventory ID'')
      else Inr v)"

definition store_load :: "store_disk \<Rightarrow> (gerr + inventory) \<times> store_disk" where
  "store_load d =
     (case store_fault d of (e, d1) \<Rightarrow>
      (case (e, sd_inventory d) of
         (Some x, _) \<Rightarrow> (if x = NotExist then Inr empty_inventory else Inl x, d1)
       | (None, None) \<Rightarrow> (Inr empty_inventory, d1)
       | (None, Some Damaged) \<Rightarrow> (Inl (Err ''json''), d1)
       | (None, Some NullMaps) \<Rightarrow> (Inl (Err ''invalid certificate inventory''), d1)
       | (None, Some (Stored v)) \<Rightarrow> (check_inventory v, d1)))"

text \<open>The file holds no certificate bytes; they are in the objects.\<close>

definition stored_form :: "inventory \<Rightarrow> inventory" where
  "stored_form v =
     v\<lparr>iv_entries := map (\<lambda>(i, e). (i, e\<lparr>en_cert := (en_cert e)\<lparr>ct_pem := []\<rparr>\<rparr>)) (iv_entries v)\<rparr>"

text \<open>\<open>Atomic\<close>: a staging file, synced and renamed; a failure leaves the old file.\<close>

definition store_save :: "inventory \<Rightarrow> store_disk \<Rightarrow> gerr option \<times> store_disk" where
  "store_save v d =
     (case store_fault d of (Some e, d1) \<Rightarrow> (Some e, d1) | (None, d1) \<Rightarrow> (None, d1\<lparr>sd_inventory := Some (Stored (stored_form v))\<rparr>))"

definition store_read :: "(string \<Rightarrow> gerr + certificate) \<Rightarrow> string \<Rightarrow> store_disk \<Rightarrow> (gerr + certificate) \<times> store_disk" where
  "store_read parse i d =
     (if \<not> valid_id i then (Inl (Err ''invalid certificate ID''), d)
      else case store_fault d of (e, d1) \<Rightarrow>
        (case (e, sd_objects d i) of
           (Some x, _) \<Rightarrow> (Inl x, d1)
         | (None, None) \<Rightarrow> (Inl NotExist, d1)
         | (None, Some b) \<Rightarrow>
             if sd_odd d i then (Inl (Err ''certificate object must be a regular file''), d1)
             else (case parse b of
                     Inl x \<Rightarrow> (Inl x, d1)
                   | Inr c \<Rightarrow>
                       (if ct_id c \<noteq> i then Inl (Err ''certificate fingerprint mismatch'') else Inr c, d1))))"

text \<open>A new certificate: its object first, then the entry, in memory.\<close>

definition store_put :: "inventory \<Rightarrow> certificate \<Rightarrow> string \<Rightarrow> int \<Rightarrow> store_disk \<Rightarrow> (gerr + cert_entry) \<times> inventory \<times> store_disk" where
  "store_put v c source now d =
     (if \<not> valid_id (ct_id c) then (Inl (Err ''invalid certificate ID''), v, d)
      else case map_of (iv_entries v) (ct_id c) of
             Some e \<Rightarrow> (Inr e, v, d)
           | None \<Rightarrow>
               (case store_fault d of
                  (Some x, d1) \<Rightarrow> (Inl x, v, d1)
                | (None, d1) \<Rightarrow>
                    let e = \<lparr>en_cert = c, en_source = source, en_managed = False, en_created = now, en_updated = now\<rparr>
                    in (Inr e, v\<lparr>iv_entries := AList.update (ct_id c) e (iv_entries v)\<rparr>,
                        d1\<lparr>sd_objects := (sd_objects d1)(ct_id c \<mapsto> ct_pem c)\<rparr>)))"

text \<open>A deletion: the entry goes from the file before the object goes.\<close>

definition forget_remote :: "string \<Rightarrow> remote \<Rightarrow> remote" where
  "forget_remote i r =
     r\<lparr>rm_local := (if rm_local r = i then [] else rm_local r), rm_history := filter (\<lambda>j. j \<noteq> i) (rm_history r)\<rparr>"

definition forget_entry :: "string \<Rightarrow> inventory \<Rightarrow> inventory" where
  "forget_entry i v =
     v\<lparr>iv_yakit := map (\<lambda>(k, r). (k, forget_remote i r)) (iv_yakit v), iv_entries := AList.delete i (iv_entries v)\<rparr>"

definition store_delete :: "inventory \<Rightarrow> string \<Rightarrow> store_disk \<Rightarrow> gerr option \<times> store_disk" where
  "store_delete v i d =
     (if \<not> valid_id i then (Some (Err ''invalid certificate ID''), d)
      else case map_of (iv_entries v) i of
             None \<Rightarrow> (Some (Err ''certificate not found''), d)
           | Some e \<Rightarrow>
               if en_managed e then (Some (Err ''remove from system before deleting cache''), d)
               else case store_save (forget_entry i v) d of
                      (Some x, d1) \<Rightarrow> (Some x, d1)
                    | (None, d1) \<Rightarrow>
                        (case store_fault d1 of
                           (Some x, d2) \<Rightarrow> (Some x, d2)
                         | (None, d2) \<Rightarrow>
                             if sd_objects d2 i = None then (Some NotExist, d2)
                             else (None, d2\<lparr>sd_objects := (sd_objects d2)(i := None)\<rparr>)))"

text \<open>The entries by identifier.\<close>

fun id_less :: "string \<Rightarrow> string \<Rightarrow> bool" where
  "id_less s [] = False"
| "id_less [] (d # t) = True"
| "id_less (c # s) (d # t) = ((of_char c :: nat) < of_char d \<or> (c = d \<and> id_less s t))"

fun insert_entry :: "cert_entry \<Rightarrow> cert_entry list \<Rightarrow> cert_entry list" where
  "insert_entry e [] = [e]"
| "insert_entry e (x # xs) =
     (if id_less (ct_id (en_cert x)) (ct_id (en_cert e)) then x # insert_entry e xs else e # x # xs)"

definition sorted_entries :: "inventory \<Rightarrow> cert_entry list" where
  "sorted_entries v = foldr insert_entry (map snd (iv_entries v)) []"

lemma set_sorted_entries: "set (sorted_entries v) = snd ` set (iv_entries v)"
proof -
  have "set (insert_entry e xs) = insert e (set xs)" for e xs
    by (induction xs) auto
  then have "set (foldr insert_entry es []) = set es" for es
    by (induction es) auto
  then show ?thesis by (simp add: sorted_entries_def)
qed

section \<open>A name is always found\<close>

lemma utoa_suffix_inject: "h @ ''.'' @ utoa i = h @ ''.'' @ utoa j \<longleftrightarrow> i = j"
  by simp

lemma free_name_taken:
  "free_name n i c existing = None \<Longrightarrow> (\<lambda>k. ct_hash c @ ''.'' @ utoa k) ` {i ..< i + n} \<subseteq> fst ` set existing"
proof (induction n arbitrary: i)
  case (Suc n)
  then obtain j where j: "map_of existing (ct_hash c @ ''.'' @ utoa i) = Some j" "free_name n (Suc i) c existing = None"
    by (auto simp: Let_def split: option.splits if_splits)
  have "{i ..< i + Suc n} = insert i {Suc i ..< Suc i + n}" by auto
  moreover have "ct_hash c @ ''.'' @ utoa i \<in> fst ` set existing" using map_of_SomeD [OF j(1)] by (force simp: image_iff)
  ultimately show ?case using Suc.IH [OF j(2)] by simp
qed simp

lemma free_name_found: "free_name (Suc (length existing)) i c existing \<noteq> None"
proof
  let ?n = "Suc (length existing)" and ?f = "\<lambda>k. ct_hash c @ ''.'' @ utoa k"
  assume "free_name ?n i c existing = None"
  from free_name_taken [OF this] have "card (?f ` {i ..< i + ?n}) \<le> card (fst ` set existing)"
    by (intro card_mono) auto
  also have "\<dots> \<le> length existing" by (metis card_image_le card_length le_trans List.finite_set)
  also have "card (?f ` {i ..< i + ?n}) = ?n" by (subst card_image) (auto simp: inj_on_def)
  finally show False by simp
qed

lemma free_name_sound:
  "free_name n i c existing = Some (name, present) \<Longrightarrow>
     (if present then map_of existing name = Some (ct_id c) else map_of existing name = None)"
  by (induction n arbitrary: i) (auto simp: Let_def split: option.splits if_splits)

text \<open>The name is free, or a file that holds this certificate.\<close>

lemma allocate_name_sound:
  assumes "distinct (map fst existing)"
  shows "\<exists>name present. allocate_name c existing = Some (name, present) \<and>
    (if present then map_of existing name = Some (ct_id c) else map_of existing name = None)"
proof (cases "find (\<lambda>(name, j). j = ct_id c) existing")
  case None
  obtain name present where "free_name (Suc (length existing)) 0 c existing = Some (name, present)"
    using free_name_found by (metis not_None_eq surj_pair)
  then show ?thesis using None free_name_sound by (fastforce simp: allocate_name_def)
next
  case (Some x)
  then have "x \<in> set existing" "(case x of (name, j) \<Rightarrow> j = ct_id c)" by (auto simp: find_Some_iff intro: nth_mem)
  then obtain name where x: "x = (name, ct_id c)" "(name, ct_id c) \<in> set existing" by (cases x) auto
  then show ?thesis using Some assms by (auto simp: allocate_name_def)
qed

section \<open>No entry without its object\<close>

text \<open>Every entry of the inventory file has its object; an inventory in memory may be ahead of the file.\<close>

definition backed :: "inventory \<Rightarrow> store_disk \<Rightarrow> bool" where
  "backed v d \<longleftrightarrow> dom (map_of (iv_entries v)) \<subseteq> dom (sd_objects d)"

definition store_ok :: "store_disk \<Rightarrow> bool" where
  "store_ok d \<longleftrightarrow> (case sd_inventory d of Some (Stored v) \<Rightarrow> backed v d | _ \<Rightarrow> True)"

lemma store_fault_same:
  assumes "store_fault d = (e, d1)"
  shows "sd_inventory d1 = sd_inventory d \<and> sd_objects d1 = sd_objects d \<and> sd_odd d1 = sd_odd d"
  using assms by (auto simp: store_fault_def split: list.splits)

lemma backed_same: "sd_objects d1 = sd_objects d \<Longrightarrow> backed v d1 = backed v d"
  by (simp add: backed_def)

lemma store_ok_same: "sd_objects d1 = sd_objects d \<Longrightarrow> sd_inventory d1 = sd_inventory d \<Longrightarrow> store_ok d1 = store_ok d"
  by (simp add: store_ok_def backed_def split: option.split inventory_text.split)

lemma backed_stored_form [simp]: "backed (stored_form v) d = backed v d"
  by (simp add: backed_def stored_form_def map_of_map dom_def)

lemma store_load_backed:
  assumes "store_load d = (r, d1)" and "store_ok d"
  shows "sd_inventory d1 = sd_inventory d \<and> sd_objects d1 = sd_objects d \<and> store_ok d1 \<and>
    (case r of Inr v \<Rightarrow> backed v d1 \<and> iv_version v = 1 | Inl e \<Rightarrow> True)"
proof -
  obtain e d2 where f: "store_fault d = (e, d2)" by (metis surj_pair)
  then show ?thesis
    using assms store_fault_same [OF f]
    by (auto simp: store_load_def check_inventory_def store_ok_def backed_def empty_inventory_def
        split: option.splits inventory_text.splits if_splits)
qed

lemma store_save_backed:
  assumes "store_save v d = (e, d1)" and "store_ok d" and "backed v d"
  shows "store_ok d1 \<and> sd_objects d1 = sd_objects d \<and>
    (if e = None then sd_inventory d1 = Some (Stored (stored_form v)) else sd_inventory d1 = sd_inventory d)"
proof -
  obtain x d2 where f: "store_fault d = (x, d2)" by (metis surj_pair)
  note same = store_fault_same [OF f]
  show ?thesis
  proof (cases x)
    case (Some y)
    then have "e = Some y" "d1 = d2" using assms(1) f by (simp_all add: store_save_def)
    then show ?thesis using same assms(2) store_ok_same [of d2 d] by simp
  next
    case None
    then have "e = None" "d1 = d2\<lparr>sd_inventory := Some (Stored (stored_form v))\<rparr>" using assms(1) f by (simp_all add: store_save_def)
    then show ?thesis using same assms(3) backed_same [of d1 d v] by (simp add: store_ok_def)
  qed
qed

lemma store_put_backed:
  assumes "store_put v c source now d = (r, v1, d1)" and "store_ok d" and "backed v d"
  shows "store_ok d1 \<and> backed v1 d1 \<and> sd_inventory d1 = sd_inventory d \<and>
    (case r of Inl e \<Rightarrow> v1 = v | Inr e \<Rightarrow> map_of (iv_entries v1) (ct_id c) = Some e \<and> valid_id (ct_id c))"
proof -
  obtain x d2 where f: "store_fault d = (x, d2)" by (metis surj_pair)
  note same = store_fault_same [OF f]
  consider (bad) "\<not> valid_id (ct_id c)" | (known) e where "valid_id (ct_id c)" "map_of (iv_entries v) (ct_id c) = Some e"
    | (fail) y where "valid_id (ct_id c)" "map_of (iv_entries v) (ct_id c) = None" "x = Some y"
    | (new) "valid_id (ct_id c)" "map_of (iv_entries v) (ct_id c) = None" "x = None"
    by (cases "map_of (iv_entries v) (ct_id c)"; cases x) auto
  then show ?thesis
  proof cases
    case new
    let ?e = "\<lparr>en_cert = c, en_source = source, en_managed = False, en_created = now, en_updated = now\<rparr>"
    have r: "r = Inr ?e" "v1 = v\<lparr>iv_entries := AList.update (ct_id c) ?e (iv_entries v)\<rparr>"
      "d1 = d2\<lparr>sd_objects := (sd_objects d2)(ct_id c \<mapsto> ct_pem c)\<rparr>"
      using assms(1) new by (simp_all add: store_put_def f Let_def)
    have "map_of (AList.update (ct_id c) ?e (iv_entries v)) (ct_id c) = Some ?e" by (simp add: update_conv')
    moreover have "dom (map_of (AList.update (ct_id c) ?e (iv_entries v))) = insert (ct_id c) (dom (map_of (iv_entries v)))"
      by (simp add: update_conv')
    ultimately show ?thesis
      using assms(2,3) same new(1) r
      by (auto simp: store_ok_def backed_def simp del: dom_map_of_conv_image_fst split: option.splits inventory_text.splits)
  qed (use assms same in \<open>auto simp: store_put_def f store_ok_def backed_def split: option.splits inventory_text.splits\<close>)
qed

lemma store_delete_backed:
  assumes "store_delete v i d = (e, d1)" and "store_ok d" and "backed v d"
  shows "store_ok d1"
proof (cases "valid_id i \<and> (\<exists>x. map_of (iv_entries v) i = Some x \<and> \<not> en_managed x)")
  case False
  then show ?thesis using assms(1,2) by (auto simp: store_delete_def split: option.splits if_splits)
next
  case True
  then obtain x where x: "map_of (iv_entries v) i = Some x" "\<not> en_managed x" by blast
  obtain s d2 where s: "store_save (forget_entry i v) d = (s, d2)" by (metis surj_pair)
  have "dom (map_of (iv_entries (forget_entry i v))) = dom (map_of (iv_entries v)) - {i}"
    by (simp add: forget_entry_def delete_conv')
  then have b: "backed (forget_entry i v) d" and gone: "i \<notin> dom (map_of (iv_entries (forget_entry i v)))"
    using assms(3) by (auto simp: backed_def simp del: dom_map_of_conv_image_fst)
  note saved = store_save_backed [OF s assms(2) b]
  show ?thesis
  proof (cases s)
    case (Some y)
    then show ?thesis using assms(1) True x s saved by (simp add: store_delete_def)
  next
    case None
    obtain y d3 where f: "store_fault d2 = (y, d3)" by (metis surj_pair)
    note same = store_fault_same [OF f]
    have "store_ok d3" using saved same store_ok_same [of d3 d2] by simp
    moreover have "backed (forget_entry i v) (d3\<lparr>sd_objects := (sd_objects d3)(i := None)\<rparr>)"
      using saved same b gone by (auto simp: backed_def simp del: dom_map_of_conv_image_fst)
    then have "store_ok (d3\<lparr>sd_objects := (sd_objects d3)(i := None)\<rparr>)"
      using saved same None by (simp add: store_ok_def)
    ultimately show ?thesis
      using assms(1) True x s None f by (auto simp: store_delete_def split: option.splits if_splits)
  qed
qed

end
