(* ===== verification/Trust.thy ===== *)
theory Trust
  imports CertStore
begin

text \<open>
  Installing CA certificates into the trust stores of Android: \<open>cmd/tun2proxy-web/cert_mount.go\<close>. A generation is a
  private copy of the store's files with the managed certificates added, bound over the store in every mount
  namespace. What the kernel and the tools answer are the operations \<open>trust_ops\<close>.
\<close>

section \<open>Mounts\<close>

text \<open>\<open>filesystemRoot\<close> and \<open>mountRoot\<close> on the texts of two \<open>mountinfo\<close> files; paths are clean.\<close>

definition mount_lines :: "string \<Rightarrow> string list list" where
  "mount_lines info = filter (\<lambda>f. 5 < length f) (map str_fields (split_on (CHR 0x0A) info))"

definition trim_slash :: "string \<Rightarrow> string" where
  "trim_slash s = (if has_suffix s ''/'' then butlast s else s)"

definition best_mount :: "string \<Rightarrow> string list list \<Rightarrow> string \<times> string" where
  "best_mount path ls =
     foldl (\<lambda>(best, root) f.
         if (path = f ! 4 \<or> has_prefix path (trim_slash (f ! 4) @ ''/'')) \<and> length best < length (f ! 4)
         then (f ! 4, f ! 3) else (best, root))
       ([], []) ls"

definition filesystem_root :: "string \<Rightarrow> string \<Rightarrow> string" where
  "filesystem_root info path =
     (case best_mount path (mount_lines info) of
        (best, root) \<Rightarrow>
          if best = [] then path
          else let rest = trim_prefix path best; r = trim_slash root
               in if rest = [] then root else if has_prefix rest ''/'' then r @ rest else r @ ''/'' @ rest)"

definition mount_root :: "string \<Rightarrow> string \<Rightarrow> string \<Rightarrow> string \<Rightarrow> string" where
  "mount_root store info self target =
     (let root = foldl (\<lambda>r f. if f ! 4 = target then f ! 3 else r) [] (mount_lines info);
          runtime = store @ ''/runtime'';
          disk = filesystem_root self runtime
      in if has_prefix root (disk @ ''/'') then runtime @ trim_prefix root disk else root)"

definition owned_root :: "string \<Rightarrow> string \<Rightarrow> bool" where
  "owned_root store root \<longleftrightarrow> has_prefix root (store @ ''/runtime/'')"

definition mount_layers :: "string \<Rightarrow> string \<Rightarrow> nat" where
  "mount_layers info target = length (filter (\<lambda>f. f ! 4 = target) (mount_lines info))"

section \<open>The environment\<close>

record trust_env =
  tv_targets :: "string list"
  tv_namespaces :: "int list"

text \<open>
  \<open>detectTrust\<close>: the SDK version (0 when unknown), which paths are directories, the versioned directories that
  are found with whether they are the active one, the processes and the namespace of each, when it can be read.
\<close>

record trust_view =
  td_sdk :: int
  td_directory :: "string \<Rightarrow> bool"
  td_parent :: "gerr option"
  td_versions :: "(string \<times> bool) list"
  td_pids :: "int list"
  td_ns :: "int \<Rightarrow> string option"

fun first_in_namespace :: "(int \<Rightarrow> string option) \<Rightarrow> string list \<Rightarrow> int list \<Rightarrow> int list" where
  "first_in_namespace ns seen [] = []"
| "first_in_namespace ns seen (p # ps) =
     (case ns p of
        None \<Rightarrow> first_in_namespace ns seen ps
      | Some n \<Rightarrow> if n \<in> set seen then first_in_namespace ns seen ps else p # first_in_namespace ns (n # seen) ps)"

definition detect_trust :: "trust_view \<Rightarrow> gerr + trust_env" where
  "detect_trust V =
     (if td_sdk V < 24 then Inl (Err ''Android SDK below 24 or unavailable'')
      else let target = (if 34 \<le> td_sdk V then ''/apex/com.android.conscrypt/cacerts'' else ''/system/etc/security/cacerts'');
               namespaces = first_in_namespace (td_ns V) [] (td_pids V)
           in if \<not> td_directory V target then Inl (Err ''active Android trust store unavailable'')
              else if td_sdk V < 34 then Inr \<lparr>tv_targets = [target], tv_namespaces = namespaces\<rparr>
              else case td_parent V of
                     Some e \<Rightarrow> Inl e
                   | None \<Rightarrow>
                       let active = map fst (filter snd (td_versions V))
                       in if active = [] then Inl (Err ''cannot resolve active versioned Conscrypt APEX'')
                          else Inr \<lparr>tv_targets = target # active, tv_namespaces = namespaces\<rparr>)"

record cert_mount =
  cm_pid :: int
  cm_ns :: string
  cm_target :: string
  cm_source :: string
  cm_files :: "(string \<times> string) list"

record mount_state =
  ms_boot :: string
  ms_mounts :: "cert_mount list"

text \<open>The journal of mounts counts for the boot that wrote it; \<open>file\<close> is what it decodes to.\<close>

definition read_mounts :: "string \<Rightarrow> gerr + mount_state \<Rightarrow> gerr + mount_state" where
  "read_mounts boot file =
     (case file of
        Inl e \<Rightarrow> if e = NotExist then Inr \<lparr>ms_boot = boot, ms_mounts = []\<rparr> else Inl e
      | Inr s \<Rightarrow> Inr (if ms_boot s \<noteq> boot then \<lparr>ms_boot = boot, ms_mounts = []\<rparr> else s))"

record android_probe =
  ap_parsed :: bool
  ap_signed :: bool
  ap_trusted :: bool
  ap_error :: string

text \<open>
  \<open>probeAndroid\<close>: what the helper prints for the object of a certificate, decoded. Members of the wrong type spoil
  the whole answer.
\<close>

definition failed_probe :: "string \<Rightarrow> android_probe" where
  "failed_probe msg = \<lparr>ap_parsed = False, ap_signed = False, ap_trusted = False, ap_error = msg\<rparr>"

definition probe_field :: "string \<Rightarrow> android_probe lenient" where
  "probe_field k v p =
     (if fold_eq k ''parsed'' then update_by (\<lambda>x. ap_parsed_update (\<lambda>_. x)) (len_bool v (ap_parsed p)) p
      else if fold_eq k ''signatureValid'' then update_by (\<lambda>x. ap_signed_update (\<lambda>_. x)) (len_bool v (ap_signed p)) p
      else if fold_eq k ''trusted'' then update_by (\<lambda>x. ap_trusted_update (\<lambda>_. x)) (len_bool v (ap_trusted p)) p
      else if fold_eq k ''provider'' then (p, snd (len_string v []))
      else if fold_eq k ''error'' then update_by (\<lambda>x. ap_error_update (\<lambda>_. x)) (len_string v (ap_error p)) p
      else (p, False))"

definition probe_android :: "(string \<Rightarrow> string \<times> gerr option) \<Rightarrow> string \<Rightarrow> android_probe" where
  "probe_android run i =
     (if \<not> valid_id i then failed_probe ''invalid certificate ID''
      else case run i of
             (out, Some e) \<Rightarrow> failed_probe ''Android certificate probe unavailable''
           | (out, None) \<Rightarrow>
               (case unmarshal (len_struct probe_field) out (failed_probe []) of
                  (p, True) \<Rightarrow> failed_probe ''Android certificate probe returned invalid JSON''
                | (p, False) \<Rightarrow> p))"

text \<open>An entry of a directory: a plain file with its bytes, or something else.\<close>

datatype dir_item = Plain string | Odd

record 'k trust_ops =
  tr_store :: string
  tr_view :: "'k \<Rightarrow> trust_view"
  tr_boot :: string
  tr_journal :: "'k \<Rightarrow> gerr + mount_state"
  tr_save :: "mount_state \<Rightarrow> 'k \<Rightarrow> gerr option \<times> 'k"
  tr_prepare :: "gerr option"
  tr_info :: "'k \<Rightarrow> int \<Rightarrow> string"
  tr_self :: "'k \<Rightarrow> string"
  tr_ns :: "'k \<Rightarrow> int \<Rightarrow> string option"
  tr_temp :: "'k \<Rightarrow> nat \<Rightarrow> gerr + string"
  tr_list :: "'k \<Rightarrow> string \<Rightarrow> gerr + (string \<times> dir_item) list"
  tr_write :: "gerr option list"
  tr_read :: "string \<Rightarrow> gerr + certificate"
  tr_parse :: "string \<Rightarrow> gerr + certificate"
  tr_context :: "'k \<Rightarrow> string \<Rightarrow> gerr + string"
  tr_label :: "gerr option list"
  tr_helper :: "string \<Rightarrow> string \<times> gerr option"
  tr_file :: "'k \<Rightarrow> string \<Rightarrow> gerr + certificate"
  tr_mount :: "int \<Rightarrow> string \<Rightarrow> string \<Rightarrow> 'k \<Rightarrow> gerr option \<times> 'k"
  tr_umount :: "int \<Rightarrow> string \<Rightarrow> 'k \<Rightarrow> gerr option \<times> 'k"

definition tr_probe :: "'k trust_ops \<Rightarrow> string \<Rightarrow> android_probe" where
  "tr_probe T = probe_android (tr_helper T)"

definition root_of :: "'k trust_ops \<Rightarrow> 'k \<Rightarrow> int \<Rightarrow> string \<Rightarrow> string" where
  "root_of T k pid target = mount_root (tr_store T) (tr_info T k pid) (tr_self T k) target"

definition namespace_path :: "int \<Rightarrow> string \<Rightarrow> string" where
  "namespace_path pid p = ''/proc/'' @ itoa pid @ ''/root'' @ p"

definition ns_text :: "'k trust_ops \<Rightarrow> 'k \<Rightarrow> int \<Rightarrow> string" where
  "ns_text T k pid = (case tr_ns T k pid of None \<Rightarrow> [] | Some n \<Rightarrow> n)"

section \<open>Preparing a generation\<close>

text \<open>\<open>copyDirectory\<close>: the files, all plain and none oversized.\<close>

fun copy_items :: "(string \<times> dir_item) list \<Rightarrow> gerr + (string \<times> string) list" where
  "copy_items [] = Inr []"
| "copy_items ((n, Odd) # xs) = Inl (Err ''unexpected trust store entry'')"
| "copy_items ((n, Plain b) # xs) =
     (if max_certificate < length b then Inl (Err ''oversized trust store entry'')
      else case copy_items xs of Inl e \<Rightarrow> Inl e | Inr ys \<Rightarrow> Inr ((n, b) # ys))"

definition copy_directory :: "'k trust_ops \<Rightarrow> 'k \<Rightarrow> string \<Rightarrow> gerr + (string \<times> string) list" where
  "copy_directory T k src = (case tr_list T k src of Inl e \<Rightarrow> Inl e | Inr xs \<Rightarrow> copy_items xs)"

text \<open>The names in use: of a certificate its identifier, of anything else \<open>reserved\<close>.\<close>

definition name_of_file :: "'k trust_ops \<Rightarrow> string \<times> string \<Rightarrow> string \<times> string" where
  "name_of_file T f =
     (fst f, case tr_parse T (snd f) of Inr c \<Rightarrow> ct_id c | Inl e \<Rightarrow> ''reserved'')"

text \<open>The managed certificates, one after the other: names in use, chosen files, and the files with their bytes.\<close>

fun add_managed :: "'k trust_ops \<Rightarrow> cert_entry list \<Rightarrow> (string \<times> string) list \<Rightarrow> (string \<times> string) list \<Rightarrow> (string \<times> string) list
    \<Rightarrow> gerr + (string \<times> string) list \<times> (string \<times> string) list" where
  "add_managed T [] names chosen live = Inr (chosen, live)"
| "add_managed T (e # es) names chosen live =
     (if \<not> en_managed e then add_managed T es names chosen live
      else case tr_read T (ct_id (en_cert e)) of
             Inl x \<Rightarrow> Inl x
           | Inr c \<Rightarrow>
               if ct_type c = ''gm'' \<and> \<not> ap_signed (tr_probe T (ct_id c))
               then Inl (Err ''Android cannot verify this GM CA signature'')
               else case allocate_name c names of
                      None \<Rightarrow> Inl (Err ''name'')
                    | Some (name, _) \<Rightarrow>
                        add_managed T es (AList.update name (ct_id c) names) (AList.update (ct_id c) name chosen)
                          (AList.update name (ct_pem c) live))"

definition base_of :: "'k trust_ops \<Rightarrow> 'k \<Rightarrow> int \<Rightarrow> string \<Rightarrow> string" where
  "base_of T k pid target =
     (let root = root_of T k pid target
      in if owned_root (tr_store T) root then take (length root - length (takeWhile (\<lambda>c. c \<noteq> CHR ''/'') (rev root))) root @ ''base''
         else namespace_path pid target)"

text \<open>The context that \<open>ls -Zd\<close> names.\<close>

definition label_ok :: "string \<Rightarrow> bool" where
  "label_ok out \<longleftrightarrow> (case str_fields out of [] \<Rightarrow> False | f # _ \<Rightarrow> str_contains f '':object_r:'')"

text \<open>
  A generation for one target: its mount and the files below it. The files are written one after the other; a
  failing write is reported once the plan of all of them is known.
\<close>

definition prepare_generation :: "'k trust_ops \<Rightarrow> inventory \<Rightarrow> 'k \<Rightarrow> int \<Rightarrow> string \<Rightarrow> nat
    \<Rightarrow> gerr + cert_mount \<times> (string \<times> string) list \<times> (string \<times> string) list" where
  "prepare_generation T v k pid target n =
     (case tr_temp T k n of Inl e \<Rightarrow> Inl e | Inr dir \<Rightarrow>
      (case copy_directory T k (base_of T k pid target) of Inl e \<Rightarrow> Inl e | Inr base \<Rightarrow>
       (case add_managed T (sorted_entries v) (map (name_of_file T) base) [] base of Inl e \<Rightarrow> Inl e | Inr (chosen, live) \<Rightarrow>
        (case first_error (tr_write T) of Some e \<Rightarrow> Inl e | None \<Rightarrow>
         (case tr_context T k (namespace_path pid target) of Inl e \<Rightarrow> Inl e | Inr out \<Rightarrow>
          if \<not> label_ok out then Inl (Err ''cannot determine CA SELinux context'')
          else case first_error (tr_label T) of Some e \<Rightarrow> Inl e | None \<Rightarrow>
            Inr (\<lparr>cm_pid = pid, cm_ns = ns_text T k pid, cm_target = target, cm_source = dir @ ''/live'', cm_files = chosen\<rparr>,
                 base, live))))))"

text \<open>The plan: every namespace with every target; a target is prepared once.\<close>

fun plan_mounts :: "'k trust_ops \<Rightarrow> inventory \<Rightarrow> 'k \<Rightarrow> (int \<times> string) list \<Rightarrow> cert_mount list \<Rightarrow> gerr + cert_mount list" where
  "plan_mounts T v k [] prepared = Inr []"
| "plan_mounts T v k ((pid, target) # rest) prepared =
     (let root = root_of T k pid target
      in if 32 \<le> mount_layers (tr_info T k pid) target
         then Inl (Err ''CA mount generation limit reached; reboot before applying again'')
         else if root \<noteq> [] \<and> \<not> owned_root (tr_store T) root
         then Inl (Err (''foreign CA mount at '' @ target @ ''; disable the other certificate module and reboot first''))
         else case find (\<lambda>m. cm_target m = target) prepared of
                Some m \<Rightarrow>
                  (case plan_mounts T v k rest prepared of
                     Inl e \<Rightarrow> Inl e
                   | Inr ms \<Rightarrow> Inr (m\<lparr>cm_pid := pid, cm_ns := ns_text T k pid\<rparr> # ms))
              | None \<Rightarrow>
                  (case prepare_generation T v k pid target (length prepared) of
                     Inl e \<Rightarrow> Inl e
                   | Inr (m, _) \<Rightarrow>
                       (case plan_mounts T v k rest (prepared @ [m]) of Inl e \<Rightarrow> Inl e | Inr ms \<Rightarrow> Inr (m # ms))))"

definition plan_trust :: "'k trust_ops \<Rightarrow> inventory \<Rightarrow> trust_env \<Rightarrow> 'k \<Rightarrow> gerr + cert_mount list" where
  "plan_trust T v d k =
     (if \<not> list_ex (\<lambda>(i, e). en_managed e) (iv_entries v) then Inr []
      else plan_mounts T v k (concat (map (\<lambda>p. map (\<lambda>t. (p, t)) (tv_targets d)) (tv_namespaces d))) [])"

section \<open>Applying and removing\<close>

fun check_files :: "'k trust_ops \<Rightarrow> 'k \<Rightarrow> cert_mount \<Rightarrow> (string \<times> string) list \<Rightarrow> gerr option" where
  "check_files T k m [] = None"
| "check_files T k m ((i, name) # fs) =
     (if name \<noteq> ''/'' \<and> (name = [] \<or> CHR ''/'' \<in> set name) then Some (Err ''invalid mount filename'')
      else case tr_file T k (namespace_path (cm_pid m) (cm_target m @ ''/'' @ name)) of
             Inl e \<Rightarrow> Some (Err ''mounted fingerprint verification failed'')
           | Inr c \<Rightarrow> if ct_id c \<noteq> i then Some (Err ''mounted fingerprint verification failed'') else check_files T k m fs)"

definition verify_mount :: "'k trust_ops \<Rightarrow> 'k \<Rightarrow> cert_mount \<Rightarrow> gerr option" where
  "verify_mount T k m =
     (if tr_ns T k (cm_pid m) \<noteq> Some (cm_ns m) then Some (Err ''mount namespace changed'')
      else if root_of T k (cm_pid m) (cm_target m) \<noteq> cm_source m
      then Some (Err ''owned mount not visible in target namespace'')
      else check_files T k m (cm_files m))"

text \<open>The roll-back: every planned mount on top is popped, last first; the errors of those that are not.\<close>

fun unmount_all :: "'k trust_ops \<Rightarrow> cert_mount list \<Rightarrow> 'k \<Rightarrow> bool \<times> 'k" where
  "unmount_all T [] k = (True, k)"
| "unmount_all T (m # ms) k =
     (if root_of T k (cm_pid m) (cm_target m) = cm_source m
      then (case tr_umount T (cm_pid m) (cm_target m) k of
              (e, k1) \<Rightarrow> (case unmount_all T ms k1 of (ok, k2) \<Rightarrow> (e = None \<and> ok, k2)))
      else unmount_all T ms k)"

definition incomplete :: gerr where
  "incomplete = Err ''rollback incomplete (journal retained)''"

definition roll_back :: "'k trust_ops \<Rightarrow> mount_state \<Rightarrow> cert_mount list \<Rightarrow> gerr \<Rightarrow> 'k \<Rightarrow> gerr \<times> 'k" where
  "roll_back T old plans cause k =
     (case unmount_all T (rev plans) k of
        (False, k1) \<Rightarrow> (Joined cause incomplete, k1)
      | (True, k1) \<Rightarrow> (case tr_save T old k1 of (None, k2) \<Rightarrow> (cause, k2) | (Some e, k2) \<Rightarrow> (Joined cause e, k2)))"

text \<open>The mounts: the cause of a failure, if any.\<close>

fun mount_all :: "'k trust_ops \<Rightarrow> cert_mount list \<Rightarrow> 'k \<Rightarrow> gerr option \<times> 'k" where
  "mount_all T [] k = (None, k)"
| "mount_all T (m # ms) k =
     (if root_of T k (cm_pid m) (cm_target m) = cm_source m then mount_all T ms k
      else case tr_mount T (cm_pid m) (cm_source m) (cm_target m) k of
             (Some e, k1) \<Rightarrow> (Some e, k1)
           | (None, k1) \<Rightarrow> (case verify_mount T k1 m of Some e \<Rightarrow> (Some e, k1) | None \<Rightarrow> mount_all T ms k1))"

fun first_untrusted :: "'k trust_ops \<Rightarrow> (string \<times> cert_entry) list \<Rightarrow> gerr option" where
  "first_untrusted T [] = None"
| "first_untrusted T ((i, e) # es) =
     (if en_managed e \<and> \<not> ap_trusted (tr_probe T (ct_id (en_cert e)))
      then Some (Err (''AndroidCAStore verification failed: '' @ ap_error (tr_probe T (ct_id (en_cert e)))))
      else first_untrusted T es)"

definition check_applied :: "'k trust_ops \<Rightarrow> inventory \<Rightarrow> cert_mount list \<Rightarrow> 'k \<Rightarrow> gerr option" where
  "check_applied T v plans k = first_error (map (verify_mount T k) plans @ [first_untrusted T (iv_entries v)])"

text \<open>Popping every owned mount, at most 64 layers of one place.\<close>

fun pop_owned :: "'k trust_ops \<Rightarrow> nat \<Rightarrow> int \<Rightarrow> string \<Rightarrow> 'k \<Rightarrow> gerr option \<times> 'k" where
  "pop_owned T 0 pid target k =
     (if owned_root (tr_store T) (root_of T k pid target) then (Some (Err ''too many owned mount layers''), k) else (None, k))"
| "pop_owned T (Suc n) pid target k =
     (if \<not> owned_root (tr_store T) (root_of T k pid target) then (None, k)
      else case tr_umount T pid target k of (Some e, k1) \<Rightarrow> (Some e, k1) | (None, k1) \<Rightarrow> pop_owned T n pid target k1)"

fun pop_all :: "'k trust_ops \<Rightarrow> (int \<times> string) list \<Rightarrow> 'k \<Rightarrow> gerr option \<times> 'k" where
  "pop_all T [] k = (None, k)"
| "pop_all T ((pid, target) # ps) k =
     (case pop_owned T 64 pid target k of (Some e, k1) \<Rightarrow> (Some e, k1) | (None, k1) \<Rightarrow> pop_all T ps k1)"

definition remove_trust :: "'k trust_ops \<Rightarrow> 'k \<Rightarrow> gerr option \<times> 'k" where
  "remove_trust T k =
     (case detect_trust (tr_view T k) of
        Inl e \<Rightarrow> (Some e, k)
      | Inr d \<Rightarrow>
          (case pop_all T (concat (map (\<lambda>p. map (\<lambda>t. (p, t)) (tv_targets d)) (tv_namespaces d))) k of
             (Some e, k1) \<Rightarrow> (Some e, k1)
           | (None, k1) \<Rightarrow> tr_save T \<lparr>ms_boot = tr_boot T, ms_mounts = []\<rparr> k1))"

definition apply_plans :: "'k trust_ops \<Rightarrow> inventory \<Rightarrow> mount_state \<Rightarrow> cert_mount list \<Rightarrow> 'k \<Rightarrow> gerr option \<times> 'k" where
  "apply_plans T v old plans k =
     (case mount_all T plans k of
        (Some e, k1) \<Rightarrow> (case roll_back T old plans e k1 of (x, k2) \<Rightarrow> (Some x, k2))
      | (None, k1) \<Rightarrow>
          (case check_applied T v plans k1 of
             None \<Rightarrow> (None, k1)
           | Some e \<Rightarrow> (case roll_back T old plans e k1 of (x, k2) \<Rightarrow> (Some x, k2))))"

definition apply_trust :: "'k trust_ops \<Rightarrow> inventory \<Rightarrow> 'k \<Rightarrow> gerr option \<times> 'k" where
  "apply_trust T v k =
     (case detect_trust (tr_view T k) of Inl e \<Rightarrow> (Some e, k) | Inr d \<Rightarrow>
      (case tr_prepare T of Some e \<Rightarrow> (Some e, k) | None \<Rightarrow>
       (case read_mounts (tr_boot T) (tr_journal T k) of Inl e \<Rightarrow> (Some e, k) | Inr old \<Rightarrow>
        (case plan_trust T v d k of Inl e \<Rightarrow> (Some e, k) | Inr plans \<Rightarrow>
         if plans = [] then remove_trust T k
         else case tr_save T \<lparr>ms_boot = tr_boot T, ms_mounts = plans\<rparr> k of
                (Some e, k1) \<Rightarrow> (Some e, k1)
              | (None, k1) \<Rightarrow> apply_plans T v old plans k1))))"

section \<open>What a plan respects\<close>

lemma allocate_fresh_or_same:
  assumes "allocate_name c names = Some (name, present)" and "distinct (map fst names)"
  shows "map_of names name \<in> {None, Some (ct_id c)}"
  using allocate_name_sound [OF assms(2), of c] assms(1) by (auto split: if_splits)

text \<open>A file of the baseline keeps its bytes, unless it holds one of the managed certificates itself.\<close>

lemma add_managed_keeps:
  assumes "add_managed T es names chosen live = Inr (chosen1, live1)" and "distinct (map fst names)"
    and "dom (map_of live) \<subseteq> dom (map_of names)" and "map_of live n = Some b"
    and "\<And>i c. tr_read T i = Inr c \<Longrightarrow> map_of names n \<noteq> Some (ct_id c)"
  shows "map_of live1 n = Some b"
  using assms
proof (induction es arbitrary: names chosen live)
  case (Cons e es)
  show ?case
  proof (cases "en_managed e")
    case False
    then show ?thesis using Cons by simp
  next
    case True
    obtain c name present where c: "tr_read T (ct_id (en_cert e)) = Inr c" "allocate_name c names = Some (name, present)"
      "add_managed T es (AList.update name (ct_id c) names) (AList.update (ct_id c) name chosen) (AList.update name (ct_pem c) live)
         = Inr (chosen1, live1)"
      using Cons.prems(1) True by (auto split: sum.splits option.splits if_splits)
    obtain j where j: "map_of names n = Some j" using Cons.prems(3,4) by blast
    then have other: "name \<noteq> n"
      using allocate_fresh_or_same [OF c(2) Cons.prems(2)] Cons.prems(5) [OF c(1)] by auto
    have "dom (map_of (AList.update name (ct_pem c) live)) \<subseteq> dom (map_of (AList.update name (ct_id c) names))"
      using insert_mono [OF Cons.prems(3), of name] by (simp add: update_conv' del: dom_map_of_conv_image_fst)
    moreover have "map_of (AList.update name (ct_id c) names) n = map_of names n"
      "map_of (AList.update name (ct_pem c) live) n = Some b"
      using other Cons.prems(4) by (simp_all add: update_conv')
    ultimately show ?thesis
      using Cons.IH [OF c(3) distinct_update [OF Cons.prems(2)]] Cons.prems(5) by simp
  qed
qed simp

text \<open>A plan covers the places it was made for, in their order, and none that carries a mount of somebody else.\<close>

lemma plan_mounts_places:
  assumes "plan_mounts T v k ps prepared = Inr ms"
  shows "map (\<lambda>m. (cm_pid m, cm_target m)) ms = ps \<and>
    (\<forall>(p, t) \<in> set ps. root_of T k p t = [] \<or> owned_root (tr_store T) (root_of T k p t))"
  using assms
proof (induction ps arbitrary: prepared ms)
  case (Cons pt ps)
  obtain pid target where pt: "pt = (pid, target)" by (cases pt)
  have free: "root_of T k pid target = [] \<or> owned_root (tr_store T) (root_of T k pid target)"
    using Cons.prems by (auto simp: pt Let_def split: if_splits)
  obtain m prepared' ms' where m: "ms = m # ms'" "cm_pid m = pid" "cm_target m = target" "plan_mounts T v k ps prepared' = Inr ms'"
  proof (cases "find (\<lambda>m. cm_target m = target) prepared")
    case (Some g)
    then have "cm_target g = target" by (auto simp: find_Some_iff)
    then show thesis using Cons.prems Some that by (auto simp: pt Let_def split: if_splits sum.splits)
  next
    case None
    then obtain g rest ms' where g: "prepare_generation T v k pid target (length prepared) = Inr (g, rest)"
      "plan_mounts T v k ps (prepared @ [g]) = Inr ms'" "ms = g # ms'"
      using Cons.prems by (auto simp: pt Let_def split: if_splits sum.splits)
    have "cm_pid g = pid" "cm_target g = target"
      using g(1) by (auto simp: prepare_generation_def split: sum.splits option.splits if_splits)
    then show thesis using g that by blast
  qed
  from Cons.IH [OF m(4)] show ?case using m free pt by auto
qed simp

lemma first_untrusted_None:
  "first_untrusted T es = None \<Longrightarrow> (i, e) \<in> set es \<Longrightarrow> en_managed e \<Longrightarrow> ap_trusted (tr_probe T (ct_id (en_cert e)))"
  by (induction es) (auto split: if_splits)

end
