(* ===== verification/TrustMounts.thy ===== *)
theory TrustMounts
  imports Trust
begin

text \<open>
  Trust stores are replaced all or nothing. The locale states what mounting does to the layers of a place, a place
  being a process and a path; processes whose namespaces propagate to each other are peers.
\<close>

section \<open>The layers of a place\<close>

type_synonym place = "int \<times> string"

locale trust_kernel =
  fixes T :: "'k trust_ops" and layers :: "'k \<Rightarrow> place \<Rightarrow> string list" and peer :: "int \<Rightarrow> int \<Rightarrow> bool"
  assumes peer_refl: "peer p p" and peer_sym: "peer p q \<Longrightarrow> peer q p" and peer_trans: "peer p q \<Longrightarrow> peer q r \<Longrightarrow> peer p r"
    and root_law: "root_of T k p t = (case layers k (p, t) of [] \<Rightarrow> [] | s # _ \<Rightarrow> s)"
    and mount_law: "tr_mount T p s t k = (e, k') \<Longrightarrow>
      layers k' (q, u) = (if e = None \<and> u = t \<and> peer p q then s # layers k (q, u) else layers k (q, u))"
    and umount_law: "tr_umount T p t k = (e, k') \<Longrightarrow>
      layers k' (q, u) = (if e = None \<and> u = t \<and> peer p q then tl (layers k (q, u)) else layers k (q, u))"
    and save_law: "tr_save T st k = (e, k') \<Longrightarrow> layers k' = layers k"
    and temp_law: "tr_temp T k n = Inr dir \<Longrightarrow> dir @ ''/live'' \<notin> set (layers k x)"
begin

text \<open>
  The layers are those of \<open>k0\<close>, with the generation of its target on top of the places in \<open>D\<close>, whole groups of
  peers.
\<close>

definition layered :: "(string \<Rightarrow> string) \<Rightarrow> 'k \<Rightarrow> place set \<Rightarrow> 'k \<Rightarrow> bool" where
  "layered src k0 D k \<longleftrightarrow>
     (\<forall>q u. layers k (q, u) = (if (q, u) \<in> D then src u # layers k0 (q, u) else layers k0 (q, u))) \<and>
     (\<forall>q r u. (q, u) \<in> D \<longrightarrow> peer q r \<longrightarrow> (r, u) \<in> D)"

definition places :: "cert_mount \<Rightarrow> place set" where
  "places m = {(q, u). u = cm_target m \<and> peer (cm_pid m) q}"

lemma place_self [simp]: "(cm_pid m, cm_target m) \<in> places m"
  by (simp add: places_def peer_refl)

lemma layered_empty: "layered src k0 {} k \<longleftrightarrow> layers k = layers k0"
  by (auto simp: layered_def)

text \<open>A plan gives each target one source, nowhere mounted before.\<close>

definition planned :: "(string \<Rightarrow> string) \<Rightarrow> 'k \<Rightarrow> cert_mount list \<Rightarrow> bool" where
  "planned src k0 ms \<longleftrightarrow>
     (\<forall>m \<in> set ms. cm_source m = src (cm_target m) \<and> src (cm_target m) \<noteq> [] \<and> (\<forall>x. src (cm_target m) \<notin> set (layers k0 x)))"

lemma planned_Cons: "planned src k0 (m # ms) \<longleftrightarrow> planned src k0 [m] \<and> planned src k0 ms"
  by (auto simp: planned_def)

lemma root_layered:
  assumes "layered src k0 D k" and "planned src k0 [m]"
  shows "root_of T k (cm_pid m) (cm_target m) = cm_source m \<longleftrightarrow> (cm_pid m, cm_target m) \<in> D"
proof -
  let ?p = "cm_pid m" and ?t = "cm_target m"
  have lay: "layers k (?p, ?t) = (if (?p, ?t) \<in> D then src ?t # layers k0 (?p, ?t) else layers k0 (?p, ?t))"
    using assms(1) by (simp add: layered_def)
  have fresh: "cm_source m = src ?t" "src ?t \<noteq> []" "src ?t \<notin> set (layers k0 (?p, ?t))" using assms(2) by (auto simp: planned_def)
  show ?thesis
  proof (cases "(?p, ?t) \<in> D")
    case True
    then show ?thesis using fresh lay by (simp add: root_law)
  next
    case False
    then show ?thesis using fresh lay by (cases "layers k0 (?p, ?t)") (auto simp: root_law)
  qed
qed

lemma closed_place: "layered src k0 D k \<Longrightarrow> (cm_pid m, cm_target m) \<in> D \<longleftrightarrow> places m \<subseteq> D"
  using place_self [of m] by (auto simp: layered_def places_def)

lemma mount_layered:
  assumes "layered src k0 D k" and "planned src k0 [m]" and "(cm_pid m, cm_target m) \<notin> D"
    and "tr_mount T (cm_pid m) (cm_source m) (cm_target m) k = (e, k1)"
  shows "layered src k0 (if e = None then D \<union> places m else D) k1"
proof -
  have off: "(q, cm_target m) \<notin> D" if "peer (cm_pid m) q" for q
    using assms(1,3) peer_sym that by (auto simp: layered_def)
  have lay: "layers k (q, u) = (if (q, u) \<in> D then src u # layers k0 (q, u) else layers k0 (q, u))" for q u
    using assms(1) by (simp add: layered_def)
  have grown: "layers k1 (q, u) = (if (q, u) \<in> D \<union> places m then src u # layers k0 (q, u) else layers k0 (q, u))"
    if "e = None" for q u
    using that off assms(2) by (simp add: mount_law [OF assms(4)] lay places_def planned_def)
  have same: "layers k1 (q, u) = layers k (q, u)" if "e \<noteq> None" for q u
    using that by (simp add: mount_law [OF assms(4)])
  have whole: "(r, u) \<in> D \<union> places m" if "(q, u) \<in> D \<union> places m" "peer q r" for q r u
    using that assms(1) peer_trans by (auto simp: layered_def places_def)
  let ?E = "D \<union> places m"
  show ?thesis
  proof (cases e)
    case None
    then have "\<And>q u. layers k1 (q, u) = (if (q, u) \<in> ?E then src u # layers k0 (q, u) else layers k0 (q, u))"
      using grown by blast
    then show ?thesis unfolding layered_def using whole None by (simp only: if_True simp_thms) blast
  next
    case (Some z)
    then show ?thesis using assms(1) same unfolding layered_def by simp
  qed
qed

lemma umount_layered:
  assumes "layered src k0 D k" and "(cm_pid m, cm_target m) \<in> D" and "tr_umount T (cm_pid m) (cm_target m) k = (e, k1)"
  shows "layered src k0 (if e = None then D - places m else D) k1"
proof -
  have on: "(q, cm_target m) \<in> D" if "peer (cm_pid m) q" for q
    using assms(1,2) that by (auto simp: layered_def)
  have lay: "layers k (q, u) = (if (q, u) \<in> D then src u # layers k0 (q, u) else layers k0 (q, u))" for q u
    using assms(1) by (simp add: layered_def)
  have shrunk: "layers k1 (q, u) = (if (q, u) \<in> D - places m then src u # layers k0 (q, u) else layers k0 (q, u))"
    if "e = None" for q u
    using that on by (simp add: umount_law [OF assms(3)] lay places_def)
  have same: "layers k1 (q, u) = layers k (q, u)" if "e \<noteq> None" for q u
    using that umount_law [OF assms(3), of q u] by auto
  have whole: "(r, u) \<in> D - places m" if "(q, u) \<in> D - places m" "peer q r" for q r u
  proof -
    have "(r, u) \<in> D" using that assms(1) unfolding layered_def by blast
    moreover have "(r, u) \<notin> places m"
      using that peer_trans [of "cm_pid m" r q] peer_sym [of q r] by (auto simp: places_def)
    ultimately show ?thesis by simp
  qed
  let ?E = "D - places m"
  show ?thesis
  proof (cases e)
    case None
    then have "\<And>q u. layers k1 (q, u) = (if (q, u) \<in> ?E then src u # layers k0 (q, u) else layers k0 (q, u))"
      using shrunk by blast
    then show ?thesis unfolding layered_def using whole None by (simp only: if_True simp_thms) blast
  next
    case (Some z)
    then show ?thesis using assms(1) same unfolding layered_def by simp
  qed
qed

lemma mount_all_layered:
  assumes "layered src k0 D k" and "planned src k0 ms" and "mount_all T ms k = (e, k1)" and "D \<subseteq> P"
    and "\<forall>m \<in> set ms. places m \<subseteq> P"
  shows "\<exists>D1. layered src k0 D1 k1 \<and> D \<subseteq> D1 \<and> D1 \<subseteq> P \<and> (e = None \<longrightarrow> (\<forall>m \<in> set ms. places m \<subseteq> D1))"
  using assms
proof (induction ms arbitrary: D k)
  case (Cons m ms)
  have one: "planned src k0 [m]" "planned src k0 ms" using Cons.prems(2) planned_Cons by blast+
  show ?case
  proof (cases "(cm_pid m, cm_target m) \<in> D")
    case True
    then have "mount_all T ms k = (e, k1)" using Cons.prems(3) root_layered [OF Cons.prems(1) one(1)] by simp
    from Cons.IH [OF Cons.prems(1) one(2) this Cons.prems(4)] obtain D1 where
      D1: "layered src k0 D1 k1" "D \<subseteq> D1" "D1 \<subseteq> P" "e = None \<longrightarrow> (\<forall>m \<in> set ms. places m \<subseteq> D1)"
      using Cons.prems(5) by auto
    moreover have "places m \<subseteq> D" using True closed_place [OF Cons.prems(1)] by blast
    ultimately show ?thesis by (intro exI [of _ D1]) auto
  next
    case False
    then have fresh: "root_of T k (cm_pid m) (cm_target m) \<noteq> cm_source m" using root_layered [OF Cons.prems(1) one(1)] by simp
    obtain x k2 where mo: "tr_mount T (cm_pid m) (cm_source m) (cm_target m) k = (x, k2)" by (metis surj_pair)
    note lay = mount_layered [OF Cons.prems(1) one(1) False mo]
    show ?thesis
    proof (cases "x = None \<and> verify_mount T k2 m = None")
      case True
      then have rest: "mount_all T ms k2 = (e, k1)" using Cons.prems(3) fresh mo by simp
      have "layered src k0 (D \<union> places m) k2" "D \<union> places m \<subseteq> P" using lay True Cons.prems(4,5) by auto
      from Cons.IH [OF this(1) one(2) rest this(2)] obtain D1 where
        "layered src k0 D1 k1" "D \<union> places m \<subseteq> D1" "D1 \<subseteq> P" "e = None \<longrightarrow> (\<forall>m \<in> set ms. places m \<subseteq> D1)"
        using Cons.prems(5) by auto
      then show ?thesis by (intro exI [of _ D1]) auto
    next
      case False
      then have "k1 = k2" "e \<noteq> None" using Cons.prems(3) fresh mo by (cases x; cases "verify_mount T k2 m"; auto)+
      then show ?thesis using lay Cons.prems(4,5) by (cases x) (auto intro: exI [of _ D] exI [of _ "D \<union> places m"])
    qed
  qed
qed auto

lemma unmount_all_layered:
  assumes "layered src k0 D k" and "planned src k0 ms" and "unmount_all T ms k = (True, k1)"
  shows "layered src k0 (D - \<Union> (places ` set ms)) k1"
  using assms
proof (induction ms arbitrary: D k)
  case (Cons m ms)
  have one: "planned src k0 [m]" "planned src k0 ms" using Cons.prems(2) planned_Cons by blast+
  show ?case
  proof (cases "(cm_pid m, cm_target m) \<in> D")
    case False
    then have "unmount_all T ms k = (True, k1)" using Cons.prems(3) root_layered [OF Cons.prems(1) one(1)] by simp
    from Cons.IH [OF Cons.prems(1) one(2) this] have "layered src k0 (D - \<Union> (places ` set ms)) k1" .
    moreover have "places m \<inter> D = {}"
      using False Cons.prems(1) peer_sym by (auto simp: layered_def places_def)
    then have "D - \<Union> (places ` set (m # ms)) = D - \<Union> (places ` set ms)" by auto
    ultimately show ?thesis by simp
  next
    case True
    obtain x k2 where um: "tr_umount T (cm_pid m) (cm_target m) k = (x, k2)" by (metis surj_pair)
    then have rest: "x = None" "unmount_all T ms k2 = (True, k1)"
      using Cons.prems(3) True root_layered [OF Cons.prems(1) one(1)] by (auto split: prod.splits)
    have "layered src k0 (D - places m) k2" using umount_layered [OF Cons.prems(1) True um] rest(1) by simp
    from Cons.IH [OF this one(2) rest(2)] show ?thesis by (simp add: Diff_eq Int_assoc Compl_Un)
  qed
qed simp

lemma roll_back_layered:
  assumes "layered src k0 D k" and "planned src k0 plans" and "D \<subseteq> \<Union> (places ` set plans)"
    and "roll_back T old plans cause k = (e, k1)"
  shows "layers k1 = layers k0 \<or> e = Joined cause incomplete"
proof -
  obtain ok k2 where u: "unmount_all T (rev plans) k = (ok, k2)" by (metis surj_pair)
  show ?thesis
  proof (cases ok)
    case True
    have "planned src k0 (rev plans)" using assms(2) by (simp add: planned_def)
    from unmount_all_layered [OF assms(1) this] have "layered src k0 (D - \<Union> (places ` set plans)) k2"
      using u True by simp
    then have "layers k2 = layers k0" using assms(3) by (simp add: Diff_eq_empty_iff [THEN iffD2] layered_empty)
    then show ?thesis using assms(4) u True save_law by (fastforce simp: roll_back_def split: prod.splits option.splits)
  qed (use assms(4) u in \<open>simp add: roll_back_def\<close>)
qed

lemma apply_plans_layers:
  assumes "planned src k0 plans" and "layers k = layers k0" and "apply_plans T v old plans k = (e, k1)"
  shows "(e = None \<longrightarrow> (\<forall>m \<in> set plans. verify_mount T k1 m = None \<and>
        layers k1 (cm_pid m, cm_target m) = cm_source m # layers k0 (cm_pid m, cm_target m)) \<and>
      first_untrusted T (iv_entries v) = None \<and>
      (\<forall>x. layers k1 x = layers k0 x \<or> (\<exists>m \<in> set plans. x \<in> places m))) \<and>
    (e \<noteq> None \<longrightarrow> layers k1 = layers k0 \<or> (\<exists>c. e = Some (Joined c incomplete)))"
proof -
  let ?P = "\<Union> (places ` set plans)"
  obtain x k2 where mo: "mount_all T plans k = (x, k2)" by (metis surj_pair)
  have "layered src k0 {} k" using assms(2) by (simp add: layered_empty)
  from mount_all_layered [OF this assms(1) mo, of ?P] obtain D where
    D: "layered src k0 D k2" "D \<subseteq> ?P" "x = None \<longrightarrow> (\<forall>m \<in> set plans. places m \<subseteq> D)" by auto
  have undo: "layers k1 = layers k0 \<or> (\<exists>c. e = Some (Joined c incomplete))" "e \<noteq> None"
    if "(case roll_back T old plans cause k2 of (y, k3) \<Rightarrow> (Some y, k3)) = (e, k1)" for cause
    using that roll_back_layered [OF D(1) assms(1) D(2), of old cause] by (auto split: prod.splits)
  show ?thesis
  proof (cases "x = None \<and> check_applied T v plans k2 = None")
    case True
    then have fin: "e = None" "k1 = k2" using assms(3) mo by (simp_all add: apply_plans_def)
    have "layers k1 (cm_pid m, cm_target m) = cm_source m # layers k0 (cm_pid m, cm_target m)" if "m \<in> set plans" for m
    proof -
      have "(cm_pid m, cm_target m) \<in> D" using D(3) True that place_self [of m] by blast
      then show ?thesis using D(1) assms(1) that fin by (simp add: layered_def planned_def)
    qed
    moreover have "verify_mount T k1 m = None" if "m \<in> set plans" for m
      using True that fin by (auto simp: check_applied_def first_error_None)
    moreover have "first_untrusted T (iv_entries v) = None" using True by (auto simp: check_applied_def first_error_None)
    moreover have "layers k1 y = layers k0 y \<or> (\<exists>m \<in> set plans. y \<in> places m)" for y
      using D(1,2) fin by (cases y) (auto simp: layered_def)
    ultimately show ?thesis using fin(1) by (metis (no_types, lifting))
  next
    case False
    then obtain cause where "(case roll_back T old plans cause k2 of (y, k3) \<Rightarrow> (Some y, k3)) = (e, k1)"
      using assms(3) mo by (auto simp: apply_plans_def split: option.splits)
    then show ?thesis using undo by blast
  qed
qed

section \<open>Plans\<close>

lemma prepared_fresh:
  assumes "prepare_generation T v k pid target n = Inr (m, rest)"
  shows "cm_target m = target \<and> cm_pid m = pid \<and> cm_source m \<noteq> [] \<and> (\<forall>x. cm_source m \<notin> set (layers k x))"
  using assms temp_law by (auto simp: prepare_generation_def split: sum.splits option.splits if_splits)

text \<open>Every mount of a plan has the source of the generation prepared for its target.\<close>

lemma plan_mounts_planned:
  assumes "plan_mounts T v k ps prepared = Inr ms" and "planned src k prepared" and "distinct (map cm_target prepared)"
  shows "\<exists>src'. planned src' k (prepared @ ms) \<and> (\<forall>m \<in> set prepared. src' (cm_target m) = src (cm_target m))"
  using assms
proof (induction ps arbitrary: prepared ms src)
  case (Cons pt ps)
  obtain pid target where pt: "pt = (pid, target)" by (cases pt)
  show ?case
  proof (cases "find (\<lambda>m. cm_target m = target) prepared")
    case (Some m)
    then have m: "m \<in> set prepared" "cm_target m = target" by (auto simp: find_Some_iff intro: nth_mem)
    obtain ms' where ms': "plan_mounts T v k ps prepared = Inr ms'" "ms = m\<lparr>cm_pid := pid, cm_ns := ns_text T k pid\<rparr> # ms'"
      using Cons.prems(1) Some by (auto simp: pt Let_def split: if_splits sum.splits)
    from Cons.IH [OF ms'(1) Cons.prems(2,3)] obtain src' where
      s: "planned src' k (prepared @ ms')" "\<forall>m \<in> set prepared. src' (cm_target m) = src (cm_target m)" by blast
    moreover from this m have "planned src' k [m]" by (auto simp: planned_def)
    ultimately show ?thesis using ms'(2) by (intro exI [of _ src']) (auto simp: planned_def)
  next
    case None
    obtain g rest ms' where g: "prepare_generation T v k pid target (length prepared) = Inr (g, rest)"
      "plan_mounts T v k ps (prepared @ [g]) = Inr ms'" "ms = g # ms'"
      using Cons.prems(1) None by (auto simp: pt Let_def split: if_splits sum.splits)
    note fresh = prepared_fresh [OF g(1)]
    let ?src = "src(target := cm_source g)"
    have other: "target \<notin> cm_target ` set prepared" using None by (auto simp: find_None_iff)
    then have "cm_target m \<noteq> target" if "m \<in> set prepared" for m using that by auto
    then have "planned ?src k (prepared @ [g])" "distinct (map cm_target (prepared @ [g]))"
      using Cons.prems(2,3) fresh other by (auto simp: planned_def)
    from Cons.IH [OF g(2) this] obtain src' where
      "planned src' k ((prepared @ [g]) @ ms')" "\<forall>m \<in> set (prepared @ [g]). src' (cm_target m) = ?src (cm_target m)" by blast
    then have "planned src' k (prepared @ ms)" "\<forall>m \<in> set prepared. src' (cm_target m) = ?src (cm_target m)" using g(3) by simp_all
    moreover have "?src (cm_target m) = src (cm_target m)" if "m \<in> set prepared" for m using other that by auto
    ultimately show ?thesis by (intro exI [of _ src']) simp
  qed
qed auto

lemma plan_trust_planned:
  assumes "plan_trust T v d k = Inr ms"
  shows "\<exists>src. planned src k ms"
  using assms plan_mounts_planned [of v k _ "[]" ms "\<lambda>_. []"]
  by (fastforce simp: plan_trust_def planned_def split: if_splits)

lemma pop_owned_layers:
  assumes "pop_owned T n pid target k = (e, k1)"
  shows "\<forall>x. \<exists>as. layers k x = as @ layers k1 x \<and> (as \<noteq> [] \<longrightarrow> snd x = target)"
  using assms
proof (induction n arbitrary: k)
  case (Suc n)
  show ?case
  proof (cases "owned_root (tr_store T) (root_of T k pid target)")
    case True
    obtain x k2 where u: "tr_umount T pid target k = (x, k2)" by (metis surj_pair)
    have one: "\<exists>as. layers k y = as @ layers k2 y \<and> (as \<noteq> [] \<longrightarrow> snd y = target)" for y
    proof (cases y)
      case (Pair q w)
      show ?thesis
        using umount_law [OF u, of q w] Pair
        by (cases "layers k (q, w)") (auto intro: exI [of _ "[hd (layers k (q, w))]"])
    qed
    show ?thesis
    proof (cases x)
      case (Some z)
      then show ?thesis using Suc.prems True u one by simp
    next
      case None
      then have "pop_owned T n pid target k2 = (e, k1)" using Suc.prems True u by simp
      from Suc.IH [OF this] have two: "\<forall>x. \<exists>as. layers k2 x = as @ layers k1 x \<and> (as \<noteq> [] \<longrightarrow> snd x = target)" .
      show ?thesis
      proof
        fix y
        obtain as bs where "layers k y = as @ layers k2 y" "as \<noteq> [] \<longrightarrow> snd y = target"
          "layers k2 y = bs @ layers k1 y" "bs \<noteq> [] \<longrightarrow> snd y = target" using one [of y] two by blast
        then show "\<exists>as. layers k y = as @ layers k1 y \<and> (as \<noteq> [] \<longrightarrow> snd y = target)"
          by (intro exI [of _ "as @ bs"]) auto
      qed
    qed
  qed (use Suc.prems in \<open>auto split: if_splits\<close>)
qed (auto split: if_splits)

text \<open>Removing: what is popped are owned layers, and none is left on the places of the environment.\<close>

lemma pop_all_layers:
  assumes "pop_all T ps k = (e, k1)"
  shows "\<forall>x. \<exists>as. layers k x = as @ layers k1 x \<and> (as \<noteq> [] \<longrightarrow> snd x \<in> snd ` set ps)"
  using assms
proof (induction ps arbitrary: k)
  case (Cons pt ps)
  obtain pid target x k2 where pt: "pt = (pid, target)" and po: "pop_owned T 64 pid target k = (x, k2)"
    by (metis surj_pair)
  note one = pop_owned_layers [OF po]
  show ?case
  proof (cases x)
    case (Some z)
    then have "k1 = k2" using Cons.prems po pt by simp
    then show ?thesis using one pt by fastforce
  next
    case None
    then have "pop_all T ps k2 = (e, k1)" using Cons.prems po pt by simp
    note two = Cons.IH [OF this]
    show ?thesis
    proof
      fix y
      obtain as bs where "layers k y = as @ layers k2 y" "as \<noteq> [] \<longrightarrow> snd y = target"
        "layers k2 y = bs @ layers k1 y" "bs \<noteq> [] \<longrightarrow> snd y \<in> snd ` set ps" using one two by blast
      then show "\<exists>as. layers k y = as @ layers k1 y \<and> (as \<noteq> [] \<longrightarrow> snd y \<in> snd ` set (pt # ps))"
        using pt by (intro exI [of _ "as @ bs"]) auto
    qed
  qed
qed auto

lemma pop_owned_clears:
  "pop_owned T n pid target k = (None, k1) \<Longrightarrow> \<not> owned_root (tr_store T) (root_of T k1 pid target)"
  by (induction n arbitrary: k) (auto split: if_splits prod.splits option.splits)

lemma remove_layers:
  assumes "remove_trust T k = (e, k1)" and "detect_trust (tr_view T k) = Inr d"
  shows "\<exists>as. layers k x = as @ layers k1 x \<and> (as \<noteq> [] \<longrightarrow> snd x \<in> set (tv_targets d))"
proof -
  let ?ps = "concat (map (\<lambda>p. map (\<lambda>t. (p, t)) (tv_targets d)) (tv_namespaces d))"
  obtain y k2 where po: "pop_all T ?ps k = (y, k2)" by (metis surj_pair)
  have "layers k1 = layers k2" using assms po save_law by (fastforce simp: remove_trust_def split: option.splits)
  moreover have "snd ` set ?ps \<subseteq> set (tv_targets d)" by auto
  moreover obtain as where "layers k x = as @ layers k2 x" "as \<noteq> [] \<longrightarrow> snd x \<in> snd ` set ?ps"
    using pop_all_layers [OF po] by blast
  ultimately show ?thesis by (intro exI [of _ as]) auto
qed

text \<open>Applying is all or nothing.\<close>

lemma apply_layers:
  assumes "apply_trust T v k = (e, k1)" and "detect_trust (tr_view T k) = Inr d" and "plan_trust T v d k = Inr plans"
    and "plans \<noteq> []"
  shows "(e = None \<longrightarrow> (\<forall>m \<in> set plans. verify_mount T k1 m = None \<and>
        layers k1 (cm_pid m, cm_target m) = cm_source m # layers k (cm_pid m, cm_target m)) \<and>
      first_untrusted T (iv_entries v) = None \<and>
      (\<forall>x. layers k1 x = layers k x \<or> (\<exists>m \<in> set plans. x \<in> places m))) \<and>
    (e \<noteq> None \<longrightarrow> layers k1 = layers k \<or> (\<exists>c. e = Some (Joined c incomplete)))"
proof -
  obtain src where src: "planned src k plans" using plan_trust_planned [OF assms(3)] by blast
  consider (early) z where "e = Some z" "k1 = k"
    | (go) old x k2 where "tr_save T \<lparr>ms_boot = tr_boot T, ms_mounts = plans\<rparr> k = (x, k2)"
      "(case x of Some z \<Rightarrow> (Some z, k2) | None \<Rightarrow> apply_plans T v old plans k2) = (e, k1)"
  proof (cases "tr_prepare T = None \<and> (\<exists>old. read_mounts (tr_boot T) (tr_journal T k) = Inr old)")
    case True
    then obtain old where old: "tr_prepare T = None" "read_mounts (tr_boot T) (tr_journal T k) = Inr old" by blast
    obtain x k2 where sv: "tr_save T \<lparr>ms_boot = tr_boot T, ms_mounts = plans\<rparr> k = (x, k2)" by (metis surj_pair)
    then show thesis using assms old by (intro go [of x k2 old]) (auto simp: apply_trust_def)
  next
    case False
    then obtain z where "apply_trust T v k = (Some z, k)"
      using assms(2) by (cases "tr_prepare T"; cases "read_mounts (tr_boot T) (tr_journal T k)"; simp add: apply_trust_def)
    then show thesis using early assms(1) by simp
  qed
  then show ?thesis
  proof cases
    case go
    have same: "layers k2 = layers k" by (rule save_law [OF go(1)])
    show ?thesis
    proof (cases x)
      case None
      then show ?thesis using apply_plans_layers [OF src same] go(2) by simp
    next
      case (Some z)
      then have "e = Some z" "k1 = k2" using go(2) by auto
      then show ?thesis using same by simp
    qed
  qed simp
qed

end

section \<open>Removal, when peers share their mounts\<close>

text \<open>Processes of one mount namespace see the same layers.\<close>

locale shared_kernel = trust_kernel T layers peer
  for T :: "'k trust_ops" and layers :: "'k \<Rightarrow> place \<Rightarrow> string list" and peer :: "int \<Rightarrow> int \<Rightarrow> bool" +
  assumes layers_peer: "peer p q \<Longrightarrow> layers k (p, t) = layers k (q, t)"
begin

definition popped :: "'k \<Rightarrow> 'k \<Rightarrow> place \<Rightarrow> bool" where
  "popped k k1 x \<longleftrightarrow> (\<exists>as. layers k x = as @ layers k1 x \<and> (\<forall>s \<in> set as. owned_root (tr_store T) s))"

lemma popped_same: "layers k1 = layers k \<Longrightarrow> popped k k1 x"
  by (simp add: popped_def)

lemma popped_trans:
  assumes "popped k k1 x" and "popped k1 k2 x"
  shows "popped k k2 x"
proof -
  obtain as bs where "layers k x = as @ layers k1 x" "\<forall>s \<in> set as. owned_root (tr_store T) s"
    "layers k1 x = bs @ layers k2 x" "\<forall>s \<in> set bs. owned_root (tr_store T) s" using assms by (auto simp: popped_def)
  then show ?thesis unfolding popped_def by (intro exI [of _ "as @ bs"]) auto
qed

lemma umount_popped:
  assumes "owned_root (tr_store T) (root_of T k p t)" and "tr_umount T p t k = (e, k1)"
  shows "popped k k1 x"
proof (cases x)
  case (Pair q u)
  show ?thesis
  proof (cases "e = None \<and> u = t \<and> peer p q")
    case True
    from assms(1) obtain s rest where top: "layers k (p, t) = s # rest" "owned_root (tr_store T) s"
      by (cases "layers k (p, t)") (auto simp: root_law owned_root_def has_prefix_def)
    moreover have "layers k (q, u) = layers k (p, t)" using True layers_peer [of p q k t] by simp
    ultimately show ?thesis using True umount_law [OF assms(2), of q u] Pair by (simp add: popped_def)
  next
    case False
    then show ?thesis using umount_law [OF assms(2), of q u] Pair by (auto simp: popped_def)
  qed
qed

lemma pop_owned_popped: "pop_owned T n pid target k = (e, k1) \<Longrightarrow> popped k k1 x"
proof (induction n arbitrary: k)
  case (Suc n)
  show ?case
  proof (cases "owned_root (tr_store T) (root_of T k pid target)")
    case True
    obtain y k2 where u: "tr_umount T pid target k = (y, k2)" by (metis surj_pair)
    note one = umount_popped [OF True u, of x]
    show ?thesis
    proof (cases y)
      case None
      then have "pop_owned T n pid target k2 = (e, k1)" using Suc.prems True u by simp
      then show ?thesis using Suc.IH one popped_trans by blast
    qed (use Suc.prems True u one in simp)
  qed (use Suc.prems popped_same in simp)
qed (auto intro: popped_same split: if_splits)

text \<open>A place without an owned layer on top is left alone.\<close>

lemma popped_keeps_clean:
  assumes "popped k k1 (p, t)" and "\<not> owned_root (tr_store T) (root_of T k p t)"
  shows "\<not> owned_root (tr_store T) (root_of T k1 p t)"
proof -
  obtain as where as: "layers k (p, t) = as @ layers k1 (p, t)" "\<forall>s \<in> set as. owned_root (tr_store T) s"
    using assms(1) by (auto simp: popped_def)
  then have "as = []" using assms(2) by (cases as) (auto simp: root_law)
  then show ?thesis using as(1) assms(2) by (simp add: root_law)
qed

lemma pop_all_popped:
  "pop_all T ps k = (e, k1) \<Longrightarrow> popped k k1 x \<and>
     (e = None \<longrightarrow> (\<forall>(p, t) \<in> set ps. \<not> owned_root (tr_store T) (root_of T k1 p t)))"
proof (induction ps arbitrary: k x)
  case Nil
  then show ?case by (simp add: popped_same)
next
  case (Cons pt ps)
  obtain p t y k2 where pt: "pt = (p, t)" and po: "pop_owned T 64 p t k = (y, k2)" by (metis surj_pair)
  note one = pop_owned_popped [OF po]
  show ?case
  proof (cases y)
    case (Some z)
    then have "e = Some z" "k1 = k2" using Cons.prems po pt by auto
    then show ?thesis using one by simp
  next
    case None
    then have rest: "pop_all T ps k2 = (e, k1)" using Cons.prems po pt by simp
    have clean: "\<not> owned_root (tr_store T) (root_of T k2 p t)" using pop_owned_clears po None by blast
    have "popped k2 k1 (p, t)" using Cons.IH [OF rest, of "(p, t)"] by simp
    then have "\<not> owned_root (tr_store T) (root_of T k1 p t)" using clean by (rule popped_keeps_clean)
    moreover have "popped k k1 x" using popped_trans [OF one [of x]] Cons.IH [OF rest, of x] by blast
    ultimately show ?thesis using Cons.IH [OF rest, of x] pt by simp
  qed
qed

lemma remove_popped:
  assumes "remove_trust T k = (e, k1)" and "detect_trust (tr_view T k) = Inr d"
  shows "popped k k1 x"
    and "e = None \<Longrightarrow> p \<in> set (tv_namespaces d) \<Longrightarrow> t \<in> set (tv_targets d) \<Longrightarrow> \<not> owned_root (tr_store T) (root_of T k1 p t)"
proof -
  let ?ps = "concat (map (\<lambda>p. map (\<lambda>t. (p, t)) (tv_targets d)) (tv_namespaces d))"
  obtain y k2 where po: "pop_all T ?ps k = (y, k2)" by (metis surj_pair)
  have same: "layers k1 = layers k2" using assms po save_law by (fastforce simp: remove_trust_def split: option.splits)
  have "y = None" if "e = None" using that assms po by (cases y) (auto simp: remove_trust_def)
  then show "popped k k1 x"
    and "e = None \<Longrightarrow> p \<in> set (tv_namespaces d) \<Longrightarrow> t \<in> set (tv_targets d) \<Longrightarrow> \<not> owned_root (tr_store T) (root_of T k1 p t)"
    using pop_all_popped [OF po, of x] same by (auto simp: popped_def root_law)
qed

end

end
