(* ===== verification/TrustTable.thy ===== *)
theory TrustTable
  imports TrustMounts
begin

text \<open>
  The laws of mounting hold of a mount table that is read through the text of \<open>/proc/PID/mountinfo\<close>, as
  \<open>mountRoot\<close> of \<open>cmd/tun2proxy-web/cert_mount.go\<close> parses it. What the stores do when certificates are applied and
  removed follows for it.
\<close>

section \<open>A mount table and its text\<close>

text \<open>The rows, the newest last: namespace, target and source. A name with white space cannot be mounted.\<close>

record mount_table =
  mt_rows :: "(string \<times> string \<times> string) list"
  mt_journal :: "gerr + mount_state"

definition plain_name :: "string \<Rightarrow> bool" where
  "plain_name s \<longleftrightarrow> s \<noteq> [] \<and> list_all (\<lambda>c. \<not> is_space c) s"

definition counts_in :: "string \<Rightarrow> string \<times> string \<times> string \<Rightarrow> bool" where
  "counts_in ns row \<longleftrightarrow> fst row = ns \<and> plain_name (fst (snd row)) \<and> plain_name (snd (snd row))"

definition rows_of :: "string \<Rightarrow> mount_table \<Rightarrow> (string \<times> string) list" where
  "rows_of ns k = map snd (filter (counts_in ns) (mt_rows k))"

definition mount_line :: "string \<times> string \<Rightarrow> string" where
  "mount_line row = join '' '' [''36'', ''35'', ''98:0'', snd row, fst row, ''rw'']"

definition mount_info :: "string \<Rightarrow> mount_table \<Rightarrow> string" where
  "mount_info ns k = join [CHR 0x0A] (map mount_line (rows_of ns k))"

definition layer_rows :: "string \<Rightarrow> string \<Rightarrow> (string \<times> string \<times> string) list \<Rightarrow> string list" where
  "layer_rows ns target rows = map (snd \<circ> snd) (filter (\<lambda>r. counts_in ns r \<and> fst (snd r) = target) rows)"

definition table_layers :: "(int \<Rightarrow> string) \<Rightarrow> mount_table \<Rightarrow> place \<Rightarrow> string list" where
  "table_layers ns k x = layer_rows (ns (fst x)) (snd x) (rev (mt_rows k))"

definition table_mount :: "(int \<Rightarrow> string) \<Rightarrow> int \<Rightarrow> string \<Rightarrow> string \<Rightarrow> mount_table \<Rightarrow> gerr option \<times> mount_table" where
  "table_mount ns pid src target k =
     (if plain_name src \<and> plain_name target then (None, k\<lparr>mt_rows := mt_rows k @ [(ns pid, target, src)]\<rparr>)
      else (Some (Err ''mount''), k))"

fun drop_row :: "string \<Rightarrow> string \<Rightarrow> (string \<times> string \<times> string) list \<Rightarrow> (string \<times> string \<times> string) list" where
  "drop_row n target [] = []"
| "drop_row n target (r # rs) = (if counts_in n r \<and> fst (snd r) = target then rs else r # drop_row n target rs)"

definition table_umount :: "(int \<Rightarrow> string) \<Rightarrow> int \<Rightarrow> string \<Rightarrow> mount_table \<Rightarrow> gerr option \<times> mount_table" where
  "table_umount ns pid target k =
     (if table_layers ns k (pid, target) = [] then (Some (Err ''umount''), k)
      else (None, k\<lparr>mt_rows := rev (drop_row (ns pid) target (rev (mt_rows k)))\<rparr>))"

text \<open>A directory name longer than every source that is mounted is new.\<close>

definition table_temp :: "string \<Rightarrow> mount_table \<Rightarrow> nat \<Rightarrow> gerr + string" where
  "table_temp store k n =
     Inr (store @ ''/runtime/gen-'' @ replicate (sum_list (map (\<lambda>r. length (snd (snd r))) (mt_rows k))) (CHR ''0'') @ utoa n)"

definition with_table :: "(int \<Rightarrow> string) \<Rightarrow> mount_table trust_ops \<Rightarrow> mount_table trust_ops" where
  "with_table ns T = T
     \<lparr>tr_info := (\<lambda>k p. mount_info (ns p) k), tr_self := (\<lambda>_. []), tr_ns := (\<lambda>_ p. Some (ns p)),
      tr_temp := table_temp (tr_store T), tr_mount := table_mount ns, tr_umount := table_umount ns,
      tr_journal := mt_journal, tr_save := (\<lambda>st k. (None, k\<lparr>mt_journal := Inr st\<rparr>))\<rparr>"

section \<open>The laws\<close>

lemma mount_line_fields:
  assumes "plain_name t" and "plain_name s"
  shows "str_fields (mount_line (t, s)) = [''36'', ''35'', ''98:0'', s, t, ''rw'']"
    and "CHR 0x0A \<notin> set (mount_line (t, s))"
proof -
  have "str_fields (join '' '' [''36'', ''35'', ''98:0'', s, t, ''rw'']) = [''36'', ''35'', ''98:0'', s, t, ''rw'']"
    by (rule fields_join) (use assms in \<open>auto simp: plain_name_def list_all_iff is_space_def\<close>)
  then show "str_fields (mount_line (t, s)) = [''36'', ''35'', ''98:0'', s, t, ''rw'']" by (simp add: mount_line_def)
  show "CHR 0x0A \<notin> set (mount_line (t, s))"
    using assms by (auto simp: mount_line_def plain_name_def list_all_iff is_space_def)
qed

lemma mount_lines_info:
  "mount_lines (mount_info n k) = map (\<lambda>r. [''36'', ''35'', ''98:0'', snd r, fst r, ''rw'']) (rows_of n k)"
proof (cases "rows_of n k = []")
  case True
  then show ?thesis by (simp add: mount_lines_def mount_info_def str_fields_def)
next
  case False
  have line: "str_fields (mount_line r) = [''36'', ''35'', ''98:0'', snd r, fst r, ''rw'']" "CHR 0x0A \<notin> set (mount_line r)"
    if "r \<in> set (rows_of n k)" for r
    using that mount_line_fields [of "fst r" "snd r"] by (auto simp: rows_of_def counts_in_def)
  have "split_on (CHR 0x0A) (mount_info n k) = map mount_line (rows_of n k)"
    unfolding mount_info_def by (rule split_on_join) (use False line in auto)
  moreover have "map str_fields (map mount_line (rows_of n k)) = map (\<lambda>r. [''36'', ''35'', ''98:0'', snd r, fst r, ''rw'']) (rows_of n k)"
    using line by simp
  ultimately show ?thesis by (simp add: mount_lines_def filter_id_conv)
qed

lemma newest_root:
  "foldl (\<lambda>r f. if f ! 4 = target then f ! 3 else r) z (map (\<lambda>r. [a, b, c, snd r, fst r, d]) rows) =
     (case rev (map snd (filter (\<lambda>r. fst r = target) rows)) of [] \<Rightarrow> z | s # _ \<Rightarrow> s)"
  by (induction rows rule: rev_induct) (auto split: list.split)

lemma layer_rows_of: "rev (map snd (filter (\<lambda>r. fst r = t) (rows_of n k))) = layer_rows n t (rev (mt_rows k))"
  by (simp add: rows_of_def layer_rows_def filter_map rev_map rev_filter comp_def conj_commute)

lemma table_root:
  "root_of (with_table ns T) k p t = (case table_layers ns k (p, t) of [] \<Rightarrow> [] | s # _ \<Rightarrow> s)"
proof -
  let ?r = "case table_layers ns k (p, t) of [] \<Rightarrow> [] | s # _ \<Rightarrow> s"
  have "foldl (\<lambda>r f. if f ! 4 = t then f ! 3 else r) [] (mount_lines (mount_info (ns p) k)) = ?r"
    by (simp add: mount_lines_info newest_root layer_rows_of table_layers_def)
  moreover have "filesystem_root [] q = q" for q
    by (simp add: filesystem_root_def best_mount_def mount_lines_def str_fields_def)
  moreover have pre: "q @ trim_prefix r q = r" if "has_prefix r (q @ [c])" for q r :: string and c
    using that has_prefix_def [of r "q @ [c]"]
    by (auto simp: trim_prefix_def has_prefix_def) (metis append_assoc append_eq_conv_conj append_take_drop_id)+
  ultimately show ?thesis
    using pre [of ?r "tr_store T @ ''/runtime''" "CHR ''/''"] by (simp add: root_of_def mount_root_def with_table_def Let_def)
qed

lemma drop_row_layers:
  "layer_rows q w (drop_row n target rs) =
     (if q = n \<and> w = target then tl (layer_rows q w rs) else layer_rows q w rs)"
  by (induction n target rs rule: drop_row.induct) (auto simp: layer_rows_def counts_in_def)

lemma table_temp_new:
  assumes "table_temp store k n = Inr dir"
  shows "dir @ ''/live'' \<notin> set (table_layers ns k x)"
proof
  assume "dir @ ''/live'' \<in> set (table_layers ns k x)"
  then obtain r where r: "r \<in> set (mt_rows k)" "snd (snd r) = dir @ ''/live''" by (auto simp: table_layers_def layer_rows_def)
  have "length (snd (snd r)) \<le> sum_list (map (\<lambda>r. length (snd (snd r))) (mt_rows k))"
    using r(1) by (intro member_le_sum_list) auto
  then show False using r assms by (auto simp: table_temp_def)
qed

lemma table_mount_layers:
  assumes "table_mount ns p s t k = (e, k')"
  shows "table_layers ns k' (q, u) =
    (if e = None \<and> u = t \<and> ns p = ns q then s # table_layers ns k (q, u) else table_layers ns k (q, u))"
  using assms by (auto simp: table_mount_def table_layers_def layer_rows_def counts_in_def split: if_splits)

lemma table_umount_layers:
  assumes "table_umount ns p t k = (e, k')"
  shows "table_layers ns k' (q, u) =
    (if e = None \<and> u = t \<and> ns p = ns q then tl (table_layers ns k (q, u)) else table_layers ns k (q, u))"
  using assms by (auto simp: table_umount_def table_layers_def drop_row_layers split: if_splits)

interpretation mt: trust_kernel "with_table ns T" "table_layers ns" "\<lambda>p q. ns p = ns q"
  for ns :: "int \<Rightarrow> string" and T :: "mount_table trust_ops"
proof unfold_locales
  show "tr_mount (with_table ns T) p s t k = (e, k') \<Longrightarrow> table_layers ns k' (q, u) =
      (if e = None \<and> u = t \<and> ns p = ns q then s # table_layers ns k (q, u) else table_layers ns k (q, u))"
    for p s t k e k' q u
    by (rule table_mount_layers) (simp add: with_table_def)
  show "tr_umount (with_table ns T) p t k = (e, k') \<Longrightarrow> table_layers ns k' (q, u) =
      (if e = None \<and> u = t \<and> ns p = ns q then tl (table_layers ns k (q, u)) else table_layers ns k (q, u))"
    for p t k e k' q u
    by (rule table_umount_layers) (simp add: with_table_def)
  show "tr_save (with_table ns T) st k = (e, k') \<Longrightarrow> table_layers ns k' = table_layers ns k" for st k e k'
    by (auto simp: with_table_def table_layers_def fun_eq_iff)
  show "tr_temp (with_table ns T) k n = Inr dir \<Longrightarrow> dir @ ''/live'' \<notin> set (table_layers ns k x)" for k n dir x
    by (rule table_temp_new) (simp add: with_table_def)
qed (simp_all add: table_root)

interpretation ms: shared_kernel "with_table ns T" "table_layers ns" "\<lambda>p q. ns p = ns q"
  for ns :: "int \<Rightarrow> string" and T :: "mount_table trust_ops"
  by unfold_locales (simp add: table_layers_def)

end
