(* ===== verification/CertParse.thy ===== *)
theory CertParse
  imports CertStore Profiles
begin

text \<open>
  Decoding a certificate: \<open>Parse\<close> of \<open>cmd/tun2proxy-web/certificate/certificate.go\<close>. The decoders of the standard
  library (PEM, ASN.1, X.509) and the two digests are the operations \<open>x509_ops\<close>; what \<open>Parse\<close> demands of their
  results is written out.
\<close>

text \<open>
  \<open>bytes.ToUpper\<close> as far as a search for ASCII text can see it: of the other letters only the dotless \<open>i\<close> and the
  long \<open>s\<close> become ASCII.
\<close>

fun upper_text :: "string \<Rightarrow> string" where
  "upper_text [] = []"
| "upper_text [c] = [upper_char c]"
| "upper_text (c # d # s) =
     (if c = CHR 0xC4 \<and> d = CHR 0xB1 then CHR ''I'' # upper_text s
      else if c = CHR 0xC5 \<and> d = CHR 0xBF then CHR ''S'' # upper_text s
      else upper_char c # upper_text (d # s))"

definition hex_bytes :: "string \<Rightarrow> string" where
  "hex_bytes bs = concat (map (\<lambda>b. hex_digits 2 (of_char b)) bs)"

record pem_block =
  pb_type :: string
  pb_headers :: bool
  pb_bytes :: string
  pb_rest :: string

record der_envelope =
  ev_tbs :: string
  ev_algorithm :: string
  ev_signature :: string

record der_tbs =
  tb_serial :: "int option"
  tb_issuer :: string
  tb_subject :: string
  tb_before :: int
  tb_after :: int
  tb_key :: string
  tb_curve :: string
  tb_extensions :: "(string \<times> string) list"

text \<open>A decoder of ASN.1 returns the value and the bytes after it. \<open>xo_x509\<close> tells whether a certificate is a CA.\<close>

record x509_ops =
  xo_pem :: "string \<Rightarrow> pem_block option"
  xo_envelope :: "string \<Rightarrow> gerr + der_envelope \<times> string"
  xo_tbs :: "string \<Rightarrow> gerr + der_tbs \<times> string"
  xo_name :: "string \<Rightarrow> gerr + string"
  xo_x509 :: "string \<Rightarrow> gerr + bool"
  xo_constraints :: "string \<Rightarrow> gerr + bool"
  xo_sha256 :: "string \<Rightarrow> string"
  xo_md5 :: "string \<Rightarrow> string"
  xo_encode :: "string \<Rightarrow> string"

text \<open>The bytes of the one certificate: the data, or its only PEM block.\<close>

definition certificate_der :: "x509_ops \<Rightarrow> string \<Rightarrow> gerr + string" where
  "certificate_der X data =
     (if data = [] \<or> max_certificate < length data then Inl (Err ''certificate size invalid'')
      else if str_contains (upper_text data) ''PRIVATE KEY'' then Inl (Err ''private keys are forbidden'')
      else if str_contains data ''-----BEGIN'' then
        (case xo_pem X data of
           None \<Rightarrow> Inl (Err ''expected exactly one public CERTIFICATE PEM block'')
         | Some b \<Rightarrow>
             if pb_type b \<noteq> ''CERTIFICATE'' \<or> trim_unicode (pb_rest b) \<noteq> [] \<or> pb_headers b
             then Inl (Err ''expected exactly one public CERTIFICATE PEM block'')
             else Inr (pb_bytes b))
      else Inr data)"

text \<open>Whether an SM2 certificate, which the X.509 library does not read, is a CA: its last readable constraint.\<close>

definition sm2_ca :: "x509_ops \<Rightarrow> (string \<times> string) list \<Rightarrow> bool" where
  "sm2_ca X exts =
     foldl (\<lambda>ca (oid, v). if oid = ''2.5.29.19'' then (case xo_constraints X v of Inr b \<Rightarrow> b | Inl e \<Rightarrow> ca) else ca) False exts"

definition certificate_kind :: "x509_ops \<Rightarrow> string \<Rightarrow> der_tbs \<Rightarrow> gerr + string \<times> bool" where
  "certificate_kind X der t =
     (case xo_x509 X der of
        Inr ca \<Rightarrow> Inr (''normal'', ca)
      | Inl e \<Rightarrow>
          if tb_curve t \<noteq> ''1.2.156.10197.1.301'' then Inl (Wrap ''unsupported certificate'' e)
          else Inr (''gm'', sm2_ca X (tb_extensions t)))"

definition parse_certificate :: "x509_ops \<Rightarrow> string \<Rightarrow> gerr + certificate" where
  "parse_certificate X data =
     (case certificate_der X data of Inl e \<Rightarrow> Inl e | Inr der \<Rightarrow>
      (case xo_envelope X der of
         Inl e \<Rightarrow> Inl (Err ''invalid X.509 DER certificate (HTML is not a certificate)'')
       | Inr (env, rest) \<Rightarrow>
           if rest \<noteq> [] \<or> ev_signature env = [] then Inl (Err ''invalid X.509 DER certificate (HTML is not a certificate)'')
           else
      (case xo_tbs X (ev_tbs env) of
         Inl e \<Rightarrow> Inl (Err ''invalid X.509 certificate structure'')
       | Inr (t, left) \<Rightarrow>
           if left \<noteq> [] \<or> tb_serial t = None \<or> tb_key t = [] then Inl (Err ''invalid X.509 certificate structure'')
           else
      (case xo_name X (tb_subject t) of Inl e \<Rightarrow> Inl e | Inr subject \<Rightarrow>
      (case xo_name X (tb_issuer t) of Inl e \<Rightarrow> Inl e | Inr _ \<Rightarrow>
      (case certificate_kind X der t of Inl e \<Rightarrow> Inl e | Inr (kind, ca) \<Rightarrow>
         if \<not> ca then Inl (Err ''certificate is not a CA'')
         else Inr \<lparr>ct_id = hex_bytes (xo_sha256 X der), ct_subject = subject, ct_type = kind,
                    ct_hash = hex_bytes (rev (take 4 (xo_md5 X (tb_subject t)))),
                    ct_before = tb_before t, ct_after = tb_after t, ct_pem = xo_encode X der\<rparr>))))))"

section \<open>What is accepted\<close>

lemma hex_digits_digit: "list_all (\<lambda>c. is_digit c \<or> c \<in> set ''abcdef'') (hex_digits w n) \<and> length (hex_digits w n) = w"
proof (induction w arbitrary: n)
  case (Suc w)
  have "is_digit (digit_char d) \<or> digit_char d \<in> set ''abcdef''" if "d < 16" for d
  proof -
    have "list_all (\<lambda>d. is_digit (digit_char d) \<or> digit_char d \<in> set ''abcdef'') [0 ..< 16]" by code_simp
    then show ?thesis using that by (simp add: list_all_iff)
  qed
  then show ?case using Suc by simp
qed simp

lemma hex_bytes_valid: "length bs = 32 \<Longrightarrow> valid_id (hex_bytes bs)"
proof -
  have "list_all (\<lambda>c. is_digit c \<or> c \<in> set ''abcdef'') (hex_bytes bs) \<and> length (hex_bytes bs) = 2 * length bs" for bs
    by (induction bs) (use hex_digits_digit in \<open>auto simp: hex_bytes_def simp del: hex_digits.simps\<close>)
  then show "length bs = 32 \<Longrightarrow> valid_id (hex_bytes bs)" by (simp add: valid_id_def)
qed

text \<open>An accepted certificate is a CA without private key, named by the digest of its own bytes.\<close>

lemma parse_certificate_ok:
  assumes "parse_certificate X data = Inr c" and "\<And>b. length (xo_sha256 X b) = 32"
  shows "\<exists>der. certificate_der X data = Inr der \<and> ct_id c = hex_bytes (xo_sha256 X der) \<and> valid_id (ct_id c) \<and>
    ct_pem c = xo_encode X der \<and> ct_type c \<in> {''normal'', ''gm''} \<and>
    (if ct_type c = ''normal'' then xo_x509 X der = Inr True else \<exists>e. xo_x509 X der = Inl e) \<and>
    length data \<le> max_certificate \<and> \<not> str_contains (upper_text data) ''PRIVATE KEY''"
proof -
  obtain der where der: "certificate_der X data = Inr der"
    using assms(1) by (cases "certificate_der X data") (auto simp: parse_certificate_def)
  then obtain t kind where k: "certificate_kind X der t = Inr (kind, True)" "ct_type c = kind"
    "ct_id c = hex_bytes (xo_sha256 X der)" "ct_pem c = xo_encode X der"
    using assms(1) by (auto simp: parse_certificate_def split: sum.splits if_splits prod.splits)
  have "length data \<le> max_certificate \<and> \<not> str_contains (upper_text data) ''PRIVATE KEY''"
    using der by (auto simp: certificate_der_def split: if_splits)
  then show ?thesis
    using der k hex_bytes_valid [OF assms(2)]
    by (auto simp: certificate_kind_def split: sum.splits if_splits)
qed

end
