(* ===== verification/CertPages.thy ===== *)
theory CertPages
  imports Panel TrustTable CertParse
begin

text \<open>
  The certificate requests of the web panel: \<open>cmd/tun2proxy-web/cert_api.go\<close>. The functions take the operation
  \<open>certificateApply\<close> as the code does, a variable that is \<open>applyTrust\<close>; the decoder of certificates and the clock
  are parameters too. The audit log is not modelled.
\<close>

section \<open>Who may ask\<close>

record cert_request =
  cq_remote :: string
  cq_host :: string
  cq_origin :: string
  cq_header :: string

definition loopback_text :: "string \<Rightarrow> bool" where
  "loopback_text h \<longleftrightarrow> (case parse_ip h of None \<Rightarrow> False | Some a \<Rightarrow> is_loopback a)"

text \<open>\<open>certHTTP\<close>: the refusal, or \<open>None\<close> when the request goes on.\<close>

definition cert_guard :: "cert_request \<Rightarrow> web_reply option" where
  "cert_guard q =
     (if \<not> (case split_host_port (cq_remote q) of None \<Rightarrow> False | Some (h, _) \<Rightarrow> loopback_text h)
      then Some (error_reply 403 ''Certificate administration is local-only; open on the phone or via ADB forwarding'')
      else if \<not> (case split_host_port (cq_host q) of None \<Rightarrow> False | Some (h, _) \<Rightarrow> h = ''localhost'' \<or> loopback_text h)
      then Some (error_reply 403 ''Invalid certificate API host'')
      else if cq_origin q \<noteq> [] \<and>
        \<not> (case url_parse (cq_origin q) of None \<Rightarrow> False | Some u \<Rightarrow> ur_scheme u = ''http'' \<and> ur_host u = cq_host q)
      then Some (error_reply 403 ''Cross-origin certificate action denied'')
      else if cq_header q \<noteq> ''1'' then Some (error_reply 403 ''Missing certificate action header'')
      else None)"

section \<open>The world of a request\<close>

record 'k cert_world =
  cw_disk :: store_disk
  cw_users :: "(string \<times> (gerr + (string \<times> dir_item) list)) list"
  cw_trash :: "string \<rightharpoonup> string"
  cw_kernel :: 'k

record 'k cert_ops =
  ce_parse :: "string \<Rightarrow> gerr + certificate"
  ce_apply :: "inventory \<Rightarrow> store_disk \<Rightarrow> 'k \<Rightarrow> gerr option \<times> 'k"
  ce_trust :: "'k trust_ops"
  ce_self :: int
  ce_now :: "nat \<Rightarrow> int"

text \<open>\<open>applyTrust\<close> on the objects of the store as they are.\<close>

definition apply_now :: "'k trust_ops \<Rightarrow> (string \<Rightarrow> gerr + certificate) \<Rightarrow> inventory \<Rightarrow> store_disk \<Rightarrow> 'k \<Rightarrow> gerr option \<times> 'k" where
  "apply_now T parse v d k =
     apply_trust (T\<lparr>tr_read := (\<lambda>i. fst (store_read parse i (d\<lparr>sd_faults := []\<rparr>)))\<rparr>) v k"

definition at_disk :: "(store_disk \<Rightarrow> 'r \<times> store_disk) \<Rightarrow> 'k cert_world \<Rightarrow> 'r \<times> 'k cert_world" where
  "at_disk f w = (case f (cw_disk w) of (r, d) \<Rightarrow> (r, w\<lparr>cw_disk := d\<rparr>))"

text \<open>\<open>certLocked\<close>: the directory, the lock file and the lock, then the body.\<close>

fun store_faults :: "nat \<Rightarrow> store_disk \<Rightarrow> gerr option \<times> store_disk" where
  "store_faults 0 d = (None, d)"
| "store_faults (Suc n) d = (case store_fault d of (Some e, d1) \<Rightarrow> (Some e, d1) | (None, d1) \<Rightarrow> store_faults n d1)"

definition cert_locked :: "('k cert_world \<Rightarrow> (gerr + 'r) \<times> 'k cert_world) \<Rightarrow> 'k cert_world \<Rightarrow> (gerr + 'r) \<times> 'k cert_world" where
  "cert_locked body w =
     (case at_disk (store_faults 3) w of (Some e, w1) \<Rightarrow> (Inl e, w1) | (None, w1) \<Rightarrow> body w1)"

text \<open>The inventory is read twice: to be changed, and to go back to.\<close>

definition load_twice :: "'k cert_world \<Rightarrow> (gerr + inventory \<times> inventory) \<times> 'k cert_world" where
  "load_twice w =
     (case at_disk store_load w of (Inl e, w1) \<Rightarrow> (Inl e, w1) | (Inr v, w1) \<Rightarrow>
      (case at_disk store_load w1 of (Inl e, w2) \<Rightarrow> (Inl e, w2) | (Inr old, w2) \<Rightarrow> (Inr (v, old), w2)))"

section \<open>Certificates outside the store\<close>

record local_ca =
  lc_cert :: certificate
  lc_source :: string
  lc_user :: string
  lc_file :: string

definition regular_public :: "(string \<Rightarrow> gerr + certificate) \<Rightarrow> dir_item \<Rightarrow> gerr + certificate" where
  "regular_public parse item =
     (case item of
        Odd \<Rightarrow> Inl (Err ''unsafe certificate file'')
      | Plain b \<Rightarrow> if max_certificate < length b then Inl (Err ''unsafe certificate file'') else parse b)"

fun local_items :: "(string \<Rightarrow> gerr + certificate) \<Rightarrow> string \<Rightarrow> string \<Rightarrow> (string \<times> dir_item) list \<Rightarrow> local_ca list" where
  "local_items parse source user [] = []"
| "local_items parse source user ((name, item) # xs) =
     (case regular_public parse item of
        Inl e \<Rightarrow> local_items parse source user xs
      | Inr c \<Rightarrow> \<lparr>lc_cert = c, lc_source = source, lc_user = user, lc_file = name\<rparr> # local_items parse source user xs)"

fun local_dirs :: "(string \<Rightarrow> gerr + certificate) \<Rightarrow> string \<Rightarrow> (string \<times> (gerr + (string \<times> dir_item) list)) list \<Rightarrow> gerr + local_ca list" where
  "local_dirs parse source [] = Inr []"
| "local_dirs parse source ((user, Inl e) # ds) = (if e = NotExist then local_dirs parse source ds else Inl e)"
| "local_dirs parse source ((user, Inr xs) # ds) =
     (case local_dirs parse source ds of Inl e \<Rightarrow> Inl e | Inr l \<Rightarrow> Inr (local_items parse source user xs @ l))"

fun insert_ca :: "local_ca \<Rightarrow> local_ca list \<Rightarrow> local_ca list" where
  "insert_ca x [] = [x]"
| "insert_ca x (y # ys) =
     (if id_less (ct_subject (lc_cert y)) (ct_subject (lc_cert x)) then y # insert_ca x ys else x # y # ys)"

text \<open>The directory of the stock certificates: of an injected store the baseline.\<close>

definition stock_dir :: "'k cert_ops \<Rightarrow> 'k \<Rightarrow> gerr + string" where
  "stock_dir E k =
     (case detect_trust (tr_view (ce_trust E) k) of
        Inl e \<Rightarrow> Inl e
      | Inr d \<Rightarrow>
          let target = hd (tv_targets d); root = root_of (ce_trust E) k (ce_self E) target
          in Inr (if owned_root (tr_store (ce_trust E)) root
                  then take (length root - length (takeWhile (\<lambda>c. c \<noteq> CHR ''/'') (rev root))) root @ ''base''
                  else target))"

definition local_cas :: "'k cert_ops \<Rightarrow> string \<Rightarrow> 'k cert_world \<Rightarrow> gerr + local_ca list" where
  "local_cas E source w =
     (case (if source = ''user'' then local_dirs (ce_parse E) source (cw_users w)
            else if source = ''system'' then
              (case stock_dir E (cw_kernel w) of
                 Inl e \<Rightarrow> Inl e
               | Inr dir \<Rightarrow> local_dirs (ce_parse E) source [([], tr_list (ce_trust E) (cw_kernel w) dir)])
            else Inl (Err ''invalid local certificate source'')) of
        Inl e \<Rightarrow> Inl e
      | Inr l \<Rightarrow> Inr (map (\<lambda>c. if source = ''user'' then c else c\<lparr>lc_user := []\<rparr>) (foldr insert_ca l [])))"

definition resolve_user :: "'k cert_ops \<Rightarrow> string \<Rightarrow> string \<Rightarrow> 'k cert_world \<Rightarrow> gerr + local_ca" where
  "resolve_user E i user w =
     (if \<not> valid_id i then Inl (Err ''invalid certificate ID'')
      else case local_cas E ''user'' w of
             Inl e \<Rightarrow> Inl e
           | Inr l \<Rightarrow>
               (case find (\<lambda>c. ct_id (lc_cert c) = i \<and> lc_user c = user) l of
                  None \<Rightarrow> Inl (Err ''user certificate not found'')
                | Some c \<Rightarrow> Inr c))"

text \<open>Deleting a user's certificate: a copy first, then the file, if it still holds the certificate.\<close>

definition file_of :: "'k cert_world \<Rightarrow> string \<Rightarrow> string \<Rightarrow> dir_item option" where
  "file_of w user name =
     (case map_of (cw_users w) user of Some (Inr xs) \<Rightarrow> map_of xs name | _ \<Rightarrow> None)"

definition drop_file :: "string \<Rightarrow> string \<Rightarrow> 'k cert_world \<Rightarrow> 'k cert_world" where
  "drop_file user name w =
     w\<lparr>cw_users := map (\<lambda>(u, r). (u, if u = user then map_sum id (AList.delete name) r else r)) (cw_users w)\<rparr>"

definition delete_user :: "'k cert_ops \<Rightarrow> string \<Rightarrow> string \<Rightarrow> 'k cert_world \<Rightarrow> gerr option \<times> 'k cert_world" where
  "delete_user E i user w =
     (case resolve_user E i user w of
        Inl e \<Rightarrow> (Some e, w)
      | Inr c \<Rightarrow>
          (case at_disk store_fault w of
             (Some e, w1) \<Rightarrow> (Some e, w1)
           | (None, w1) \<Rightarrow>
               let w2 = w1\<lparr>cw_trash := (cw_trash w1)(lc_user c @ ''-'' @ ct_id (lc_cert c) @ ''.pem'' \<mapsto> ct_pem (lc_cert c))\<rparr>
               in (case map_option (regular_public (ce_parse E)) (file_of w2 (lc_user c) (lc_file c)) of
                     Some (Inr again) \<Rightarrow>
                       if ct_id again \<noteq> ct_id (lc_cert c) then (Some (Err ''user CA changed; deletion cancelled''), w2)
                       else (case at_disk store_fault w2 of
                               (Some e, w3) \<Rightarrow> (Some e, w3)
                             | (None, w3) \<Rightarrow> (None, drop_file (lc_user c) (lc_file c) w3))
                   | _ \<Rightarrow> (Some (Err ''user CA changed; deletion cancelled''), w2))))"

section \<open>Actions\<close>

record cert_action_request =
  ca_action :: string
  ca_id :: string
  ca_source :: string
  ca_user :: string
  ca_confirm :: string

definition cert_action_field :: "string \<Rightarrow> cert_action_request lenient" where
  "cert_action_field k v a =
     (if fold_eq k ''action'' then update_by (\<lambda>x. ca_action_update (\<lambda>_. x)) (len_string v (ca_action a)) a
      else if fold_eq k ''id'' then update_by (\<lambda>x. ca_id_update (\<lambda>_. x)) (len_string v (ca_id a)) a
      else if fold_eq k ''source'' then update_by (\<lambda>x. ca_source_update (\<lambda>_. x)) (len_string v (ca_source a)) a
      else if fold_eq k ''user'' then update_by (\<lambda>x. ca_user_update (\<lambda>_. x)) (len_string v (ca_user a)) a
      else if fold_eq k ''confirm'' then update_by (\<lambda>x. ca_confirm_update (\<lambda>_. x)) (len_string v (ca_confirm a)) a
      else (a, False))"

datatype cert_reply = Finished | ShowLocal local_ca | ShowStored certificate android_probe

definition set_managed :: "bool \<Rightarrow> int \<Rightarrow> string \<Rightarrow> cert_entry \<Rightarrow> inventory \<Rightarrow> inventory" where
  "set_managed b now i e v =
     v\<lparr>iv_entries := AList.update i (e\<lparr>en_managed := b, en_updated := now\<rparr>) (iv_entries v)\<rparr>"

definition inspect_action :: "'k cert_ops \<Rightarrow> cert_action_request \<Rightarrow> 'k cert_world \<Rightarrow> (gerr + cert_reply) \<times> 'k cert_world" where
  "inspect_action E a w =
     (if ca_source a = ''user'' then (map_sum id ShowLocal (resolve_user E (ca_id a) (ca_user a) w), w)
      else if ca_source a = ''system'' then
        (case local_cas E ''system'' w of
           Inl e \<Rightarrow> (Inl e, w)
         | Inr l \<Rightarrow>
             (case find (\<lambda>c. ct_id (lc_cert c) = ca_id a) l of
                None \<Rightarrow> (Inl (Err ''stock CA not found''), w)
              | Some c \<Rightarrow> (Inr (ShowLocal c), w)))
      else case at_disk (store_read (ce_parse E) (ca_id a)) w of
             (Inl e, w1) \<Rightarrow> (Inl e, w1)
           | (Inr c, w1) \<Rightarrow> (Inr (ShowStored c (tr_probe (ce_trust E) (ca_id a))), w1))"

text \<open>What \<open>install\<close> and \<open>remove\<close> make of the inventory, in memory.\<close>

definition take_source :: "'k cert_ops \<Rightarrow> cert_action_request \<Rightarrow> inventory \<Rightarrow> 'k cert_world \<Rightarrow> (gerr + inventory) \<times> 'k cert_world" where
  "take_source E a v w =
     (if ca_source a \<noteq> ''user'' then (Inr v, w)
      else case resolve_user E (ca_id a) (ca_user a) w of
             Inl e \<Rightarrow> (Inl e, w)
           | Inr c \<Rightarrow>
               (case store_put v (lc_cert c) ''user'' (ce_now E 0) (cw_disk w) of
                  (Inl e, _, d1) \<Rightarrow> (Inl e, w\<lparr>cw_disk := d1\<rparr>)
                | (Inr _, v1, d1) \<Rightarrow> (Inr v1, w\<lparr>cw_disk := d1\<rparr>)))"

definition install_refusal :: "'k cert_ops \<Rightarrow> certificate \<Rightarrow> gerr option" where
  "install_refusal E c =
     (let p = tr_probe (ce_trust E) (ct_id c)
      in if ct_type c = ''gm'' \<and> (\<not> ap_parsed p \<or> \<not> ap_signed p)
         then Some (Err ''Android cannot parse/verify this GM CA; export/download remain available'')
         else if ce_now E 1 < ct_before c \<or> ct_after c < ce_now E 2 then Some (Err ''CA is not currently valid'')
         else None)"

definition install_entry :: "'k cert_ops \<Rightarrow> cert_action_request \<Rightarrow> inventory \<Rightarrow> 'k cert_world \<Rightarrow> (gerr + inventory) \<times> 'k cert_world" where
  "install_entry E a v w =
     (if ca_source a = ''system'' then (Inl (Err ''stock certificates are read-only''), w)
      else case take_source E a v w of
             (Inl e, w1) \<Rightarrow> (Inl e, w1)
           | (Inr v1, w1) \<Rightarrow>
               (case map_of (iv_entries v1) (ca_id a) of
                  None \<Rightarrow> (Inl (Err ''managed cache certificate not found''), w1)
                | Some entry \<Rightarrow>
                    (case at_disk (store_read (ce_parse E) (ca_id a)) w1 of
                       (Inl e, w2) \<Rightarrow> (Inl e, w2)
                     | (Inr c, w2) \<Rightarrow>
                         (case install_refusal E c of
                            Some e \<Rightarrow> (Inl e, w2)
                          | None \<Rightarrow> (Inr (set_managed True (ce_now E 3) (ca_id a) entry v1), w2)))))"

definition remove_entry :: "'k cert_ops \<Rightarrow> cert_action_request \<Rightarrow> inventory \<Rightarrow> gerr + inventory" where
  "remove_entry E a v =
     (case map_of (iv_entries v) (ca_id a) of
        None \<Rightarrow> Inl (Err ''certificate not managed by this module'')
      | Some entry \<Rightarrow> Inr (set_managed False (ce_now E 3) (ca_id a) entry v))"

text \<open>The stores first, then the file; when the file cannot be written the old stores are applied again.\<close>

definition commit_inventory :: "'k cert_ops \<Rightarrow> inventory \<Rightarrow> inventory \<Rightarrow> 'k cert_world \<Rightarrow> gerr option \<times> 'k cert_world" where
  "commit_inventory E old v w =
     (case ce_apply E v (cw_disk w) (cw_kernel w) of
        (Some e, k1) \<Rightarrow> (Some e, w\<lparr>cw_kernel := k1\<rparr>)
      | (None, k1) \<Rightarrow>
          (case store_save v (cw_disk w) of
             (None, d1) \<Rightarrow> (None, w\<lparr>cw_disk := d1, cw_kernel := k1\<rparr>)
           | (Some e, d1) \<Rightarrow> (Some e, w\<lparr>cw_disk := d1, cw_kernel := snd (ce_apply E old d1 k1)\<rparr>)))"

definition answered :: "gerr option \<times> 'w \<Rightarrow> (gerr + cert_reply) \<times> 'w" where
  "answered r = ((case fst r of None \<Rightarrow> Inr Finished | Some e \<Rightarrow> Inl e), snd r)"

definition cert_act :: "'k cert_ops \<Rightarrow> cert_action_request \<Rightarrow> 'k cert_world \<Rightarrow> (gerr + cert_reply) \<times> 'k cert_world" where
  "cert_act E a w0 =
     (case load_twice w0 of (Inl e, w) \<Rightarrow> (Inl e, w) | (Inr (v, old), w) \<Rightarrow>
        if ca_action a = ''inspect'' then inspect_action E a w
        else if ca_action a = ''delete-user'' then
          (if ca_confirm a \<noteq> ''DELETE USER '' @ ca_id a
           then (Inl (Err ''explicit user-certificate deletion confirmation required''), w)
           else answered (delete_user E (ca_id a) (ca_user a) w))
        else if ca_action a = ''delete'' then
          (if ca_confirm a \<noteq> ''DELETE CACHE '' @ ca_id a
           then (Inl (Err ''explicit cache deletion confirmation required''), w)
           else answered (at_disk (store_delete v (ca_id a)) w))
        else if ca_action a = ''install'' then
          (case install_entry E a v w of
             (Inl e, w2) \<Rightarrow> (Inl e, w2)
           | (Inr v1, w2) \<Rightarrow> answered (commit_inventory E old v1 w2))
        else if ca_action a = ''remove'' then
          (case remove_entry E a v of Inl e \<Rightarrow> (Inl e, w) | Inr v1 \<Rightarrow> answered (commit_inventory E old v1 w))
        else if ca_action a = ''apply'' then answered (commit_inventory E old v w)
        else (Inl (Err ''unknown certificate action''), w))"

definition cert_limit :: nat where
  "cert_limit = max_certificate + 4096"

definition read_action :: "string \<Rightarrow> cert_action_request \<times> bool" where
  "read_action body =
     decode_first (len_struct cert_action_field) (take cert_limit body)
       \<lparr>ca_action = [], ca_id = [], ca_source = [], ca_user = [], ca_confirm = []\<rparr>"

definition cert_action :: "'k cert_ops \<Rightarrow> string \<Rightarrow> string \<Rightarrow> 'k cert_world \<Rightarrow> (int \<times> (string + cert_reply)) \<times> 'k cert_world" where
  "cert_action E meth body w =
     (if meth \<noteq> ''POST'' then ((405, Inl ''Use POST''), w)
      else case read_action body of
             (_, True) \<Rightarrow> ((400, Inl ''Invalid action''), w)
           | (a, False) \<Rightarrow>
               if \<not> valid_id (ca_id a) \<and> ca_action a \<noteq> ''apply'' then ((400, Inl ''Invalid certificate ID''), w)
               else case cert_locked (cert_act E a) w of
                      (Inl e, w1) \<Rightarrow> ((400, Inl (error_text e)), w1)
                    | (Inr r, w1) \<Rightarrow> ((200, Inr r), w1))"

section \<open>Import and export\<close>

definition import_certificate :: "'k cert_ops \<Rightarrow> certificate \<Rightarrow> 'k cert_world \<Rightarrow> (gerr + cert_entry) \<times> 'k cert_world" where
  "import_certificate E c w =
     (case at_disk store_load w of (Inl e, w1) \<Rightarrow> (Inl e, w1) | (Inr v, w1) \<Rightarrow>
      (case store_put v c ''import'' (ce_now E 0) (cw_disk w1) of
         (Inl e, _, d1) \<Rightarrow> (Inl e, w1\<lparr>cw_disk := d1\<rparr>)
       | (Inr entry, v1, d1) \<Rightarrow>
           (case store_save v1 d1 of
              (Some e, d2) \<Rightarrow> (Inl e, w1\<lparr>cw_disk := d2\<rparr>)
            | (None, d2) \<Rightarrow> (Inr entry, w1\<lparr>cw_disk := d2\<rparr>))))"

definition cert_import :: "'k cert_ops \<Rightarrow> string \<Rightarrow> string \<Rightarrow> 'k cert_world \<Rightarrow> (int \<times> (string + cert_entry)) \<times> 'k cert_world" where
  "cert_import E meth body w =
     (if meth \<noteq> ''POST'' then ((405, Inl ''Use POST''), w)
      else if cert_limit < length body then ((400, Inl ''Upload too large or incomplete''), w)
      else case ce_parse E body of
             Inl e \<Rightarrow> ((400, Inl (error_text e)), w)
           | Inr c \<Rightarrow>
               (case cert_locked (import_certificate E c) w of
                  (Inl e, w1) \<Rightarrow> ((500, Inl (error_text e)), w1)
                | (Inr entry, w1) \<Rightarrow> ((200, Inr entry), w1)))"

definition cert_export :: "'k cert_ops \<Rightarrow> string \<Rightarrow> string \<Rightarrow> 'k cert_world \<Rightarrow> (int \<times> (string + string)) \<times> 'k cert_world" where
  "cert_export E meth i w =
     (if meth \<noteq> ''GET'' then ((405, Inl ''Use GET''), w)
      else case at_disk (store_read (ce_parse E) i) w of
             (Inl e, w1) \<Rightarrow> ((400, Inl (error_text e)), w1)
           | (Inr c, w1) \<Rightarrow> ((200, Inr (ct_pem c)), w1))"

section \<open>Requests keep the store and commit all or nothing\<close>

text \<open>What the inventory file holds, and which certificates it manages.\<close>

definition inventory_at :: "store_disk \<Rightarrow> inventory" where
  "inventory_at d = (case sd_inventory d of Some (Stored v) \<Rightarrow> v | _ \<Rightarrow> empty_inventory)"

definition managed_in :: "inventory \<Rightarrow> string \<Rightarrow> bool" where
  "managed_in v i \<longleftrightarrow> (case map_of (iv_entries v) i of None \<Rightarrow> False | Some e \<Rightarrow> en_managed e)"

lemma managed_stored_form [simp]: "managed_in (stored_form v) i = managed_in v i"
  by (simp add: managed_in_def stored_form_def map_of_map split: option.split)

text \<open>An entry is stored under the identifier of its certificate.\<close>

definition keyed :: "inventory \<Rightarrow> bool" where
  "keyed v \<longleftrightarrow> (\<forall>i e. map_of (iv_entries v) i = Some e \<longrightarrow> ct_id (en_cert e) = i)"

text \<open>Only a missing file is reported as missing.\<close>

definition honest :: "store_disk \<Rightarrow> bool" where
  "honest d \<longleftrightarrow> Some NotExist \<notin> set (sd_faults d)"

lemma store_fault_honest: "store_fault d = (e, d1) \<Longrightarrow> honest d \<Longrightarrow> honest d1 \<and> e \<noteq> Some NotExist"
  by (auto simp: store_fault_def honest_def split: list.splits)

lemma store_load_at:
  assumes "store_load d = (Inr v, d1)"
  shows "(honest d \<longrightarrow> v = inventory_at d) \<and> keyed v"
proof -
  obtain e d2 where f: "store_fault d = (e, d2)" by (metis surj_pair)
  have "keyed v"
    using assms f
    by (auto simp: store_load_def check_inventory_def empty_inventory_def keyed_def list_all_iff
        split: option.splits inventory_text.splits if_splits dest!: map_of_SomeD)
  moreover have "v = inventory_at d" if "honest d"
    using assms f store_fault_honest [OF f that]
    by (auto simp: store_load_def inventory_at_def check_inventory_def empty_inventory_def
        split: option.splits inventory_text.splits if_splits)
  ultimately show ?thesis by blast
qed

lemma at_disk_simps:
  "at_disk f w = (r, w1) \<longleftrightarrow> (\<exists>d. f (cw_disk w) = (r, d) \<and> w1 = w\<lparr>cw_disk := d\<rparr>)"
  by (auto simp: at_disk_def split: prod.splits)

lemma store_faults_same:
  "store_faults n d = (e, d1) \<Longrightarrow> sd_inventory d1 = sd_inventory d \<and> sd_objects d1 = sd_objects d \<and> (honest d \<longrightarrow> honest d1)"
proof (induction n arbitrary: d)
  case (Suc n)
  obtain x d2 where f: "store_fault d = (x, d2)" by (metis surj_pair)
  note one = store_fault_same [OF f]
  show ?case
  proof (cases x)
    case None
    then have "store_faults n d2 = (e, d1)" using Suc.prems f by simp
    from Suc.IH [OF this] show ?thesis using one store_fault_honest [OF f] by simp
  next
    case (Some z)
    then have "d1 = d2" using Suc.prems f by simp
    then show ?thesis using one store_fault_honest [OF f] by simp
  qed
qed simp

lemma store_read_same:
  assumes "store_read parse i d = (r, d1)"
  shows "sd_inventory d1 = sd_inventory d \<and> sd_objects d1 = sd_objects d"
proof -
  obtain e d2 where f: "store_fault d = (e, d2)" by (metis surj_pair)
  show ?thesis
    using assms store_fault_same [OF f] f
    by (auto simp: store_read_def split: option.splits if_splits sum.splits)
qed

text \<open>The world's store is sound, and the file is as it was.\<close>

definition kept :: "'k cert_world \<Rightarrow> 'k cert_world \<Rightarrow> bool" where
  "kept w w1 \<longleftrightarrow> sd_inventory (cw_disk w1) = sd_inventory (cw_disk w) \<and> store_ok (cw_disk w1) \<and> cw_kernel w1 = cw_kernel w"

lemma kept_same:
  "store_ok (cw_disk w) \<Longrightarrow> sd_inventory d = sd_inventory (cw_disk w) \<Longrightarrow> sd_objects d = sd_objects (cw_disk w) \<Longrightarrow>
     kept w (w\<lparr>cw_disk := d\<rparr>)"
  using store_ok_same [of d "cw_disk w"] by (simp add: kept_def)

lemma kept_refl: "store_ok (cw_disk w) \<Longrightarrow> kept w w"
  by (simp add: kept_def)

lemma kept_trans: "kept w w1 \<Longrightarrow> kept w1 w2 \<Longrightarrow> kept w w2"
  by (simp add: kept_def)

lemma kept_ok: "kept w w1 \<Longrightarrow> store_ok (cw_disk w1)"
  by (simp add: kept_def)

lemma load_kept:
  assumes "at_disk store_load w = (r, w1)" and "store_ok (cw_disk w)"
  shows "kept w w1 \<and> (case r of Inl e \<Rightarrow> True | Inr v \<Rightarrow> backed v (cw_disk w1))"
proof -
  obtain d where d: "store_load (cw_disk w) = (r, d)" "w1 = w\<lparr>cw_disk := d\<rparr>" using assms(1) by (auto simp: at_disk_simps)
  from store_load_backed [OF d(1) assms(2)] d(2) assms(2) show ?thesis
    by (auto simp: kept_def split: sum.splits)
qed

lemma load_twice_ok:
  assumes "load_twice w = (r, w2)" and "store_ok (cw_disk w)"
  shows "kept w w2 \<and>
    (case r of Inl e \<Rightarrow> True | Inr (v, old) \<Rightarrow>
       (honest (cw_disk w) \<longrightarrow> v = inventory_at (cw_disk w)) \<and> keyed v \<and> backed v (cw_disk w2))"
proof -
  obtain x w1 where l1: "at_disk store_load w = (x, w1)" by (metis surj_pair)
  note k1 = load_kept [OF l1 assms(2)]
  show ?thesis
  proof (cases x)
    case (Inl e)
    then have "r = Inl e" "w2 = w1" using assms(1) l1 by (auto simp: load_twice_def)
    then show ?thesis using k1 by simp
  next
    case (Inr v)
    obtain y w3 where l2: "at_disk store_load w1 = (y, w3)" by (metis surj_pair)
    have k2: "kept w1 w3" "w2 = w3" using load_kept [OF l2] k1 kept_ok assms(1) l1 l2 Inr by (auto simp: load_twice_def split: sum.splits)
    obtain d where d: "store_load (cw_disk w) = (Inr v, d)" "w1 = w\<lparr>cw_disk := d\<rparr>" using l1 Inr by (auto simp: at_disk_simps)
    obtain d3 where d3: "store_load d = (y, d3)" "w3 = w1\<lparr>cw_disk := d3\<rparr>" using l2 d by (auto simp: at_disk_simps)
    have "sd_objects d3 = sd_objects d"
      using store_load_backed [OF d3(1)] k1 d(2) kept_ok [of w w1] by simp
    then have "backed v (cw_disk w3)" using k1 Inr d d3 backed_same [of d3 d v] by simp
    then show ?thesis
      using assms(1) l1 l2 Inr k1 k2 kept_trans [of w w1 w3] store_load_at [OF d(1)]
      by (auto simp: load_twice_def split: sum.splits)
  qed
qed

lemma read_kept:
  assumes "at_disk (store_read parse i) w = (r, w1)" and "store_ok (cw_disk w)"
  shows "kept w w1 \<and> (backed v (cw_disk w) \<longrightarrow> backed v (cw_disk w1))"
proof -
  obtain d where d: "store_read parse i (cw_disk w) = (r, d)" "w1 = w\<lparr>cw_disk := d\<rparr>" using assms(1) by (auto simp: at_disk_simps)
  note same = store_read_same [OF d(1)]
  then have "backed v d = backed v (cw_disk w)" by (intro backed_same) simp
  then show ?thesis using kept_same [OF assms(2)] same d(2) by simp
qed

lemma fault_kept:
  assumes "at_disk store_fault w = (e, w1)" and "store_ok (cw_disk w)"
  shows "kept w w1"
proof -
  obtain d where d: "store_fault (cw_disk w) = (e, d)" "w1 = w\<lparr>cw_disk := d\<rparr>" using assms(1) by (auto simp: at_disk_simps)
  then show ?thesis using kept_same [OF assms(2)] store_fault_same [OF d(1)] by simp
qed

lemma faults_kept:
  assumes "at_disk (store_faults n) w = (e, w1)" and "store_ok (cw_disk w)"
  shows "kept w w1"
proof -
  obtain d where d: "store_faults n (cw_disk w) = (e, d)" "w1 = w\<lparr>cw_disk := d\<rparr>" using assms(1) by (auto simp: at_disk_simps)
  then show ?thesis using kept_same [OF assms(2)] store_faults_same [OF d(1)] by simp
qed

lemma kept_update: "kept w w1 \<Longrightarrow> cw_disk w2 = cw_disk w1 \<Longrightarrow> cw_kernel w2 = cw_kernel w1 \<Longrightarrow> kept w w2"
  by (simp add: kept_def)

lemma delete_user_kept:
  assumes "delete_user E i user w = (r, w1)" and "store_ok (cw_disk w)"
  shows "kept w w1"
proof (cases "resolve_user E i user w")
  case (Inl e)
  then show ?thesis using assms by (auto simp: delete_user_def kept_refl)
next
  case (Inr c)
  obtain e w2 where f: "at_disk store_fault w = (e, w2)" by (metis surj_pair)
  note one = fault_kept [OF f assms(2)]
  let ?w3 = "w2\<lparr>cw_trash := (cw_trash w2)(lc_user c @ ''-'' @ ct_id (lc_cert c) @ ''.pem'' \<mapsto> ct_pem (lc_cert c))\<rparr>"
  have two: "kept w ?w3" using one by (rule kept_update) simp_all
  obtain e2 w4 where g: "at_disk store_fault ?w3 = (e2, w4)" by (metis surj_pair)
  have three: "kept w w4" using two fault_kept [OF g] kept_trans kept_ok by blast
  then have four: "kept w (drop_file (lc_user c) (lc_file c) w4)" by (rule kept_update) (simp_all add: drop_file_def)
  show ?thesis
    using assms(1) Inr f g one two three four
    by (auto simp: delete_user_def Let_def split: option.splits sum.splits if_splits)
qed

lemma backed_update:
  "backed v d \<Longrightarrow> i \<in> dom (map_of (iv_entries v)) \<Longrightarrow> backed (v\<lparr>iv_entries := AList.update i e (iv_entries v)\<rparr>) d"
  by (auto simp: backed_def update_conv' simp del: dom_map_of_conv_image_fst)

lemma managed_update:
  "managed_in (v\<lparr>iv_entries := AList.update i e (iv_entries v)\<rparr>) j = (if j = i then en_managed e else managed_in v j)"
  by (simp add: managed_in_def update_conv')

lemma put_managed:
  assumes "store_put v c source now d = (Inr entry, v1, d1)"
  shows "managed_in v1 j = managed_in v j \<and> en_managed entry = managed_in v (ct_id c)"
  using assms
  by (auto simp: store_put_def Let_def managed_in_def update_conv' split: option.splits if_splits prod.splits)

lemma put_kept:
  assumes "store_put v c source now (cw_disk w) = (r, v1, d1)" and "store_ok (cw_disk w)" and "backed v (cw_disk w)"
  shows "kept w (w\<lparr>cw_disk := d1\<rparr>) \<and> backed v1 d1"
  using store_put_backed [OF assms] by (simp add: kept_def)

lemma take_source_kept:
  assumes "take_source E a v w = (r, w1)" and "store_ok (cw_disk w)" and "backed v (cw_disk w)"
  shows "kept w w1 \<and> (case r of Inl e \<Rightarrow> True | Inr v1 \<Rightarrow> backed v1 (cw_disk w1) \<and> (\<forall>j. managed_in v1 j = managed_in v j))"
proof (cases "ca_source a = ''user''")
  case True
  show ?thesis
  proof (cases "resolve_user E (ca_id a) (ca_user a) w")
    case (Inr c)
    obtain x v2 d2 where put: "store_put v (lc_cert c) ''user'' (ce_now E 0) (cw_disk w) = (x, v2, d2)" by (metis surj_pair)
    from put_kept [OF put assms(2,3)] put_managed [of v "lc_cert c" "''user''" "ce_now E 0" "cw_disk w" _ v2 d2] put
    show ?thesis using assms(1) True Inr by (cases x) (auto simp: take_source_def)
  qed (use assms True kept_refl in \<open>auto simp: take_source_def\<close>)
qed (use assms kept_refl in \<open>auto simp: take_source_def\<close>)

lemma install_entry_kept:
  assumes "install_entry E a v w = (r, w1)" and "store_ok (cw_disk w)" and "backed v (cw_disk w)"
  shows "kept w w1 \<and> (case r of Inl e \<Rightarrow> True
    | Inr v1 \<Rightarrow> backed v1 (cw_disk w1) \<and> (\<forall>j. managed_in v1 j = (j = ca_id a \<or> managed_in v j)))"
proof (cases "ca_source a = ''system''")
  case True
  then show ?thesis using assms kept_refl by (auto simp: install_entry_def)
next
  case False
  obtain x w2 where t: "take_source E a v w = (x, w2)" by (metis surj_pair)
  note one = take_source_kept [OF t assms(2,3)]
  show ?thesis
  proof (cases x)
    case (Inl e)
    then show ?thesis using assms(1) False t one by (auto simp: install_entry_def)
  next
    case (Inr v1)
    obtain y w3 where d: "at_disk (store_read (ce_parse E) (ca_id a)) w2 = (y, w3)" by (metis surj_pair)
    have "kept w w2" "backed v1 (cw_disk w2)" using one Inr by simp_all
    then have two: "kept w w3" "backed v1 (cw_disk w3)"
      using read_kept [OF d kept_ok] kept_trans [of w w2 w3] by blast+
    show ?thesis
      using assms(1) False t Inr d two one
      by (auto simp: install_entry_def set_managed_def managed_update intro: backed_update split: option.splits sum.splits if_splits)
  qed
qed

text \<open>A commit: the file follows the stores, or neither the file changes.\<close>

lemma commit_inventory_ok:
  assumes "commit_inventory E old v w = (r, w1)" and "store_ok (cw_disk w)" and "backed v (cw_disk w)"
  shows "store_ok (cw_disk w1) \<and>
    (if r = None
     then sd_inventory (cw_disk w1) = Some (Stored (stored_form v)) \<and> ce_apply E v (cw_disk w) (cw_kernel w) = (None, cw_kernel w1)
     else sd_inventory (cw_disk w1) = sd_inventory (cw_disk w) \<and>
       (ce_apply E v (cw_disk w) (cw_kernel w) = (r, cw_kernel w1) \<or>
        (\<exists>k1 d1. ce_apply E v (cw_disk w) (cw_kernel w) = (None, k1) \<and> cw_kernel w1 = snd (ce_apply E old d1 k1))))"
proof -
  obtain e k1 where a: "ce_apply E v (cw_disk w) (cw_kernel w) = (e, k1)" by (metis surj_pair)
  show ?thesis
  proof (cases e)
    case (Some z)
    then have "r = Some z" "w1 = w\<lparr>cw_kernel := k1\<rparr>" using assms(1) a by (simp_all add: commit_inventory_def)
    then show ?thesis using assms(2) a Some by simp
  next
    case None
    obtain x d1 where s: "store_save v (cw_disk w) = (x, d1)" by (metis surj_pair)
    note saved = store_save_backed [OF s assms(2,3)]
    show ?thesis using assms(1) a None s saved by (cases x) (auto simp: commit_inventory_def)
  qed
qed

text \<open>What an action is to manage: of the certificates managed before, its own one added or taken away.\<close>

definition action_manages :: "cert_action_request \<Rightarrow> inventory \<Rightarrow> string \<Rightarrow> bool" where
  "action_manages a v i \<longleftrightarrow>
     (if i = ca_id a \<and> ca_action a = ''install'' then True
      else if i = ca_id a \<and> ca_action a = ''remove'' then False else managed_in v i)"

definition act_ok :: "'k cert_ops \<Rightarrow> cert_action_request \<Rightarrow> inventory \<Rightarrow> 'k cert_world \<Rightarrow> (gerr + cert_reply) \<Rightarrow> 'k cert_world \<Rightarrow> bool" where
  "act_ok E a v0 w r w1 \<longleftrightarrow> store_ok (cw_disk w1) \<and>
     (case r of
        Inl e \<Rightarrow> ca_action a = ''delete'' \<or> sd_inventory (cw_disk w1) = sd_inventory (cw_disk w)
      | Inr _ \<Rightarrow> ca_action a \<in> {''install'', ''remove'', ''apply''} \<longrightarrow>
          (\<exists>v d. sd_inventory (cw_disk w1) = Some (Stored (stored_form v)) \<and> ce_apply E v d (cw_kernel w) = (None, cw_kernel w1) \<and>
             (\<forall>i. managed_in v i = action_manages a v0 i)))"

lemma commit_act_ok:
  assumes "answered (commit_inventory E old v w2) = (r, w1)" and "kept w w2" and "backed v (cw_disk w2)"
    and "\<And>i. managed_in v i = action_manages a v0 i"
  shows "act_ok E a v0 w r w1"
proof -
  obtain x w3 where c: "commit_inventory E old v w2 = (x, w3)" by (metis surj_pair)
  note done_ok = commit_inventory_ok [OF c kept_ok [OF assms(2)] assms(3)]
  have r: "w1 = w3" "r = (case x of None \<Rightarrow> Inr Finished | Some e \<Rightarrow> Inl e)"
    using assms(1) c by (auto simp: answered_def)
  show ?thesis
  proof (cases x)
    case None
    then have "sd_inventory (cw_disk w1) = Some (Stored (stored_form v)) \<and> ce_apply E v (cw_disk w2) (cw_kernel w) = (None, cw_kernel w1)"
      using done_ok r assms(2) by (simp add: kept_def)
    then show ?thesis using None done_ok r assms(4) by (auto simp: act_ok_def)
  next
    case (Some z)
    then show ?thesis using done_ok r assms(2) by (auto simp: act_ok_def kept_def)
  qed
qed

lemma kept_act_ok: "kept w w1 \<Longrightarrow> ca_action a \<notin> {''install'', ''remove'', ''apply''} \<or> (\<exists>e. r = Inl e) \<Longrightarrow> act_ok E a v0 w r w1"
  by (auto simp: act_ok_def kept_def split: sum.split)

lemma answered_eq: "answered p = (r, w) \<longleftrightarrow> w = snd p \<and> r = (case fst p of None \<Rightarrow> Inr Finished | Some e \<Rightarrow> Inl e)"
  by (auto simp: answered_def)

lemma act_ok_kept: "kept w w2 \<Longrightarrow> act_ok E a v0 w2 r w1 \<Longrightarrow> act_ok E a v0 w r w1"
  by (cases r) (auto simp: act_ok_def kept_def)

lemma inspect_kept:
  assumes "inspect_action E a w = (r, w1)" and "store_ok (cw_disk w)"
  shows "kept w w1"
proof -
  obtain x w2 where d: "at_disk (store_read (ce_parse E) (ca_id a)) w = (x, w2)" by (metis surj_pair)
  show ?thesis
    using assms d read_kept [OF d assms(2)] kept_refl
    by (auto simp: inspect_action_def split: sum.splits option.splits if_splits)
qed

lemma remove_entry_ok:
  assumes "remove_entry E a v = Inr v1" and "backed v d"
  shows "backed v1 d \<and> managed_in v1 j = (j \<noteq> ca_id a \<and> managed_in v j)"
  using assms by (auto simp: remove_entry_def set_managed_def managed_update intro: backed_update split: option.splits if_splits)

lemma cert_act_ok:
  assumes "cert_act E a w = (r, w1)" and "store_ok (cw_disk w)"
  shows "\<exists>v. (honest (cw_disk w) \<longrightarrow> v = inventory_at (cw_disk w)) \<and> act_ok E a v w r w1"
proof -
  obtain x u where l: "load_twice w = (x, u)" by (metis surj_pair)
  note loaded = load_twice_ok [OF l assms(2)]
  then have k: "kept w u" by blast
  note ok = kept_ok [OF k]
  show ?thesis
  proof (cases x)
    case (Inl e)
    then show ?thesis using assms(1) l k by (auto simp: cert_act_def intro: kept_act_ok)
  next
    case (Inr p)
    obtain v old where p: "p = (v, old)" by (cases p)
    have at: "honest (cw_disk w) \<longrightarrow> v = inventory_at (cw_disk w)" and b: "backed v (cw_disk u)" using loaded unfolding Inr p by auto
    note run = assms(1) l Inr p
    consider "ca_action a = ''inspect''" | "ca_action a = ''delete-user''" | "ca_action a = ''delete''"
      | "ca_action a = ''install''" | "ca_action a = ''remove''" | "ca_action a = ''apply''"
      | "ca_action a \<notin> {''inspect'', ''delete-user'', ''delete'', ''install'', ''remove'', ''apply''}" by blast
    then have "act_ok E a v u r w1"
    proof cases
      case 1
      then have "inspect_action E a u = (r, w1)" using run by (simp add: cert_act_def)
      from inspect_kept [OF this ok] 1 show ?thesis by (intro kept_act_ok) auto
    next
      case 2
      obtain y w3 where du: "delete_user E (ca_id a) (ca_user a) u = (y, w3)" by (metis surj_pair)
      then have "w1 = u \<or> w1 = w3" using run 2 by (auto simp: cert_act_def answered_eq split: if_splits)
      then show ?thesis using delete_user_kept [OF du ok] kept_refl [OF ok] 2 by (auto intro: kept_act_ok)
    next
      case 3
      obtain y w3 where del: "at_disk (store_delete v (ca_id a)) u = (y, w3)" by (metis surj_pair)
      then have "store_ok (cw_disk w3)" using store_delete_backed [OF _ ok b] by (auto simp: at_disk_simps)
      moreover have "w1 = u \<or> w1 = w3" using run 3 del by (auto simp: cert_act_def answered_eq split: if_splits)
      ultimately show ?thesis using ok 3 by (auto simp: act_ok_def split: sum.split)
    next
      case 4
      obtain y w3 where i: "install_entry E a v u = (y, w3)" by (metis surj_pair)
      note ins = install_entry_kept [OF i ok b]
      show ?thesis
      proof (cases y)
        case (Inl e)
        then show ?thesis using run 4 i ins by (auto simp: cert_act_def intro: kept_act_ok)
      next
        case (Inr v1)
        then have "answered (commit_inventory E old v1 w3) = (r, w1)" using run 4 i by (simp add: cert_act_def)
        then show ?thesis using ins Inr 4 by (intro commit_act_ok) (auto simp: action_manages_def)
      qed
    next
      case 5
      show ?thesis
      proof (cases "remove_entry E a v")
        case (Inl e)
        then show ?thesis using run 5 kept_refl [OF ok] by (auto simp: cert_act_def intro: kept_act_ok)
      next
        case (Inr v1)
        then have "answered (commit_inventory E old v1 u) = (r, w1)" using run 5 by (simp add: cert_act_def)
        then show ?thesis
          using remove_entry_ok [OF Inr b] kept_refl [OF ok] 5 by (intro commit_act_ok) (auto simp: action_manages_def)
      qed
    next
      case 6
      then have "answered (commit_inventory E old v u) = (r, w1)" using run by (simp add: cert_act_def)
      then show ?thesis using b kept_refl [OF ok] 6 by (intro commit_act_ok) (auto simp: action_manages_def)
    next
      case 7
      then have "w1 = u" using run by (simp add: cert_act_def)
      then show ?thesis using kept_refl [OF ok] 7 by (auto intro: kept_act_ok)
    qed
    then show ?thesis using act_ok_kept [OF k] at by blast
  qed
qed

lemma locked_cases:
  assumes "cert_locked body w = (r, w1)" and "store_ok (cw_disk w)"
  obtains e where "r = Inl e" and "kept w w1" | w2 where "body w2 = (r, w1)" and "kept w w2" and "inventory_at (cw_disk w2) = inventory_at (cw_disk w)"
    and "honest (cw_disk w) \<longrightarrow> honest (cw_disk w2)"
proof -
  obtain x u where l: "at_disk (store_faults 3) w = (x, u)" by (metis surj_pair)
  obtain d where d: "store_faults 3 (cw_disk w) = (x, d)" "u = w\<lparr>cw_disk := d\<rparr>" using l by (auto simp: at_disk_simps)
  note k = faults_kept [OF l assms(2)]
  show thesis
  proof (cases x)
    case (Some e)
    then show thesis using that(1) assms(1) l k by (auto simp: cert_locked_def)
  next
    case None
    then have "body u = (r, w1)" using assms(1) l by (simp add: cert_locked_def)
    then show thesis using that(2) k store_faults_same [OF d(1)] d(2) by (simp add: inventory_at_def kept_def)
  qed
qed

lemma import_certificate_ok:
  assumes "import_certificate E c w = (x, w1)" and "store_ok (cw_disk w)"
  shows "store_ok (cw_disk w1) \<and> cw_kernel w1 = cw_kernel w \<and>
    (case x of Inl e \<Rightarrow> sd_inventory (cw_disk w1) = sd_inventory (cw_disk w) | Inr _ \<Rightarrow> True)"
proof -
  obtain y u where l: "at_disk store_load w = (y, u)" by (metis surj_pair)
  note one = load_kept [OF l assms(2)]
  show ?thesis
  proof (cases y)
    case (Inl e)
    then show ?thesis using assms(1) l one by (auto simp: import_certificate_def kept_def)
  next
    case (Inr v)
    obtain z v1 d1 where put: "store_put v c ''import'' (ce_now E 0) (cw_disk u) = (z, v1, d1)" by (metis surj_pair)
    have u: "kept w u" "backed v (cw_disk u)" using one Inr by simp_all
    note two = store_put_backed [OF put kept_ok [OF u(1)] u(2)]
    show ?thesis
    proof (cases z)
      case (Inl e)
      then show ?thesis using assms(1) l \<open>y = Inr v\<close> put two u(1) by (auto simp: import_certificate_def kept_def)
    next
      case new: (Inr entry)
      obtain q d2 where sv: "store_save v1 d1 = (q, d2)" by (metis surj_pair)
      have "store_ok d1" "backed v1 d1" using two by simp_all
      note three = store_save_backed [OF sv this]
      have "w1 = u\<lparr>cw_disk := d2\<rparr>" "x = (case q of None \<Rightarrow> Inr entry | Some e \<Rightarrow> Inl e)"
        using assms(1) l Inr put new sv by (auto simp: import_certificate_def split: option.splits)
      then show ?thesis using two three u(1) by (cases q) (simp_all add: kept_def)
    qed
  qed
qed

lemma cert_import_ok:
  assumes "cert_import E meth body w = ((status, r), w1)" and "store_ok (cw_disk w)"
  shows "store_ok (cw_disk w1) \<and> cw_kernel w1 = cw_kernel w \<and>
    (status \<noteq> 200 \<longrightarrow> sd_inventory (cw_disk w1) = sd_inventory (cw_disk w))"
proof (cases "meth = ''POST'' \<and> length body \<le> cert_limit \<and> (\<exists>c. ce_parse E body = Inr c)")
  case False
  then have "w1 = w" using assms(1) by (auto simp: cert_import_def split: if_splits sum.splits)
  then show ?thesis using assms(2) by simp
next
  case True
  then obtain c where c: "ce_parse E body = Inr c" by blast
  obtain x u where lk: "cert_locked (import_certificate E c) w = (x, u)" by (metis surj_pair)
  have res: "w1 = u" "status = (case x of Inl e \<Rightarrow> 500 | Inr _ \<Rightarrow> 200)"
    using assms(1) True c lk by (auto simp: cert_import_def split: sum.splits)
  have "store_ok (cw_disk u) \<and> cw_kernel u = cw_kernel w \<and>
    (case x of Inl e \<Rightarrow> sd_inventory (cw_disk u) = sd_inventory (cw_disk w) | Inr _ \<Rightarrow> True)"
    using lk assms(2)
  proof (cases rule: locked_cases)
    case (1 e)
    then show ?thesis by (simp add: kept_def)
  next
    case (2 w2)
    show ?thesis using import_certificate_ok [OF 2(1) kept_ok [OF 2(2)]] 2(2) by (simp add: kept_def split: sum.splits)
  qed
  then show ?thesis using res by (cases x) simp_all
qed

lemma cert_action_ok:
  assumes "cert_action E meth body w = ((status, r), w1)" and "store_ok (cw_disk w)" and "read_action body = (a, bad)"
  shows "store_ok (cw_disk w1)"
    and "status \<noteq> 200 \<Longrightarrow> ca_action a \<noteq> ''delete'' \<Longrightarrow> sd_inventory (cw_disk w1) = sd_inventory (cw_disk w)"
    and "status = 200 \<Longrightarrow> ca_action a \<in> {''install'', ''remove'', ''apply''} \<Longrightarrow> honest (cw_disk w) \<Longrightarrow>
      \<exists>v d. sd_inventory (cw_disk w1) = Some (Stored (stored_form v)) \<and> ce_apply E v d (cw_kernel w) = (None, cw_kernel w1) \<and>
        (\<forall>i. managed_in v i = action_manages a (inventory_at (cw_disk w)) i)"
proof -
  have "(w1 = w \<and> status \<noteq> 200) \<or> (\<exists>x v. (honest (cw_disk w) \<longrightarrow> v = inventory_at (cw_disk w)) \<and>
      act_ok E a v w x w1 \<and> status = (case x of Inl e \<Rightarrow> 400 | Inr y \<Rightarrow> 200))" (is "?refused \<or> (\<exists>x v. ?ran x v)")
  proof (cases "meth = ''POST'' \<and> \<not> bad \<and> (valid_id (ca_id a) \<or> ca_action a = ''apply'')")
    case False
    then show ?thesis using assms(1,3) by (cases bad) (auto simp: cert_action_def split: if_splits)
  next
    case True
    obtain x u where lk: "cert_locked (cert_act E a) w = (x, u)" by (metis surj_pair)
    have res: "w1 = u" "status = (case x of Inl e \<Rightarrow> 400 | Inr y \<Rightarrow> 200)"
      using assms(1,3) True lk by (auto simp: cert_action_def split: sum.splits)
    have "\<exists>v. (honest (cw_disk w) \<longrightarrow> v = inventory_at (cw_disk w)) \<and> act_ok E a v w x u"
      using lk assms(2)
    proof (cases rule: locked_cases)
      case (1 e)
      then show ?thesis by (auto intro: kept_act_ok)
    next
      case (2 w2)
      from cert_act_ok [OF 2(1) kept_ok [OF 2(2)]] 2 show ?thesis by (metis act_ok_kept)
    qed
    then show ?thesis using res by blast
  qed
  then consider (refused) "w1 = w" "status \<noteq> 200" | (failed) e v where "?ran (Inl e) v" | (ran) y v where "?ran (Inr y) v"
    by (metis sum.exhaust)
  then have "store_ok (cw_disk w1) \<and> (status \<noteq> 200 \<longrightarrow> ca_action a \<noteq> ''delete'' \<longrightarrow> sd_inventory (cw_disk w1) = sd_inventory (cw_disk w)) \<and>
    (status = 200 \<longrightarrow> ca_action a \<in> {''install'', ''remove'', ''apply''} \<longrightarrow> honest (cw_disk w) \<longrightarrow>
      (\<exists>v d. sd_inventory (cw_disk w1) = Some (Stored (stored_form v)) \<and> ce_apply E v d (cw_kernel w) = (None, cw_kernel w1) \<and>
        (\<forall>i. managed_in v i = action_manages a (inventory_at (cw_disk w)) i)))"
  proof cases
    case refused
    then show ?thesis using assms(2) by simp
  next
    case failed
    then show ?thesis by (auto simp: act_ok_def)
  next
    case ran
    then have "honest (cw_disk w) \<Longrightarrow> v = inventory_at (cw_disk w)" "act_ok E a v w (Inr y) w1" "status = 200" by simp_all
    then show ?thesis by (cases "honest (cw_disk w)") (simp_all add: act_ok_def)
  qed
  then show "store_ok (cw_disk w1)"
    and "status \<noteq> 200 \<Longrightarrow> ca_action a \<noteq> ''delete'' \<Longrightarrow> sd_inventory (cw_disk w1) = sd_inventory (cw_disk w)"
    and "status = 200 \<Longrightarrow> ca_action a \<in> {''install'', ''remove'', ''apply''} \<Longrightarrow> honest (cw_disk w) \<Longrightarrow>
      \<exists>v d. sd_inventory (cw_disk w1) = Some (Stored (stored_form v)) \<and> ce_apply E v d (cw_kernel w) = (None, cw_kernel w1) \<and>
        (\<forall>i. managed_in v i = action_manages a (inventory_at (cw_disk w)) i)"
    by blast+
qed

end
