(* ===== verification/Yakit.thy ===== *)
theory Yakit
  imports CertParse
begin

text \<open>
  The client of the Yakit certificate pages: \<open>cmd/tun2proxy-web/yakit/client.go\<close>. One exchange with the server
  behind the proxy is a parameter; redirects, size limits, the regular expressions and the choice of endpoints are
  written out. \<open>html.UnescapeString\<close> and the printing of a resolved URL are the arguments \<open>unescape\<close> and
  \<open>resolve\<close> of the page parser.
\<close>

section \<open>The client\<close>

definition host_name_ok :: "string \<Rightarrow> bool" where
  "host_name_ok h \<longleftrightarrow> h \<noteq> [] \<and> list_all (\<lambda>c. is_alnum c \<or> c = CHR ''.'' \<or> c = CHR ''-'') h"

definition unspecified_host :: "ip_addr \<Rightarrow> bool" where
  "unspecified_host a \<longleftrightarrow> to4 a = Some (Ip4 0 0 0 0) \<or> (case a of Ip6 gs _ \<Rightarrow> gs = replicate 8 0 | _ \<Rightarrow> False)"

text \<open>\<open>New\<close>: the proxy without its credentials.\<close>

definition yakit_new :: "string \<Rightarrow> gerr + string" where
  "yakit_new raw =
     (case url_parse raw of
        None \<Rightarrow> Inl (Err ''invalid upstream proxy URL'')
      | Some u \<Rightarrow>
          if ur_scheme u \<noteq> ''http'' then Inl (Err ''Yakit discovery requires the saved HTTP CONNECT upstream'')
          else if (case atoi (url_port u) of None \<Rightarrow> True | Some p \<Rightarrow> p < 1 \<or> 65535 < p) then Inl (Err ''invalid upstream proxy port'')
          else let h = url_hostname u
          in if h = [] \<or> contains_any h ([CHR '' '', CHR ''/'', CHR 0x5C, CHR '';'', CHR 0x0D, CHR 0x0A, CHR 0x09])
                \<or> ur_path u \<noteq> [] \<or> ur_query u \<noteq> [] \<or> ur_fragment u \<noteq> []
             then Inl (Err ''invalid upstream proxy host'')
             else case parse_ip h of
                    None \<Rightarrow> if host_name_ok h then Inr (''http://'' @ ur_host u) else Inl (Err ''invalid upstream proxy host'')
                  | Some a \<Rightarrow> if unspecified_host a then Inl (Err ''unspecified proxy address'') else Inr (''http://'' @ ur_host u))"

text \<open>
  \<open>strings.ToLower\<close> as far as a search for ASCII text can see it: of the other letters only the dotted capital
  \<open>I\<close> and the Kelvin sign become ASCII.
\<close>

fun lower_text :: "string \<Rightarrow> string" where
  "lower_text [] = []"
| "lower_text (c # s) =
     (case s of
        d # t \<Rightarrow>
          if c = CHR 0xC4 \<and> d = CHR 0xB0 then CHR ''i'' # lower_text t
          else (case t of
                  f # u \<Rightarrow> if c = CHR 0xE2 \<and> d = CHR 0x84 \<and> f = CHR 0xAA then CHR ''k'' # lower_text u
                           else lower_char c # lower_text s
                | [] \<Rightarrow> lower_char c # lower_text s)
      | [] \<Rightarrow> [lower_char c])"

definition unsafe_words :: "string list" where
  "unsafe_words = [''private'', ''key'', ''pkcs12'', ''.p12'', ''.pfx'', ''..'', [CHR 0x5C]]"

definition safe_endpoint :: "string \<Rightarrow> bool" where
  "safe_endpoint raw \<longleftrightarrow>
     (case url_parse raw of
        None \<Rightarrow> False
      | Some u \<Rightarrow>
          ur_scheme u = ''http'' \<and> ur_host u = ''mitm'' \<and> ur_user u = None \<and> ur_fragment u = [] \<and>
          list_all (\<lambda>w. \<not> str_contains (lower_text (ur_path u @ ''?'' @ ur_query u)) w) unsafe_words)"

section \<open>Requests\<close>

text \<open>The answer to one request: none, a redirect, or a status with a body that may break off.\<close>

datatype http_hop = Unanswered | MovedTo string | Answered int string bool

text \<open>
  \<open>http.Client.Do\<close> with \<open>CheckRedirect\<close>: \<open>via\<close> counts the requests made. The result is the answer and the URLs that
  were requested.
\<close>

definition redirect_ok :: "nat \<Rightarrow> string \<Rightarrow> bool" where
  "redirect_ok via url \<longleftrightarrow> \<not> 3 < via \<and> safe_endpoint url"

fun http_do :: "nat \<Rightarrow> (string \<Rightarrow> http_hop) \<Rightarrow> nat \<Rightarrow> string \<Rightarrow> (int \<times> string \<times> bool) option \<times> string list" where
  "http_do 0 net via url = (None, [])"
| "http_do (Suc n) net via url =
     (case net url of
        Unanswered \<Rightarrow> (None, [url])
      | Answered status body broken \<Rightarrow> (Some (status, body, broken), [url])
      | MovedTo next_url \<Rightarrow>
          if redirect_ok (Suc via) next_url
          then (case http_do n net (Suc via) next_url of (r, urls) \<Rightarrow> (r, url # urls))
          else (None, [url]))"

definition yakit_get :: "(string \<Rightarrow> http_hop) \<Rightarrow> string \<Rightarrow> nat \<Rightarrow> (gerr + string) \<times> int \<times> string list" where
  "yakit_get net ep limit =
     (if \<not> safe_endpoint ep then (Inl (Err ''unsafe endpoint''), 0, [])
      else case http_do 5 net 0 ep of
             (None, urls) \<Rightarrow> (Inl (Err ''Yakit proxy request failed (connection/timeout)''), 0, urls)
           | (Some (status, body, broken), urls) \<Rightarrow>
               (if status = 407 then Inl (Err ''upstream proxy authentication required'')
                else if status \<noteq> 200 then Inl (Err (''HTTP '' @ itoa status))
                else if length body \<le> limit \<and> broken then Inl (Err ''incomplete proxy response'')
                else if limit < length body then Inl (Err ''proxy response too large'')
                else Inr body, status, urls))"

section \<open>The page\<close>

record discovery =
  di_proxy :: string
  di_connected :: bool
  di_recognized :: bool
  di_status :: int
  di_normal :: string
  di_gm :: string

text \<open>
  Matching as the regular expressions do, with what follows a match as continuation: a text in any case, and a run
  of characters, the longest first or the shortest first.
\<close>

definition re_lit :: "string \<Rightarrow> (string \<Rightarrow> 'a option) \<Rightarrow> string \<Rightarrow> 'a option" where
  "re_lit w k s = (if length w \<le> length s \<and> map lower_char (take (length w) s) = w then k (drop (length w) s) else None)"

definition re_one :: "(char \<Rightarrow> bool) \<Rightarrow> (string \<Rightarrow> 'a option) \<Rightarrow> string \<Rightarrow> 'a option" where
  "re_one p k s = (case s of [] \<Rightarrow> None | c # t \<Rightarrow> if p c then k t else None)"

fun re_many :: "(char \<Rightarrow> bool) \<Rightarrow> (string \<Rightarrow> 'a option) \<Rightarrow> string \<Rightarrow> 'a option" where
  "re_many p k [] = k []"
| "re_many p k (c # s) =
     (if p c then (case re_many p k s of Some x \<Rightarrow> Some x | None \<Rightarrow> k (c # s)) else k (c # s))"

fun re_few :: "(char \<Rightarrow> bool) \<Rightarrow> (string \<Rightarrow> 'a option) \<Rightarrow> string \<Rightarrow> 'a option" where
  "re_few p k [] = k []"
| "re_few p k (c # s) = (case k (c # s) of Some x \<Rightarrow> Some x | None \<Rightarrow> if p c then re_few p k s else None)"

definition re_either :: "((string \<Rightarrow> 'a option) \<Rightarrow> string \<Rightarrow> 'a option) \<Rightarrow> ((string \<Rightarrow> 'a option) \<Rightarrow> string \<Rightarrow> 'a option)
    \<Rightarrow> (string \<Rightarrow> 'a option) \<Rightarrow> string \<Rightarrow> 'a option" where
  "re_either f g k s = (case f k s of Some x \<Rightarrow> Some x | None \<Rightarrow> g k s)"

definition re_blank :: "char \<Rightarrow> bool" where
  "re_blank c \<longleftrightarrow> c \<in> {CHR '' '', CHR 0x09, CHR 0x0A, CHR 0x0C, CHR 0x0D}"

definition is_quote :: "char \<Rightarrow> bool" where
  "is_quote c \<longleftrightarrow> c = CHR 0x22 \<or> c = CHR 0x27"

definition word_char :: "char \<Rightarrow> bool" where
  "word_char c \<longleftrightarrow> is_alnum c \<or> c = CHR ''_''"

text \<open>What was read between two rests of a text.\<close>

definition re_between :: "string \<Rightarrow> string \<Rightarrow> string" where
  "re_between s t = take (length s - length t) s"

text \<open>A quoted text; the continuation gets it and the rest.\<close>

definition re_quoted :: "(string \<Rightarrow> string \<Rightarrow> 'a option) \<Rightarrow> string \<Rightarrow> 'a option" where
  "re_quoted k = re_one is_quote (\<lambda>s. re_one (Not \<circ> is_quote) (re_many (Not \<circ> is_quote) (\<lambda>t. re_one is_quote (k (re_between s t)) t)) s)"

definition anchor_at :: "string \<Rightarrow> ((string \<times> string) \<times> string) option" where
  "anchor_at =
     re_lit ''<a'' (\<lambda>s. if s \<noteq> [] \<and> word_char (hd s) then None else
       re_many (\<lambda>c. c \<noteq> CHR ''>'') (re_lit ''href'' (re_many re_blank (re_lit ''='' (re_many re_blank (re_quoted (\<lambda>url.
         re_many (\<lambda>c. c \<noteq> CHR ''>'') (re_lit ''>'' (\<lambda>t.
           re_few (\<lambda>_. True) (\<lambda>u. re_lit ''</a>'' (\<lambda>rest. Some ((url, re_between t u), rest)) u) t)))))))) s)"

definition js_url_at :: "string \<Rightarrow> (string \<times> string) option" where
  "js_url_at =
     re_either (\<lambda>k. re_lit ''fetch'' (re_many re_blank (re_lit ''('' (re_many re_blank k))))
       (\<lambda>k. re_either (re_lit ''href'') (re_either (re_lit ''location'') (re_lit ''url''))
         (re_many re_blank (re_one (\<lambda>c. c = CHR '':'' \<or> c = CHR ''='') (re_many re_blank k))))
       (re_quoted (\<lambda>url rest. Some (url, rest)))"

text \<open>\<open>FindAllStringSubmatch\<close>: the leftmost matches that do not overlap; a match is never empty.\<close>

fun find_all :: "nat \<Rightarrow> (string \<Rightarrow> ('a \<times> string) option) \<Rightarrow> string \<Rightarrow> 'a list" where
  "find_all 0 f s = []"
| "find_all (Suc n) f s =
     (case f s of
        Some (x, rest) \<Rightarrow> x # find_all n f rest
      | None \<Rightarrow> (case s of [] \<Rightarrow> [] | _ # t \<Rightarrow> find_all n f t))"

fun strip_tags :: "nat \<Rightarrow> string \<Rightarrow> string" where
  "strip_tags 0 s = []"
| "strip_tags (Suc n) s =
     (case s of
        [] \<Rightarrow> []
      | c # t \<Rightarrow>
          if c = CHR ''<'' \<and> CHR ''>'' \<in> set t then strip_tags n (tl (dropWhile (\<lambda>d. d \<noteq> CHR ''>'') t))
          else c # strip_tags n t)"

fun replace_text :: "nat \<Rightarrow> string \<Rightarrow> string \<Rightarrow> string \<Rightarrow> string" where
  "replace_text 0 a b s = s"
| "replace_text (Suc n) a b s =
     (case s of
        [] \<Rightarrow> []
      | c # t \<Rightarrow> if has_prefix s a then b @ replace_text n a b (drop (length a) s) else c # replace_text n a b t)"

definition normalize_link :: "(string \<Rightarrow> string) \<Rightarrow> (string \<Rightarrow> string option) \<Rightarrow> string \<Rightarrow> string" where
  "normalize_link unescape resolve s =
     (let t = unescape s
      in case resolve (replace_text (length t) [CHR 0x5C, CHR ''/''] ''/'' t) of
           None \<Rightarrow> []
         | Some v \<Rightarrow> if safe_endpoint v then v else [])"

text \<open>The Chinese words for \<open>certificate\<close> and for the national cipher.\<close>

definition cert_word :: string where
  "cert_word = [CHR 0xE8, CHR 0xAF, CHR 0x81, CHR 0xE4, CHR 0xB9, CHR 0xA6]"

definition gm_word :: string where
  "gm_word = [CHR 0xE5, CHR 0x9B, CHR 0xBD, CHR 0xE5, CHR 0xAF, CHR 0x86]"

definition anchor_found :: "(string \<Rightarrow> string) \<Rightarrow> (string \<Rightarrow> string option) \<Rightarrow> discovery \<Rightarrow> string \<times> string \<Rightarrow> discovery" where
  "anchor_found unescape resolve d m =
     (let label = lower_text (unescape (strip_tags (Suc (length (snd m))) (snd m))); ep = normalize_link unescape resolve (fst m)
      in if ep = [] then d
         else if str_contains label gm_word \<or> str_contains label ''gm cert'' then d\<lparr>di_gm := ep\<rparr>
         else if str_contains label cert_word \<or> str_contains label ''certificate'' then d\<lparr>di_normal := ep\<rparr>
         else d)"

definition js_found :: "(string \<Rightarrow> string) \<Rightarrow> (string \<Rightarrow> string option) \<Rightarrow> discovery \<Rightarrow> string \<Rightarrow> discovery" where
  "js_found unescape resolve d m =
     (let ep = normalize_link unescape resolve m; low = lower_text ep
      in if \<not> str_contains low ''crt'' \<and> \<not> str_contains low ''cert'' then d
         else if str_contains low ''gm'' then (if di_gm d = [] then d\<lparr>di_gm := ep\<rparr> else d)
         else if di_normal d = [] then d\<lparr>di_normal := ep\<rparr> else d)"

definition no_discovery :: discovery where
  "no_discovery = \<lparr>di_proxy = [], di_connected = False, di_recognized = False, di_status = 0, di_normal = [], di_gm = []\<rparr>"

definition parse_page :: "(string \<Rightarrow> string) \<Rightarrow> (string \<Rightarrow> string option) \<Rightarrow> string \<Rightarrow> discovery" where
  "parse_page unescape resolve body =
     (let low = lower_text body
      in if \<not> (str_contains low ''yakit'' \<and> (str_contains low ''mitm'' \<or> str_contains low ''yaklang'')) then no_discovery
         else foldl (js_found unescape resolve)
           (foldl (anchor_found unescape resolve) (no_discovery\<lparr>di_recognized := True\<rparr>)
             (find_all (Suc (length body)) anchor_at body))
           (find_all (Suc (length body)) js_url_at body))"

section \<open>Discovery and download\<close>

definition page_limit :: nat where
  "page_limit = 512 * 1024"

definition discover :: "(string \<Rightarrow> string) \<Rightarrow> (string \<Rightarrow> string option) \<Rightarrow> (string \<Rightarrow> http_hop) \<Rightarrow> string
    \<Rightarrow> discovery \<times> gerr option \<times> string list" where
  "discover unescape resolve net proxy =
     (case yakit_get net ''http://mitm/'' page_limit of
        (Inl e, code, urls) \<Rightarrow> (no_discovery\<lparr>di_proxy := proxy, di_connected := (code \<noteq> 0), di_status := code\<rparr>, Some e, urls)
      | (Inr b, code, urls) \<Rightarrow>
          ((parse_page unescape resolve b)\<lparr>di_proxy := proxy, di_connected := True, di_status := code\<rparr>, None, urls))"

definition candidates :: "string \<Rightarrow> discovery \<Rightarrow> string list" where
  "candidates kind d =
     (let known = (if kind = ''gm'' then ''http://mitm/download-mitm-gm-crt'' else ''http://mitm/download-mitm-crt'');
          found = (if kind = ''gm'' then di_gm d else di_normal d)
      in known # (if found \<noteq> [] \<and> found \<noteq> known then [found] else []))"

fun try_endpoints :: "(string \<Rightarrow> gerr + certificate) \<Rightarrow> (string \<Rightarrow> http_hop) \<Rightarrow> string \<Rightarrow> string list
    \<Rightarrow> (certificate \<times> string) option \<times> string list" where
  "try_endpoints parse net kind [] = (None, [])"
| "try_endpoints parse net kind (ep # eps) =
     (case yakit_get net ep max_certificate of
        (r, _, urls) \<Rightarrow>
          (case (case r of Inl e \<Rightarrow> None | Inr b \<Rightarrow> (case parse b of Inl e \<Rightarrow> None | Inr c \<Rightarrow> if ct_type c = kind then Some c else None)) of
             Some c \<Rightarrow> (Some (c, ep), urls)
           | None \<Rightarrow> (case try_endpoints parse net kind eps of (x, more_urls) \<Rightarrow> (x, urls @ more_urls))))"

definition download :: "(string \<Rightarrow> gerr + certificate) \<Rightarrow> (string \<Rightarrow> http_hop) \<Rightarrow> string \<Rightarrow> discovery
    \<Rightarrow> (gerr + certificate \<times> string) \<times> string list" where
  "download parse net kind d =
     (if \<not> di_recognized d then (Inl (Err ''upstream not identified as Yakit''), [])
      else if kind \<noteq> ''normal'' \<and> kind \<noteq> ''gm'' then (Inl (Err ''unknown CA type''), [])
      else case try_endpoints parse net kind (candidates kind d) of
             (Some (c, ep), urls) \<Rightarrow> (Inr (c, ep), urls)
           | (None, urls) \<Rightarrow>
               (Inl (Err (kind @ '' CA endpoint missing or returned invalid/wrong-type public certificate'')), urls))"

section \<open>What is requested, and what is taken\<close>

text \<open>Every request goes to a safe endpoint, and there are at most four for one call; the fifth step is never taken.\<close>

lemma http_do_safe:
  "http_do n net via url = (r, urls) \<Longrightarrow> safe_endpoint url \<Longrightarrow>
     list_all safe_endpoint urls \<and> length urls \<le> 4 - via + (if 4 \<le> via then 1 else 0)"
proof (induction n arbitrary: via url r urls)
  case (Suc n)
  show ?case
  proof (cases "net url")
    case (MovedTo v)
    show ?thesis
    proof (cases "redirect_ok (Suc via) v")
      case True
      obtain r1 us where rest: "http_do n net (Suc via) v = (r1, us)" by (metis surj_pair)
      have "via \<le> 2" "safe_endpoint v" using True by (auto simp: redirect_ok_def)
      then have "list_all safe_endpoint us \<and> length us \<le> 4 - Suc via" using Suc.IH [OF rest] by auto
      moreover have "urls = url # us" using Suc.prems(1) MovedTo True rest by simp
      ultimately show ?thesis using \<open>via \<le> 2\<close> Suc.prems(2) by auto
    qed (use Suc.prems MovedTo in auto)
  qed (use Suc.prems in auto)
qed simp

lemma http_do_enough:
  "n + via = 5 \<Longrightarrow> via \<le> 4 \<Longrightarrow> n \<le> m \<Longrightarrow> http_do m net via url = http_do n net via url"
proof (induction n arbitrary: via url m)
  case (Suc n)
  then obtain m1 where m: "m = Suc m1" "n \<le> m1" by (cases m) auto
  show ?case
  proof (cases "net url")
    case (MovedTo v)
    have "http_do m1 net (Suc via) v = http_do n net (Suc via) v" if "redirect_ok (Suc via) v"
      using Suc.IH [of "Suc via" m1 v] Suc.prems m(2) that by (auto simp: redirect_ok_def)
    then show ?thesis using MovedTo m(1) by simp
  qed (use m in simp_all)
qed simp

lemma yakit_get_safe:
  assumes "yakit_get net ep limit = (r, code, urls)"
  shows "list_all safe_endpoint urls \<and> length urls \<le> 4 \<and>
    (case r of Inr b \<Rightarrow> safe_endpoint ep \<and> length b \<le> limit | Inl e \<Rightarrow> True)"
proof (cases "safe_endpoint ep")
  case True
  obtain x us where d: "http_do 5 net 0 ep = (x, us)" by (metis surj_pair)
  have "list_all safe_endpoint us \<and> length us \<le> 4" using http_do_safe [OF d True] by simp
  then show ?thesis using assms True d by (auto simp: yakit_get_def split: option.splits prod.splits if_splits)
qed (use assms in \<open>auto simp: yakit_get_def\<close>)

lemma try_endpoints_ok:
  "try_endpoints parse net kind eps = (x, urls) \<Longrightarrow>
     list_all safe_endpoint urls \<and> length urls \<le> 4 * length eps \<and>
     (case x of None \<Rightarrow> True | Some (c, ep) \<Rightarrow>
        ep \<in> set eps \<and> safe_endpoint ep \<and> ct_type c = kind \<and> (\<exists>b. parse b = Inr c \<and> length b \<le> max_certificate))"
proof (induction eps arbitrary: x urls)
  case (Cons ep eps)
  obtain r code us y vs where g: "yakit_get net ep max_certificate = (r, code, us)"
    and t: "try_endpoints parse net kind eps = (y, vs)" by (metis surj_pair)
  note safe = yakit_get_safe [OF g]
  show ?case
  proof (cases "\<exists>b c. r = Inr b \<and> parse b = Inr c \<and> ct_type c = kind")
    case True
    then obtain b c where b: "r = Inr b" "parse b = Inr c" "ct_type c = kind" by blast
    then have "x = Some (c, ep)" "urls = us" using Cons.prems g by simp_all
    then show ?thesis using b safe by auto
  next
    case False
    then have "x = y" "urls = us @ vs" using Cons.prems g t by (auto split: sum.splits if_splits)
    then show ?thesis using Cons.IH [OF t] safe by (auto split: option.splits)
  qed
qed simp

lemma normalize_link_safe: "normalize_link unescape resolve s = [] \<or> safe_endpoint (normalize_link unescape resolve s)"
  by (simp add: normalize_link_def Let_def split: option.split)

text \<open>The endpoints a page offers are safe ones.\<close>

definition links_safe :: "discovery \<Rightarrow> bool" where
  "links_safe d \<longleftrightarrow> (di_normal d = [] \<or> safe_endpoint (di_normal d)) \<and> (di_gm d = [] \<or> safe_endpoint (di_gm d))"

lemma anchor_found_safe: "links_safe d \<Longrightarrow> links_safe (anchor_found unescape resolve d m)"
  using normalize_link_safe [of unescape resolve "fst m"]
  by (auto simp: links_safe_def anchor_found_def Let_def simp del: strip_tags.simps)

lemma js_found_safe: "links_safe d \<Longrightarrow> links_safe (js_found unescape resolve d m)"
  using normalize_link_safe [of unescape resolve m] by (auto simp: links_safe_def js_found_def Let_def)

lemma parse_page_safe: "links_safe (parse_page unescape resolve b)"
proof -
  have "links_safe no_discovery" "links_safe (no_discovery\<lparr>di_recognized := True\<rparr>)"
    by (simp_all add: links_safe_def no_discovery_def)
  then show ?thesis
    unfolding parse_page_def Let_def by (simp add: foldl_keeps anchor_found_safe js_found_safe)
qed

text \<open>Whatever the server answers, a discovery and the downloads after it request safe endpoints only.\<close>

lemma discover_safe:
  assumes "discover unescape resolve net proxy = (d, e, urls)"
  shows "links_safe d \<and> list_all safe_endpoint urls \<and> length urls \<le> 4 \<and> (e \<noteq> None \<longrightarrow> \<not> di_recognized d)"
proof -
  obtain r code us where g: "yakit_get net ''http://mitm/'' page_limit = (r, code, us)" by (metis surj_pair)
  have "links_safe (no_discovery\<lparr>di_proxy := proxy, di_connected := c, di_status := i\<rparr>)"
    "links_safe ((parse_page unescape resolve b)\<lparr>di_proxy := proxy, di_connected := c, di_status := i\<rparr>)" for b c i
    using parse_page_safe [of unescape resolve b] by (simp_all add: links_safe_def no_discovery_def)
  then show ?thesis
    using yakit_get_safe [OF g] assms by (cases r) (auto simp: discover_def g no_discovery_def)
qed

lemma download_safe:
  assumes "download parse net kind d = (r, urls)"
  shows "list_all safe_endpoint urls \<and> length urls \<le> 8 \<and>
    (case r of Inl e \<Rightarrow> True | Inr (c, ep) \<Rightarrow>
       di_recognized d \<and> ct_type c = kind \<and> ep \<in> set (candidates kind d) \<and> safe_endpoint ep \<and>
       (\<exists>b. parse b = Inr c \<and> length b \<le> max_certificate))"
proof -
  obtain x us where t: "try_endpoints parse net kind (candidates kind d) = (x, us)" by (metis surj_pair)
  have "length (candidates kind d) \<le> 2" by (simp add: candidates_def Let_def)
  then show ?thesis
    using try_endpoints_ok [OF t] assms by (auto simp: download_def t split: if_splits option.splits)
qed

end
