(* ===== verification/CertSync.thy ===== *)
theory CertSync
  imports CertPages Yakit
begin

text \<open>
  The certificates of Yakit and the view of the certificate page: the rest of \<open>cmd/tun2proxy-web/cert_api.go\<close>. A
  slot of the inventory's Yakit map is the endpoint of a connection profile and a kind, \<open>normal\<close> or \<open>gm\<close>.
\<close>

section \<open>Slots\<close>

definition endpoint_key :: "string \<Rightarrow> gerr + string" where
  "endpoint_key proxy =
     (case url_parse proxy of
        None \<Rightarrow> Inl (Err ''Yakit certificates require a saved HTTP proxy endpoint'')
      | Some u \<Rightarrow>
          if ur_scheme u \<noteq> ''http'' \<or> url_hostname u = [] \<or> url_port u = []
          then Inl (Err ''Yakit certificates require a saved HTTP proxy endpoint'')
          else Inr (''http://'' @ ur_host u))"

definition selected_profile :: "string \<Rightarrow> panel_disk \<Rightarrow> (gerr + profile) \<times> panel_disk" where
  "selected_profile i d =
     (case read_profiles d of
        (Inl e, d1) \<Rightarrow> (Inl e, d1)
      | (Inr p, d1) \<Rightarrow>
          (case profile_by_id p (if i = [] then ps_active p else i) of
             None \<Rightarrow> (Inl (Err ''connection profile not found''), d1)
           | Some v \<Rightarrow> (Inr v, d1)))"

text \<open>The endpoint that old entries without one belong to: that of the active profile, if it has one.\<close>

definition migration_key :: "string \<Rightarrow> panel_disk \<Rightarrow> string \<times> panel_disk" where
  "migration_key key d =
     (case selected_profile [] d of
        (Inl e, d1) \<Rightarrow> (key, d1)
      | (Inr p, d1) \<Rightarrow> (case endpoint_key (wc_proxy_url (pf_config p)) of Inl e \<Rightarrow> key | Inr k \<Rightarrow> k, d1))"

definition slot_of :: "string \<Rightarrow> string \<Rightarrow> string" where
  "slot_of key kind = key @ ''|'' @ kind"

definition scope_kind :: "string \<Rightarrow> string \<Rightarrow> (string \<times> remote) list \<Rightarrow> (string \<times> remote) list" where
  "scope_kind key kind y =
     (case map_of y kind of
        None \<Rightarrow> y
      | Some old \<Rightarrow>
          AList.delete kind
            (if map_of y (slot_of key kind) \<noteq> None then y
             else AList.update (slot_of key kind)
                    (if rm_local old \<noteq> [] \<and> rm_history old = [] then old\<lparr>rm_history := [rm_local old]\<rparr> else old) y))"

definition scoped_yakit :: "string \<Rightarrow> inventory \<Rightarrow> inventory \<times> bool" where
  "scoped_yakit key v =
     (v\<lparr>iv_yakit := scope_kind key ''gm'' (scope_kind key ''normal'' (iv_yakit v))\<rparr>,
      map_of (iv_yakit v) ''normal'' \<noteq> None \<or> map_of (iv_yakit v) ''gm'' \<noteq> None)"

section \<open>Synchronising\<close>

definition no_remote :: remote where
  "no_remote = \<lparr>rm_local = [], rm_remote = [], rm_endpoint = [], rm_checked = 0, rm_history = []\<rparr>"

definition remote_at :: "inventory \<Rightarrow> string \<Rightarrow> remote" where
  "remote_at v slot = (case map_of (iv_yakit v) slot of None \<Rightarrow> no_remote | Some r \<Rightarrow> r)"

text \<open>
  A managed certificate of the slot is replaced by the new one; it stays managed when another slot has it too. The
  result is the inventory and whether the stores must follow.
\<close>

definition shared_elsewhere :: "string \<Rightarrow> string \<Rightarrow> inventory \<Rightarrow> bool" where
  "shared_elsewhere slot i v \<longleftrightarrow> list_ex (\<lambda>(k, r). k \<noteq> slot \<and> rm_local r = i) (iv_yakit v)"

definition replace_managed :: "string \<Rightarrow> certificate \<Rightarrow> cert_entry \<Rightarrow> remote \<Rightarrow> inventory \<Rightarrow> inventory \<times> bool" where
  "replace_managed slot c entry r v =
     (case map_of (iv_entries v) (rm_local r) of
        None \<Rightarrow> (v, False)
      | Some prior \<Rightarrow>
          let i = ct_id (en_cert prior)
          in if \<not> en_managed prior \<or> i = ct_id c then (v, False)
             else let v1 = (if shared_elsewhere slot i v then v
                            else v\<lparr>iv_entries := AList.update i (prior\<lparr>en_managed := False\<rparr>) (iv_entries v)\<rparr>)
                  in (v1\<lparr>iv_entries := AList.update (ct_id c) (entry\<lparr>en_managed := True\<rparr>) (iv_entries v1)\<rparr>, True))"

definition adopt_remote :: "string \<Rightarrow> remote \<Rightarrow> remote" where
  "adopt_remote i r =
     r\<lparr>rm_local := i, rm_history := (if i \<in> set (rm_history r) then rm_history r else rm_history r @ [i])\<rparr>"

text \<open>The new inventory of a synchronisation, the stores already following it.\<close>

definition sync_inventory :: "'k cert_ops \<Rightarrow> string \<Rightarrow> string \<Rightarrow> certificate \<Rightarrow> remote \<Rightarrow> inventory \<Rightarrow> 'k cert_world
    \<Rightarrow> (gerr + inventory \<times> remote) \<times> 'k cert_world" where
  "sync_inventory E slot kind c r v w =
     (case store_put v c (''yakit-'' @ kind) (ce_now E 0) (cw_disk w) of
        (Inl e, _, d1) \<Rightarrow> (Inl e, w\<lparr>cw_disk := d1\<rparr>)
      | (Inr entry, v1, d1) \<Rightarrow>
          (case replace_managed slot c entry r v1 of
             (v2, False) \<Rightarrow> (Inr (v2, adopt_remote (ct_id c) r), w\<lparr>cw_disk := d1\<rparr>)
           | (v2, True) \<Rightarrow>
               (case ce_apply E v2 d1 (cw_kernel w) of
                  (Some e, k1) \<Rightarrow> (Inl e, w\<lparr>cw_disk := d1, cw_kernel := k1\<rparr>)
                | (None, k1) \<Rightarrow> (Inr (v2, adopt_remote (ct_id c) r), w\<lparr>cw_disk := d1, cw_kernel := k1\<rparr>))))"

text \<open>The file follows; if it cannot be written the old stores are applied again.\<close>

definition link_slot :: "'k cert_ops \<Rightarrow> inventory \<Rightarrow> string \<Rightarrow> inventory \<Rightarrow> remote \<Rightarrow> 'k cert_world \<Rightarrow> (gerr + remote) \<times> 'k cert_world" where
  "link_slot E old slot v r w =
     (case store_save (v\<lparr>iv_yakit := AList.update slot r (iv_yakit v)\<rparr>) (cw_disk w) of
        (None, d1) \<Rightarrow> (Inr r, w\<lparr>cw_disk := d1\<rparr>)
      | (Some e, d1) \<Rightarrow> (Inl e, w\<lparr>cw_disk := d1, cw_kernel := snd (ce_apply E old d1 (cw_kernel w))\<rparr>))"

definition yakit_kind :: "'k cert_ops \<Rightarrow> string \<Rightarrow> string \<Rightarrow> string \<Rightarrow> bool \<Rightarrow> certificate \<Rightarrow> string \<Rightarrow> 'k cert_world
    \<Rightarrow> (gerr + remote) \<times> 'k cert_world" where
  "yakit_kind E mkey key kind sync c endpoint w0 =
     (case load_twice w0 of (Inl e, w) \<Rightarrow> (Inl e, w) | (Inr (v0, old), w) \<Rightarrow>
        let v = fst (scoped_yakit mkey v0); slot = slot_of key kind;
            r = (remote_at v slot)\<lparr>rm_remote := ct_id c, rm_endpoint := endpoint, rm_checked := ce_now E 1\<rparr>
        in case (if sync then sync_inventory E slot kind c r v w else (Inr (v, r), w)) of
             (Inl e, w2) \<Rightarrow> (Inl e, w2)
           | (Inr (v1, r1), w2) \<Rightarrow> link_slot E old slot v1 r1 w2)"

record yakit_request =
  yq_action :: string
  yq_kind :: string
  yq_profile :: string

definition yakit_field :: "string \<Rightarrow> yakit_request lenient" where
  "yakit_field k v q =
     (if fold_eq k ''action'' then update_by (\<lambda>x. yq_action_update (\<lambda>_. x)) (len_string v (yq_action q)) q
      else if fold_eq k ''kind'' then update_by (\<lambda>x. yq_kind_update (\<lambda>_. x)) (len_string v (yq_kind q)) q
      else if fold_eq k ''profile_id'' then update_by (\<lambda>x. yq_profile_update (\<lambda>_. x)) (len_string v (yq_profile q)) q
      else (q, False))"

text \<open>
  The kinds one after the other. A failing download leaves the store alone. The profiles can change meanwhile: \<open>disks\<close>
  is what \<open>scopedYakit\<close> reads for a kind.
\<close>

fun yakit_kinds :: "'k cert_ops \<Rightarrow> (string \<Rightarrow> gerr + certificate \<times> string) \<Rightarrow> (string \<Rightarrow> panel_disk) \<Rightarrow> string \<Rightarrow> bool \<Rightarrow> string list
    \<Rightarrow> 'k cert_world \<Rightarrow> (string \<times> (string + remote)) list \<times> 'k cert_world" where
  "yakit_kinds E load disks key sync [] w = ([], w)"
| "yakit_kinds E load disks key sync (kind # kinds) w =
     (case (case load kind of
              Inl e \<Rightarrow> (Inl e, w)
            | Inr (c, endpoint) \<Rightarrow> cert_locked (yakit_kind E (fst (migration_key key (disks kind))) key kind sync c endpoint) w) of
        (r, w1) \<Rightarrow>
          (case yakit_kinds E load disks key sync kinds w1 of
             (rs, w2) \<Rightarrow> ((kind, map_sum error_text id r) # rs, w2)))"

text \<open>
  A request: a refusal, or what was discovered and the results. \<open>pages\<close> is the client: for a proxy what it discovers and
  the download of a kind.
\<close>

definition yakit_api :: "'k cert_ops \<Rightarrow> (string \<Rightarrow> (discovery \<times> gerr option) \<times> (string \<Rightarrow> discovery \<Rightarrow> gerr + certificate \<times> string))
    \<Rightarrow> (string \<Rightarrow> panel_disk) \<Rightarrow> string \<Rightarrow> string \<Rightarrow> panel_disk \<Rightarrow> 'k cert_world
    \<Rightarrow> ((int \<times> string) + discovery \<times> (string \<times> (string + remote)) list) \<times> 'k cert_world" where
  "yakit_api E pages disks meth body pd w =
     (if meth \<noteq> ''POST'' then (Inl (405, ''Use POST''), w)
      else case decode_first (len_struct yakit_field) (take cert_limit body) \<lparr>yq_action = [], yq_kind = [], yq_profile = []\<rparr> of
        (_, True) \<Rightarrow> (Inl (400, ''Invalid request''), w)
      | (q, False) \<Rightarrow>
          if yq_action q \<notin> {''test'', ''sync'', ''check''} then (Inl (400, ''Unknown Yakit action''), w)
          else case fst (selected_profile (yq_profile q) pd) of
            Inl e \<Rightarrow> (Inl (500, ''Cannot read connection configuration''), w)
          | Inr p \<Rightarrow>
              (case endpoint_key (wc_proxy_url (pf_config p)) of Inl e \<Rightarrow> (Inl (400, error_text e), w) | Inr key \<Rightarrow>
               (case yakit_new (wc_proxy_url (pf_config p)) of Inl e \<Rightarrow> (Inl (400, error_text e), w) | Inr proxy \<Rightarrow>
                (case pages proxy of ((d, e), load) \<Rightarrow>
                 if yq_action q = ''test'' \<or> e \<noteq> None \<or> \<not> di_recognized d then (Inr (d, []), w)
                 else if yq_kind q \<notin> {[], ''normal'', ''gm''} then (Inl (400, ''Invalid certificate type''), w)
                 else (case yakit_kinds E (\<lambda>k. load k d) disks key (yq_action q = ''sync'')
                              (if yq_kind q = [] then [''normal'', ''gm''] else [yq_kind q]) w of
                         (rs, w1) \<Rightarrow> (Inr (d, rs), w1))))))"

section \<open>At boot\<close>

text \<open>\<open>certBootCLI\<close> of \<open>cert_mount.go\<close>: no such command, or how it ends.\<close>

definition boot_step :: "'k cert_ops \<Rightarrow> string \<Rightarrow> 'k cert_world \<Rightarrow> (gerr + unit) \<times> 'k cert_world" where
  "boot_step E arg w =
     (let answer = (\<lambda>(e, k) w. (case e of None \<Rightarrow> Inr () | Some x \<Rightarrow> Inl x, w\<lparr>cw_kernel := k\<rparr>))
      in if arg = ''--cert-remove'' then answer (remove_trust (ce_trust E) (cw_kernel w)) w
         else case at_disk store_load w of
                (Inl e, w1) \<Rightarrow> (Inl e, w1)
              | (Inr v, w1) \<Rightarrow> answer (apply_now (ce_trust E) (ce_parse E) v (cw_disk w1) (cw_kernel w1)) w1)"

definition cert_boot_cli :: "'k cert_ops \<Rightarrow> string list \<Rightarrow> 'k cert_world \<Rightarrow> gerr option option \<times> 'k cert_world" where
  "cert_boot_cli E args w =
     (if length args \<noteq> 2 \<or> (args ! 1 \<noteq> ''--cert-apply'' \<and> args ! 1 \<noteq> ''--cert-remove'') then (None, w)
      else case cert_locked (boot_step E (args ! 1)) w of
             (Inl e, w1) \<Rightarrow> (Some (Some e), w1)
           | (Inr _, w1) \<Rightarrow> (Some None, w1))"

section \<open>The view\<close>

record cert_view =
  cv_entries :: "cert_entry list"
  cv_users :: "local_ca list"
  cv_system :: "local_ca list"
  cv_mounted :: "string list"
  cv_pending :: nat
  cv_capabilities :: "(string \<times> android_probe) list"
  cv_errors :: "gerr list"

definition good_or :: "'a \<Rightarrow> gerr + 'a \<Rightarrow> 'a" where
  "good_or z r = (case r of Inl e \<Rightarrow> z | Inr x \<Rightarrow> x)"

definition errors_of :: "(gerr + 'a) \<Rightarrow> gerr list" where
  "errors_of r = (case r of Inl e \<Rightarrow> [e] | Inr x \<Rightarrow> [])"

definition mounted_ids :: "'k trust_ops \<Rightarrow> 'k \<Rightarrow> gerr + mount_state \<Rightarrow> string list" where
  "mounted_ids T k st =
     (case st of
        Inl e \<Rightarrow> []
      | Inr s \<Rightarrow>
          if ms_mounts s \<noteq> [] \<and> list_all (\<lambda>m. verify_mount T k m = None) (ms_mounts s)
          then concat (map (\<lambda>m. map fst (cm_files m)) (ms_mounts s)) else [])"

definition certificate_view :: "'k cert_ops \<Rightarrow> inventory \<Rightarrow> 'k cert_world \<Rightarrow> cert_view" where
  "certificate_view E v w =
     (let T = ce_trust E; k = cw_kernel w; st = read_mounts (tr_boot T) (tr_journal T k); mounted = mounted_ids T k st;
          users = local_cas E ''user'' w; stock = local_cas E ''system'' w; es = map snd (iv_entries v)
      in \<lparr>cv_entries = sorted_entries v, cv_users = good_or [] users, cv_system = good_or [] stock, cv_mounted = mounted,
          cv_pending = length (filter (\<lambda>e. en_managed e \<and> ct_id (en_cert e) \<notin> set mounted) es),
          cv_capabilities = map (\<lambda>e. (ct_id (en_cert e), tr_probe T (ct_id (en_cert e)))) (filter (\<lambda>e. ct_type (en_cert e) = ''gm'') es),
          cv_errors = errors_of st @ errors_of (detect_trust (tr_view T k)) @ errors_of users @ errors_of stock\<rparr>)"

definition list_step :: "'k cert_ops \<Rightarrow> string \<Rightarrow> panel_disk \<Rightarrow> 'k cert_world \<Rightarrow> (gerr + cert_view \<times> string \<times> remote \<times> remote) \<times> 'k cert_world" where
  "list_step E key pd w =
     (case at_disk store_load w of (Inl e, w1) \<Rightarrow> (Inl e, w1) | (Inr v0, w1) \<Rightarrow>
      (case (if key \<noteq> [] then scoped_yakit (fst (migration_key key pd)) v0 else (v0, False)) of
         (v, changed) \<Rightarrow>
           (case (if changed then at_disk (store_save v) w1 else (None, w1)) of
              (Some e, w2) \<Rightarrow> (Inl e, w2)
            | (None, w2) \<Rightarrow>
                (Inr (certificate_view E v w2, key, remote_at v (slot_of key ''normal''), remote_at v (slot_of key ''gm'')), w2))))"

definition cert_list :: "'k cert_ops \<Rightarrow> string \<Rightarrow> string \<Rightarrow> panel_disk \<Rightarrow> 'k cert_world
    \<Rightarrow> ((int \<times> string) + cert_view \<times> string \<times> remote \<times> remote) \<times> 'k cert_world" where
  "cert_list E meth profile_id pd w =
     (if meth \<noteq> ''GET'' then (Inl (405, ''Use GET''), w)
      else case selected_profile profile_id pd of
             (Inl e, _) \<Rightarrow> (Inl (400, error_text e), w)
           | (Inr p, pd1) \<Rightarrow>
               let key = good_or [] (endpoint_key (wc_proxy_url (pf_config p)))
               in (case cert_locked (list_step E key pd1) w of
                     (Inl e, w1) \<Rightarrow> (Inl (500, error_text e), w1)
                   | (Inr r, w1) \<Rightarrow> (Inr r, w1)))"

section \<open>What a synchronisation manages\<close>

lemma put_keyed:
  assumes "store_put v c source now d = (Inr entry, v1, d1)" and "keyed v"
  shows "keyed v1 \<and> map_of (iv_entries v1) (ct_id c) = Some entry \<and> iv_yakit v1 = iv_yakit v"
  using assms by (auto simp: store_put_def Let_def keyed_def update_conv' split: option.splits if_splits prod.splits)

text \<open>
  The certificate of the slot so far gives way to the new one if it was managed, and stays if another slot needs it;
  no other certificate is touched.
\<close>

definition swapped :: "inventory \<Rightarrow> string \<Rightarrow> string \<Rightarrow> bool" where
  "swapped v prior i \<longleftrightarrow> prior \<noteq> i \<and> managed_in v prior"

definition sync_manages :: "inventory \<Rightarrow> string \<Rightarrow> string \<Rightarrow> string \<Rightarrow> bool \<Rightarrow> string \<Rightarrow> bool" where
  "sync_manages v slot prior new sync i \<longleftrightarrow>
     (if i = new then managed_in v i \<or> sync \<and> swapped v prior new
      else managed_in v i \<and> \<not> (sync \<and> swapped v prior new \<and> i = prior \<and> \<not> shared_elsewhere slot prior v))"

lemma replace_managed_ok:
  assumes "replace_managed slot c entry r v = (v2, b)" and "keyed v" and "map_of (iv_entries v) (ct_id c) = Some entry"
    and "backed v d"
  shows "b = swapped v (rm_local r) (ct_id c) \<and> backed v2 d \<and> iv_yakit v2 = iv_yakit v \<and>
    managed_in v2 i = sync_manages v slot (rm_local r) (ct_id c) True i"
proof (cases "swapped v (rm_local r) (ct_id c)")
  case False
  then have "v2 = v \<and> \<not> b"
    using assms(1,2) by (auto simp: replace_managed_def swapped_def managed_in_def keyed_def Let_def split: option.splits if_splits)
  then show ?thesis using False assms(4) by (simp add: sync_manages_def)
next
  case True
  then obtain prior where prior: "map_of (iv_entries v) (rm_local r) = Some prior" "en_managed prior"
    by (auto simp: swapped_def managed_in_def split: option.splits)
  have i: "ct_id (en_cert prior) = rm_local r" using assms(2) prior(1) by (simp add: keyed_def)
  let ?v1 = "if shared_elsewhere slot (rm_local r) v then v
    else v\<lparr>iv_entries := AList.update (rm_local r) (prior\<lparr>en_managed := False\<rparr>) (iv_entries v)\<rparr>"
  have v2: "v2 = ?v1\<lparr>iv_entries := AList.update (ct_id c) (entry\<lparr>en_managed := True\<rparr>) (iv_entries ?v1)\<rparr>" "b"
    using assms(1) prior i True by (auto simp: replace_managed_def swapped_def Let_def)
  have one: "backed ?v1 d" "ct_id c \<in> dom (map_of (iv_entries ?v1))" "iv_yakit ?v1 = iv_yakit v"
    using assms(3,4) prior(1) by (auto intro!: backed_update simp: update_conv' simp del: dom_map_of_conv_image_fst)
  have two: "managed_in ?v1 i = (managed_in v i \<and> \<not> (i = rm_local r \<and> \<not> shared_elsewhere slot (rm_local r) v))"
    by (simp add: managed_update)
  have "backed v2 d" unfolding v2(1) by (rule backed_update [OF one(1,2)])
  moreover have "managed_in v2 i = (if i = ct_id c then True else managed_in ?v1 i)" unfolding v2(1) by (simp add: managed_update)
  moreover have "iv_yakit v2 = iv_yakit v" unfolding v2(1) using one(3) by simp
  ultimately show ?thesis using True v2(2) two by (auto simp: sync_manages_def)
qed

lemma sync_manages_cong:
  assumes "\<And>j. managed_in v1 j = managed_in v j" and "iv_yakit v1 = iv_yakit v"
  shows "sync_manages v1 slot prior new sync i = sync_manages v slot prior new sync i"
  using assms by (simp add: sync_manages_def swapped_def shared_elsewhere_def)

lemma sync_inventory_ok:
  assumes "sync_inventory E slot kind c r v w = (x, w1)" and "store_ok (cw_disk w)" and "backed v (cw_disk w)" and "keyed v"
  shows "store_ok (cw_disk w1) \<and> sd_inventory (cw_disk w1) = sd_inventory (cw_disk w) \<and>
    (case x of Inl e \<Rightarrow> True
     | Inr (v2, r1) \<Rightarrow> r1 = adopt_remote (ct_id c) r \<and> backed v2 (cw_disk w1) \<and> iv_yakit v2 = iv_yakit v \<and>
         (\<forall>i. managed_in v2 i = sync_manages v slot (rm_local r) (ct_id c) True i) \<and>
         (if swapped v (rm_local r) (ct_id c) then \<exists>d. ce_apply E v2 d (cw_kernel w) = (None, cw_kernel w1)
          else cw_kernel w1 = cw_kernel w))"
proof -
  obtain y v1 d1 where put: "store_put v c (''yakit-'' @ kind) (ce_now E 0) (cw_disk w) = (y, v1, d1)" by (metis surj_pair)
  note kp = store_put_backed [OF put assms(2,3)]
  show ?thesis
  proof (cases y)
    case (Inl e)
    then show ?thesis using assms(1) put kp by (auto simp: sync_inventory_def)
  next
    case (Inr entry)
    obtain v2 b where rep: "replace_managed slot c entry r v1 = (v2, b)" by (metis surj_pair)
    note ky = put_keyed [OF put [unfolded Inr] assms(4)]
    have m: "managed_in v1 j = managed_in v j" for j using put_managed [OF put [unfolded Inr]] by simp
    have rm: "b = swapped v (rm_local r) (ct_id c)" "backed v2 d1" "iv_yakit v2 = iv_yakit v"
      "managed_in v2 i = sync_manages v slot (rm_local r) (ct_id c) True i" for i
      using replace_managed_ok [OF rep _ _, of d1 i] ky kp Inr sync_manages_cong [OF m, of slot "rm_local r" "ct_id c" True i]
      by (auto simp: swapped_def m)
    obtain z k1 where ap: "ce_apply E v2 d1 (cw_kernel w) = (z, k1)" by (metis surj_pair)
    show ?thesis
      using assms(1) put Inr rep ap rm kp by (cases b; cases z) (auto simp: sync_inventory_def)
  qed
qed

text \<open>Old entries move to their slot; entries and objects are not touched.\<close>

lemma scoped_yakit_entries [simp]:
  "iv_entries (fst (scoped_yakit key v)) = iv_entries v" "backed (fst (scoped_yakit key v)) d = backed v d"
  "managed_in (fst (scoped_yakit key v)) i = managed_in v i" "keyed (fst (scoped_yakit key v)) = keyed v"
  by (simp_all add: scoped_yakit_def backed_def managed_in_def keyed_def)

definition sync_ok :: "'k cert_ops \<Rightarrow> inventory \<Rightarrow> string \<Rightarrow> bool \<Rightarrow> certificate \<Rightarrow> 'k cert_world \<Rightarrow> gerr + remote \<Rightarrow> 'k cert_world \<Rightarrow> bool" where
  "sync_ok E v slot sync c w x w1 \<longleftrightarrow> store_ok (cw_disk w1) \<and>
     (case x of
        Inl e \<Rightarrow> sd_inventory (cw_disk w1) = sd_inventory (cw_disk w)
      | Inr r1 \<Rightarrow> (\<exists>v2. sd_inventory (cw_disk w1) = Some (Stored (stored_form v2)) \<and>
          map_of (iv_yakit v2) = (map_of (iv_yakit v))(slot \<mapsto> r1) \<and> rm_remote r1 = ct_id c \<and>
          rm_local r1 = (if sync then ct_id c else rm_local (remote_at v slot)) \<and>
          (\<forall>i. managed_in v2 i = sync_manages v slot (rm_local (remote_at v slot)) (ct_id c) sync i) \<and>
          (if sync \<and> swapped v (rm_local (remote_at v slot)) (ct_id c)
           then \<exists>v3 d. iv_entries v3 = iv_entries v2 \<and> ce_apply E v3 d (cw_kernel w) = (None, cw_kernel w1)
           else cw_kernel w1 = cw_kernel w)))"

lemma sync_step_ok:
  assumes "(if sync then sync_inventory E slot kind c r v w else (Inr (v, r), w)) = (x, w1)" and "store_ok (cw_disk w)"
    and "backed v (cw_disk w)" and "keyed v"
  shows "store_ok (cw_disk w1) \<and> sd_inventory (cw_disk w1) = sd_inventory (cw_disk w) \<and>
    (case x of Inl e \<Rightarrow> True
     | Inr (v2, r1) \<Rightarrow> r1 = (if sync then adopt_remote (ct_id c) r else r) \<and> backed v2 (cw_disk w1) \<and> iv_yakit v2 = iv_yakit v \<and>
         (\<forall>i. managed_in v2 i = sync_manages v slot (rm_local r) (ct_id c) sync i) \<and>
         (if sync \<and> swapped v (rm_local r) (ct_id c) then \<exists>d. ce_apply E v2 d (cw_kernel w) = (None, cw_kernel w1)
          else cw_kernel w1 = cw_kernel w))"
proof (cases sync)
  case True
  then show ?thesis using sync_inventory_ok [of E slot kind c r v w x w1] assms by (simp cong: sum.case_cong prod.case_cong)
next
  case False
  then show ?thesis using assms by (auto simp: sync_manages_def)
qed

lemma link_slot_ok:
  assumes "link_slot E old slot v r w = (x, w1)" and "store_ok (cw_disk w)" and "backed v (cw_disk w)"
  shows "store_ok (cw_disk w1) \<and>
    (case x of
       Inl e \<Rightarrow> sd_inventory (cw_disk w1) = sd_inventory (cw_disk w)
     | Inr r1 \<Rightarrow> r1 = r \<and> cw_kernel w1 = cw_kernel w \<and>
         sd_inventory (cw_disk w1) = Some (Stored (stored_form (v\<lparr>iv_yakit := AList.update slot r (iv_yakit v)\<rparr>))))"
proof -
  let ?v = "v\<lparr>iv_yakit := AList.update slot r (iv_yakit v)\<rparr>"
  obtain y d where s: "store_save ?v (cw_disk w) = (y, d)" by (metis surj_pair)
  have "backed ?v (cw_disk w)" using assms(3) by (simp add: backed_def)
  from store_save_backed [OF s assms(2) this] show ?thesis
    using assms(1) s by (cases y) (auto simp: link_slot_def)
qed

lemma sync_okI:
  assumes "store_ok (cw_disk w1)" and "sd_inventory (cw_disk w1) = Some (Stored (stored_form (v1\<lparr>iv_yakit := AList.update slot r1 (iv_yakit v1)\<rparr>)))"
    and "iv_yakit v1 = iv_yakit v" and "rm_remote r1 = ct_id c" and "rm_local r1 = (if sync then ct_id c else rm_local (remote_at v slot))"
    and "\<And>i. managed_in v1 i = sync_manages v slot (rm_local (remote_at v slot)) (ct_id c) sync i"
    and "if sync \<and> swapped v (rm_local (remote_at v slot)) (ct_id c) then \<exists>d. ce_apply E v1 d (cw_kernel w) = (None, cw_kernel w1)
      else cw_kernel w1 = cw_kernel w"
  shows "sync_ok E v slot sync c w (Inr r1) w1"
proof -
  let ?v2 = "v1\<lparr>iv_yakit := AList.update slot r1 (iv_yakit v1)\<rparr>"
  have "map_of (iv_yakit ?v2) = (map_of (iv_yakit v))(slot \<mapsto> r1)" using assms(3) by (simp add: update_conv')
  moreover have "managed_in ?v2 i = managed_in v1 i" for i by (simp add: managed_in_def)
  moreover have "if sync \<and> swapped v (rm_local (remote_at v slot)) (ct_id c)
      then \<exists>v3 d. iv_entries v3 = iv_entries ?v2 \<and> ce_apply E v3 d (cw_kernel w) = (None, cw_kernel w1) else cw_kernel w1 = cw_kernel w"
    using assms(7) by (auto split: if_splits intro!: exI [of _ v1])
  ultimately show ?thesis
    unfolding sync_ok_def sum.case using assms(1,2,4-6) by (intro conjI exI [of _ ?v2]) simp_all
qed

lemma yakit_kind_ok:
  assumes "yakit_kind E mkey key kind sync c endpoint w = (x, w1)" and "store_ok (cw_disk w)"
  shows "\<exists>v. (honest (cw_disk w) \<longrightarrow> v = inventory_at (cw_disk w)) \<and>
    sync_ok E (fst (scoped_yakit mkey v)) (slot_of key kind) sync c w x w1"
proof -
  obtain y u where l: "load_twice w = (y, u)" by (metis surj_pair)
  note loaded = load_twice_ok [OF l assms(2)]
  show ?thesis
  proof (cases y)
    case (Inl e)
    then show ?thesis using assms(1) l loaded by (intro exI [of _ "inventory_at (cw_disk w)"]) (auto simp: yakit_kind_def sync_ok_def kept_def)
  next
    case (Inr p)
    then obtain v0 old where p: "y = Inr (v0, old)" by (cases p) simp
    let ?v = "fst (scoped_yakit mkey v0)" and ?slot = "slot_of key kind"
    let ?r = "(remote_at ?v ?slot)\<lparr>rm_remote := ct_id c, rm_endpoint := endpoint, rm_checked := ce_now E 1\<rparr>"
    have at: "honest (cw_disk w) \<longrightarrow> v0 = inventory_at (cw_disk w)" using loaded unfolding p by simp
    have k: "kept w u" and v: "backed ?v (cw_disk u)" "keyed ?v" using loaded unfolding p by auto
    obtain z w2 where z: "(if sync then sync_inventory E ?slot kind c ?r ?v u else (Inr (?v, ?r), u)) = (z, w2)" by (metis surj_pair)
    note one = sync_step_ok [OF z kept_ok [OF k] v]
    have rest: "(case z of Inl e \<Rightarrow> (Inl e, w2) | Inr (v1, r1) \<Rightarrow> link_slot E old ?slot v1 r1 w2) = (x, w1)"
      using assms(1) z unfolding yakit_kind_def Let_def l p by (auto split: sum.splits prod.splits)
    have "sync_ok E ?v ?slot sync c w x w1"
    proof (cases z)
      case (Inl e)
      then show ?thesis using rest one k by (auto simp: sync_ok_def kept_def)
    next
      case (Inr q)
      obtain v1 r1 where q: "z = Inr (v1, r1)" using Inr by (cases q) simp
      then have link: "link_slot E old ?slot v1 r1 w2 = (x, w1)" using rest by simp
      have "store_ok (cw_disk w2)" "backed v1 (cw_disk w2)" using one unfolding q by auto
      note linked = link_slot_ok [OF link this]
      show ?thesis
      proof (cases x)
        case (Inl e)
        then show ?thesis using linked one k by (simp add: sync_ok_def kept_def)
      next
        case new: (Inr r2)
        have "sync_ok E ?v ?slot sync c w (Inr r1) w1"
          by (rule sync_okI [where ?v1.0 = v1]) (use linked one k new in \<open>auto simp: q kept_def adopt_remote_def split: if_splits\<close>)
        then show ?thesis using linked new by simp
      qed
    qed
    then show ?thesis using at by blast
  qed
qed

section \<open>Any history of requests\<close>

lemma sync_ok_store: "sync_ok E v slot sync c w x w1 \<Longrightarrow> store_ok (cw_disk w1)"
  by (simp add: sync_ok_def)

lemma yakit_kinds_ok:
  "yakit_kinds E load disks key sync kinds w = (rs, w1) \<Longrightarrow> store_ok (cw_disk w) \<Longrightarrow> store_ok (cw_disk w1)"
proof (induction kinds arbitrary: w rs w1)
  case (Cons kind kinds)
  obtain x u where k: "(case load kind of Inl e \<Rightarrow> (Inl e, w)
      | Inr (c, endpoint) \<Rightarrow> cert_locked (yakit_kind E (fst (migration_key key (disks kind))) key kind sync c endpoint) w) = (x, u)"
    by (metis surj_pair)
  obtain qs w2 where rest: "yakit_kinds E load disks key sync kinds u = (qs, w2)" by (metis surj_pair)
  have "store_ok (cw_disk u)"
  proof (cases "load kind")
    case (Inl e)
    then show ?thesis using k Cons.prems(2) by simp
  next
    case (Inr p)
    obtain c endpoint where "p = (c, endpoint)" by (cases p)
    then have "cert_locked (yakit_kind E (fst (migration_key key (disks kind))) key kind sync c endpoint) w = (x, u)"
      using k Inr by simp
    then show ?thesis
      using Cons.prems(2)
    proof (cases rule: locked_cases)
      case (2 w2)
      from yakit_kind_ok [OF 2(1) kept_ok [OF 2(2)]] show ?thesis using sync_ok_store by blast
    qed (rule kept_ok)
  qed
  from Cons.IH [OF rest this] show ?case using Cons.prems(1) k rest by simp
qed simp

lemma yakit_api_ok:
  assumes "yakit_api E pages disks meth body pd w = (r, w1)" and "store_ok (cw_disk w)"
  shows "store_ok (cw_disk w1)"
proof -
  have "w1 = w \<or> (\<exists>load key sync kinds rs. yakit_kinds E load disks key sync kinds w = (rs, w1))"
    using assms(1) by (auto simp: yakit_api_def simp del: yakit_kinds.simps split: if_splits prod.splits sum.splits bool.splits)
  then show ?thesis using assms(2) yakit_kinds_ok by blast
qed

lemma list_step_ok:
  assumes "list_step E key pd w = (r, w1)" and "store_ok (cw_disk w)"
  shows "store_ok (cw_disk w1) \<and> cw_kernel w1 = cw_kernel w"
proof -
  obtain x u where l: "at_disk store_load w = (x, u)" by (metis surj_pair)
  note one = load_kept [OF l assms(2)]
  show ?thesis
  proof (cases x)
    case (Inl e)
    then show ?thesis using assms(1) l one by (auto simp: list_step_def kept_def)
  next
    case (Inr v0)
    obtain v changed where v: "(if key \<noteq> [] then scoped_yakit (fst (migration_key key pd)) v0 else (v0, False)) = (v, changed)"
      by (metis surj_pair)
    have b: "backed v (cw_disk u)" using one Inr v scoped_yakit_entries(2) by (metis fst_conv sum.case(2))
    obtain y d where s: "store_save v (cw_disk u) = (y, d)" by (metis surj_pair)
    have u: "store_ok (cw_disk u)" "cw_kernel u = cw_kernel w" using one by (simp_all add: kept_def)
    note saved = store_save_backed [OF s u(1) b]
    have "w1 = u \<or> w1 = u\<lparr>cw_disk := d\<rparr>"
      using assms(1) l Inr v s by (cases changed; cases y) (auto simp: list_step_def at_disk_def)
    then show ?thesis using u saved by auto
  qed
qed

lemma boot_ok:
  assumes "cert_boot_cli E args w = (r, w1)" and "store_ok (cw_disk w)"
  shows "store_ok (cw_disk w1)"
proof -
  consider "w1 = w" | x where "cert_locked (boot_step E (args ! 1)) w = (x, w1)"
    using assms(1) by (auto simp: cert_boot_cli_def split: if_splits prod.splits sum.splits)
  then show ?thesis
  proof cases
    case 2
    then show ?thesis
      using assms(2)
    proof (cases rule: locked_cases)
      case (2 w2)
      obtain y w3 where l: "at_disk store_load w2 = (y, w3)" by (metis surj_pair)
      have "kept w2 w3" using load_kept [OF l kept_ok [OF 2(2)]] by blast
      then have "store_ok (cw_disk w3)" "store_ok (cw_disk w2)" using kept_ok 2(2) by blast+
      then show ?thesis using 2(1) l by (auto simp: boot_step_def Let_def split: if_splits sum.splits prod.splits)
    qed (rule kept_ok)
  qed (use assms(2) in simp)
qed

lemma cert_list_ok:
  assumes "cert_list E meth profile_id pd w = (r, w1)" and "store_ok (cw_disk w)"
  shows "store_ok (cw_disk w1) \<and> cw_kernel w1 = cw_kernel w"
proof -
  consider "w1 = w" | key pd1 x where "cert_locked (list_step E key pd1) w = (x, w1)"
    using assms(1) by (auto simp: cert_list_def Let_def split: if_splits prod.splits sum.splits)
  then show ?thesis
  proof cases
    case 2
    then show ?thesis
      using assms(2)
    proof (cases rule: locked_cases)
      case (2 w2)
      from list_step_ok [OF 2(1) kept_ok [OF 2(2)]] 2(2) show ?thesis by (simp add: kept_def)
    qed (simp add: kept_def)
  qed (use assms(2) in simp)
qed

text \<open>
  Requests of every kind in any order. Between them anything else may change, but the inventory file and the
  objects: nobody else writes them.
\<close>

inductive cert_reach :: "'k cert_ops \<Rightarrow> 'k cert_world \<Rightarrow> 'k cert_world \<Rightarrow> bool" for E w0 where
  start: "cert_reach E w0 w0"
| action: "cert_reach E w0 w \<Longrightarrow> cert_action E meth body w = (r, w1) \<Longrightarrow> cert_reach E w0 w1"
| import_request: "cert_reach E w0 w \<Longrightarrow> cert_import E meth body w = (r, w1) \<Longrightarrow> cert_reach E w0 w1"
| yakit: "cert_reach E w0 w \<Longrightarrow> yakit_api E pages disks meth body pd w = (q, w1) \<Longrightarrow> cert_reach E w0 w1"
| list_request: "cert_reach E w0 w \<Longrightarrow> cert_list E meth profile_id pd w = (l, w1) \<Longrightarrow> cert_reach E w0 w1"
| boot: "cert_reach E w0 w \<Longrightarrow> cert_boot_cli E args w = (b, w1) \<Longrightarrow> cert_reach E w0 w1"
| other: "cert_reach E w0 w \<Longrightarrow> sd_inventory (cw_disk w1) = sd_inventory (cw_disk w) \<Longrightarrow>
    sd_objects (cw_disk w1) = sd_objects (cw_disk w) \<Longrightarrow> cert_reach E w0 w1"

lemma cert_reach_ok: "cert_reach E w0 w \<Longrightarrow> store_ok (cw_disk w0) \<Longrightarrow> store_ok (cw_disk w)"
proof (induction rule: cert_reach.induct)
  case (action w meth body r w1)
  obtain status x where "r = (status, x)" by (cases r)
  moreover obtain a bad where "read_action body = (a, bad)" by (metis surj_pair)
  ultimately show ?case using cert_action_ok(1) action by blast
next
  case (import_request w meth body r w1)
  obtain status x where "r = (status, x)" by (cases r)
  then show ?case using cert_import_ok import_request by blast
next
  case (yakit w pages disks meth body pd q w1)
  then show ?case using yakit_api_ok by blast
next
  case (list_request w meth profile_id pd l w1)
  then show ?case using cert_list_ok by blast
next
  case (boot w args b w1)
  then show ?case using boot_ok by blast
next
  case (other w w1)
  then show ?case using store_ok_same [of "cw_disk w1" "cw_disk w"] by simp
qed

end
