(* ===== verification/Isolated.thy ===== *)
theory Isolated
  imports Probe
begin

text \<open>
  The isolated experiments of \<open>ebpf-proxy/internal/tproxy\<close>: \<open>poc_linux.go\<close> (interception of one connection in a
  private network namespace), \<open>relay_poc_linux.go\<close> (relay with uid policy and its worker) and the SOCKS5 fixture
  \<open>internal/testutil/socks5.go\<close>. They install real rules, so what matters is that they refuse the host namespace and
  leave nothing behind. Commands, sockets and worker processes are operations on a world.
\<close>

section \<open>A fresh namespace\<close>

definition text_lines :: "string \<Rightarrow> string list" where
  "text_lines s = split_on (CHR 0x0A) s"

definition save_query :: argv where "save_query = [''iptables-save'']"
definition routes_query :: argv where "routes_query = [''ip'', ''route'', ''show'', ''table'', ''all'']"
definition rules_query :: argv where "rules_query = [''ip'', ''rule'', ''show'']"

definition custom_rule :: "string \<Rightarrow> bool" where
  "custom_rule line =
     (case str_fields line of [] \<Rightarrow> False | f # _ \<Rightarrow> f \<notin> {''0:'', ''32766:'', ''32767:''})"

definition used_firewall :: "string \<Rightarrow> bool" where
  "used_firewall line \<longleftrightarrow> has_prefix line ''-A '' \<or> str_contains line ''ATP_''"

definition fresh_namespace :: "'w runner \<Rightarrow> 'w \<Rightarrow> gerr option \<times> 'w" where
  "fresh_namespace run w =
     (case run save_query w of (fw, w1) \<Rightarrow>
        if res_exit fw \<noteq> 0 then (Some (Err (''firewall preflight: '' @ res_error fw)), w1)
        else if list_ex used_firewall (text_lines (res_output fw)) then (Some (Err ''refusing non-empty namespace firewall''), w1)
        else (case run routes_query w1 of (rt, w2) \<Rightarrow>
          if res_exit rt \<noteq> 0 \<or> res_output rt \<noteq> [] then (Some (Err ''requires a fresh namespace without routes''), w2)
          else (case run rules_query w2 of (rl, w3) \<Rightarrow>
            if res_exit rl \<noteq> 0 then (Some (Err (''namespace policy preflight: '' @ res_error rl)), w3)
            else if list_ex custom_rule (text_lines (res_output rl))
            then (Some (Err ''refusing namespace with custom policy rules''), w3)
            else (None, w3))))"

section \<open>The interception experiment\<close>

record poc_report =
  pq_namespace :: string
  pq_host :: string
  pq_original :: string
  pq_client :: string
  pq_steps :: "cmd_result list"
  pq_evidence :: "string \<rightharpoonup> cmd_result"
  pq_rollback :: "cmd_result list"
  pq_ok :: bool
  pq_scope :: string

text \<open>
  What the experiment reads and does: the namespace links, commands, the transparent listener, the accepted connection
  (its remote text and local address) and the client it dials.
\<close>

record 'w poc_env =
  pe_self :: "gerr + string"
  pe_host :: "gerr + string"
  pe_run :: "'w runner"
  pe_listen :: "gerr option \<times> gerr option \<times> gerr option"
  pe_accept :: "'w \<Rightarrow> (gerr + string \<times> (u8 list \<times> string \<times> int) option) \<times> 'w"
  pe_client :: "gerr option"

definition new_poc_report :: poc_report where
  "new_poc_report =
     \<lparr>pq_namespace = [], pq_host = [], pq_original = [], pq_client = [], pq_steps = [], pq_evidence = (\<lambda>_. None),
      pq_rollback = [], pq_ok = False,
      pq_scope = ''IPv4 TCP destination-only PoC; isolated namespace; no UID policy or upstream acceptance claimed''\<rparr>"

definition fixture_steps :: "step list" where
  "fixture_steps =
     [\<lparr>step_add = [''ip'', ''link'', ''set'', ''lo'', ''up''], step_remove = [''ip'', ''link'', ''set'', ''lo'', ''down'']\<rparr>,
      \<lparr>step_add = [''ip'', ''addr'', ''add'', ''192.0.2.2/32'', ''dev'', ''lo''],
       step_remove = [''ip'', ''addr'', ''del'', ''192.0.2.2/32'', ''dev'', ''lo'']\<rparr>,
      \<lparr>step_add = [''ip'', ''route'', ''add'', ''198.18.0.1/32'', ''dev'', ''lo'', ''src'', ''192.0.2.2''],
       step_remove = [''ip'', ''route'', ''del'', ''198.18.0.1/32'', ''dev'', ''lo'']\<rparr>]"

definition poc_plan :: plan where
  "poc_plan =
     \<lparr>pl_destination = \<lparr>ap_addr = Ip4 198 18 0 1, ap_port = 443\<rparr>, pl_listener_port = 18080, pl_mark = 0x00400000,
      pl_mask = 0x00400000, pl_table = 38766, pl_priority = 9001, pl_prefix = ''ATP_POC''\<rparr>"

definition poc_steps :: "step list" where
  "poc_steps = fixture_steps @ planned_steps poc_plan"

text \<open>The runner of the transaction records each result as an addition or as a removal.\<close>

type_synonym 'w recorded = "'w \<times> cmd_result list \<times> cmd_result list"

definition recorder :: "'w runner \<Rightarrow> step list \<Rightarrow> bool \<Rightarrow> 'w recorded runner" where
  "recorder run steps rolling args s =
     (case s of (w, added, undone) \<Rightarrow>
        (case run args w of (v, w1) \<Rightarrow>
           (v, if \<not> rolling \<and> args \<in> set (map step_add steps) then (w1, added @ [v], undone)
               else (w1, added, undone @ [v]))))"

definition poc_query :: "string \<Rightarrow> argv" where
  "poc_query name =
     (if name = ''after_firewall'' then save_query
      else if name = ''after_routes'' then routes_query
      else if name = ''counters'' then [''iptables'', ''-w'', ''2'', ''-t'', ''mangle'', ''-L'', ''-n'', ''-v'', ''-x'']
      else if name = ''route'' then [''ip'', ''route'', ''show'', ''table'', ''38766'']
      else rules_query)"

definition left_behind :: "string \<Rightarrow> cmd_result \<Rightarrow> bool" where
  "left_behind name v \<longleftrightarrow>
     res_exit v \<noteq> 0 \<or> str_contains (res_output v) ''ATP_POC'' \<or> str_contains (res_output v) ''38766'' \<or>
     name = ''after_routes'' \<and> (str_contains (res_output v) ''198.18.0.1'' \<or> str_contains (res_output v) ''192.0.2.2'')"

definition after_names :: "string list" where
  "after_names = [''after_firewall'', ''after_rule'', ''after_routes'']"

text \<open>The deferred function: teardown, evidence, and the error of a rollback that is the first one.\<close>

definition poc_finish :: "'w poc_env \<Rightarrow> transaction option \<Rightarrow> gerr option \<Rightarrow> poc_report \<Rightarrow> 'w
    \<Rightarrow> poc_report \<times> gerr option \<times> 'w" where
  "poc_finish E tx err r w =
     (case (case tx of None \<Rightarrow> (None, w, pq_steps r, pq_rollback r)
            | Some t \<Rightarrow> (case tx_teardown (recorder (pe_run E) (tx_steps t) True) t (w, pq_steps r, pq_rollback r) of
                (e, t1, s) \<Rightarrow> (e, s))) of
        (torn, w1, added, undone) \<Rightarrow>
          (case gather (pe_run E) poc_query after_names w1 of (ev, w2) \<Rightarrow>
             let ok = (torn = None \<and> \<not> list_ex (\<lambda>n. case ev n of Some v \<Rightarrow> left_behind n v | None \<Rightarrow> False) after_names);
                 e1 = (if err = None then torn else err)
             in (r\<lparr>pq_steps := added, pq_rollback := undone, pq_evidence := pq_evidence r ++ ev, pq_ok := ok\<rparr>,
                 if \<not> ok \<and> e1 = None
                 then Some (Err ''isolated rollback failed; namespace destruction still removes all resources'') else e1,
                 w2)))"

text \<open>The connection that is intercepted, and the evidence of it.\<close>

definition poc_connect :: "'w poc_env \<Rightarrow> poc_report \<Rightarrow> 'w \<Rightarrow> gerr option \<times> poc_report \<times> 'w" where
  "poc_connect E r w =
     (case pe_accept E w of
        (Inl e, w1) \<Rightarrow> (Some (Wrap ''transparent accept'' e), r, w1)
      | (Inr (client, local), w1) \<Rightarrow>
          (case original_destination local of
             Inl e \<Rightarrow> (Some e, r\<lparr>pq_client := client\<rparr>, w1)
           | Inr d \<Rightarrow>
               let r1 = r\<lparr>pq_client := client, pq_original := d\<rparr>
               in if pe_client E \<noteq> None then (Some (Wrap ''client connect'' (the (pe_client E))), r1, w1)
                  else if d \<noteq> ''198.18.0.1:443'' then (Some (Err (''original destination mismatch: '' @ d)), r1, w1)
                  else (case gather (pe_run E) poc_query [''counters'', ''rule'', ''route''] w1 of
                          (ev, w2) \<Rightarrow> (None, r1\<lparr>pq_evidence := pq_evidence r1 ++ ev\<rparr>, w2))))"

definition poc_intercept :: "'w poc_env \<Rightarrow> nat \<Rightarrow> poc_report \<Rightarrow> 'w \<Rightarrow> poc_report \<times> gerr option \<times> 'w" where
  "poc_intercept E fail_after r w =
     (case plan_steps poc_plan of
        Inl e \<Rightarrow> poc_finish E None (Some e) r w
      | Inr planned \<Rightarrow>
          let steps = fixture_steps @ planned
          in (case tx_setup (recorder (pe_run E) steps False) fail_after (new_transaction steps) (w, [], []) of
                (e, t, w1, added, undone) \<Rightarrow>
                  let r1 = r\<lparr>pq_steps := added, pq_rollback := undone\<rparr>
                  in if e \<noteq> None then poc_finish E (Some t) e r1 w1
                     else (case poc_connect E r1 w1 of (e2, r2, w2) \<Rightarrow> poc_finish E (Some t) e2 r2 w2)))"

definition poc_isolated :: "'w poc_env \<Rightarrow> nat \<Rightarrow> 'w \<Rightarrow> poc_report \<times> gerr option \<times> 'w" where
  "poc_isolated E fail_after w =
     (case pe_self E of
        Inl e \<Rightarrow> (new_poc_report, Some e, w)
      | Inr self \<Rightarrow>
          (case pe_host E of
             Inl e \<Rightarrow> (new_poc_report\<lparr>pq_namespace := self\<rparr>, Some e, w)
           | Inr host \<Rightarrow>
               let r = new_poc_report\<lparr>pq_namespace := self, pq_host := host\<rparr>
               in if self = host
                  then (r, Some (Err ''refusing host network namespace: run unshare -n ebpf-proxy tproxy poc-isolated''), w)
                  else (case fresh_namespace (pe_run E) w of
                          (Some e, w1) \<Rightarrow> (r, Some e, w1)
                        | (None, w1) \<Rightarrow>
                            (case pe_listen E of (raw, set_opt, bind) \<Rightarrow>
                               (case listen_transparent ''tcp4'' raw set_opt bind of
                                  Some e \<Rightarrow> (r, Some e, w1)
                                | None \<Rightarrow> poc_intercept E fail_after r w1)))))"

section \<open>Nothing is left behind\<close>

lemma poc_plan_steps: "plan_steps poc_plan = Inr (planned_steps poc_plan)"
proof -
  have "valid_destination (pl_destination poc_plan)" by code_simp
  moreover have "valid_parameters poc_plan" by code_simp
  ultimately show ?thesis by (simp add: plan_steps_Inr)
qed

lemma poc_commands_distinct: "distinct (map step_add poc_steps @ map step_remove poc_steps)"
  by code_simp

text \<open>Recording changes nothing: the transaction does to the world what it does without.\<close>

lemma recorder_teardown:
  "teardown_loop (recorder run ss rolling) steps d (w, a, b) = (e, d', w', a', b') \<Longrightarrow>
     teardown_loop run steps d w = (e, d', w')"
  by (induction d arbitrary: w a b)
     (auto simp: recorder_def split: prod.splits option.splits if_splits)

lemma recorder_tx_teardown:
  assumes "tx_teardown (recorder run ss rolling) t (w, a, b) = (e, t', w', a', b')"
  shows "tx_teardown run t w = (e, t', w')"
proof -
  obtain e1 d w1 a1 b1 where td: "teardown_loop (recorder run ss rolling) (tx_steps t) (tx_done t) (w, a, b) = (e1, d, w1, a1, b1)"
    by (metis prod_cases5)
  show ?thesis using assms recorder_teardown [OF td] by (auto simp: tx_teardown_def td)
qed

lemma recorder_setup_loop:
  "setup_loop (recorder run ss rolling) fa t i xs (w, a, b) = (e, t', w', a', b') \<Longrightarrow> setup_loop run fa t i xs w = (e, t', w')"
proof (induction xs arbitrary: t i w a b)
  case (Cons s xs)
  obtain v w1 where run: "run (step_add s) w = (v, w1)" by fastforce
  obtain a1 b1 where rec: "recorder run ss rolling (step_add s) (w, a, b) = (v, w1, a1, b1)"
    using run by (cases "\<not> rolling \<and> step_add s \<in> set (map step_add ss)") (auto simp: recorder_def)
  let ?t1 = "t\<lparr>tx_done := Suc (tx_done t)\<rparr>"
  show ?case
  proof (cases "command_error v")
    case (Some err)
    then show ?thesis using Cons.prems run rec by (auto split: prod.splits dest!: recorder_tx_teardown)
  next
    case None
    show ?thesis
    proof (cases "fa = Suc i")
      case True
      then show ?thesis using Cons.prems run rec None by (auto split: prod.splits dest!: recorder_tx_teardown)
    next
      case False
      then show ?thesis using Cons.prems Cons.IH [of ?t1 "Suc i" w1 a1 b1] run rec None by (simp add: Let_def)
    qed
  qed
qed simp

lemma recorder_tx_setup:
  "tx_setup (recorder run ss rolling) fa t (w, a, b) = (e, t', w', a', b') \<Longrightarrow> tx_setup run fa t w = (e, t', w')"
  by (auto simp: tx_setup_def split: if_splits dest: recorder_setup_loop)

lemma setup_loop_steps: "setup_loop run fa t i xs w = (e, t', w') \<Longrightarrow> tx_steps t' = tx_steps t"
proof (induction xs arbitrary: t i w)
  case (Cons s xs)
  obtain v w1 where run: "run (step_add s) w = (v, w1)" by fastforce
  let ?t1 = "t\<lparr>tx_done := Suc (tx_done t)\<rparr>"
  show ?case
    using Cons.prems Cons.IH [of ?t1 "Suc i" w1] run
    by (cases "command_error v"; cases "fa = Suc i") (auto simp: Let_def split: prod.splits)
qed simp

lemma setup_steps: "tx_setup run fa t w = (e, t', w') \<Longrightarrow> tx_steps t' = tx_steps t"
  by (auto simp: tx_setup_def split: if_splits dest: setup_loop_steps)

lemma gather_reads:
  assumes "\<And>n w. n \<in> set ns \<Longrightarrow> snd (run (cmd n) w) = w"
  shows "snd (gather run cmd ns w) = w"
  using assms
proof (induction ns arbitrary: w)
  case (Cons n ns)
  obtain r where "run (cmd n) w = (r, w)" using Cons.prems [of n w] by (metis list.set_intros(1) prod.collapse)
  moreover obtain ev where "gather run cmd ns w = (ev, w)" using Cons.IH [of w] Cons.prems by (metis list.set_intros(2) prod.collapse)
  ultimately show ?case by simp
qed simp

text \<open>
  What the experiment relies on: a planned removal undoes the addition it belongs to, a failed addition changes nothing,
  and neither a listing nor the connection changes the namespace.
\<close>

locale poc_kernel = undo_kernel "pe_run E" poc_steps for E :: "'w poc_env" +
  assumes reads: "q \<in> insert save_query (insert routes_query (range poc_query)) \<Longrightarrow> snd (pe_run E q w) = w"
    and accept_reads: "snd (pe_accept E w) = w"
begin

lemma rules_query_eq: "rules_query = poc_query ''rule''"
  by (simp add: poc_query_def)

lemma fresh_reads:
  assumes "fresh_namespace (pe_run E) w = (e, w')"
  shows "w' = w"
proof -
  have r: "snd (pe_run E save_query w) = w" "snd (pe_run E routes_query w) = w" "snd (pe_run E rules_query w) = w" for w
    using reads [of save_query w] reads [of routes_query w] reads [of "poc_query ''rule''" w]
    unfolding rules_query_eq by blast+
  obtain fw rt rl where "pe_run E save_query w = (fw, w)" "pe_run E routes_query w = (rt, w)" "pe_run E rules_query w = (rl, w)"
    using r [of w] by (metis prod.collapse)
  then show ?thesis using assms by (auto simp: fresh_namespace_def split: if_splits)
qed

lemma evidence_reads: "snd (gather (pe_run E) poc_query ns w) = w"
  by (rule gather_reads) (simp add: reads)

lemma connect_reads:
  assumes "poc_connect E r w = (e, r', w')"
  shows "w' = w \<and> pq_namespace r' = pq_namespace r \<and> pq_host r' = pq_host r \<and> (e = None \<longrightarrow> pq_original r' = ''198.18.0.1:443'')"
proof -
  obtain ev where ev: "gather (pe_run E) poc_query [''counters'', ''rule'', ''route''] w = (ev, w)"
    using evidence_reads by (metis prod.collapse)
  show ?thesis
  proof (cases "fst (pe_accept E w)")
    case (Inl x)
    then have "pe_accept E w = (Inl x, w)" using accept_reads by (metis prod.collapse)
    then show ?thesis using assms by (auto simp: poc_connect_def)
  next
    case (Inr x)
    then obtain client local where "pe_accept E w = (Inr (client, local), w)" using accept_reads by (metis prod.collapse)
    then show ?thesis using assms ev
      by (cases "original_destination local") (auto simp: poc_connect_def Let_def simp del: gather.simps split: if_splits)
  qed
qed

lemma finish_restores:
  assumes "poc_finish E (Some t) err r w1 = (r', e, w')" and "installed w (tx_done t) w1" and "tx_steps t = poc_steps"
  shows "w' = w \<and> pq_namespace r' = pq_namespace r \<and> pq_host r' = pq_host r \<and> pq_original r' = pq_original r \<and>
    (e = None \<longrightarrow> err = None \<and> pq_ok r')"
proof -
  obtain e1 t1 w2 a b where td: "tx_teardown (recorder (pe_run E) poc_steps True) t (w1, pq_steps r, pq_rollback r) = (e1, t1, w2, a, b)"
    by (metis prod_cases5)
  then have "e1 = None" "w2 = w" using recorder_tx_teardown [OF td] teardown_restores [OF assms(2,3)] by auto
  moreover obtain ev where "gather (pe_run E) poc_query after_names w = (ev, w)" using evidence_reads by (metis prod.collapse)
  ultimately show ?thesis using assms(1,3) td by (auto simp: poc_finish_def Let_def split: if_splits)
qed

lemma intercept_restores:
  assumes "poc_intercept E fa r w = (r', e, w')"
  shows "w' = w \<and> pq_namespace r' = pq_namespace r \<and> pq_host r' = pq_host r \<and>
    (e = None \<longrightarrow> pq_ok r' \<and> pq_original r' = ''198.18.0.1:443'')"
proof -
  obtain e1 t w1 a b where set_up:
      "tx_setup (recorder (pe_run E) poc_steps False) fa (new_transaction poc_steps) (w, [], []) = (e1, t, w1, a, b)"
    by (metis prod_cases5)
  note tx = setup_atomic [OF recorder_tx_setup [OF set_up]]
  have steps: "tx_steps t = poc_steps" using setup_steps [OF set_up] by (simp add: new_transaction_def)
  have inst: "installed w (tx_done t) w1"
    using tx installed.base by (cases e1) auto
  obtain e2 r2 w2 where c: "poc_connect E (r\<lparr>pq_steps := a, pq_rollback := b\<rparr>) w1 = (e2, r2, w2)" by (metis prod_cases3)
  show ?thesis
  proof (cases e1)
    case None
    then have "poc_finish E (Some t) e2 r2 w2 = (r', e, w')"
      using assms set_up c by (simp add: poc_intercept_def poc_plan_steps poc_steps_def Let_def)
    from finish_restores [OF this _ steps, of w] inst connect_reads [OF c] show ?thesis by auto
  next
    case (Some x)
    then have "poc_finish E (Some t) e1 (r\<lparr>pq_steps := a, pq_rollback := b\<rparr>) w1 = (r', e, w')"
      using assms set_up by (simp add: poc_intercept_def poc_plan_steps poc_steps_def Let_def)
    from finish_restores [OF this inst steps] Some show ?thesis by auto
  qed
qed

lemma poc_restores:
  assumes "poc_isolated E fa w = (r, e, w')"
  shows "w' = w \<and> (e = None \<longrightarrow> pq_ok r \<and> pq_original r = ''198.18.0.1:443'' \<and> pq_namespace r \<noteq> pq_host r)"
proof -
  obtain o1 o2 o3 where l: "pe_listen E = (o1, o2, o3)" by (metis prod_cases3)
  obtain e1 w1 where f: "fresh_namespace (pe_run E) w = (e1, w1)" by (metis surj_pair)
  have "w1 = w" using fresh_reads [OF f] .
  then show ?thesis
    using assms f l
    by (auto simp: poc_isolated_def Let_def split: sum.splits if_splits option.splits dest!: intercept_restores)
qed

end

text \<open>The stack of installed additions, as a namespace in which the client reaches the listener.\<close>

definition stack_env :: "argv list poc_env" where
  "stack_env =
     \<lparr>pe_self = Inr ''net:[2]'', pe_host = Inr ''net:[1]'', pe_run = stack_run poc_steps, pe_listen = (None, None, None),
      pe_accept = (\<lambda>w. (Inr (''192.0.2.2:40000'', Some ([198, 18, 0, 1], [], 443)), w)), pe_client = None\<rparr>"

definition poc_listings :: "argv list" where
  "poc_listings = [save_query, routes_query, rules_query, poc_query ''counters'', poc_query ''route'']"

lemma stack_reads: "\<not> list_ex (\<lambda>s. step_add s = q \<or> step_remove s = q) ss \<Longrightarrow> snd (stack_run ss q w) = w"
  by (auto simp: stack_run_def list_ex_iff find_None_iff split: option.splits dest!: find_Some_iff [THEN iffD1])

interpretation stack_poc: poc_kernel stack_env
proof (intro poc_kernel.intro poc_kernel_axioms.intro)
  show "undo_kernel (pe_run stack_env) poc_steps"
    using stack_undo_kernel [OF poc_commands_distinct] by (simp add: stack_env_def)
next
  fix q w assume "q \<in> insert save_query (insert routes_query (range poc_query))"
  then have "q \<in> set poc_listings" by (auto simp: poc_listings_def poc_query_def)
  moreover have "list_all (\<lambda>q. \<not> list_ex (\<lambda>s. step_add s = q \<or> step_remove s = q) poc_steps) poc_listings" by code_simp
  ultimately show "snd (pe_run stack_env q w) = w" by (simp add: stack_env_def stack_reads list_all_iff)
next
  show "snd (pe_accept stack_env w) = w" for w by (simp add: stack_env_def)
qed

end
