(* ===== verification/RelayPoc.thy ===== *)
theory RelayPoc
  imports Isolated
begin

text \<open>
  The relay experiment of \<open>relay_poc_linux.go\<close>: owned rules with an undo list, listeners, workers of chosen uids, the
  removal of the interception before the relay stops, and the rollback; with the worker program \<open>FixtureClient\<close> and
  the SOCKS5 fixture of \<open>internal/testutil/socks5.go\<close>.
\<close>

section \<open>The rules\<close>

definition base_steps :: "step list" where
  "base_steps =
     [\<lparr>step_add = [''ip'', ''link'', ''set'', ''lo'', ''up''], step_remove = [''ip'', ''link'', ''set'', ''lo'', ''down'']\<rparr>,
      \<lparr>step_add = [''ip'', ''addr'', ''add'', ''198.18.0.1/32'', ''dev'', ''lo''],
       step_remove = [''ip'', ''addr'', ''del'', ''198.18.0.1/32'', ''dev'', ''lo'']\<rparr>,
      \<lparr>step_add = [''ip'', ''route'', ''add'', ''local'', ''default'', ''dev'', ''lo'', ''table'', ''38766''],
       step_remove = [''ip'', ''route'', ''del'', ''local'', ''default'', ''dev'', ''lo'', ''table'', ''38766'']\<rparr>,
      \<lparr>step_add = [''ip'', ''rule'', ''add'', ''priority'', ''9001'', ''fwmark'', ''0x400000/0x400000'', ''lookup'', ''38766''],
       step_remove = [''ip'', ''rule'', ''del'', ''priority'', ''9001'', ''fwmark'', ''0x400000/0x400000'', ''lookup'', ''38766'']\<rparr>]"

definition chain_step :: "string \<Rightarrow> step" where
  "chain_step chain = \<lparr>step_add = ipt [''-N'', chain], step_remove = ipt [''-X'', chain]\<rparr>"

definition jump_step :: "string \<Rightarrow> string \<Rightarrow> step" where
  "jump_step hook chain =
     \<lparr>step_add = ipt [''-I'', hook, ''1'', ''-p'', ''tcp'', ''-j'', chain],
      step_remove = ipt [''-D'', hook, ''-p'', ''tcp'', ''-j'', chain]\<rparr>"

text \<open>Processed packets, the daemon, special networks and the upstream first; then the selected uid.\<close>

definition uid_rules :: "nat \<Rightarrow> argv list" where
  "uid_rules uid =
     [[''-m'', ''mark'', ''--mark'', ''0x400000/0x400000'', ''-j'', ''RETURN''],
      [''-m'', ''owner'', ''--uid-owner'', utoa uid, ''-j'', ''RETURN''],
      [''-d'', ''127.0.0.0/8'', ''-j'', ''RETURN''],
      [''-d'', ''169.254.0.0/16'', ''-j'', ''RETURN''],
      [''-d'', ''224.0.0.0/4'', ''-j'', ''RETURN''],
      [''-d'', ''255.255.255.255'', ''-j'', ''RETURN''],
      [''-d'', ''198.18.0.1'', ''-p'', ''tcp'', ''--dport'', ''8443'', ''-j'', ''RETURN''],
      [''-m'', ''owner'', ''--uid-owner'', ''41001'', ''-p'', ''tcp'', ''-j'', ''MARK'', ''--set-xmark'', ''0x400000/0x400000''],
      [''-m'', ''owner'', ''--uid-owner'', utoa uid, ''-p'', ''tcp'', ''-j'', ''MARK'', ''--set-xmark'', ''0x400000/0x400000'']]"

definition uid_policy_steps :: "nat \<Rightarrow> step list" where
  "uid_policy_steps uid =
     [chain_step ''ATP_UID_PRE'', chain_step ''ATP_UID_OUT'',
      chain_rule ''ATP_UID_PRE'' [''-p'', ''tcp'', ''-m'', ''mark'', ''--mark'', ''0x400000/0x400000'', ''-j'', ''TPROXY'',
        ''--on-port'', ''18080'', ''--tproxy-mark'', ''0x400000/0x400000''],
      jump_step ''PREROUTING'' ''ATP_UID_PRE''] @
     map (chain_rule ''ATP_UID_OUT'') (uid_rules uid) @ [jump_step ''OUTPUT'' ''ATP_UID_OUT'']"

section \<open>State\<close>

record relay_report =
  rr_namespace :: string
  rr_cases :: "string \<rightharpoonup> cmd_result"
  rr_originals :: "string list"
  rr_upstream :: "string list"
  rr_stats :: "u64 \<times> u64 \<times> u64 \<times> u64"
  rr_counters :: cmd_result
  rr_disable :: cmd_result
  rr_after :: "string \<rightharpoonup> cmd_result"
  rr_rollback :: "cmd_result list"
  rr_ok :: bool
  rr_scope :: string

record 'w iso_state =
  is_undo :: "argv list"
  is_entry :: "nat option"
  is_report :: relay_report
  is_world :: 'w

text \<open>
  The environment: namespace links, commands, listeners, the upstream of the handshake, workers (started with an
  environment and a uid; what they print and their error), and what the relay reports when it has stopped: its error,
  the destinations it and the upstream saw, and accepted, failed, sent and received counts.
\<close>

record 'w relay_env =
  re_self :: "gerr + string"
  re_host :: "gerr + string"
  re_open :: "gerr option"
  re_run :: "'w runner"
  re_uid :: nat
  re_udp :: "gerr option"
  re_tcp :: "nat \<Rightarrow> gerr option"
  re_listen :: "gerr option \<times> gerr option \<times> gerr option"
  re_dial :: "gerr + conn"
  re_work :: "string list \<Rightarrow> nat \<Rightarrow> 'w \<Rightarrow> (string \<times> string option) \<times> 'w"
  re_served :: "gerr option"
  re_originals :: "string list"
  re_upstream :: "string list"
  re_stats :: "u64 \<times> u64 \<times> u64 \<times> u64"

definition new_relay_report :: "bool \<Rightarrow> string \<Rightarrow> relay_report" where
  "new_relay_report socks ns =
     \<lparr>rr_namespace = ns, rr_cases = (\<lambda>_. None), rr_originals = [], rr_upstream = [], rr_stats = (0, 0, 0, 0),
      rr_counters = zero_result, rr_disable = zero_result, rr_after = (\<lambda>_. None), rr_rollback = [], rr_ok = False,
      rr_scope = (if socks
        then ''isolated IPv4 fixture: TPROXY -> generic SOCKS5 -> exact original destination; UID/bypass/half-close; not live MITM acceptance''
        else ''isolated IPv4 local-destination fixture: direct relay, UID owner, daemon/upstream bypass, half-close; not live Android/App/MITM acceptance'')\<rparr>"

section \<open>Owned rules\<close>

text \<open>A step that succeeded is remembered by its removal. Only the exit status counts here.\<close>

definition iso_add :: "'w runner \<Rightarrow> step \<Rightarrow> 'w iso_state \<Rightarrow> gerr option \<times> 'w iso_state" where
  "iso_add run s st =
     (case run (step_add s) (is_world st) of (v, w1) \<Rightarrow>
        if res_exit v \<noteq> 0 then (Some (CmdErr v), st\<lparr>is_world := w1\<rparr>)
        else (None, st\<lparr>is_undo := is_undo st @ [step_remove s], is_world := w1\<rparr>))"

fun iso_steps :: "'w runner \<Rightarrow> step list \<Rightarrow> 'w iso_state \<Rightarrow> gerr option \<times> 'w iso_state" where
  "iso_steps run [] st = (None, st)"
| "iso_steps run (s # ss) st =
     (case iso_add run s st of (Some e, st1) \<Rightarrow> (Some e, st1) | (None, st1) \<Rightarrow> iso_steps run ss st1)"

text \<open>The rollback goes on after a removal that fails.\<close>

fun iso_undo :: "'w runner \<Rightarrow> argv list \<Rightarrow> 'w \<Rightarrow> cmd_result list \<times> bool \<times> 'w" where
  "iso_undo run [] w = ([], True, w)"
| "iso_undo run (d # ds) w =
     (case run d w of (v, w1) \<Rightarrow>
        (case iso_undo run ds w1 of (vs, ok, w2) \<Rightarrow> (v # vs, res_exit v = 0 \<and> ok, w2)))"

definition iso_disable :: "'w runner \<Rightarrow> 'w iso_state \<Rightarrow> gerr option \<times> 'w iso_state" where
  "iso_disable run st =
     (case is_entry st of
        None \<Rightarrow> (None, st)
      | Some i \<Rightarrow>
          (case run (is_undo st ! i) (is_world st) of (v, w1) \<Rightarrow>
             let st1 = st\<lparr>is_report := (is_report st)\<lparr>rr_disable := v\<rparr>, is_world := w1\<rparr>
             in if res_exit v \<noteq> 0 then (Some (Err (''disable interception: '' @ res_error v)), st1)
                else (None, st1\<lparr>is_undo := take i (is_undo st) @ drop (Suc i) (is_undo st), is_entry := None\<rparr>)))"

definition relay_left :: "cmd_result \<Rightarrow> bool" where
  "relay_left v \<longleftrightarrow> res_exit v \<noteq> 0 \<or> str_contains (res_output v) ''ATP_UID'' \<or> str_contains (res_output v) ''38766'' \<or>
     str_contains (res_output v) ''198.18.0.1''"

definition relay_query :: "string \<Rightarrow> argv" where
  "relay_query name =
     (if name = join '' '' save_query then save_query else if name = join '' '' rules_query then rules_query else routes_query)"

definition relay_after_names :: "string list" where
  "relay_after_names = [join '' '' save_query, join '' '' rules_query, join '' '' routes_query]"

text \<open>The deferred functions, in their order; the first runs only when the relay was started.\<close>

definition relay_finish :: "'w relay_env \<Rightarrow> bool \<Rightarrow> gerr option \<Rightarrow> 'w iso_state \<Rightarrow> relay_report \<times> gerr option \<times> 'w" where
  "relay_finish E serving err st =
     (case (if serving then iso_disable (re_run E) st else (None, st)) of (e1, st1) \<Rightarrow>
        let err1 = (if err = None then e1 else err);
            r1 = (if serving
                  then (is_report st1)\<lparr>rr_stats := re_stats E, rr_originals := re_originals E, rr_upstream := re_upstream E\<rparr>
                  else is_report st1)
        in (case iso_undo (re_run E) (rev (is_undo st1)) (is_world st1) of (vs, ok, w1) \<Rightarrow>
              (case gather (re_run E) relay_query relay_after_names w1 of (after, w2) \<Rightarrow>
                 let ok1 = (ok \<and> \<not> list_ex (\<lambda>n. case after n of Some v \<Rightarrow> relay_left v | None \<Rightarrow> False) relay_after_names)
                 in (r1\<lparr>rr_rollback := rr_rollback r1 @ vs, rr_after := after, rr_ok := ok1\<rparr>,
                     if \<not> ok1 \<and> err1 = None then Some (Err ''owned resource rollback failed'') else err1, w2))))"

section \<open>Workers\<close>

definition worker_env :: "bool \<Rightarrow> string \<Rightarrow> nat \<Rightarrow> nat \<Rightarrow> string list" where
  "worker_env socks name uid port =
     [''TP_FIXTURE_NS_FD=3'', ''TP_FIXTURE_PORT='' @ utoa port, ''TP_FIXTURE_UID='' @ utoa uid] @
     (if socks \<and> port = 8443 then [''TP_FIXTURE_SOCKS=1''] else []) @
     (if name = ''udp_pass'' then [''TP_FIXTURE_UDP=1''] else [])"

definition iso_worker :: "'w relay_env \<Rightarrow> bool \<Rightarrow> string \<Rightarrow> nat \<Rightarrow> nat \<Rightarrow> 'w iso_state \<Rightarrow> gerr option \<times> 'w iso_state" where
  "iso_worker E socks name uid port st =
     (case re_work E (worker_env socks name uid port) uid (is_world st) of ((out, failure), w1) \<Rightarrow>
        let v = \<lparr>res_command = [], res_exit = (if failure = None then 0 else -1), res_output = trim_space out,
                 res_error = (case failure of None \<Rightarrow> [] | Some t \<Rightarrow> t), res_sha256 = []\<rparr>
        in (map_option Err failure,
            st\<lparr>is_report := (is_report st)\<lparr>rr_cases := (rr_cases (is_report st))(name \<mapsto> v)\<rparr>, is_world := w1\<rparr>))"

text \<open>The checks that follow each other until one of them fails.\<close>

fun run_checks :: "('s \<Rightarrow> gerr option \<times> 's) list \<Rightarrow> 's \<Rightarrow> gerr option \<times> 's" where
  "run_checks [] s = (None, s)"
| "run_checks (f # fs) s = (case f s of (Some e, s1) \<Rightarrow> (Some e, s1) | (None, s1) \<Rightarrow> run_checks fs s1)"

definition relay_counters :: "'w relay_env \<Rightarrow> 'w iso_state \<Rightarrow> gerr option \<times> 'w iso_state" where
  "relay_counters E st =
     (case re_run E (ipt [''-L'', ''-n'', ''-v'', ''-x'']) (is_world st) of (v, w1) \<Rightarrow>
        let st1 = st\<lparr>is_report := (is_report st)\<lparr>rr_counters := v\<rparr>, is_world := w1\<rparr>
        in if re_stats E \<noteq> (1, 0, 65536, 65536) then (Some (Err ''unexpected relay statistics''), st1)
           else if re_originals E \<noteq> [''198.18.0.1:443''] then (Some (Err ''original destination mismatch''), st1)
           else (None, st1))"

text \<open>Both clients run before either error is looked at.\<close>

definition relay_clients :: "'w relay_env \<Rightarrow> bool \<Rightarrow> 'w iso_state \<Rightarrow> gerr option \<times> 'w iso_state" where
  "relay_clients E socks st =
     (case iso_worker E socks ''target'' 41001 443 st of (a, s1) \<Rightarrow>
        (case iso_worker E socks ''non_target'' 41002 443 s1 of (b, s2) \<Rightarrow>
           (if a \<noteq> None \<or> b \<noteq> None then Some (Err ''client failures'') else None, s2)))"

definition relay_checks :: "'w relay_env \<Rightarrow> bool \<Rightarrow> 'w iso_state \<Rightarrow> gerr option \<times> 'w iso_state" where
  "relay_checks E socks =
     run_checks
       [relay_clients E socks,
        iso_worker E socks ''upstream_bypass'' 41001 8443,
        iso_worker E socks ''daemon_bypass'' (re_uid E) 443,
        iso_worker E socks ''udp_pass'' 41001 443,
        \<lambda>s. (if socks \<and> re_upstream E \<noteq> [''198.18.0.1:443'', ''198.18.0.1:443'']
             then Some (Err ''SOCKS5 original destination mismatch'') else None, s),
        iso_disable (re_run E),
        \<lambda>s. (re_served E, s),
        iso_worker E socks ''after_stop_direct'' 41001 443,
        relay_counters E]"

text \<open>The listeners and, before anything is intercepted, the handshake with the upstream.\<close>

definition relay_listeners :: "'w relay_env \<Rightarrow> bool \<Rightarrow> gerr option" where
  "relay_listeners E socks =
     (if re_udp E \<noteq> None then re_udp E
      else if re_tcp E 443 \<noteq> None then re_tcp E 443
      else if re_tcp E 8443 \<noteq> None then re_tcp E 8443
      else case re_listen E of (raw, set_opt, bind) \<Rightarrow>
        (case listen_transparent ''tcp4'' raw set_opt bind of
           Some e \<Rightarrow> Some e
         | None \<Rightarrow>
             if socks
             then map_option (Wrap ''fixture upstream unavailable'')
               (socks_probe \<lparr>so_address = ''198.18.0.1:8443'', so_username = [], so_password = []\<rparr> (re_dial E))
             else None))"

definition relay_fresh :: "'w runner \<Rightarrow> 'w \<Rightarrow> gerr option \<times> 'w" where
  "relay_fresh run w =
     (case run save_query w of (fw, w1) \<Rightarrow> (case run routes_query w1 of (rt, w2) \<Rightarrow> (case run rules_query w2 of (rl, w3) \<Rightarrow>
        (if res_exit fw \<noteq> 0 \<or> str_contains (res_output fw) ''-A '' \<or> str_contains (res_output fw) ''ATP_'' \<or> res_exit rt \<noteq> 0 \<or>
            res_output rt \<noteq> [] \<or> res_exit rl \<noteq> 0
         then Some (Err ''requires a fresh namespace'')
         else if list_ex custom_rule (text_lines (res_output rl)) then Some (Err ''custom namespace policy'') else None, w3))))"

definition relay_run :: "'w relay_env \<Rightarrow> bool \<Rightarrow> 'w iso_state \<Rightarrow> relay_report \<times> gerr option \<times> 'w" where
  "relay_run E socks st0 =
     (case iso_steps (re_run E) base_steps st0 of
        (Some e, st) \<Rightarrow> relay_finish E False (Some e) st
      | (None, st) \<Rightarrow>
          (case relay_listeners E socks of
             Some e \<Rightarrow> relay_finish E False (Some e) st
           | None \<Rightarrow>
               (case run_checks
                       [iso_steps (re_run E) (uid_policy_steps (re_uid E)),
                        \<lambda>s. relay_checks E socks (s\<lparr>is_entry := Some (length (is_undo s) - 1)\<rparr>)] st of
                  (e, s) \<Rightarrow> relay_finish E True e s)))"

definition relay_isolated :: "'w relay_env \<Rightarrow> bool \<Rightarrow> 'w \<Rightarrow> relay_report \<times> gerr option \<times> 'w" where
  "relay_isolated E socks w =
     (case re_self E of
        Inl e \<Rightarrow> (new_relay_report socks [], Some e, w)
      | Inr self \<Rightarrow>
          let r = new_relay_report socks self
          in (case re_host E of
                Inl e \<Rightarrow> (r, Some e, w)
              | Inr host \<Rightarrow>
                  if host = self then (r, Some (Err ''refusing host namespace; use unshare -n''), w)
                  else if re_open E \<noteq> None then (r, re_open E, w)
                  else (case relay_fresh (re_run E) w of
                          (Some e, w1) \<Rightarrow> (r, Some e, w1)
                        | (None, w1) \<Rightarrow> relay_run E socks \<lparr>is_undo = [], is_entry = None, is_report = r, is_world = w1\<rparr>)))"

section \<open>Nothing is left behind\<close>

definition relay_steps :: "nat \<Rightarrow> step list" where
  "relay_steps uid = base_steps @ uid_policy_steps uid"

text \<open>A runner seen through the exit status alone.\<close>

definition by_exit :: "'w runner \<Rightarrow> 'w runner" where
  "by_exit run args w = (case run args w of (v, w1) \<Rightarrow> (v\<lparr>res_error := []\<rparr>, w1))"

lemma by_exit_error [simp]: "command_error (v\<lparr>res_error := []\<rparr>) = None \<longleftrightarrow> res_exit v = 0"
  by (simp add: command_error_def)

locale relay_kernel = undo_kernel "by_exit (re_run E)" "relay_steps (re_uid E)" for E :: "'w relay_env" +
  assumes listing_reads: "q \<in> {save_query, routes_query, rules_query, ipt [''-L'', ''-n'', ''-v'', ''-x'']} \<Longrightarrow> snd (re_run E q w) = w"
    and worker_reads: "snd (re_work E env uid w) = w"
begin

text \<open>What the experiment owns: a prefix of its steps, installed, with their removals; the entry is the last step.\<close>

definition owning :: "'w \<Rightarrow> nat \<Rightarrow> 'w iso_state \<Rightarrow> bool" where
  "owning w n st \<longleftrightarrow> n \<le> length (relay_steps (re_uid E)) \<and> is_undo st = map step_remove (take n (relay_steps (re_uid E))) \<and>
     installed w n (is_world st) \<and>
     (is_entry st = None \<or> n = length (relay_steps (re_uid E)) \<and> is_entry st = Some (n - 1))"

definition owned :: "'w \<Rightarrow> 'w iso_state \<Rightarrow> bool" where
  "owned w st \<longleftrightarrow> (\<exists>n. owning w n st)"

lemma iso_add_owning:
  assumes "owning w n st" "is_entry st = None" "n < length (relay_steps (re_uid E))"
    and "iso_add (re_run E) (relay_steps (re_uid E) ! n) st = (e, st')"
  shows "is_entry st' = None \<and> (if e = None then owning w (Suc n) st' else owning w n st')"
proof -
  let ?s = "relay_steps (re_uid E) ! n"
  obtain v w1 where run: "re_run E (step_add ?s) (is_world st) = (v, w1)" by fastforce
  then have by_ex: "by_exit (re_run E) (step_add ?s) (is_world st) = (v\<lparr>res_error := []\<rparr>, w1)" by (simp add: by_exit_def)
  show ?thesis
  proof (cases "res_exit v = 0")
    case True
    then have "installed w (Suc n) w1" using installed.more [OF _ assms(3) by_ex] assms(1) by (simp add: owning_def)
    then show ?thesis using assms run True by (auto simp: iso_add_def owning_def take_Suc_snoc)
  next
    case False
    then have "w1 = is_world st" using add_failed [OF _ by_ex] assms(3) by simp
    then show ?thesis using assms run False by (auto simp: iso_add_def owning_def)
  qed
qed

lemma iso_steps_owning:
  assumes "iso_steps (re_run E) ss st = (e, st')" "owning w n st" "is_entry st = None"
    and "drop n (relay_steps (re_uid E)) = ss @ rest"
  shows "is_entry st' = None \<and> owned w st' \<and> (e = None \<longrightarrow> owning w (n + length ss) st')"
  using assms
proof (induction ss arbitrary: n st)
  case Nil
  then show ?case by (auto simp: owned_def)
next
  case (Cons s ss)
  have n: "n < length (relay_steps (re_uid E))" and s: "s = relay_steps (re_uid E) ! n"
    and d: "drop (Suc n) (relay_steps (re_uid E)) = ss @ rest"
    using Cons_eq_drop [of s "ss @ rest" n "relay_steps (re_uid E)"] Cons.prems(4) by simp_all
  obtain e1 st1 where a: "iso_add (re_run E) s st = (e1, st1)" by fastforce
  note added = iso_add_owning [OF Cons.prems(2,3) n a [unfolded s]]
  show ?case
  proof (cases e1)
    case None
    then have "iso_steps (re_run E) ss st1 = (e, st')" using Cons.prems(1) a by simp
    from Cons.IH [OF this _ _ d] added None show ?thesis by simp
  next
    case (Some x)
    then show ?thesis using Cons.prems(1) a added by (auto simp: owned_def)
  qed
qed

lemma iso_undo_installed:
  "installed w n w1 \<Longrightarrow> n \<le> length (relay_steps (re_uid E)) \<Longrightarrow>
     \<exists>vs. iso_undo (re_run E) (rev (map step_remove (take n (relay_steps (re_uid E))))) w1 = (vs, True, w)"
proof (induction n arbitrary: w1)
  case 0
  then show ?case by (auto elim: installed_0E)
next
  case (Suc n)
  from Suc.prems(1) obtain w0 r where w0: "installed w n w0" "n < length (relay_steps (re_uid E))"
      "by_exit (re_run E) (step_add (relay_steps (re_uid E) ! n)) w0 = (r, w1)" "command_error r = None"
    by (auto elim: installed_SucE)
  then obtain r' where "by_exit (re_run E) (step_remove (relay_steps (re_uid E) ! n)) w1 = (r', w0)" "command_error r' = None"
    using remove_undoes [of "relay_steps (re_uid E) ! n" w0 r w1] by auto
  then obtain v where "re_run E (step_remove (relay_steps (re_uid E) ! n)) w1 = (v, w0)" "res_exit v = 0"
    by (auto simp: by_exit_def split: prod.splits)
  moreover obtain vs where "iso_undo (re_run E) (rev (map step_remove (take n (relay_steps (re_uid E))))) w0 = (vs, True, w)"
    using Suc.IH [OF w0(1)] Suc.prems(2) by auto
  ultimately show ?case using w0(2) by (simp add: take_Suc_snoc)
qed

lemma iso_disable_owned:
  assumes "iso_disable (re_run E) st = (e, st')" "owned w st"
  shows "owned w st' \<and> e = None \<and> is_entry st' = None"
proof (cases "is_entry st")
  case None
  then show ?thesis using assms by (simp add: iso_disable_def)
next
  case (Some i)
  let ?ss = "relay_steps (re_uid E)" and ?k = "length (relay_steps (re_uid E)) - 1"
  have pos: "Suc ?k = length ?ss" by (simp add: relay_steps_def base_steps_def)
  have own: "i = ?k" "is_undo st = map step_remove ?ss" "installed w (Suc ?k) (is_world st)"
    using assms(2) Some pos by (auto simp: owned_def owning_def)
  from own(3) obtain w0 r where w0: "installed w ?k w0" "by_exit (re_run E) (step_add (?ss ! ?k)) w0 = (r, is_world st)"
      "command_error r = None" by (auto elim: installed_SucE)
  have "?ss ! ?k \<in> set ?ss" using pos by (intro nth_mem) simp
  from remove_undoes [OF this w0(2,3)] obtain r' where "by_exit (re_run E) (step_remove (?ss ! ?k)) (is_world st) = (r', w0)" "command_error r' = None"
    by auto
  then obtain v where "re_run E (step_remove (?ss ! ?k)) (is_world st) = (v, w0)" "res_exit v = 0"
    by (auto simp: by_exit_def split: prod.splits)
  moreover have "is_undo st ! i = step_remove (?ss ! ?k)" using own pos by simp
  moreover have "take i (is_undo st) @ drop (Suc i) (is_undo st) = map step_remove (take ?k ?ss)" using own pos by (simp add: take_map)
  ultimately show ?thesis
    using assms(1) Some w0(1) pos by (auto simp: iso_disable_def Let_def owned_def owning_def intro!: exI [of _ ?k])
qed

lemma owned_cong:
  "is_undo st' = is_undo st \<Longrightarrow> is_entry st' = is_entry st \<Longrightarrow> is_world st' = is_world st \<Longrightarrow> owned w st \<Longrightarrow> owned w st'"
  by (simp add: owned_def owning_def)

lemma iso_worker_owned: "iso_worker E socks name uid port st = (e, st') \<Longrightarrow> owned w st \<Longrightarrow> owned w st'"
  using worker_reads [of "worker_env socks name uid port" uid "is_world st"]
  by (auto simp: iso_worker_def Let_def split: prod.splits intro: owned_cong)

lemma relay_counters_owned: "relay_counters E st = (e, st') \<Longrightarrow> owned w st \<Longrightarrow> owned w st'"
  using listing_reads [of "ipt [''-L'', ''-n'', ''-v'', ''-x'']" "is_world st"]
  by (auto simp: relay_counters_def Let_def split: prod.splits if_splits intro: owned_cong)

lemma run_checks_owned:
  "run_checks fs s = (e, s') \<Longrightarrow> (\<And>f s e s'. f \<in> set fs \<Longrightarrow> f s = (e, s') \<Longrightarrow> owned w s \<Longrightarrow> owned w s') \<Longrightarrow> owned w s \<Longrightarrow> owned w s'"
proof (induction fs arbitrary: s)
  case (Cons f fs)
  obtain e1 s1 where f: "f s = (e1, s1)" by fastforce
  then have "owned w s1" using Cons.prems(2) [of f s e1 s1] Cons.prems(3) by simp
  then show ?case using Cons.prems f Cons.IH [of s1] by (cases e1) auto
qed simp

lemma relay_clients_owned: "relay_clients E socks st = (e, st') \<Longrightarrow> owned w st \<Longrightarrow> owned w st'"
  by (auto simp: relay_clients_def split: prod.splits dest: iso_worker_owned)

lemma relay_checks_owned:
  assumes "relay_checks E socks st = (e, st')" "owned w st"
  shows "owned w st'"
  using assms(1) unfolding relay_checks_def
  by (rule run_checks_owned)
     (use assms(2) in \<open>auto dest: relay_clients_owned iso_worker_owned iso_disable_owned relay_counters_owned\<close>)

text \<open>The rollback of what is owned gives the world before it.\<close>

lemma relay_fresh_reads:
  assumes "relay_fresh (re_run E) w = (e, w')"
  shows "w' = w"
proof -
  obtain fw rt rl where "re_run E save_query w = (fw, w)" "re_run E routes_query w = (rt, w)" "re_run E rules_query w = (rl, w)"
    using listing_reads by (metis insert_iff prod.collapse)
  then show ?thesis using assms by (auto simp: relay_fresh_def)
qed

lemma after_reads: "snd (gather (re_run E) relay_query ns w) = w"
  by (rule gather_reads) (simp add: relay_query_def listing_reads)

lemma relay_finish_restores:
  assumes "relay_finish E serving err st = (r, e, w')" "owned w st" "is_entry st = None \<or> serving"
  shows "w' = w \<and> (e = None \<longrightarrow> err = None \<and> rr_ok r) \<and> (\<forall>x. err = Some x \<longrightarrow> e = Some x) \<and>
    rr_namespace r = rr_namespace (is_report st)"
proof -
  obtain e1 st1 where d: "(if serving then iso_disable (re_run E) st else (None, st)) = (e1, st1)" by (metis surj_pair)
  have st1: "owned w st1" "e1 = None" using d assms(2) iso_disable_owned by (auto split: if_splits)
  have ns: "rr_namespace (is_report st1) = rr_namespace (is_report st)"
    using d by (auto simp: iso_disable_def Let_def split: if_splits option.splits prod.splits)
  obtain vs where undo: "iso_undo (re_run E) (rev (is_undo st1)) (is_world st1) = (vs, True, w)"
    using st1(1) iso_undo_installed by (fastforce simp: owned_def owning_def)
  obtain ev where "gather (re_run E) relay_query relay_after_names w = (ev, w)" using after_reads by (metis prod.collapse)
  then show ?thesis using assms(1) undo st1(2) ns by (auto simp: relay_finish_def d Let_def split: if_splits)
qed

lemma relay_run_restores:
  assumes "relay_run E socks st0 = (r, e, w')" "is_undo st0 = []" "is_entry st0 = None"
  shows "w' = is_world st0 \<and> (e = None \<longrightarrow> rr_ok r)"
proof -
  let ?w = "is_world st0" and ?k = "length base_steps"
  have own0: "owning ?w 0 st0" using assms(2,3) installed.base by (simp add: owning_def)
  obtain e1 st where base: "iso_steps (re_run E) base_steps st0 = (e1, st)" by fastforce
  from iso_steps_owning [OF base own0 assms(3)] have st: "is_entry st = None" "owned ?w st" "e1 = None \<longrightarrow> owning ?w ?k st"
    by (simp_all add: relay_steps_def)
  show ?thesis
  proof (cases "e1 = None \<and> relay_listeners E socks = None")
    case False
    then obtain x where "relay_finish E False (Some x) st = (r, e, w')"
      using assms(1) base by (cases e1) (auto simp: relay_run_def)
    from relay_finish_restores [OF this st(2)] st(1) show ?thesis by auto
  next
    case True
    then have own: "owning ?w ?k st" using st(3) by simp
    obtain e2 s where pol: "iso_steps (re_run E) (uid_policy_steps (re_uid E)) st = (e2, s)" by fastforce
    from iso_steps_owning [OF pol own st(1), of "[]"] have s: "owned ?w s" "is_entry s = None"
        "e2 = None \<longrightarrow> owning ?w (length (relay_steps (re_uid E))) s"
      by (simp_all add: relay_steps_def)
    let ?s1 = "s\<lparr>is_entry := Some (length (is_undo s) - 1)\<rparr>"
    obtain e3 s3 where chk: "relay_checks E socks ?s1 = (e3, s3)" by fastforce
    show ?thesis
    proof (cases e2)
      case (Some x)
      then have "relay_finish E True (Some x) s = (r, e, w')"
        using assms(1) base True pol by (simp add: relay_run_def)
      from relay_finish_restores [OF this s(1)] show ?thesis by auto
    next
      case None
      then have "owned ?w ?s1" using s(3) by (auto simp: owned_def owning_def)
      then have "owned ?w s3" using relay_checks_owned [OF chk] by blast
      moreover have "relay_finish E True e3 s3 = (r, e, w')"
        using assms(1) base True pol None chk by (cases e3) (simp_all add: relay_run_def)
      ultimately show ?thesis using relay_finish_restores by blast
    qed
  qed
qed

lemma relay_restores:
  assumes "relay_isolated E socks w = (r, e, w')"
  shows "w' = w \<and> (e = None \<longrightarrow> rr_ok r \<and> re_self E \<noteq> re_host E)"
proof -
  obtain e1 w1 where f: "relay_fresh (re_run E) w = (e1, w1)" by fastforce
  have w1: "w1 = w" using relay_fresh_reads [OF f] .
  show ?thesis
    using assms f w1
    by (auto simp: relay_isolated_def Let_def split: sum.splits if_splits option.splits dest!: relay_run_restores)
qed

end

text \<open>The stack of installed additions, for the super-user, with workers that succeed.\<close>

definition stack_relay :: "argv list relay_env" where
  "stack_relay =
     \<lparr>re_self = Inr ''net:[2]'', re_host = Inr ''net:[1]'', re_open = None, re_run = stack_run (relay_steps 0), re_uid = 0,
      re_udp = None, re_tcp = (\<lambda>_. None), re_listen = (None, None, None),
      re_dial = Inr \<lparr>cn_in = [5, 0], cn_out = [], cn_writes = [], cn_closed = False\<rparr>,
      re_work = (\<lambda>env uid w. ((''ok'', None), w)), re_served = None, re_originals = [''198.18.0.1:443''],
      re_upstream = [''198.18.0.1:443'', ''198.18.0.1:443''], re_stats = (1, 0, 65536, 65536)\<rparr>"

lemma relay_commands_distinct: "distinct (map step_add (relay_steps 0) @ map step_remove (relay_steps 0))"
  by code_simp

lemma stack_run_results: "fst (stack_run ss args w) = ok_result args \<or> fst (stack_run ss args w) = failed_result args"
  by (simp add: stack_run_def split: option.splits)

lemma by_exit_stack:
  "\<exists>v1 v w1. stack_run ss args w = (v1, w1) \<and> by_exit (stack_run ss) args w = (v, w1) \<and>
     (command_error v = None \<longleftrightarrow> command_error v1 = None)"
proof -
  obtain v1 w1 where "stack_run ss args w = (v1, w1)" by fastforce
  then show ?thesis using stack_run_results [of ss args w]
    by (auto simp: by_exit_def command_error_def ok_result_def failed_result_def)
qed

interpretation stack_relay: relay_kernel stack_relay
proof (intro relay_kernel.intro relay_kernel_axioms.intro)
  note laws = stack_undo_kernel [OF relay_commands_distinct]
  have "undo_kernel (by_exit (stack_run (relay_steps 0))) (relay_steps 0)"
  proof
    fix s w r w' assume s: "s \<in> set (relay_steps 0)" and run: "by_exit (stack_run (relay_steps 0)) (step_add s) w = (r, w')"
    from run by_exit_stack [of "relay_steps 0" "step_add s" w] obtain r1 where r1: "stack_run (relay_steps 0) (step_add s) w = (r1, w')"
      "command_error r = None \<longleftrightarrow> command_error r1 = None" by auto
    show "w' = w" if "command_error r \<noteq> None" using undo_kernel.add_failed [OF laws s r1(1)] r1(2) that by simp
    show "\<exists>r'. by_exit (stack_run (relay_steps 0)) (step_remove s) w' = (r', w) \<and> command_error r' = None" if "command_error r = None"
    proof -
      obtain r2 where "stack_run (relay_steps 0) (step_remove s) w' = (r2, w)" "command_error r2 = None"
        using undo_kernel.remove_undoes [OF laws s r1(1)] r1(2) \<open>command_error r = None\<close> by auto
      then show ?thesis using by_exit_stack [of "relay_steps 0" "step_remove s" w'] by auto
    qed
  qed
  then show "undo_kernel (by_exit (re_run stack_relay)) (relay_steps (re_uid stack_relay))" by (simp add: stack_relay_def)
next
  fix q w assume "q \<in> {save_query, routes_query, rules_query, ipt [''-L'', ''-n'', ''-v'', ''-x'']}"
  moreover have "list_all (\<lambda>q. \<not> list_ex (\<lambda>s. step_add s = q \<or> step_remove s = q) (relay_steps 0))
      [save_query, routes_query, rules_query, ipt [''-L'', ''-n'', ''-v'', ''-x'']]" by code_simp
  ultimately show "snd (re_run stack_relay q w) = w" by (auto simp: stack_relay_def stack_reads)
next
  show "snd (re_work stack_relay env uid w) = w" for env uid w by (simp add: stack_relay_def)
qed

section \<open>The worker program\<close>

text \<open>What a worker reads: environment, namespace links, its uid, and the connection it makes.\<close>

record fixture_env =
  fx_env :: "string list"
  fx_self :: "gerr + string"
  fx_descriptor :: "gerr + string"
  fx_host :: "gerr + string"
  fx_uid :: int
  fx_dial :: "gerr + conn"
  fx_half_close :: "gerr option"

definition env_value :: "string list \<Rightarrow> string \<Rightarrow> string" where
  "env_value env name =
     (case find (\<lambda>s. has_prefix s (name @ ''='')) (rev env) of None \<Rightarrow> [] | Some s \<Rightarrow> drop (length name + 1) s)"

text \<open>The checks before any connection: the inherited namespace, the host, the port and the uid.\<close>

definition fixture_identity :: "fixture_env \<Rightarrow> gerr + int" where
  "fixture_identity F =
     (case fx_self F of
        Inl e \<Rightarrow> Inl e
      | Inr self \<Rightarrow>
          if env_value (fx_env F) ''TP_FIXTURE_NS_FD'' \<noteq> ''3''
          then Inl (Err ''fixture worker requires verified inherited namespace descriptor'')
          else if fx_descriptor F \<noteq> Inr self then Inl (Err ''fixture worker namespace mismatch'')
          else (case (if fx_uid F = 0 then fx_host F else Inr []) of
                  Inl e \<Rightarrow> Inl e
                | Inr host \<Rightarrow>
                    if fx_uid F = 0 \<and> self = host then Inl (Err ''fixture worker refuses host namespace'')
                    else (case atoi (env_value (fx_env F) ''TP_FIXTURE_PORT'') of
                            None \<Rightarrow> Inl (Err ''invalid fixture port'')
                          | Some port \<Rightarrow>
                              if port \<noteq> 443 \<and> port \<noteq> 8443 then Inl (Err ''invalid fixture port'')
                              else if atoi (env_value (fx_env F) ''TP_FIXTURE_UID'') \<noteq> Some (fx_uid F)
                              then Inl (Err ''fixture UID mismatch'') else Inr port)))"

definition fixture_payload :: "nat \<Rightarrow> int \<Rightarrow> u8 list" where
  "fixture_payload len uid = map (\<lambda>i. word_of_int (int i + uid)) [0 ..< len]"

definition fixture_line :: "int \<Rightarrow> int \<Rightarrow> nat \<Rightarrow> bool \<Rightarrow> string" where
  "fixture_line uid port len udp =
     ''uid='' @ itoa uid @ '' destination=198.18.0.1:'' @ itoa port @ '' bytes='' @ utoa len @ '' half_close='' @
     (if udp then ''not_applicable'' else ''ok'') @ '' payload_equal=true udp='' @ (if udp then ''true'' else ''false'') @ [CHR 0x0A]"

definition fixture_connection :: "fixture_env \<Rightarrow> gerr + conn" where
  "fixture_connection F =
     (if env_value (fx_env F) ''TP_FIXTURE_SOCKS'' = ''1''
      then (case socks_connect \<lparr>so_address = ''198.18.0.1:8443'', so_username = [], so_password = []\<rparr> ''198.18.0.1:443'' (fx_dial F) of
              Inl e \<Rightarrow> Inl e | Inr (c, Inl e) \<Rightarrow> Inl e | Inr (c, Inr ()) \<Rightarrow> Inr c)
      else fx_dial F)"

text \<open>The exchange: everything is sent before anything is read.\<close>

definition fixture_client :: "fixture_env \<Rightarrow> gerr + string" where
  "fixture_client F =
     (case fixture_identity F of
        Inl e \<Rightarrow> Inl e
      | Inr port \<Rightarrow>
          (case fixture_connection F of
             Inl e \<Rightarrow> Inl e
           | Inr c \<Rightarrow>
               let udp = (env_value (fx_env F) ''TP_FIXTURE_UDP'' = ''1''); len = (if udp then 4096 else 65536);
                   payload = fixture_payload len (fx_uid F)
               in (case conn_write payload c of
                     (Inl e, c1) \<Rightarrow> Inl e
                   | (Inr n, c1) \<Rightarrow>
                       if \<not> udp \<and> fx_half_close F \<noteq> None then Inl (the (fx_half_close F))
                       else (case (if udp then fst (read_full len c1) else Some (cn_in c1)) of
                               None \<Rightarrow> Inl (Err ''unexpected EOF'')
                             | Some response \<Rightarrow>
                                 if response \<noteq> payload then Inl (Err ''opaque payload mismatch'')
                                 else Inr (fixture_line (fx_uid F) port len udp)))))"

section \<open>The SOCKS5 fixture\<close>

text \<open>
  One accepted connection: the destination that is recorded, and whether the relay to it begins; otherwise the
  connection is closed. \<open>remote\<close> is the failure of connecting to the destination.
\<close>

definition serve_request :: "string \<Rightarrow> gerr option \<Rightarrow> u8 list \<Rightarrow> conn \<Rightarrow> string option \<times> bool \<times> conn" where
  "serve_request destination remote b c =
     (let n = length b - 2; d = join_host_port (ip_text (take n b)) (utoa (256 * unat (b ! n) + unat (b ! (n + 1))))
      in if d \<noteq> destination then (None, False, closed (snd (conn_write [5, 2, 0, 1, 0, 0, 0, 0, 0, 0] c)))
         else if remote \<noteq> None then (None, False, closed c)
         else (case conn_write [5, 0, 0, 1, 0, 0, 0, 0, 0, 0] c of
                 (Inl e, c1) \<Rightarrow> (Some d, False, closed c1)
               | (Inr _, c1) \<Rightarrow> (Some d, True, c1)))"

definition serve_socks5 :: "string \<Rightarrow> gerr option \<Rightarrow> conn \<Rightarrow> string option \<times> bool \<times> conn" where
  "serve_socks5 destination remote c =
     (case read_full 3 c of
        (None, c1) \<Rightarrow> (None, False, closed c1)
      | (Some g, c1) \<Rightarrow>
          if g \<noteq> [5, 1, 0] then (None, False, closed c1)
          else (case conn_write [5, 0] c1 of
                  (Inl e, c2) \<Rightarrow> (None, False, closed c2)
                | (Inr _, c2) \<Rightarrow>
                    (case read_full 4 c2 of
                       (None, c3) \<Rightarrow> (None, False, closed c3)
                     | (Some h, c3) \<Rightarrow>
                         if take 3 h \<noteq> [5, 1, 0] \<or> h ! 3 \<notin> {1, 4} then (None, False, closed c3)
                         else (case read_full ((if h ! 3 = 1 then 4 else 16) + 2) c3 of
                                 (None, c4) \<Rightarrow> (None, False, closed c4)
                               | (Some b, c4) \<Rightarrow> serve_request destination remote b c4))))"

section \<open>The parts fit\<close>

text \<open>A worker started by the experiment passes its own checks, whatever else its environment holds.\<close>

lemma worker_identity:
  assumes "fx_env F = base @ worker_env socks name uid port" and "fx_uid F = int uid" and "uid < 2 ^ 63" and "port = 443 \<or> port = 8443"
    and "fx_self F = Inr self" and "fx_descriptor F = Inr self" and "uid = 0 \<Longrightarrow> \<exists>host. fx_host F = Inr host \<and> host \<noteq> self"
  shows "fixture_identity F = Inr (int port)"
proof -
  have fd: "env_value (fx_env F) ''TP_FIXTURE_NS_FD'' = ''3''" and p: "env_value (fx_env F) ''TP_FIXTURE_PORT'' = utoa port"
    and u: "env_value (fx_env F) ''TP_FIXTURE_UID'' = utoa uid"
    by (simp_all add: assms(1) env_value_def worker_env_def has_prefix_Cons)
  have "atoi (utoa port) = Some (int port)" "atoi (utoa uid) = Some (int uid)"
    using assms(3,4) by (auto simp: atoi_utoa int64_range_def)
  then show ?thesis
    using assms fd p u by (cases "uid = 0") (auto simp: fixture_identity_def)
qed

text \<open>The fixture understands the requests of the client, and answers what the client accepts.\<close>

lemma fixture_serves:
  assumes "length ip = 4" and "0 < port" "port < 65536" and "d = join_host_port (ip_text ip) (utoa port)"
    and "connect_request d = Inr req" and "cn_in c = [5, 1, 0] @ req @ rest" and "cn_writes c = []"
  shows "serve_socks5 d None c = (Some d, True, c\<lparr>cn_in := rest, cn_out := cn_out c @ [5, 0] @ [5, 0, 0, 1, 0, 0, 0, 0, 0, 0]\<rparr>)"
proof -
  obtain a b e f where ip: "ip = [a, b, e, f]" using assms(1) by (auto simp: length_4)
  have req: "req = [5, 1, 0, 1, a, b, e, f, byte_of (port div 256), byte_of (port mod 256)]"
    using assms(2-5) connect_request_ip [of ip port] ip by simp
  have "256 * unat (byte_of (port div 256)) + unat (byte_of (port mod 256)) = port"
    using assms(3) by (simp add: byte_of_def unat_of_nat)
  then show ?thesis
    using assms(4,6,7) req ip
    by (simp add: serve_socks5_def serve_request_def read_full_def conn_write_def Let_def)
qed

end
