(* ===== verification/Commands.thy ===== *)
theory Commands
  imports Daemon RelayPoc
begin

text \<open>
  The command line of the daemon, \<open>ebpf-proxy/cmd/ebpf-proxy\<close>: the dispatch of \<open>main.go\<close>, the control commands and
  the kernel probe of \<open>kernel_linux.go\<close>, and the TPROXY commands of \<open>tproxy_linux.go\<close>, with the parser of the
  package \<open>flag\<close> they use. The functions they call are the ones of the other theories.
\<close>

section \<open>Flags\<close>

datatype flag_value = TextFlag string | BoolFlag bool

type_synonym flag_set = "string \<rightharpoonup> flag_value"

definition parse_bool :: "string \<Rightarrow> bool option" where
  "parse_bool s =
     (if s \<in> {''1'', ''t'', ''T'', ''TRUE'', ''true'', ''True''} then Some True
      else if s \<in> {''0'', ''f'', ''F'', ''FALSE'', ''false'', ''False''} then Some False else None)"

text \<open>An argument that is a flag: its name, and the value after \<open>=\<close>; \<open>None\<close> for bad syntax.\<close>

definition split_flag :: "string \<Rightarrow> (string \<times> string option) option" where
  "split_flag s =
     (let name = (if has_prefix s ''--'' then drop 2 s else drop 1 s); key = takeWhile (\<lambda>c. c \<noteq> CHR ''='') name
      in if name = [] \<or> hd name = CHR ''-'' \<or> hd name = CHR ''='' then None
         else Some (key, if CHR ''='' \<in> set name then Some (drop (length key + 1) name) else None))"

text \<open>The flags and the arguments after them. A text flag without \<open>=\<close> takes the next argument.\<close>

fun parse_flags :: "flag_set \<Rightarrow> argv \<Rightarrow> gerr + flag_set \<times> argv" where
  "parse_flags F [] = Inr (F, [])"
| "parse_flags F (s # args) =
     (if length s < 2 \<or> hd s \<noteq> CHR ''-'' then Inr (F, s # args)
      else if s = ''--'' then Inr (F, args)
      else case split_flag s of
             None \<Rightarrow> Inl (Err (''bad flag syntax: '' @ s))
           | Some (name, given) \<Rightarrow>
               (case F name of
                  None \<Rightarrow> Inl (Err (if name = ''help'' \<or> name = ''h'' then ''flag: help requested''
                                    else ''flag provided but not defined: -'' @ name))
                | Some (BoolFlag _) \<Rightarrow>
                    (case parse_bool (case given of None \<Rightarrow> ''true'' | Some v \<Rightarrow> v) of
                       None \<Rightarrow> Inl (Err (''invalid boolean value for -'' @ name))
                     | Some b \<Rightarrow> parse_flags (F(name \<mapsto> BoolFlag b)) args)
                | Some (TextFlag _) \<Rightarrow>
                    (case given of
                       Some v \<Rightarrow> parse_flags (F(name \<mapsto> TextFlag v)) args
                     | None \<Rightarrow>
                         (case args of
                            [] \<Rightarrow> Inl (Err (''flag needs an argument: -'' @ name))
                          | v # rest \<Rightarrow> parse_flags (F(name \<mapsto> TextFlag v)) rest))))"

definition flag_text :: "flag_set \<Rightarrow> string \<Rightarrow> string" where
  "flag_text F name = (case F name of Some (TextFlag s) \<Rightarrow> s | _ \<Rightarrow> [])"

definition flag_bool :: "flag_set \<Rightarrow> string \<Rightarrow> bool" where
  "flag_bool F name = (case F name of Some (BoolFlag b) \<Rightarrow> b | _ \<Rightarrow> False)"

section \<open>Control commands\<close>

definition control_request :: "string \<Rightarrow> argv \<Rightarrow> gerr + request" where
  "control_request command args =
     (if command = ''uid'' then
        (case args of
           [] \<Rightarrow> Inl (Err ''uid requires add|del|clear|list'')
         | a # rest \<Rightarrow>
             if a = ''add'' \<or> a = ''del'' then
               (case rest of
                  [v] \<Rightarrow> (case parse_uint 10 32 v of
                           None \<Rightarrow> Inl (Err (''parsing '' @ v))
                         | Some n \<Rightarrow> Inr \<lparr>rq_action = ''uid-'' @ a, rq_uid = word_of_nat n\<rparr>)
                | _ \<Rightarrow> Inl (Err ''uid add/del requires numeric UID''))
             else Inr \<lparr>rq_action = ''uid-'' @ a, rq_uid = 0\<rparr>)
      else if command = ''debug'' then
        (if args = [''flows''] then Inr \<lparr>rq_action = ''flows'', rq_uid = 0\<rparr> else Inl (Err ''debug requires flows''))
      else Inr \<lparr>rq_action = command, rq_uid = 0\<rparr>)"

text \<open>The request on the socket; \<open>omitempty\<close> leaves a zero uid out.\<close>

definition request_json :: "request \<Rightarrow> json" where
  "request_json q =
     JObj ([(''action'', JStr (rq_action q))] @ (if rq_uid q = 0 then [] else [(''uid'', JInt (int (unat (rq_uid q))))]))"

text \<open>
  The exchange with the daemon: the error of the connection, the error of reading, status and body. \<open>absent\<close> tells
  that no control socket stands in the directory.
\<close>

type_synonym 'w control_link = "string \<Rightarrow> string \<Rightarrow> 'w \<Rightarrow> (gerr option \<times> gerr option \<times> int \<times> string) \<times> 'w"

definition not_running :: string where
  "not_running = json_text (JObj [(''running'', JBool False), (''programs_loaded'', JBool False)])"

definition control_native :: "'w control_link \<Rightarrow> (string \<Rightarrow> bool) \<Rightarrow> string \<Rightarrow> string \<Rightarrow> argv \<Rightarrow> 'w \<Rightarrow> (gerr + string) \<times> 'w" where
  "control_native link absent dir command args w =
     (if dir = [] then (Inl (Err ''--runtime-dir is required''), w)
      else case control_request command args of
             Inl e \<Rightarrow> (Inl e, w)
           | Inr q \<Rightarrow>
               (case link dir (json_text (request_json q)) w of
                  ((dial_error, read_error, status, body), w1) \<Rightarrow>
                    (case control_client dial_error read_error status body of
                       Inr b \<Rightarrow> (Inr b, w1)
                     | Inl e \<Rightarrow> (if command = ''status'' \<and> absent dir then Inr not_running else Inl e, w1))))"

section \<open>The kernel probe\<close>

text \<open>What the probe reads. A result is an error, or a text.\<close>

record kernel_view =
  kv_memlock :: "gerr option"
  kv_root :: bool
  kv_query :: "string \<Rightarrow> gerr + u32 \<times> nat \<times> u32 list"
  kv_program :: "u32 \<Rightarrow> string option"
  kv_feature :: "string \<Rightarrow> gerr option"
  kv_btf :: "gerr option"
  kv_pid :: nat
  kv_mkdir :: "gerr option"
  kv_open :: "gerr option"
  kv_load :: "string \<Rightarrow> gerr option"
  kv_link :: "string \<Rightarrow> gerr option"

type_synonym probe_results = "string \<rightharpoonup> gerr + string"

text \<open>What the probe changes: its own control group, programs and links.\<close>

datatype probe_act =
    GroupMade string | GroupRemoved string | ProgramLoaded string | ProgramClosed string
  | LinkMade string string | LinkClosed string

definition record_result :: "string \<Rightarrow> gerr option \<Rightarrow> probe_results \<Rightarrow> probe_results" where
  "record_result name e r = r(name \<mapsto> (case e of None \<Rightarrow> Inr ''supported'' | Some x \<Rightarrow> Inl x))"

definition probe_hooks :: "string list" where
  "probe_hooks = [''connect4'', ''connect6'', ''sockops'']"

definition query_text :: "u32 \<Rightarrow> u32 list \<Rightarrow> string" where
  "query_text flags ids = ''flags='' @ utoa (unat flags) @ '' program_ids=['' @ join '' '' (map (\<lambda>i. utoa (unat i)) ids) @ '']''"

definition query_root :: "kernel_view \<Rightarrow> string \<Rightarrow> probe_results \<Rightarrow> probe_results" where
  "query_root K name r =
     (let key = ''root_'' @ name @ ''_query''
      in case kv_query K name of
           Inl e \<Rightarrow> record_result key (Some e) r
         | Inr (flags, count, ids) \<Rightarrow>
             let seen = take (min count (length ids)) ids
             in foldl (\<lambda>r i. case kv_program K i of None \<Rightarrow> r | Some n \<Rightarrow> r(''program_'' @ utoa (unat i) \<mapsto> Inr n))
                  (r(key \<mapsto> Inr (query_text flags seen))) seen)"

definition probe_features :: "string list" where
  "probe_features =
     [''map_hash'', ''map_lru_hash'', ''map_sk_storage'', ''map_ringbuf'', ''cgroup_sock_addr'', ''sockops'', ''connect_cookie'',
      ''sockops_cookie'', ''connect_sk_storage'', ''sockops_sk_storage'']"

text \<open>One hook in the probe's own group: load, attach, close in reverse.\<close>

definition probe_hook :: "kernel_view \<Rightarrow> string \<Rightarrow> string \<Rightarrow> probe_results \<times> probe_act list \<Rightarrow> probe_results \<times> probe_act list" where
  "probe_hook K cg name ra =
     (case ra of (r, acts) \<Rightarrow>
        let r1 = record_result (name @ ''_load'') (kv_load K name) r
        in if kv_load K name \<noteq> None then (r1, acts)
           else (record_result (name @ ''_native_link'') (kv_link K name) r1,
                 acts @ [ProgramLoaded name] @
                 (if kv_link K name = None then [LinkMade cg name, LinkClosed name] else []) @ [ProgramClosed name]))"

definition probe_group :: "kernel_view \<Rightarrow> string" where
  "probe_group K = ''/sys/fs/cgroup/ebpf-probe-'' @ utoa (kv_pid K)"

definition probe_kernel :: "kernel_view \<Rightarrow> probe_results \<times> probe_act list" where
  "probe_kernel K =
     (let r0 = record_result ''memlock'' (kv_memlock K) (\<lambda>_. None);
          r1 = (if kv_root K then foldl (\<lambda>r n. query_root K n r) r0 probe_hooks else r0);
          r2 = foldl (\<lambda>r n. record_result n (kv_feature K n) r) r1 probe_features;
          r3 = record_result ''kernel_btf_file'' (kv_btf K) r2;
          cg = probe_group K;
          r4 = record_result ''private_cgroup_create'' (kv_mkdir K) r3
      in if kv_mkdir K \<noteq> None then (r4, [])
         else if kv_open K \<noteq> None
         then (record_result ''private_cgroup_open'' (kv_open K) r4, [GroupMade cg, GroupRemoved cg])
         else case foldl (\<lambda>ra n. probe_hook K cg n ra) (r4, [GroupMade cg]) probe_hooks of
                (r5, acts) \<Rightarrow> (r5, acts @ [GroupRemoved cg]))"

text \<open>The verifier's check of the object: what is printed.\<close>

definition verify_object :: "gerr option \<Rightarrow> gerr + nat \<times> nat \<Rightarrow> gerr + string" where
  "verify_object spec collection =
     (case spec of
        Some e \<Rightarrow> Inl e
      | None \<Rightarrow>
          (case collection of
             Inl e \<Rightarrow> Inl (Wrap ''BPF verifier'' e)
           | Inr (programs, maps) \<Rightarrow>
               Inr (''verified '' @ utoa programs @ '' programs and '' @ utoa maps @ '' maps (not attached)'')))"

definition check_native :: "cgroup_env \<Rightarrow> gerr option \<Rightarrow> gerr + nat \<times> nat \<Rightarrow> bool \<Rightarrow> gerr + string" where
  "check_native V spec collection ipv6 =
     (case check_cgroup V ipv6 of Some e \<Rightarrow> Inl e | None \<Rightarrow> verify_object spec collection)"

section \<open>TPROXY commands\<close>

text \<open>What a command prints: a report, the result of the upstream test, or a line.\<close>

record upstream_result =
  ur_address :: string
  ur_tcp :: bool
  ur_socks :: "bool option"
  ur_http :: "(int \<times> nat) option"
  ur_error :: "(gerr \<times> bool) option"

datatype tproxy_output =
    PreflightOut preflight_report
  | ProbeOut probe_report
  | UpstreamOut upstream_result
  | RelayOut relay_report
  | PocOut poc_report
  | TextOut string

text \<open>
  Configuration input, the inputs of preflight and probe, the connections of the upstream test (dialled, probed,
  connected) with the diagnostic exchange on the last and whether an error is a timeout, and the experiments.
\<close>

record 'w tproxy_env =
  te_open :: "string \<Rightarrow> gerr option"
  te_content :: "string \<Rightarrow> gerr + string"
  te_stdin :: "gerr + string"
  te_bytes :: "string \<Rightarrow> u8 list"
  te_sha :: "string \<Rightarrow> string"
  te_run :: "'w runner"
  te_inputs :: preflight_inputs
  te_probe :: probe_inputs
  te_dial :: "gerr option"
  te_probe_dial :: "gerr + conn"
  te_connect_dial :: "gerr + conn"
  te_http :: "string \<Rightarrow> conn \<Rightarrow> gerr + int \<times> nat"
  te_timeout :: "gerr \<Rightarrow> bool"
  te_poc :: "'w poc_env"
  te_relay :: "'w relay_env"
  te_fixture :: fixture_env

definition preflight_flags :: flag_set where
  "preflight_flags =
     [''config'' \<mapsto> TextFlag [], ''mark-value'' \<mapsto> TextFlag ''0x00400000'', ''mark-mask'' \<mapsto> TextFlag ''0x00400000'',
      ''table'' \<mapsto> TextFlag ''38766'', ''priority'' \<mapsto> TextFlag ''9001'', ''prefix'' \<mapsto> TextFlag ''ATP_LIVE'',
      ''probe-upstream'' \<mapsto> BoolFlag False]"

definition flag_u32 :: "flag_set \<Rightarrow> string \<Rightarrow> u32 option" where
  "flag_u32 F name = map_option word_of_nat (parse_uint0 32 (flag_text F name))"

definition options_of :: "flag_set \<Rightarrow> gerr + preflight_options" where
  "options_of F =
     (case (flag_u32 F ''mark-value'', flag_u32 F ''mark-mask'', flag_u32 F ''table'', flag_u32 F ''priority'') of
        (Some mark, Some msk, Some table, Some prio) \<Rightarrow>
          Inr \<lparr>pf_mark = mark, pf_mask = msk, pf_table = table, pf_priority = prio, pf_prefix = flag_text F ''prefix''\<rparr>
      | _ \<Rightarrow> Inl (Err ''invalid numeric preflight option''))"

text \<open>The options are parsed and checked before the configuration is read.\<close>

definition preflight_cli :: "'w tproxy_env \<Rightarrow> argv \<Rightarrow> 'w \<Rightarrow> tproxy_output option \<times> gerr option \<times> 'w" where
  "preflight_cli T args w =
     (case parse_flags preflight_flags args of
        Inl e \<Rightarrow> (None, Some e, w)
      | Inr (F, rest) \<Rightarrow>
          if rest \<noteq> [] then (None, Some (Err ''unexpected preflight arguments''), w)
          else (case options_of F of
                  Inl e \<Rightarrow> (None, Some e, w)
                | Inr v \<Rightarrow>
                    if \<not> valid_options v
                    then (None, Some (Err ''invalid single-bit mark/mask, dedicated table, priority or prefix''), w)
                    else (case (let path = flag_text F ''config''
                                in if path = ''-'' then decode_config (te_stdin T) else load_config (te_open T path) (te_content T path)) of
                            Inl e \<Rightarrow> (None, Some e, w)
                          | Inr c \<Rightarrow>
                              (case preflight (te_bytes T) (te_run T) (te_inputs T) c v (flag_bool F ''probe-upstream'') w of
                                 (Inl e, w1) \<Rightarrow> (None, Some e, w1)
                               | (Inr r, w1) \<Rightarrow>
                                   (Some (PreflightOut r),
                                    if \<not> pr_automatic r
                                    then Some (Err ''TPROXY_PREFLIGHT_BLOCKED: report only; live setup unavailable'') else None, w1)))))"

definition test_flags :: flag_set where
  "test_flags = [''address'' \<mapsto> TextFlag [], ''http-destination'' \<mapsto> TextFlag [], ''http-host'' \<mapsto> TextFlag []]"

definition test_address_ok :: "string \<Rightarrow> bool" where
  "test_address_ok a =
     (case split_host_port a of
        None \<Rightarrow> False
      | Some (h, p) \<Rightarrow>
          (case atoi p of
             None \<Rightarrow> False
           | Some port \<Rightarrow> h \<noteq> [] \<and> \<not> contains_any h (''/@'' @ [CHR 0x5C] @ '' '' @ [CHR 0x09, CHR 0x0D, CHR 0x0A]) \<and> 1 \<le> port \<and> port \<le> 65535))"

definition http_host_ok :: "string \<Rightarrow> bool" where
  "http_host_ok h \<longleftrightarrow> h \<noteq> [] \<and> \<not> contains_any h (''/'' @ [CHR 0x0D, CHR 0x0A] @ '' @'')"

text \<open>The diagnostic request through the upstream: response or error.\<close>

definition test_http :: "'w tproxy_env \<Rightarrow> string \<Rightarrow> string \<Rightarrow> string \<Rightarrow> gerr + int \<times> nat" where
  "test_http T address destination host =
     (case socks_connect \<lparr>so_address = address, so_username = [], so_password = []\<rparr> destination (te_connect_dial T) of
        Inl e \<Rightarrow> Inl e
      | Inr (c, Inl e) \<Rightarrow> Inl e
      | Inr (c, Inr ()) \<Rightarrow> te_http T host c)"

definition test_upstream :: "'w tproxy_env \<Rightarrow> argv \<Rightarrow> tproxy_output option \<times> gerr option" where
  "test_upstream T args =
     (case parse_flags test_flags args of
        Inl e \<Rightarrow> (None, Some e)
      | Inr (F, rest) \<Rightarrow>
          let address = flag_text F ''address''; destination = flag_text F ''http-destination''; host = flag_text F ''http-host''
          in if \<not> test_address_ok address then (None, Some (Err ''invalid upstream host:port''))
             else
               let ready = (if te_dial T \<noteq> None then te_dial T
                            else socks_probe \<lparr>so_address = address, so_username = [], so_password = []\<rparr> (te_probe_dial T));
                   result = \<lparr>ur_address = address, ur_tcp = (te_dial T = None),
                     ur_socks = (if te_dial T = None then Some (ready = None) else None), ur_http = None, ur_error = None\<rparr>;
                   failed = (\<lambda>e. (Some (UpstreamOut (result\<lparr>ur_error := Some (e, te_timeout T e)\<rparr>)), Some e))
               in (case ready of
                     Some e \<Rightarrow> failed e
                   | None \<Rightarrow>
                       if destination = [] then (Some (UpstreamOut result), None)
                       else if \<not> http_host_ok host then (None, Some (Err ''invalid diagnostic HTTP Host''))
                       else (case test_http T address destination host of
                               Inl e \<Rightarrow> failed e
                             | Inr response \<Rightarrow> (Some (UpstreamOut (result\<lparr>ur_http := Some response\<rparr>)), None))))"

definition tproxy_usage :: gerr where
  "tproxy_usage = Err ''usage: ebpf-proxy tproxy preflight --config FILE [-probe-upstream] | probe | test-upstream --address HOST:PORT | poc-isolated | relay-isolated | socks5-isolated (isolated PoCs require unshare -n)''"

definition tproxy_command :: "'w tproxy_env \<Rightarrow> argv \<Rightarrow> 'w \<Rightarrow> tproxy_output option \<times> gerr option \<times> 'w" where
  "tproxy_command T args w =
     (case args of
        [] \<Rightarrow> (None, Some tproxy_usage, w)
      | a # rest \<Rightarrow>
          if a = ''preflight'' then preflight_cli T rest w
          else if a = ''test-upstream'' then (case test_upstream T rest of (r, e) \<Rightarrow> (r, e, w))
          else if rest \<noteq> [] then (None, Some tproxy_usage, w)
          else if a = ''fixture-client'' then
            (case fixture_client (te_fixture T) of Inl e \<Rightarrow> (None, Some e, w) | Inr s \<Rightarrow> (Some (TextOut s), None, w))
          else if a = ''relay-isolated'' \<or> a = ''socks5-isolated'' then
            (case relay_isolated (te_relay T) (a = ''socks5-isolated'') w of (r, e, w1) \<Rightarrow> (Some (RelayOut r), e, w1))
          else if a = ''poc-isolated'' then
            (case poc_isolated (te_poc T) 0 w of (r, e, w1) \<Rightarrow> (Some (PocOut r), e, w1))
          else if a = ''probe'' then (Some (ProbeOut (probe (te_sha T) (te_probe T))), None, w)
          else (None, Some tproxy_usage, w))"

section \<open>The dispatch\<close>

text \<open>
  The world of a command: kernel probe, object check, control link, daemon and relay listener are given by what they
  answer; \<open>xe_run\<close> and \<open>xe_serve\<close> are the ends of the daemon and of the relay of the fixed destination.
\<close>

record 'w command_env =
  xe_tproxy :: "'w tproxy_env"
  xe_kernel :: kernel_view
  xe_cgroup :: "string \<Rightarrow> cgroup_env"
  xe_spec :: "string \<Rightarrow> gerr option"
  xe_collection :: "string \<Rightarrow> gerr + nat \<times> nat"
  xe_link :: "'w control_link"
  xe_absent :: "string \<Rightarrow> bool"
  xe_run :: "config \<Rightarrow> gerr option"
  xe_upstream :: "gerr + conn"
  xe_listen :: "gerr option"
  xe_serve :: "config \<Rightarrow> string \<Rightarrow> gerr option"

datatype command_output =
    Quiet
  | Line string
  | KernelOut "probe_results \<times> probe_act list"
  | TproxyOut tproxy_output

definition command_flags :: flag_set where
  "command_flags =
     [''config'' \<mapsto> TextFlag [], ''destination'' \<mapsto> TextFlag [], ''object'' \<mapsto> TextFlag [],
      ''cgroup'' \<mapsto> TextFlag ''/sys/fs/cgroup'', ''runtime-dir'' \<mapsto> TextFlag []]"

definition said :: "gerr + string \<Rightarrow> command_output \<times> gerr option" where
  "said r = (case r of Inl e \<Rightarrow> (Quiet, Some e) | Inr s \<Rightarrow> (Line s, None))"

text \<open>The commands that need a configuration.\<close>

definition configured :: "'w command_env \<Rightarrow> string \<Rightarrow> string \<Rightarrow> config \<Rightarrow> command_output \<times> gerr option" where
  "configured X command destination c =
     (if command = ''run'' then (Quiet, xe_run X c)
      else if command = ''check''
      then said (check_native (xe_cgroup X (cf_bpf_cgroup c)) (xe_spec X (cf_bpf_object c)) (xe_collection X (cf_bpf_object c)) (cf_ipv6 c))
      else
        let reached = socks_probe (upstream_connector c) (xe_upstream X)
        in if command = ''probe-upstream''
           then (if reached = None then (Line ''SOCKS5 upstream reachable'', None) else (Quiet, reached))
           else if split_host_port destination = None then (Quiet, Some (Err ''poc requires --destination IP:PORT''))
           else if reached \<noteq> None then (Quiet, reached)
           else if xe_listen X \<noteq> None then (Quiet, xe_listen X)
           else (Quiet, xe_serve X c destination))"

definition execute :: "'w command_env \<Rightarrow> argv \<Rightarrow> 'w \<Rightarrow> (command_output \<times> gerr option) \<times> 'w" where
  "execute X args w =
     (case args of
        command # rest \<Rightarrow>
          if command = ''tproxy'' then
            (case tproxy_command (xe_tproxy X) rest w of
               (r, e, w1) \<Rightarrow> ((case r of None \<Rightarrow> Quiet | Some x \<Rightarrow> TproxyOut x, e), w1))
          else if command = ''probe-kernel'' then ((KernelOut (probe_kernel (xe_kernel X)), None), w)
          else (case parse_flags command_flags rest of
                  Inl e \<Rightarrow> ((Quiet, Some e), w)
                | Inr (F, more_args) \<Rightarrow>
                    let object = flag_text F ''object''
                    in if command = ''verify-object'' then (said (verify_object (xe_spec X object) (xe_collection X object)), w)
                       else if command = ''check-cgroup''
                       then (said (check_native (xe_cgroup X (flag_text F ''cgroup'')) (xe_spec X object) (xe_collection X object) True), w)
                       else if command \<in> {''status'', ''stop'', ''uid'', ''debug''}
                       then (case control_native (xe_link X) (xe_absent X) (flag_text F ''runtime-dir'') command more_args w of
                               (r, w1) \<Rightarrow> (said r, w1))
                       else if command \<notin> {''run'', ''poc'', ''probe-upstream'', ''check''}
                       then ((Quiet, Some (Err (''unknown command '' @ command))), w)
                       else (let path = flag_text F ''config''
                             in case load_config (te_open (xe_tproxy X) path) (te_content (xe_tproxy X) path) of
                                  Inl e \<Rightarrow> ((Quiet, Some e), w)
                                | Inr c \<Rightarrow> (configured X command (flag_text F ''destination'') c, w)))
      | [] \<Rightarrow> ((Quiet, Some (Err ''usage'')), w))"

text \<open>The exit status; the guard process is a command of its own.\<close>

definition main_exit :: "int option \<Rightarrow> gerr option \<Rightarrow> int" where
  "main_exit guard e = (case guard of Some code \<Rightarrow> code | None \<Rightarrow> if e = None then 0 else 1)"

section \<open>What the commands do\<close>

lemma preflight_never_succeeds: "preflight_cli T args w = (r, e, w') \<Longrightarrow> \<exists>x. e = Some x"
  by (auto simp: preflight_cli_def Let_def split: sum.splits prod.splits if_splits dest: preflight_report_cases)

text \<open>The daemon's decoder reads the request that was sent.\<close>

lemma length_request: "length (json_text (request_json q)) \<le> 6 * length (rq_action q) + 64"
proof -
  have "length (utoa (unat (rq_uid q))) \<le> 10" by (rule length_utoa32)
  moreover have "length (json_string (rq_action q)) \<le> 6 * length (rq_action q) + 2" by (rule length_json_string)
  moreover have "length (json_string ''action'') = 8" "length (json_string ''uid'') = 5" by code_simp+
  ultimately show ?thesis by (simp add: request_json_def itoa_def)
qed

lemma request_round_trip:
  assumes "length (json_text (request_json q)) \<le> 4096"
  shows "decode_request (json_text (request_json q)) = Some q"
proof -
  have "printable (request_json q)" by (simp add: request_json_def)
  then have "json_read (json_text (request_json q) @ []) = TokVal (request_json q) []" by (rule json_read_text) simp
  then have read: "decode_request (json_text (request_json q)) = dec_struct control_field (request_json q) \<lparr>rq_action = [], rq_uid = 0\<rparr>"
    using assms by (simp add: decode_request_def)
  have "\<not> fold_eq ''uid'' ''action''" by code_simp
  then show ?thesis
    unfolding read
    by (cases q; cases "rq_uid q = 0") (simp_all add: request_json_def dec_struct_def control_field_def dec_uint_word dec_uint_uint)
qed

text \<open>A control command against a running daemon.\<close>

definition daemon_link :: "daemon_view \<Rightarrow> 'w collection \<Rightarrow> (reply \<Rightarrow> string) \<Rightarrow> 'w control_link" where
  "daemon_link D C render dir text w =
     (case handle_command D C False True text w of (status, r, stop, w1) \<Rightarrow> ((None, None, status, render r), w1))"

lemma control_request_length:
  assumes "control_request command args = Inr q" "\<forall>a \<in> insert command (set args). length a \<le> 500"
  shows "length (rq_action q) \<le> 504"
  using assms by (auto simp: control_request_def split: if_splits list.splits option.splits)

lemma control_native_ok:
  assumes "control_native (daemon_link D C render) absent dir command args w = (Inr out, w')"
    and "\<forall>a \<in> insert command (set args). length a \<le> 500"
  obtains q status r stop where "control_request command args = Inr q" "decode_request (json_text (request_json q)) = Some q"
    "handle_command D C False True (json_text (request_json q)) w = (status, r, stop, w')"
    "status = 200 \<or> command = ''status''"
proof -
  obtain q where q: "control_request command args = Inr q"
    using assms(1) by (auto simp: control_native_def split: sum.splits if_splits)
  obtain status r stop w1 where h: "handle_command D C False True (json_text (request_json q)) w = (status, r, stop, w1)"
    by (metis prod_cases4)
  have "length (json_text (request_json q)) \<le> 4096"
    using length_request [of q] control_request_length [OF q assms(2)] by linarith
  from request_round_trip [OF this] have "decode_request (json_text (request_json q)) = Some q" .
  moreover have "w1 = w'" "status = 200 \<or> command = ''status''"
    using assms(1) q h by (auto simp: control_native_def daemon_link_def control_client_def split: if_splits)
  ultimately show thesis using that q h by blast
qed

text \<open>Whatever the kernel refuses, the probe works in its own group and closes what it opened, last first.\<close>

fun still_open :: "probe_act list \<Rightarrow> probe_act list \<Rightarrow> probe_act list option" where
  "still_open [] held = Some held"
| "still_open (a # acts) held =
     (case a of
        GroupRemoved g \<Rightarrow> (case held of GroupMade h # rest \<Rightarrow> if h = g then still_open acts rest else None | _ \<Rightarrow> None)
      | ProgramClosed n \<Rightarrow> (case held of ProgramLoaded m # rest \<Rightarrow> if m = n then still_open acts rest else None | _ \<Rightarrow> None)
      | LinkClosed n \<Rightarrow> (case held of LinkMade g m # rest \<Rightarrow> if m = n then still_open acts rest else None | _ \<Rightarrow> None)
      | _ \<Rightarrow> still_open acts (a # held))"

lemma still_open_append: "still_open (as @ bs) held = (case still_open as held of None \<Rightarrow> None | Some h \<Rightarrow> still_open bs h)"
  by (induction as held rule: still_open.induct) (auto split: probe_act.splits list.splits)

lemma probe_hook_closed:
  "\<exists>r1 one. probe_hook K g n (r, acts) = (r1, acts @ one) \<and> (\<forall>held. still_open one held = Some held) \<and>
     (\<forall>c m. LinkMade c m \<in> set one \<longrightarrow> c = g)"
  by (cases "kv_load K n"; cases "kv_link K n") (simp_all add: probe_hook_def Let_def)

lemma probe_hooks_closed:
  assumes "foldl (\<lambda>ra n. probe_hook K g n ra) (r, acts) ns = (r', acts')"
  shows "\<exists>new. acts' = acts @ new \<and> (\<forall>held. still_open new held = Some held) \<and> (\<forall>c n. LinkMade c n \<in> set new \<longrightarrow> c = g)"
  using assms
proof (induction ns arbitrary: r acts)
  case (Cons n ns)
  obtain r1 one where h: "probe_hook K g n (r, acts) = (r1, acts @ one)" "\<forall>held. still_open one held = Some held"
      "\<forall>c m. LinkMade c m \<in> set one \<longrightarrow> c = g"
    using probe_hook_closed by metis
  then obtain new where "acts' = (acts @ one) @ new" "\<forall>held. still_open new held = Some held" "\<forall>c n. LinkMade c n \<in> set new \<longrightarrow> c = g"
    using Cons.IH [of r1 "acts @ one"] Cons.prems by auto
  then show ?case using h(2,3) by (intro exI [of _ "one @ new"]) (auto simp: still_open_append)
qed simp

lemma probe_kernel_closes:
  assumes "probe_kernel K = (r, acts)"
  shows "still_open acts [] = Some [] \<and> (\<forall>c n. LinkMade c n \<in> set acts \<longrightarrow> c = probe_group K)"
proof (cases "kv_mkdir K = None \<and> kv_open K = None")
  case True
  then obtain r4 r5 acts1 where "foldl (\<lambda>ra n. probe_hook K (probe_group K) n ra) (r4, [GroupMade (probe_group K)]) probe_hooks = (r5, acts1)"
      "acts = acts1 @ [GroupRemoved (probe_group K)]"
    using assms by (auto simp: probe_kernel_def Let_def simp del: foldl_Cons split: prod.splits)
  with probe_hooks_closed [OF this(1)] show ?thesis by (auto simp: still_open_append) blast
next
  case False
  then show ?thesis using assms by (auto simp: probe_kernel_def Let_def split: if_splits)
qed

text \<open>No TPROXY command changes the system: what the experiments install is gone when they return.\<close>

lemma preflight_reads:
  assumes "\<And>v n w. snd (run (preflight_command v n) w) = w" and "preflight sha run I c v probing w = (r, w')"
  shows "w' = w"
proof -
  have g: "snd (gather run (preflight_command v) ns w) = w" for ns w by (rule gather_reads) (rule assms(1))
  obtain ev ev1 where "gather run (preflight_command v) evidence_names w = (ev, w)" "gather run (preflight_command v) stable_names w = (ev1, w)"
    using g by (metis prod.collapse)
  then show ?thesis using assms(2) by (auto simp: preflight_def Let_def split: if_splits sum.splits prod.splits)
qed

lemma tproxy_command_reads:
  assumes "poc_kernel (te_poc T)" and "relay_kernel (te_relay T)" and "\<And>v n w. snd (te_run T (preflight_command v n) w) = w"
    and "tproxy_command T args w = (r, e, w')"
  shows "w' = w"
proof (cases args)
  case Nil
  then show ?thesis using assms(4) by (simp add: tproxy_command_def)
next
  case (Cons a rest)
  have pre: "w' = w" if "preflight_cli T rest w = (r, e, w')" for r e w'
    using that by (auto simp: preflight_cli_def Let_def split: sum.splits prod.splits if_splits dest: preflight_reads [where run = "te_run T", rotated] intro: assms(3))
  show ?thesis
    using assms(4) Cons pre poc_kernel.poc_restores [OF assms(1)] relay_kernel.relay_restores [OF assms(2)]
    by (auto simp: tproxy_command_def split: if_splits prod.splits sum.splits)
qed

text \<open>The requests of the uid commands.\<close>

lemma uid_request:
  "control_request ''uid'' (''add'' # rest) = Inr q \<Longrightarrow>
     \<exists>v n. rest = [v] \<and> parse_uint 10 32 v = Some n \<and> rq_action q = ''uid-add'' \<and> rq_uid q = word_of_nat n"
  "control_request ''uid'' (''del'' # rest) = Inr q \<Longrightarrow>
     \<exists>v n. rest = [v] \<and> parse_uint 10 32 v = Some n \<and> rq_action q = ''uid-del'' \<and> rq_uid q = word_of_nat n"
  "control_request ''uid'' (''clear'' # rest) = Inr q \<Longrightarrow> rq_action q = ''uid-clear''"
  "control_request ''uid'' (''list'' # rest) = Inr q \<Longrightarrow> rq_action q = ''uid-list''"
  by (auto simp: control_request_def split: list.splits option.splits)

text \<open>Where the reports of the commands come from.\<close>

lemma preflight_cli_output: "preflight_cli T args w = (Some x, e, w') \<Longrightarrow> \<exists>p. x = PreflightOut p"
  by (auto simp: preflight_cli_def Let_def split: sum.splits prod.splits if_splits)

lemma test_upstream_output: "test_upstream T args = (Some x, e) \<Longrightarrow> \<exists>p. x = UpstreamOut p"
  by (auto simp: test_upstream_def Let_def split: sum.splits prod.splits if_splits option.splits)

lemma tproxy_command_outputs:
  assumes "tproxy_command T args w = (r, e, w')"
  shows "r = Some (PreflightOut p) \<Longrightarrow> e \<noteq> None"
    and "r = Some (PocOut q) \<Longrightarrow> poc_isolated (te_poc T) 0 w = (q, e, w')"
    and "r = Some (RelayOut u) \<Longrightarrow> \<exists>socks. relay_isolated (te_relay T) socks w = (u, e, w')"
proof -
  obtain p1 p2 p3 where p: "preflight_cli T (tl args) w = (p1, p2, p3)" by (metis prod_cases3)
  obtain t1 t2 where t: "test_upstream T (tl args) = (t1, t2)" by fastforce
  obtain u1 u2 u3 where u: "relay_isolated (te_relay T) (hd args = ''socks5-isolated'') w = (u1, u2, u3)" by (metis prod_cases3)
  obtain q1 q2 q3 where q: "poc_isolated (te_poc T) 0 w = (q1, q2, q3)" by (metis prod_cases3)
  have cases: "(r, e, w') \<in> {(p1, p2, p3), (t1, t2, w), (Some (RelayOut u1), u2, u3), (Some (PocOut q1), q2, q3)} \<or>
      (\<forall>x. r = Some x \<longrightarrow> (\<exists>s. x = TextOut s) \<or> (\<exists>s. x = ProbeOut s))"
    using assms p t u q by (cases args; cases "fixture_client (te_fixture T)") (auto simp: tproxy_command_def split: if_splits)
  have pre: "\<exists>y. x = PreflightOut y" if "p1 = Some x" for x using preflight_cli_output [of T "tl args" w x p2 p3] p that by simp
  have up: "\<exists>y. x = UpstreamOut y" if "t1 = Some x" for x using test_upstream_output [of T "tl args" x t2] t that by simp
  show "e \<noteq> None" if "r = Some (PreflightOut p)" using cases that up preflight_never_succeeds [OF p] by auto
  show "poc_isolated (te_poc T) 0 w = (q, e, w')" if "r = Some (PocOut q)" using cases that up pre q by auto
  show "\<exists>socks. relay_isolated (te_relay T) socks w = (u, e, w')" if "r = Some (RelayOut u)" using cases that up pre u by auto
qed

text \<open>The command line of a control command: the directory is given with the flag, the rest goes to the daemon.\<close>

lemma control_line:
  assumes "command \<in> {''status'', ''stop'', ''uid'', ''debug''}" and "args = [] \<or> length (hd args) < 2 \<or> hd (hd args) \<noteq> CHR ''-''"
  shows "execute X (command # ''--runtime-dir'' # dir # args) w =
    (case control_native (xe_link X) (xe_absent X) dir command args w of (r, w1) \<Rightarrow> (said r, w1))"
proof -
  have s: "split_flag ''--runtime-dir'' = Some (''runtime-dir'', None)" by code_simp
  have f: "command_flags ''runtime-dir'' = Some (TextFlag [])" by (simp add: command_flags_def)
  have "parse_flags command_flags (''--runtime-dir'' # dir # args) = parse_flags (command_flags(''runtime-dir'' \<mapsto> TextFlag dir)) args"
    by (simp add: s f)
  also have "\<dots> = Inr (command_flags(''runtime-dir'' \<mapsto> TextFlag dir), args)"
    using assms(2) by (cases args) auto
  finally show ?thesis
    using assms(1) by (auto simp: execute_def flag_text_def Let_def simp del: parse_flags.simps)
qed

end
